(* ===== verification/Prelude.thy ===== *)
theory Prelude
  imports Main "HOL-Library.Word" "HOL-Library.AList" "HOL-Library.Char_ord"
    "HOL-Library.List_Lexorder" "HOL-Library.Sublist"
begin

text \<open>
  What every component of the model shares: machine integers and byte arrays, results as sums
  (\<open>Inl\<close> is Rust's \<open>Err\<close>, \<open>Inr\<close> is \<open>Ok\<close>), effects as state passing that keeps the state on
  the error path too (an early return through \<open>?\<close> does not roll anything back), the string
  functions of the standard library that the code calls, and the lemma collections the
  component proofs draw on.
\<close>

named_theorems eff_simps \<open>unfoldings of the effect combinators\<close>
named_theorems eff_iffs \<open>when an effect succeeds, and with which state\<close>

section \<open>Machine integers and fixed byte arrays\<close>

type_synonym u8 = "8 word"
type_synonym u32 = "32 word"
type_synonym u64 = "64 word"
type_synonym bytes = "u8 list"

text \<open>\<^verbatim>\<open>[u8; 32]\<close>: hashes, X25519 keys and Ed25519 public keys are all this array type.\<close>

typedef b32 = "{bs :: bytes. length bs = 32}" morphisms b32_bytes B32
  by (rule exI [of _ "replicate 32 0"]) simp

setup_lifting type_definition_b32

instantiation b32 :: equal
begin

definition equal_b32 :: "b32 \<Rightarrow> b32 \<Rightarrow> bool" where
  "equal_b32 a b \<longleftrightarrow> b32_bytes a = b32_bytes b"

instance
  by standard (simp add: equal_b32_def b32_bytes_inject)

end

lemma length_b32 [simp]: "length (b32_bytes a) = 32"
  using b32_bytes [of a] by simp

lemma B32_eq [simp]: "length a = 32 \<Longrightarrow> length b = 32 \<Longrightarrow> B32 a = B32 b \<longleftrightarrow> a = b"
  by (simp add: B32_inject)

lemma b32_bytes_B32 [simp]: "length a = 32 \<Longrightarrow> b32_bytes (B32 a) = a"
  by (simp add: B32_inverse)

lemma B32_b32_bytes [simp]: "B32 (b32_bytes a) = a"
  by (simp add: b32_bytes_inverse)

text \<open>\<^verbatim>\<open>copy_from_slice\<close> into a zeroed array, for a slice of the right length.\<close>

definition b32_of :: "bytes \<Rightarrow> b32" where
  "b32_of b = B32 (if length b = 32 then b else replicate 32 0)"

lemma b32_of_code [code abstract]: "b32_bytes (b32_of b) = (if length b = 32 then b else replicate 32 0)"
  by (simp add: b32_of_def)

lemma b32_of_eq [simp]: "length b = 32 \<Longrightarrow> b32_of b = B32 b"
  by (simp add: b32_of_def)

section \<open>Results\<close>

definition map_err :: "('e \<Rightarrow> 'f) \<Rightarrow> 'e + 'a \<Rightarrow> 'f + 'a" where
  "map_err f r = (case r of Inl e \<Rightarrow> Inl (f e) | Inr a \<Rightarrow> Inr a)"

definition and_then :: "'e + 'a \<Rightarrow> ('a \<Rightarrow> 'e + 'b) \<Rightarrow> 'e + 'b" where
  "and_then r f = (case r of Inl e \<Rightarrow> Inl e | Inr a \<Rightarrow> f a)"

definition ok_or :: "'e \<Rightarrow> 'a option \<Rightarrow> 'e + 'a" where
  "ok_or e r = (case r of None \<Rightarrow> Inl e | Some a \<Rightarrow> Inr a)"

lemma map_err_simps [simp]: "map_err f (Inl e) = Inl (f e)" "map_err f (Inr a) = Inr a"
  by (simp_all add: map_err_def)

lemma map_err_Inr_iff [simp]: "map_err f r = Inr a \<longleftrightarrow> r = Inr a"
  by (cases r) auto

lemma map_err_Inl_iff: "map_err f r = Inl e \<longleftrightarrow> (\<exists>e'. r = Inl e' \<and> e = f e')"
  by (cases r) auto

lemma and_then_simps [simp]: "and_then (Inl e) f = Inl e" "and_then (Inr a) f = f a"
  by (simp_all add: and_then_def)

lemma and_then_Inr_iff: "and_then r f = Inr b \<longleftrightarrow> (\<exists>a. r = Inr a \<and> f a = Inr b)"
  by (cases r) auto

lemma ok_or_simps [simp]: "ok_or e None = Inl e" "ok_or e (Some a) = Inr a"
  by (simp_all add: ok_or_def)

lemma ok_or_Inr_iff [simp]: "ok_or e r = Inr a \<longleftrightarrow> r = Some a"
  by (cases r) auto

text \<open>A loop that runs a fallible body over a list and stops at the first error.\<close>

fun traverse :: "('a \<Rightarrow> 'e + 'b) \<Rightarrow> 'a list \<Rightarrow> 'e + 'b list" where
  "traverse f [] = Inr []"
| "traverse f (x # xs) =
     (case f x of Inl e \<Rightarrow> Inl e
      | Inr y \<Rightarrow> (case traverse f xs of Inl e \<Rightarrow> Inl e | Inr ys \<Rightarrow> Inr (y # ys)))"

lemma traverse_Inr_iff: "traverse f xs = Inr ys \<longleftrightarrow> list_all2 (\<lambda>x y. f x = Inr y) xs ys"
proof (induction xs arbitrary: ys)
  case Nil
  show ?case by auto
next
  case (Cons x xs)
  show ?case
  proof (cases "traverse f xs")
    case (Inr zs)
    with Cons show ?thesis by (cases ys) (auto split: sum.splits)
  next
    case (Inl e)
    with Cons show ?thesis by (cases ys) (auto split: sum.splits)
  qed
qed

lemma traverse_map_Inr: "(\<And>x. x \<in> set xs \<Longrightarrow> f x = Inr (g x)) \<Longrightarrow> traverse f xs = Inr (map g xs)"
  by (induction xs) auto

lemma traverse_cong [fundef_cong]:
  "xs = ys \<Longrightarrow> (\<And>x. x \<in> set ys \<Longrightarrow> f x = g x) \<Longrightarrow> traverse f xs = traverse g ys"
proof (induction ys arbitrary: xs)
  case (Cons y ys)
  then have "f y = g y" "traverse f ys = traverse g ys" by auto
  with Cons.prems(1) show ?case by (cases "g y") auto
qed simp

section \<open>Effects\<close>

text \<open>
  A function that mutates \<open>'s\<close>: it returns its result together with the state it left behind,
  on success and on failure alike.
\<close>

type_synonym ('s, 'e, 'a) eff = "'s \<Rightarrow> ('e + 'a) \<times> 's"

definition retE :: "'a \<Rightarrow> ('s, 'e, 'a) eff" where
  "retE a s = (Inr a, s)"

definition throwE :: "'e \<Rightarrow> ('s, 'e, 'a) eff" where
  "throwE e s = (Inl e, s)"

definition liftE :: "'e + 'a \<Rightarrow> ('s, 'e, 'a) eff" where
  "liftE r s = (r, s)"

definition readE :: "('s \<Rightarrow> 'e + 'a) \<Rightarrow> ('s, 'e, 'a) eff" where
  "readE f s = (f s, s)"

definition updE :: "('s \<Rightarrow> 's) \<Rightarrow> ('s, 'e, unit) eff" where
  "updE f s = (Inr (), f s)"

definition bindE :: "('s, 'e, 'a) eff \<Rightarrow> ('a \<Rightarrow> ('s, 'e, 'b) eff) \<Rightarrow> ('s, 'e, 'b) eff" where
  "bindE m f s = (case m s of (Inl e, t) \<Rightarrow> (Inl e, t) | (Inr a, t) \<Rightarrow> f a t)"

definition mapE :: "('e \<Rightarrow> 'f) \<Rightarrow> ('s, 'e, 'a) eff \<Rightarrow> ('s, 'f, 'a) eff" where
  "mapE f m s = (map_err f (fst (m s)), snd (m s))"

declare retE_def [eff_simps] throwE_def [eff_simps] liftE_def [eff_simps] readE_def [eff_simps]
  updE_def [eff_simps] bindE_def [eff_simps] mapE_def [eff_simps]

lemma retE_iff [eff_iffs]: "retE a s = (r, t) \<longleftrightarrow> r = Inr a \<and> t = s"
  by (auto simp: retE_def)

lemma throwE_iff [eff_iffs]: "throwE e s = (r, t) \<longleftrightarrow> r = Inl e \<and> t = s"
  by (auto simp: throwE_def)

lemma liftE_iff [eff_iffs]: "liftE x s = (r, t) \<longleftrightarrow> x = r \<and> t = s"
  by (auto simp: liftE_def)

lemma readE_iff [eff_iffs]: "readE f s = (r, t) \<longleftrightarrow> f s = r \<and> t = s"
  by (auto simp: readE_def)

lemma updE_iff [eff_iffs]: "updE f s = (r, t) \<longleftrightarrow> r = Inr () \<and> t = f s"
  by (auto simp: updE_def)

lemma bindE_Inr_iff [eff_iffs]:
  "bindE m f s = (Inr b, t) \<longleftrightarrow> (\<exists>a u. m s = (Inr a, u) \<and> f a u = (Inr b, t))"
  by (auto simp: bindE_def split: prod.splits sum.splits)

lemma mapE_Inr_iff [eff_iffs]: "mapE f m s = (Inr a, t) \<longleftrightarrow> m s = (Inr a, t)"
  by (cases "m s") (auto simp: mapE_def)

lemma bindE_cong [fundef_cong]:
  "m s = m' s' \<Longrightarrow> (\<And>a t. m' s' = (Inr a, t) \<Longrightarrow> f a t = f' a t) \<Longrightarrow> bindE m f s = bindE m' f' s'"
  by (auto simp: bindE_def split: prod.splits sum.splits)

text \<open>A loop with effects over a list, again stopping at the first error.\<close>

fun forE :: "('a \<Rightarrow> ('s, 'e, unit) eff) \<Rightarrow> 'a list \<Rightarrow> ('s, 'e, unit) eff" where
  "forE f [] s = (Inr (), s)"
| "forE f (x # xs) s = (case f x s of (Inl e, t) \<Rightarrow> (Inl e, t) | (Inr _, t) \<Rightarrow> forE f xs t)"

lemma forE_Cons_Inr: "forE f (x # xs) s = (Inr (), t) \<longleftrightarrow>
    (\<exists>u. f x s = (Inr (), u) \<and> forE f xs u = (Inr (), t))"
  by (auto split: prod.splits sum.splits)

lemma forE_cong [fundef_cong]:
  "xs = ys \<Longrightarrow> (\<And>x. x \<in> set ys \<Longrightarrow> f x = g x) \<Longrightarrow> forE f xs = forE g ys"
proof (rule ext)
  fix s assume "xs = ys" "\<And>x. x \<in> set ys \<Longrightarrow> f x = g x"
  then show "forE f xs s = forE g ys s"
    by (induction ys arbitrary: xs s) (auto split: prod.splits sum.splits)
qed

text \<open>A loop that also carries a value from one round to the next.\<close>

fun foldE :: "('b \<Rightarrow> 'a \<Rightarrow> ('s, 'e, 'b) eff) \<Rightarrow> 'b \<Rightarrow> 'a list \<Rightarrow> ('s, 'e, 'b) eff" where
  "foldE f b [] s = (Inr b, s)"
| "foldE f b (x # xs) s = (case f b x s of (Inl e, t) \<Rightarrow> (Inl e, t) | (Inr b', t) \<Rightarrow> foldE f b' xs t)"

lemma foldE_cong [fundef_cong]:
  "xs = ys \<Longrightarrow> b = c \<Longrightarrow> (\<And>b x. x \<in> set ys \<Longrightarrow> f b x = g b x) \<Longrightarrow> foldE f b xs = foldE g c ys"
proof (rule ext)
  fix s assume "xs = ys" "b = c" "\<And>b x. x \<in> set ys \<Longrightarrow> f b x = g b x"
  then show "foldE f b xs s = foldE g c ys s"
    by (induction ys arbitrary: xs b c s) (auto split: prod.splits sum.splits)
qed

lemma foldE_Cons_Inr: "foldE f b (x # xs) s = (Inr c, t) \<longleftrightarrow>
    (\<exists>b' u. f b x s = (Inr b', u) \<and> foldE f b' xs u = (Inr c, t))"
  by (auto split: prod.splits sum.splits)

text \<open>
  A relation between states that every effect of a component keeps, on success and on
  failure, composes along the combinators.
\<close>

definition keeps :: "('s \<Rightarrow> 's \<Rightarrow> bool) \<Rightarrow> ('s, 'e, 'a) eff \<Rightarrow> bool" where
  "keeps R m \<longleftrightarrow> (\<forall>s. R s (snd (m s)))"

lemma keepsI: "(\<And>s. R s (snd (m s))) \<Longrightarrow> keeps R m"
  by (simp add: keeps_def)

lemma keepsD: "keeps R m \<Longrightarrow> m s = (r, t) \<Longrightarrow> R s t"
  by (metis keeps_def snd_conv)

lemma keeps_pure [intro]:
  "reflp R \<Longrightarrow> keeps R (retE a)" "reflp R \<Longrightarrow> keeps R (throwE e)"
  "reflp R \<Longrightarrow> keeps R (liftE x)" "reflp R \<Longrightarrow> keeps R (readE f)"
  by (simp_all add: keeps_def eff_simps reflp_def)

lemma keeps_bindE [intro]:
  "transp R \<Longrightarrow> keeps R m \<Longrightarrow> (\<And>a. keeps R (f a)) \<Longrightarrow> keeps R (bindE m f)"
  unfolding keeps_def bindE_def
  by (clarsimp split: prod.splits sum.splits) (metis snd_conv transpE)

lemma keeps_mapE [intro]: "keeps R m \<Longrightarrow> keeps R (mapE f m)"
  by (simp add: keeps_def mapE_def)

lemma keeps_forE: "reflp R \<Longrightarrow> transp R \<Longrightarrow> (\<And>x. keeps R (f x)) \<Longrightarrow> keeps R (forE f xs)"
proof (induction xs)
  case Nil
  then show ?case by (simp add: keeps_def reflp_def)
next
  case (Cons x xs)
  then have "R s (snd (forE f (x # xs) s))" for s
    unfolding keeps_def
    by (clarsimp split: prod.splits sum.splits) (metis snd_conv transpE)
  then show ?case by (rule keepsI)
qed

lemma keeps_foldE:
  "reflp R \<Longrightarrow> transp R \<Longrightarrow> (\<And>b x. x \<in> set xs \<Longrightarrow> keeps R (f b x)) \<Longrightarrow> keeps R (foldE f b xs)"
proof (induction xs arbitrary: b)
  case Nil
  then show ?case by (simp add: keeps_def reflp_def)
next
  case (Cons x xs)
  have "keeps R (foldE f b' xs)" for b' by (rule Cons.IH) (use Cons.prems in auto)
  moreover have "keeps R (f b x)" using Cons.prems by simp
  ultimately have "R s (snd (foldE f b (x # xs) s))" for s
    using Cons.prems(2) unfolding keeps_def
    by (clarsimp split: prod.splits sum.splits) (metis snd_conv transpE)
  then show ?case by (rule keepsI)
qed

section \<open>Strings\<close>

text \<open>
  A \<open>string\<close> is the byte sequence of a Rust \<open>String\<close>: one \<open>char\<close> per UTF-8 byte, so
  \<open>length\<close> is \<open>str::len\<close> and the list order is \<open>Ord for str\<close>.
\<close>

definition str_bytes :: "string \<Rightarrow> bytes" where
  "str_bytes s = map (\<lambda>c. of_nat (of_char c)) s"

definition bytes_str :: "bytes \<Rightarrow> string" where
  "bytes_str b = map (\<lambda>w. char_of (unat w)) b"

lemma bytes_str_bytes [simp]: "bytes_str (str_bytes s) = s"
proof -
  have "char_of (unat (of_nat (of_char c) :: u8)) = c" for c :: char
    by (simp add: unat_of_nat)
  then show ?thesis by (simp add: bytes_str_def str_bytes_def o_def)
qed

lemma str_bytes_inject [simp]: "str_bytes s = str_bytes t \<longleftrightarrow> s = t"
  by (metis bytes_str_bytes)

lemma length_str_bytes [simp]: "length (str_bytes s) = length s"
  by (simp add: str_bytes_def)

text \<open>\<^verbatim>\<open>str::split(c)\<close>: the pieces between the separators, empty ones included.\<close>

fun split_char :: "char \<Rightarrow> string \<Rightarrow> string list" where
  "split_char c [] = [[]]"
| "split_char c (x # xs) =
     (if x = c then [] # split_char c xs
      else (case split_char c xs of [] \<Rightarrow> [[x]] | p # ps \<Rightarrow> (x # p) # ps))"

definition starts_with :: "string \<Rightarrow> string \<Rightarrow> bool" where
  "starts_with s p \<longleftrightarrow> take (length p) s = p"

definition ends_with :: "string \<Rightarrow> string \<Rightarrow> bool" where
  "ends_with s p \<longleftrightarrow> length p \<le> length s \<and> drop (length s - length p) s = p"

fun join :: "string \<Rightarrow> string list \<Rightarrow> string" where
  "join sep [] = []"
| "join sep [x] = x"
| "join sep (x # y # ys) = x @ sep @ join sep (y # ys)"

text \<open>\<^verbatim>\<open>s.trim_matches('/')\<close>\<close>

definition trim_matches :: "char \<Rightarrow> string \<Rightarrow> string" where
  "trim_matches c s = rev (dropWhile (\<lambda>x. x = c) (rev (dropWhile (\<lambda>x. x = c) s)))"

lemma split_char_not_Nil [simp]: "split_char c s \<noteq> []"
  by (cases s) (auto split: list.splits)

lemma split_char_no_sep: "p \<in> set (split_char c s) \<Longrightarrow> c \<notin> set p"
proof (induction s arbitrary: p)
  case Nil
  then show ?case by simp
next
  case (Cons x xs)
  then show ?case by (cases "split_char c xs") (auto split: if_splits)
qed

lemma split_char_none [simp]: "c \<notin> set s \<Longrightarrow> split_char c s = [s]"
  by (induction s) auto

lemma split_char_append: "c \<notin> set p \<Longrightarrow> split_char c (p @ c # s) = p # split_char c s"
  by (induction p) auto

lemma split_char_join:
  "ps \<noteq> [] \<Longrightarrow> (\<And>p. p \<in> set ps \<Longrightarrow> c \<notin> set p) \<Longrightarrow> split_char c (join [c] ps) = ps"
  by (induction "[c]" ps rule: join.induct) (auto simp: split_char_append)

lemma starts_with_append [simp]: "starts_with (p @ s) p"
  by (simp add: starts_with_def)

lemma starts_with_iff_prefix: "starts_with s p \<longleftrightarrow> prefix p s"
  unfolding starts_with_def prefix_def by (metis append_eq_conv_conj append_take_drop_id)

section \<open>Directories of small files\<close>

text \<open>
  A directory is an association list from file names to contents, in the order \<open>read_dir\<close>
  would list it; nothing below depends on that order.
\<close>

lemma map_of_append_fresh: "map_of xs k = None \<Longrightarrow> map_of (xs @ [(k, v)]) k = Some v"
  by (simp add: map_add_def)

lemma map_of_append_Some: "map_of xs k = Some v \<Longrightarrow> map_of (xs @ ys) k = Some v"
  by (simp add: map_add_def)

lemma map_filter_Some:
  "(\<And>x. x \<in> set xs \<Longrightarrow> f x = Some (g x)) \<Longrightarrow> List.map_filter f xs = map g xs"
  by (induction xs) (auto simp: List.map_filter_simps)

lemma set_AList_delete: "set (AList.delete k xs) = {(k', v) \<in> set xs. k' \<noteq> k}"
  by (auto simp: AList.delete_eq)

end
