(* ===== verification/External.thy ===== *)
theory External
  imports Prelude
begin

text \<open>
  The third-party packages the core crates call, as the fields of one record that the
  definitions take as an argument: BLAKE3 (\<^verbatim>\<open>blake3\<close>), hexadecimal text (\<^verbatim>\<open>hex\<close>) and CBOR
  (\<^verbatim>\<open>ciborium\<close>). None of them is given a definition here; what the code relies on is stated
  as laws, which theorems take as hypotheses.
\<close>

section \<open>The CBOR data model\<close>

text \<open>\<^verbatim>\<open>ciborium::Value\<close>; floats are kept as their bit pattern.\<close>

datatype cbor_value =
    CInt int
  | CBytes bytes
  | CFloat u64
  | CText string
  | CBool bool
  | CNull
  | CTag nat cbor_value
  | CArray "cbor_value list"
  | CMap "(cbor_value \<times> cbor_value) list"

text \<open>
  What the encoder and the decoder both support: integers of CBOR's range and at most \<open>n\<close>
  levels of nesting (the decoder refuses deeper input).
\<close>

fun cbor_fits :: "nat \<Rightarrow> cbor_value \<Rightarrow> bool" where
  "cbor_fits n (CInt i) \<longleftrightarrow> - (2 ^ 64) \<le> i \<and> i < 2 ^ 64"
| "cbor_fits n (CBytes b) \<longleftrightarrow> True"
| "cbor_fits n (CFloat w) \<longleftrightarrow> False"
| "cbor_fits n (CText s) \<longleftrightarrow> True"
| "cbor_fits n (CBool b) \<longleftrightarrow> True"
| "cbor_fits n CNull \<longleftrightarrow> True"
| "cbor_fits n (CTag t v) \<longleftrightarrow> t < 2 ^ 64 \<and> 0 < n \<and> cbor_fits (n - 1) v"
| "cbor_fits n (CArray vs) \<longleftrightarrow> 0 < n \<and> (\<forall>v \<in> set vs. cbor_fits (n - 1) v)"
| "cbor_fits n (CMap es) \<longleftrightarrow>
     0 < n \<and> (\<forall>e \<in> set es. cbor_fits (n - 1) (fst e) \<and> cbor_fits (n - 1) (snd e))"

lemma cbor_fits_mono: "cbor_fits m v \<Longrightarrow> m \<le> n \<Longrightarrow> cbor_fits n v"
proof (induction m v arbitrary: n rule: cbor_fits.induct)
  case (7 m t v)
  then have "cbor_fits (n - 1) v" by (metis cbor_fits.simps(7) diff_le_mono)
  with 7 show ?case by auto
next
  case (8 m vs)
  then have "\<forall>v \<in> set vs. cbor_fits (n - 1) v" by (metis cbor_fits.simps(8) diff_le_mono)
  with 8 show ?case by auto
next
  case (9 m es)
  then have "\<forall>e \<in> set es. cbor_fits (n - 1) (fst e) \<and> cbor_fits (n - 1) (snd e)"
    by (metis cbor_fits.simps(9) diff_le_mono)
  with 9 show ?case by auto
qed auto

section \<open>The packages\<close>

record ext =
  blake3 :: "bytes \<Rightarrow> b32"
  hex_encode :: "bytes \<Rightarrow> string"
  hex_decode :: "string \<Rightarrow> bytes option"
  cbor_write :: "cbor_value \<Rightarrow> bytes option"
  cbor_read :: "bytes \<Rightarrow> cbor_value option"

definition hex_digits :: string where
  "hex_digits = ''0123456789abcdef''"

text \<open>
  \<^verbatim>\<open>hex::encode\<close> writes two lower-case digits per byte, in order, and \<^verbatim>\<open>hex::decode\<close> reads
  them back.
\<close>

definition hex_laws :: "'x ext_scheme \<Rightarrow> bool" where
  "hex_laws X \<longleftrightarrow>
     (\<forall>b. hex_decode X (hex_encode X b) = Some b) \<and>
     (\<forall>b. length (hex_encode X b) = 2 * length b) \<and>
     (\<forall>a b. hex_encode X (a @ b) = hex_encode X a @ hex_encode X b) \<and>
     (\<forall>b. set (hex_encode X b) \<subseteq> set hex_digits)"

text \<open>
  \<^verbatim>\<open>ciborium\<close> can write every value in CBOR's range, and reading what it wrote gives the
  value back, up to the decoder's nesting limit (256 levels).
\<close>

definition cbor_laws :: "'x ext_scheme \<Rightarrow> bool" where
  "cbor_laws X \<longleftrightarrow>
     (\<forall>v. cbor_fits 255 v \<longrightarrow> (\<exists>b. cbor_write X v = Some b \<and> cbor_read X b = Some v))"

lemma hex_decode_encode: "hex_laws X \<Longrightarrow> hex_decode X (hex_encode X b) = Some b"
  by (simp add: hex_laws_def)

lemma length_hex_encode: "hex_laws X \<Longrightarrow> length (hex_encode X b) = 2 * length b"
  by (simp add: hex_laws_def)

lemma hex_encode_append:
  "hex_laws X \<Longrightarrow> hex_encode X (a @ b) = hex_encode X a @ hex_encode X b"
  by (simp add: hex_laws_def)

lemma hex_encode_inject: "hex_laws X \<Longrightarrow> hex_encode X a = hex_encode X b \<longleftrightarrow> a = b"
  by (metis hex_decode_encode option.inject)

lemma hex_encode_chars: "hex_laws X \<Longrightarrow> c \<in> set (hex_encode X b) \<Longrightarrow> c \<in> set hex_digits"
  by (auto simp: hex_laws_def)

lemma cbor_write_read:
  "cbor_laws X \<Longrightarrow> cbor_fits 255 v \<Longrightarrow> \<exists>b. cbor_write X v = Some b \<and> cbor_read X b = Some v"
  by (simp add: cbor_laws_def)

lemma cbor_read_written:
  "cbor_laws X \<Longrightarrow> cbor_fits 255 v \<Longrightarrow> cbor_write X v = Some b \<Longrightarrow> cbor_read X b = Some v"
  by (metis cbor_write_read option.inject)

end
