(* ===== verification/Core_Hash.thy ===== *)
theory Core_Hash
  imports External
begin

text \<open>
  \<^verbatim>\<open>tig-core/src/object.rs\<close>, \<^verbatim>\<open>hash.rs\<close> and \<^verbatim>\<open>error.rs\<close>: object kinds and their tags, content
  hashes, the raw \<open>(kind, bytes)\<close> form of a stored object and its verification.
\<close>

section \<open>Object kinds\<close>

datatype object_kind = KBlob | KTree | KSnapshot | KSealed | KConflict

datatype entry_kind = EFile | ETree | ESymlink | ESealed | EConflict | ESubmodule

text \<open>The discriminants of the \<^verbatim>\<open>repr(u8)\<close> enumeration: \<^verbatim>\<open>kind as u8\<close>.\<close>

fun kind_tag :: "object_kind \<Rightarrow> u8" where
  "kind_tag KBlob = 1"
| "kind_tag KTree = 2"
| "kind_tag KSnapshot = 3"
| "kind_tag KSealed = 4"
| "kind_tag KConflict = 5"

text \<open>
  The core errors. The text of a \<^verbatim>\<open>Decode\<close> message is represented by a constructor per
  message, with the values the message is formatted from.
\<close>

datatype decode_reason =
    BadHashLength nat
  | KindMismatch object_kind object_kind
  | BadPayload
  | NotAFile string entry_kind
  | NotATree string entry_kind
  | EmptyPath
  | NoEntry string string
  | TraversesNonTree entry_kind string string
  | CannotDescend entry_kind string
  | NoEntryToDelete string
  | NoEntryOnTheWay string
  | NotAFileAtSnapshot string
  | BinaryFile string
  | EmptyPattern
  | InvalidRegex string
  | RefuseSealed "string list"
  | DirtyWorkdir
  | SymlinkNotUtf8

datatype core_error =
    CEncode
  | CDecode decode_reason
  | CHashMismatch string string
  | CInvalidHex
  | CInvalidKind u8
  | CInvalidPathComponent string

definition from_tag :: "u8 \<Rightarrow> core_error + object_kind" where
  "from_tag b =
     (if b = 1 then Inr KBlob
      else if b = 2 then Inr KTree
      else if b = 3 then Inr KSnapshot
      else if b = 4 then Inr KSealed
      else if b = 5 then Inr KConflict
      else Inl (CInvalidKind b))"

fun kind_name :: "object_kind \<Rightarrow> string" where
  "kind_name KBlob = ''blob''"
| "kind_name KTree = ''tree''"
| "kind_name KSnapshot = ''snapshot''"
| "kind_name KSealed = ''sealed''"
| "kind_name KConflict = ''conflict''"

lemma from_tag_kind_tag [simp]: "from_tag (kind_tag k) = Inr k"
  by (cases k) (simp_all add: from_tag_def)

lemma from_tag_Inr_iff: "from_tag b = Inr k \<longleftrightarrow> b = kind_tag k"
  by (cases k) (auto simp: from_tag_def)

lemma kind_tag_inject [simp]: "kind_tag a = kind_tag b \<longleftrightarrow> a = b"
  by (metis from_tag_kind_tag sum.inject(2))

lemma kind_name_inject [simp]: "kind_name a = kind_name b \<longleftrightarrow> a = b"
  by (cases a; cases b) simp_all

section \<open>Hashes\<close>

datatype hash = Hash (hash_bytes: b32)

definition compute :: "'x ext_scheme \<Rightarrow> object_kind \<Rightarrow> bytes \<Rightarrow> hash" where
  "compute X kind payload = Hash (blake3 X (kind_tag kind # payload))"

definition to_hex :: "'x ext_scheme \<Rightarrow> hash \<Rightarrow> string" where
  "to_hex X h = hex_encode X (b32_bytes (hash_bytes h))"

definition from_hex :: "'x ext_scheme \<Rightarrow> string \<Rightarrow> core_error + hash" where
  "from_hex X s =
     (case hex_decode X s of
        None \<Rightarrow> Inl CInvalidHex
      | Some b \<Rightarrow>
          if length b \<noteq> 32 then Inl (CDecode (BadHashLength (length b)))
          else Inr (Hash (b32_of b)))"

definition fanout :: "'x ext_scheme \<Rightarrow> hash \<Rightarrow> string" where
  "fanout X h = hex_encode X (take 1 (b32_bytes (hash_bytes h)))"

definition rest :: "'x ext_scheme \<Rightarrow> hash \<Rightarrow> string" where
  "rest X h = hex_encode X (drop 1 (b32_bytes (hash_bytes h)))"

lemma length_to_hex: "hex_laws X \<Longrightarrow> length (to_hex X h) = 64"
  by (simp add: to_hex_def length_hex_encode)

lemma from_hex_to_hex: "hex_laws X \<Longrightarrow> from_hex X (to_hex X h) = Inr h"
  by (simp add: from_hex_def to_hex_def hex_decode_encode)

lemma to_hex_inject: "hex_laws X \<Longrightarrow> to_hex X a = to_hex X b \<longleftrightarrow> a = b"
  by (metis from_hex_to_hex sum.inject(2))

lemma fanout_rest: "hex_laws X \<Longrightarrow> fanout X h @ rest X h = to_hex X h"
  by (simp add: fanout_def rest_def to_hex_def flip: hex_encode_append)

lemma length_fanout: "hex_laws X \<Longrightarrow> length (fanout X h) = 2"
  by (simp add: fanout_def length_hex_encode)

lemma length_rest: "hex_laws X \<Longrightarrow> length (rest X h) = 62"
  by (simp add: rest_def length_hex_encode)

section \<open>Raw objects\<close>

record raw_object =
  raw_kind :: object_kind
  raw_bytes :: bytes

definition raw_hash :: "'x ext_scheme \<Rightarrow> raw_object \<Rightarrow> hash" where
  "raw_hash X raw = compute X (raw_kind raw) (raw_bytes raw)"

definition verify :: "'x ext_scheme \<Rightarrow> raw_object \<Rightarrow> hash \<Rightarrow> core_error + unit" where
  "verify X raw claimed =
     (let actual = raw_hash X raw
      in if actual = claimed then Inr ()
         else Inl (CHashMismatch (to_hex X claimed) (to_hex X actual)))"

lemma verify_Inr_iff [simp]: "verify X raw h = Inr u \<longleftrightarrow> raw_hash X raw = h"
  by (simp add: verify_def Let_def)

text \<open>
  The bytes that are hashed start with the kind's tag, so two objects of different kinds never
  feed the hash the same input, whatever their payloads are.
\<close>

lemma hash_input_inject:
  "kind_tag (raw_kind a) # raw_bytes a = kind_tag (raw_kind b) # raw_bytes b \<longleftrightarrow> a = (b :: raw_object)"
  by auto

end
