(* ===== verification/Core_Canonical.thy ===== *)
theory Core_Canonical
  imports Core_Hash "HOL-Library.Multiset"
begin

text \<open>
  \<^verbatim>\<open>tig-core/src/canonical.rs\<close>: the deterministic CBOR profile. The value tree is walked,
  every map's entries are sorted by the encoded bytes of their keys (RFC 8949, 4.2.1), and the
  result is written out. The lemmas show that it always succeeds on encodable values, that its
  output is sorted and a rearrangement of its input, that it does not depend on the order in
  which struct fields are declared, and that running it again changes nothing.
\<close>

datatype canon_error = ValueEncode | ByteEncode

definition index_key ::
  "'x ext_scheme \<Rightarrow> cbor_value \<times> cbor_value \<Rightarrow> canon_error + bytes \<times> cbor_value \<times> cbor_value" where
  "index_key X kv =
     (case cbor_write X (fst kv) of None \<Rightarrow> Inl ByteEncode | Some kb \<Rightarrow> Inr (kb, kv))"

fun canonicalize :: "'x ext_scheme \<Rightarrow> cbor_value \<Rightarrow> canon_error + cbor_value" where
  "canonicalize X (CMap entries) =
     and_then
       (traverse (\<lambda>kv.
          case canonicalize X (fst kv) of Inl e \<Rightarrow> Inl e
          | Inr k \<Rightarrow> (case canonicalize X (snd kv) of Inl e \<Rightarrow> Inl e | Inr v \<Rightarrow> Inr (k, v))) entries)
       (\<lambda>entries'. and_then (traverse (index_key X) entries')
         (\<lambda>indexed. Inr (CMap (map snd (sort_key fst indexed)))))"
| "canonicalize X (CArray elems) =
     and_then (traverse (\<lambda>v. canonicalize X v) elems) (\<lambda>es. Inr (CArray es))"
| "canonicalize X (CTag t inner) = and_then (canonicalize X inner) (\<lambda>v. Inr (CTag t v))"
| "canonicalize X v = Inr v"

definition canonical_encode :: "'x ext_scheme \<Rightarrow> cbor_value \<Rightarrow> canon_error + bytes" where
  "canonical_encode X v =
     and_then (canonicalize X v)
       (\<lambda>v'. case cbor_write X v' of None \<Rightarrow> Inl ByteEncode | Some out \<Rightarrow> Inr out)"

section \<open>Structs: maps whose keys are distinct field names\<close>

fun field_key :: "cbor_value \<Rightarrow> bool" where
  "field_key (CText s) \<longleftrightarrow> True"
| "field_key _ \<longleftrightarrow> False"

fun struct_like :: "cbor_value \<Rightarrow> bool" where
  "struct_like (CMap es) \<longleftrightarrow>
     (\<forall>e \<in> set es. field_key (fst e) \<and> struct_like (snd e)) \<and> distinct (map fst es)"
| "struct_like (CArray vs) \<longleftrightarrow> (\<forall>v \<in> set vs. struct_like v)"
| "struct_like (CTag t v) \<longleftrightarrow> struct_like v"
| "struct_like v \<longleftrightarrow> True"

text \<open>Every map, at any depth, lists its entries in the order of the encoded keys.\<close>

fun sorted_maps :: "'x ext_scheme \<Rightarrow> cbor_value \<Rightarrow> bool" where
  "sorted_maps X (CMap es) \<longleftrightarrow>
     sorted (map (\<lambda>e. the (cbor_write X (fst e))) es) \<and> (\<forall>e \<in> set es. sorted_maps X (snd e))"
| "sorted_maps X (CArray vs) \<longleftrightarrow> (\<forall>v \<in> set vs. sorted_maps X v)"
| "sorted_maps X (CTag t v) \<longleftrightarrow> sorted_maps X v"
| "sorted_maps X v \<longleftrightarrow> True"

text \<open>
  Two values that differ only in the order of the entries of maps, at any depth: what two
  encoders with different field orders produce for the same logical object.
\<close>

inductive reordered :: "cbor_value \<Rightarrow> cbor_value \<Rightarrow> bool" where
  same: "reordered v v"
| elems: "list_all2 reordered vs ws \<Longrightarrow> reordered (CArray vs) (CArray ws)"
| inner: "reordered v w \<Longrightarrow> reordered (CTag t v) (CTag t w)"
| entries: "list_all2 (\<lambda>p q. fst p = fst q \<and> reordered (snd p) (snd q)) es es' \<Longrightarrow>
     mset es' = mset fs \<Longrightarrow> reordered (CMap es) (CMap fs)"

section \<open>Canonical form\<close>

lemma canonicalize_key [simp]: "field_key k \<Longrightarrow> canonicalize X k = Inr k"
  by (cases k) auto

text \<open>The result of a step that cannot fail, as a plain function.\<close>

definition unres :: "'e + 'a \<Rightarrow> 'a" where
  "unres r = (case r of Inr a \<Rightarrow> a | Inl _ \<Rightarrow> undefined)"

lemma unres_Inr [simp]: "unres (Inr a) = a"
  by (simp add: unres_def)

lemma traverse_unres: "(\<And>x. x \<in> set xs \<Longrightarrow> \<exists>y. f x = Inr y) \<Longrightarrow> traverse f xs = Inr (map (unres \<circ> f) xs)"
  by (rule traverse_map_Inr) (metis comp_apply unres_Inr)

definition key_bytes :: "'x ext_scheme \<Rightarrow> cbor_value \<times> cbor_value \<Rightarrow> bytes" where
  "key_bytes X kv = the (cbor_write X (fst kv))"

lemma index_key_Some:
  "cbor_write X (fst kv) \<noteq> None \<Longrightarrow> index_key X kv = Inr (key_bytes X kv, kv)"
  by (auto simp: index_key_def key_bytes_def)

lemma map_snd_sort_key:
  "map snd (sort_key fst (map (\<lambda>x. (f x, x)) xs)) = sort_key f xs"
proof -
  have pairs: "sort_key fst (map (\<lambda>x. (f x, x)) xs) = map (\<lambda>x. (f x, x)) (sort_key f xs)" for xs
  proof (induction xs)
    case (Cons x xs)
    have "insort_key fst (f x, x) (map (\<lambda>x. (f x, x)) ys) = map (\<lambda>x. (f x, x)) (insort_key f x ys)" for ys
      by (induction ys) auto
    with Cons show ?case by simp
  qed simp
  show ?thesis by (simp add: pairs o_def)
qed

lemma canonicalize_map:
  assumes "\<And>e. e \<in> set es \<Longrightarrow> field_key (fst e)"
    and "\<And>e. e \<in> set es \<Longrightarrow> cbor_write X (fst e) \<noteq> None"
    and "\<And>e. e \<in> set es \<Longrightarrow> canonicalize X (snd e) = Inr (c (snd e))"
  shows "canonicalize X (CMap es) = Inr (CMap (sort_key (key_bytes X) (map (map_prod id c) es)))"
proof -
  have 1: "traverse (\<lambda>kv.
          case canonicalize X (fst kv) of Inl e \<Rightarrow> Inl e
          | Inr k \<Rightarrow> (case canonicalize X (snd kv) of Inl e \<Rightarrow> Inl e | Inr v \<Rightarrow> Inr (k, v))) es
      = Inr (map (map_prod id c) es)"
    by (rule traverse_map_Inr) (simp add: assms map_prod_def split_beta)
  have 2: "traverse (index_key X) (map (map_prod id c) es)
      = Inr (map (\<lambda>kv. (key_bytes X kv, kv)) (map (map_prod id c) es))"
    by (rule traverse_map_Inr) (use assms(2) in \<open>auto intro!: index_key_Some simp: map_prod_def split_beta\<close>)
  show ?thesis by (simp add: 1 2 map_snd_sort_key del: map_map)
qed

lemma fits_field_key_written:
  "cbor_laws X \<Longrightarrow> field_key k \<Longrightarrow> cbor_write X k \<noteq> None"
  by (cases k) (auto dest!: cbor_write_read [where v = k])

lemma canonicalize_map_struct:
  assumes "cbor_laws X" and "struct_like (CMap es)"
    and "\<And>e. e \<in> set es \<Longrightarrow> canonicalize X (snd e) = Inr (c (snd e))"
  shows "canonicalize X (CMap es) = Inr (CMap (sort_key (key_bytes X) (map (map_prod id c) es)))"
proof (rule canonicalize_map)
  fix e assume "e \<in> set es"
  with assms(2) have f: "field_key (fst e)" by simp
  then show "field_key (fst e)" .
  from assms(1) f show "cbor_write X (fst e) \<noteq> None" by (rule fits_field_key_written)
qed (use assms in simp)

text \<open>Every encodable struct has a canonical form, and it is encodable again.\<close>

lemma canonicalize_struct:
  assumes "cbor_laws X" and "struct_like v" and "cbor_fits n v"
  shows "\<exists>w. canonicalize X v = Inr w \<and> struct_like w \<and> cbor_fits n w \<and> sorted_maps X w
    \<and> reordered v w"
  using assms(2,3)
proof (induction v arbitrary: n)
  case (CArray vs)
  have "\<forall>v \<in> set vs. \<exists>w. canonicalize X v = Inr w \<and> struct_like w \<and> cbor_fits (n - 1) w
      \<and> sorted_maps X w \<and> reordered v w" using CArray by auto
  then have r: "canonicalize X v = Inr (unres (canonicalize X v))
      \<and> struct_like (unres (canonicalize X v)) \<and> cbor_fits (n - 1) (unres (canonicalize X v))
      \<and> sorted_maps X (unres (canonicalize X v)) \<and> reordered v (unres (canonicalize X v))" if "v \<in> set vs" for v using that by fastforce
  have "traverse (canonicalize X) vs = Inr (map (unres \<circ> canonicalize X) vs)"
    by (rule traverse_unres) (use r in blast)
  moreover have "reordered (CArray vs) (CArray (map (unres \<circ> canonicalize X) vs))"
    by (rule reordered.elems) (use r in \<open>auto simp: list_all2_conv_all_nth\<close>)
  ultimately show ?case using r CArray.prems by simp
next
  case (CMap es)
  let ?c = "unres \<circ> canonicalize X"
  have ih: "\<forall>e \<in> set es. \<exists>w. canonicalize X (snd e) = Inr w \<and> struct_like w \<and> cbor_fits (n - 1) w
      \<and> sorted_maps X w \<and> reordered (snd e) w"
  proof
    fix e assume e: "e \<in> set es"
    then show "\<exists>w. canonicalize X (snd e) = Inr w \<and> struct_like w \<and> cbor_fits (n - 1) w
      \<and> sorted_maps X w \<and> reordered (snd e) w"
      using CMap.IH [of e "snd e" "n - 1"] CMap.prems by (cases e) (auto simp: snds.simps)
  qed
  then have r: "canonicalize X (snd e) = Inr (?c (snd e)) \<and> struct_like (?c (snd e))
      \<and> cbor_fits (n - 1) (?c (snd e)) \<and> sorted_maps X (?c (snd e))
      \<and> reordered (snd e) (?c (snd e))" if "e \<in> set es" for e using that by fastforce
  have m: "canonicalize X (CMap es) = Inr (CMap (sort_key (key_bytes X) (map (map_prod id ?c) es)))"
    by (rule canonicalize_map_struct) (use assms(1) CMap.prems r in auto)
  have d: "distinct (map fst (sort_key (key_bytes X) (map (map_prod id ?c) es)))"
  proof -
    have "mset (map fst (sort_key (key_bytes X) (map (map_prod id ?c) es)))
        = mset (map fst (map (map_prod id ?c) es))"
      by (metis mset_map mset_sort)
    also have "map fst (map (map_prod id ?c) es) = map fst es" by simp
    finally show ?thesis using CMap.prems(1) by (metis mset_eq_imp_distinct_iff struct_like.simps(1))
  qed
  have "sorted (map (key_bytes X) (sort_key (key_bytes X) (map (map_prod id ?c) es)))" by simp
  then have o: "sorted (map (\<lambda>e. the (cbor_write X (fst e)))
      (sort_key (key_bytes X) (map (map_prod id ?c) es)))" by (simp add: key_bytes_def [abs_def])
  have "reordered (CMap es) (CMap (sort_key (key_bytes X) (map (map_prod id ?c) es)))"
  proof (rule reordered.entries)
    show "list_all2 (\<lambda>p q. fst p = fst q \<and> reordered (snd p) (snd q)) es (map (map_prod id ?c) es)"
      using r by (simp add: list_all2_conv_all_nth)
  qed simp
  then show ?case using m d r o CMap.prems by auto
next
  case (CTag t v)
  then obtain w where "canonicalize X v = Inr w" "struct_like w" "cbor_fits (n - 1) w" "sorted_maps X w" "reordered v w"
    by (metis cbor_fits.simps(7) struct_like.simps(3))
  with CTag.prems show ?case by (auto intro: reordered.inner)
qed (auto intro: reordered.same)

lemma canonicalize_struct_unres:
  assumes "cbor_laws X" and "struct_like v" and "cbor_fits n v"
  shows "canonicalize X v = Inr (unres (canonicalize X v))"
  using canonicalize_struct [OF assms] by force

lemma key_bytes_inj:
  assumes "cbor_laws X" and "\<And>e. e \<in> set es \<Longrightarrow> field_key (fst e)" and "distinct (map fst es)"
  shows "inj_on (key_bytes X) (set es)"
proof (rule inj_onI)
  fix p q assume p: "p \<in> set es" and q: "q \<in> set es" and eq: "key_bytes X p = key_bytes X q"
  have "cbor_read X (key_bytes X e) = Some (fst e)" if "e \<in> set es" for e
  proof -
    from assms(2) [OF that] have "cbor_fits 255 (fst e)" by (cases "fst e") auto
    then show ?thesis using cbor_write_read [OF assms(1)] by (force simp: key_bytes_def)
  qed
  with p q eq have "fst p = fst q" by (metis option.inject)
  with assms(3) p q show "p = q" by (metis eq_key_imp_eq_value surjective_pairing)
qed

text \<open>What is canonical already is left alone.\<close>

lemma canonicalize_id:
  assumes "cbor_laws X" and "struct_like v" and "sorted_maps X v"
  shows "canonicalize X v = Inr v"
  using assms(2,3)
proof (induction v)
  case (CArray vs)
  then have "traverse (\<lambda>v. canonicalize X v) vs = Inr (map id vs)"
    by (intro traverse_map_Inr) simp
  then show ?case by simp
next
  case (CMap es)
  have v: "canonicalize X (snd e) = Inr (id (snd e))" if "e \<in> set es" for e
  proof -
    from CMap.prems that have "struct_like (snd e)" "sorted_maps X (snd e)" by auto
    with CMap.IH(2) [of e "snd e"] that show ?thesis by (cases e) (auto simp: snds.simps)
  qed
  have s: "sort_key (key_bytes X) es = es"
    using CMap.prems(2) by (simp add: sort_key_id_if_sorted key_bytes_def [abs_def])
  have "canonicalize X (CMap es) = Inr (CMap (sort_key (key_bytes X) (map (map_prod id id) es)))"
    by (rule canonicalize_map_struct) (use assms(1) CMap.prems v in auto)
  moreover have "map (map_prod id id) es = es" by (simp add: map_prod.id)
  ultimately show ?case using s by metis
qed auto

lemma reordered_fits: "reordered v w \<Longrightarrow> struct_like v \<Longrightarrow> struct_like w"
proof (induction rule: reordered.induct)
  case (elems vs ws)
  then show ?case by (fastforce simp: list_all2_conv_all_nth in_set_conv_nth)
next
  case (entries es es' fs)
  have k: "map fst es = map fst es'" using entries(1)
    by (induction rule: list_all2_induct) auto
  have "field_key (fst e) \<and> struct_like (snd e)" if "e \<in> set es'" for e
    using entries(1,3) that unfolding list_all2_conv_all_nth in_set_conv_nth
    by (metis (no_types, lifting) nth_mem struct_like.simps(1))
  moreover have "distinct (map fst fs)"
    using entries(2,3) k by (metis mset_eq_imp_distinct_iff mset_map struct_like.simps(1))
  ultimately show ?case using entries(2) by (metis mset_eq_setD struct_like.simps(1))
qed auto

text \<open>The order of the fields does not matter.\<close>

lemma canonicalize_reordered:
  assumes "cbor_laws X"
  shows "reordered v w \<Longrightarrow> struct_like v \<Longrightarrow> cbor_fits n v \<Longrightarrow> canonicalize X v = canonicalize X w"
proof (induction arbitrary: n rule: reordered.induct)
  case (elems vs ws)
  have "list_all2 (\<lambda>v w. canonicalize X v = canonicalize X w) vs ws"
    using elems unfolding list_all2_conv_all_nth by (metis cbor_fits.simps(8) nth_mem struct_like.simps(2))
  then have "traverse (\<lambda>v. canonicalize X v) vs = traverse (\<lambda>v. canonicalize X v) ws"
    by (induction rule: list_all2_induct) (auto split: sum.split)
  then show ?case by simp
next
  case (inner v w t)
  then have "canonicalize X v = canonicalize X w" by auto
  then show ?case by simp
next
  case (entries es es' fs)
  let ?c = "unres \<circ> canonicalize X"
  let ?m = "map (map_prod id ?c)"
  have wf: "struct_like (CMap fs)"
  proof (rule reordered_fits [OF reordered.entries])
    show "list_all2 (\<lambda>p q. fst p = fst q \<and> reordered (snd p) (snd q)) es es'"
      using entries(1) by (rule list_all2_mono) auto
  qed (use entries in auto)
  have ce: "canonicalize X (snd e) = Inr (?c (snd e))" if "e \<in> set es" for e
    using canonicalize_struct_unres [OF assms, of "snd e" "n - 1"] that entries.prems by simp
  have eq: "list_all2 (\<lambda>p q. fst p = fst q \<and> canonicalize X (snd p) = canonicalize X (snd q)) es es'"
    using entries(1) entries.prems unfolding list_all2_conv_all_nth
    by (metis (no_types, lifting) cbor_fits.simps(9) nth_mem struct_like.simps(1))
  then have m: "?m es = ?m es'"
    by (induction rule: list_all2_induct) (auto simp: map_prod_def split_beta)
  have "canonicalize X (snd e) = Inr (?c (snd e))" if "e \<in> set es'" for e
    using eq ce that unfolding list_all2_conv_all_nth in_set_conv_nth by (metis comp_apply nth_mem)
  then have cf: "canonicalize X (snd e) = Inr (?c (snd e))" if "e \<in> set fs" for e
    using that entries(2) by (metis mset_eq_setD)
  have ms: "mset (?m es) = mset (?m fs)" using m entries(2) by (metis mset_map)
  have "sort_key (key_bytes X) (?m es) = sort_key (key_bytes X) (?m fs)"
  proof (rule sort_key_inj_key_eq)
    show "mset (?m es) = mset (sort_key (key_bytes X) (?m fs))" using ms by simp
    show "inj_on (key_bytes X) (set (?m es))"
      by (rule key_bytes_inj) (use assms entries.prems in auto)
  qed simp
  then show ?case
    using canonicalize_map_struct [OF assms entries.prems(1) ce]
      canonicalize_map_struct [OF assms wf cf] by metis
qed simp

end
