(* ===== verification/Core_Codec.thy ===== *)
theory Core_Codec
  imports Core_Canonical
begin

text \<open>
  The encode/decode contract of \<^verbatim>\<open>tig-core/src/object.rs\<close> (\<^verbatim>\<open>trait Encodable\<close>) and the wire shapes
  \<^verbatim>\<open>serde\<close> derives for it: a struct is a map from field names to values in declaration order, an
  absent optional field is left out, a newtype is what it wraps, a unit variant is its name,
  hashes and byte vectors are byte strings. The readers accept these shapes and look fields up
  by name, so they read the canonical (re-sorted) form too. They are stricter than \<^verbatim>\<open>serde\<close> on
  input no encoder of this program writes (byte strings spelled as arrays, extra tags).
\<close>

section \<open>Readers\<close>

definition field :: "string \<Rightarrow> cbor_value \<Rightarrow> cbor_value option" where
  "field n v =
     (case v of
        CMap es \<Rightarrow> (case filter (\<lambda>e. fst e = CText n) es of [e] \<Rightarrow> Some (snd e) | _ \<Rightarrow> None)
      | _ \<Rightarrow> None)"

definition has_field :: "string \<Rightarrow> cbor_value \<Rightarrow> bool" where
  "has_field n v =
     (case v of CMap es \<Rightarrow> (\<exists>e \<in> set es. fst e = CText n) | _ \<Rightarrow> False)"

definition get_field :: "string \<Rightarrow> (cbor_value \<Rightarrow> 'a option) \<Rightarrow> cbor_value \<Rightarrow> 'a option" where
  "get_field n rd v = (case field n v of None \<Rightarrow> None | Some x \<Rightarrow> rd x)"

text \<open>\<^verbatim>\<open>#[serde(default)] Option<T>\<close>: absent and null both mean none.\<close>

definition get_option ::
  "string \<Rightarrow> (cbor_value \<Rightarrow> 'a option) \<Rightarrow> cbor_value \<Rightarrow> 'a option option" where
  "get_option n rd v =
     (if has_field n v
      then (case field n v of
              None \<Rightarrow> None
            | Some x \<Rightarrow> if x = CNull then Some None else map_option Some (rd x))
      else Some None)"

lemma field_Nil [simp]: "field n (CMap []) = None"
  by (simp add: field_def)

lemma has_field_Nil [simp]: "\<not> has_field n (CMap [])"
  by (simp add: has_field_def)

lemma has_field_Cons [simp]: "has_field n (CMap ((k, x) # es)) \<longleftrightarrow> k = CText n \<or> has_field n (CMap es)"
  by (auto simp: has_field_def)

lemma field_Cons [simp]:
  "field n (CMap ((k, x) # es)) =
     (if k = CText n then (if has_field n (CMap es) then None else Some x) else field n (CMap es))"
  by (auto simp: field_def has_field_def filter_empty_conv split: list.splits)

fun read_text :: "cbor_value \<Rightarrow> string option" where
  "read_text (CText s) = Some s"
| "read_text _ = None"

fun read_bytes :: "cbor_value \<Rightarrow> bytes option" where
  "read_bytes (CBytes b) = Some b"
| "read_bytes _ = None"

fun read_hash :: "cbor_value \<Rightarrow> hash option" where
  "read_hash (CBytes b) = (if length b = 32 then Some (Hash (b32_of b)) else None)"
| "read_hash _ = None"

fun read_u64 :: "cbor_value \<Rightarrow> u64 option" where
  "read_u64 (CInt i) = (if 0 \<le> i \<and> i < 2 ^ 64 then Some (word_of_int i) else None)"
| "read_u64 _ = None"

fun read_u32 :: "cbor_value \<Rightarrow> u32 option" where
  "read_u32 (CInt i) = (if 0 \<le> i \<and> i < 2 ^ 32 then Some (word_of_int i) else None)"
| "read_u32 _ = None"

fun all_some :: "'a option list \<Rightarrow> 'a list option" where
  "all_some [] = Some []"
| "all_some (None # xs) = None"
| "all_some (Some x # xs) = map_option ((#) x) (all_some xs)"

fun read_list :: "(cbor_value \<Rightarrow> 'a option) \<Rightarrow> cbor_value \<Rightarrow> 'a list option" where
  "read_list rd (CArray vs) = all_some (map rd vs)"
| "read_list rd _ = None"

section \<open>Writers\<close>

definition hash_value :: "hash \<Rightarrow> cbor_value" where
  "hash_value h = CBytes (b32_bytes (hash_bytes h))"

definition word_value :: "'w::len word \<Rightarrow> cbor_value" where
  "word_value w = CInt (uint w)"

definition opt_entry ::
  "string \<Rightarrow> ('a \<Rightarrow> cbor_value) \<Rightarrow> 'a option \<Rightarrow> (cbor_value \<times> cbor_value) list" where
  "opt_entry n wr a = (case a of None \<Rightarrow> [] | Some x \<Rightarrow> [(CText n, wr x)])"

lemma read_hash_value [simp]: "read_hash (hash_value h) = Some h"
  by (simp add: hash_value_def)

lemma read_u64_word [simp]: "read_u64 (word_value w) = Some w"
proof -
  have "uint w < 2 ^ 64" using uint_lt2p [of w] by simp
  then show ?thesis by (simp add: word_value_def)
qed

lemma read_u32_word [simp]: "read_u32 (word_value w) = Some w"
proof -
  have "uint w < 2 ^ 32" using uint_lt2p [of w] by simp
  then show ?thesis by (simp add: word_value_def)
qed

lemma all_some_map: "(\<And>x. x \<in> set xs \<Longrightarrow> f x = Some (g x)) \<Longrightarrow> all_some (map f xs) = Some (map g xs)"
  by (induction xs) auto

lemma read_list_map [simp]:
  "(\<And>x. x \<in> set xs \<Longrightarrow> rd (wr x) = Some x) \<Longrightarrow> read_list rd (CArray (map wr xs)) = Some xs"
  using all_some_map [of xs "\<lambda>x. rd (wr x)" id] by (simp add: o_def)

declare read_list.simps(1) [simp del]

lemma struct_like_values [simp]: "struct_like (hash_value h)" "struct_like (word_value w)"
  by (simp_all add: hash_value_def word_value_def)

lemma fits_values [simp]:
  "cbor_fits n (hash_value h)" "cbor_fits n (word_value (w :: u64))" "cbor_fits n (word_value (v :: u32))"
proof -
  have "uint w < 2 ^ 64" "uint v < 2 ^ 32" using uint_lt2p [of w] uint_lt2p [of v] by simp_all
  moreover have "- (2 ^ 64) \<le> uint w" by (rule order_trans [OF _ uint_ge_0]) simp
  moreover have "- (2 ^ 64) \<le> uint v" by (rule order_trans [OF _ uint_ge_0]) simp
  ultimately show "cbor_fits n (word_value w)" "cbor_fits n (word_value v)"
    unfolding word_value_def by simp_all
qed (simp add: hash_value_def)

lemma word_value_not_null [simp]: "word_value w \<noteq> CNull" "hash_value h \<noteq> CNull"
  by (simp_all add: word_value_def hash_value_def)

section \<open>Readers that do not see the order of map entries\<close>

definition order_blind :: "(cbor_value \<Rightarrow> 'a) \<Rightarrow> bool" where
  "order_blind rd \<longleftrightarrow> (\<forall>v w. reordered v w \<longrightarrow> struct_like v \<longrightarrow> rd v = rd w)"

named_theorems blind_intros \<open>readers that ignore the order of map entries\<close>

lemma order_blindD: "order_blind rd \<Longrightarrow> reordered v w \<Longrightarrow> struct_like v \<Longrightarrow> rd v = rd w"
  by (auto simp: order_blind_def)

lemma blind_leaf:
  assumes "\<And>es. rd (CMap es) = None" "\<And>vs. rd (CArray vs) = None" "\<And>t v. rd (CTag t v) = None"
  shows "order_blind rd"
  unfolding order_blind_def using assms by (auto elim: reordered.cases)

lemma blind_leaves [blind_intros]:
  "order_blind read_text" "order_blind read_bytes" "order_blind read_hash" "order_blind read_u64" "order_blind read_u32"
  by (auto intro!: blind_leaf)

lemma blind_list [blind_intros]:
  assumes "order_blind rd" shows "order_blind (read_list rd)"
  unfolding order_blind_def
proof (intro allI impI)
  fix v w assume "reordered v w" and s: "struct_like v"
  then show "read_list rd v = read_list rd w"
  proof cases
    case (elems vs ws)
    have "list_all2 (\<lambda>v w. rd v = rd w) vs ws"
      using elems s assms unfolding list_all2_conv_all_nth by (metis nth_mem order_blindD struct_like.simps(2))
    then have "map rd vs = map rd ws" by (induction rule: list_all2_induct) auto
    with elems show ?thesis by (simp add: read_list.simps)
  qed auto
qed

lemma filter_single_key:
  assumes "distinct (map fst es)"
  shows "filter (\<lambda>e. fst e = k) es = (case map_of es k of None \<Rightarrow> [] | Some x \<Rightarrow> [(k, x)])"
  using assms
proof (induction es)
  case (Cons e es)
  have "filter (\<lambda>p. fst p = fst e) es = []"
    using Cons.prems by (simp add: filter_empty_conv) (metis image_eqI)
  with Cons show ?case by (cases e) (auto split: option.splits)
qed simp

lemma field_map_of:
  "distinct (map fst es) \<Longrightarrow> field n (CMap es) = map_of es (CText n)"
  by (simp add: field_def filter_single_key split: option.splits)

lemma has_field_map_of: "has_field n (CMap es) \<longleftrightarrow> map_of es (CText n) \<noteq> None"
  by (force simp: has_field_def map_of_eq_None_iff)

lemma map_of_matched:
  "list_all2 (\<lambda>p q. fst p = fst q \<and> R (snd p) (snd q)) es es' \<Longrightarrow>
   rel_option R (map_of es k) (map_of es' k)"
  by (induction rule: list_all2_induct) auto

lemma map_of_permuted:
  "mset es = mset fs \<Longrightarrow> distinct (map fst es) \<Longrightarrow> map_of es = map_of fs"
  by (metis map_of_inject_set mset_eq_imp_distinct_iff mset_eq_setD mset_map)

text \<open>Reordering keeps each field, up to reordering inside it.\<close>

lemma reordered_map_of:
  assumes "reordered (CMap es) w" and "struct_like (CMap es)"
  obtains fs where "w = CMap fs" "distinct (map fst fs)"
    "rel_option reordered (map_of es k) (map_of fs k)"
  using assms(1)
proof cases
  case same
  have "rel_option reordered (map_of es k) (map_of es k)"
    by (cases "map_of es k") (auto intro: reordered.same)
  with same assms(2) that show ?thesis by auto
next
  case (entries es' fs)
  have k: "map fst es = map fst es'"
    using entries(2) by (induction rule: list_all2_induct) auto
  have d: "distinct (map fst es')" using k assms(2) by simp
  then have "map_of es' = map_of fs" by (rule map_of_permuted [OF entries(3)])
  moreover have "distinct (map fst fs)" using d entries(3) by (metis mset_eq_imp_distinct_iff mset_map)
  moreover have "rel_option reordered (map_of es k) (map_of es' k)"
    by (rule map_of_matched [OF entries(2)])
  ultimately show ?thesis using that entries(1) by simp
qed

lemma blind_get_field [blind_intros]:
  assumes "order_blind rd" shows "order_blind (get_field n rd)"
  unfolding order_blind_def
proof (intro allI impI)
  fix v w assume r: "reordered v w" and s: "struct_like v"
  show "get_field n rd v = get_field n rd w"
  proof (cases v)
    case (CMap es)
    obtain fs where w: "w = CMap fs" "distinct (map fst fs)"
        "rel_option reordered (map_of es (CText n)) (map_of fs (CText n))"
      using reordered_map_of [of es w "CText n"] r s CMap by metis
    have "struct_like x" if "map_of es (CText n) = Some x" for x
      using that s CMap by (auto dest!: map_of_SomeD)
    with w assms s CMap show ?thesis
      by (auto simp: get_field_def field_map_of order_blindD split: option.splits)
  qed (use r in \<open>auto simp: get_field_def field_def elim: reordered.cases\<close>)
qed

lemma blind_get_option [blind_intros]:
  assumes "order_blind rd" shows "order_blind (get_option n rd)"
  unfolding order_blind_def
proof (intro allI impI)
  fix v w assume r: "reordered v w" and s: "struct_like v"
  show "get_option n rd v = get_option n rd w"
  proof (cases v)
    case (CMap es)
    obtain fs where w: "w = CMap fs" "distinct (map fst fs)"
        "rel_option reordered (map_of es (CText n)) (map_of fs (CText n))"
      using reordered_map_of [of es w "CText n"] r s CMap by metis
    have st: "struct_like x" if "map_of es (CText n) = Some x" for x
      using that s CMap by (auto dest!: map_of_SomeD)
    have nul: "x = CNull \<longleftrightarrow> y = CNull" if "reordered x y" for x y
      using that by (auto elim: reordered.cases)
    show ?thesis
    proof (cases "map_of es (CText n)")
      case None
      with w s CMap show ?thesis by (simp add: get_option_def has_field_map_of)
    next
      case (Some x)
      with w(3) obtain y where y: "map_of fs (CText n) = Some y" "reordered x y"
        by (auto simp: option_rel_Some1)
      with Some w s CMap nul [OF y(2)] order_blindD [OF assms y(2) st [OF Some]] show ?thesis
        by (simp add: get_option_def field_map_of has_field_map_of)
    qed
  qed (use r in \<open>auto simp: get_option_def has_field_def elim: reordered.cases\<close>)
qed

lemma blind_const [blind_intros]: "order_blind (\<lambda>v. c)"
  by (simp add: order_blind_def)

lemma blind_bind [blind_intros]:
  "order_blind rd \<Longrightarrow> (\<And>x. order_blind (k x)) \<Longrightarrow>
   order_blind (\<lambda>v. case rd v of None \<Rightarrow> None | Some x \<Rightarrow> k x v)"
  by (simp add: order_blind_def split: option.splits)

section \<open>\<^verbatim>\<open>trait Encodable\<close>\<close>

definition encode ::
  "'x ext_scheme \<Rightarrow> object_kind \<Rightarrow> ('a \<Rightarrow> cbor_value) \<Rightarrow> 'a \<Rightarrow> core_error + raw_object" where
  "encode X kind to_value a =
     and_then (map_err (\<lambda>_. CEncode) (canonical_encode X (to_value a)))
       (\<lambda>bytes. Inr \<lparr>raw_kind = kind, raw_bytes = bytes\<rparr>)"

definition decode ::
  "'x ext_scheme \<Rightarrow> object_kind \<Rightarrow> (cbor_value \<Rightarrow> 'a option) \<Rightarrow> raw_object \<Rightarrow> core_error + 'a" where
  "decode X kind of_value raw =
     (if raw_kind raw \<noteq> kind then Inl (CDecode (KindMismatch kind (raw_kind raw)))
      else case cbor_read X (raw_bytes raw) of
             None \<Rightarrow> Inl (CDecode BadPayload)
           | Some v \<Rightarrow> ok_or (CDecode BadPayload) (of_value v))"

text \<open>
  What the derived serialisation of a type promises, and what the object store gets out of it:
  every value encodes, decoding gives it back although the canonical form re-sorted the fields,
  and equal bytes mean equal values.
\<close>

locale codec =
  fixes kind :: object_kind
    and to_value :: "'a \<Rightarrow> cbor_value"
    and of_value :: "cbor_value \<Rightarrow> 'a option"
  assumes of_to: "of_value (to_value a) = Some a"
    and to_struct: "struct_like (to_value a)"
    and to_fits: "cbor_fits 255 (to_value a)"
    and of_blind: "order_blind of_value"
begin

lemma encode_written:
  assumes "cbor_laws X"
  shows "\<exists>w b. canonicalize X (to_value a) = Inr w \<and> reordered (to_value a) w
    \<and> encode X kind to_value a = Inr \<lparr>raw_kind = kind, raw_bytes = b\<rparr> \<and> cbor_read X b = Some w"
proof -
  obtain w where w: "canonicalize X (to_value a) = Inr w" "cbor_fits 255 w" "reordered (to_value a) w"
    using canonicalize_struct [OF assms to_struct to_fits] by blast
  obtain b where b: "cbor_write X w = Some b" "cbor_read X b = Some w"
    using cbor_write_read [OF assms w(2)] by blast
  with w show ?thesis by (simp add: encode_def canonical_encode_def)
qed

lemma encode_total: "cbor_laws X \<Longrightarrow> \<exists>raw. encode X kind to_value a = Inr raw"
  using encode_written by blast

lemma encode_kind: "encode X kind to_value a = Inr raw \<Longrightarrow> raw_kind raw = kind"
  by (auto simp: encode_def and_then_Inr_iff)

lemma decode_encode:
  assumes "cbor_laws X" and "encode X kind to_value a = Inr raw"
  shows "decode X kind of_value raw = Inr a"
proof -
  obtain w b where w: "reordered (to_value a) w" "raw = \<lparr>raw_kind = kind, raw_bytes = b\<rparr>"
      "cbor_read X b = Some w"
    using encode_written [OF assms(1), of a] assms(2) by auto
  have "of_value w = Some a"
    using order_blindD [OF of_blind w(1) to_struct] of_to by simp
  with w show ?thesis by (simp add: decode_def)
qed

lemma encode_inject:
  assumes "cbor_laws X" and "encode X kind to_value a = Inr r" and "encode X kind to_value b = Inr r"
  shows "a = b"
  using decode_encode [OF assms(1,2)] decode_encode [OF assms(1,3)] by simp

lemma roundtrip:
  assumes "cbor_laws X"
  shows "\<exists>raw. encode X kind to_value a = Inr raw \<and> raw_kind raw = kind
    \<and> decode X kind of_value raw = Inr a \<and> (\<forall>a'. encode X kind to_value a' = Inr raw \<longleftrightarrow> a' = a)"
  using encode_total [OF assms, of a] encode_kind decode_encode [OF assms] encode_inject [OF assms] by metis

lemma decode_kind: "decode X kind of_value raw = Inr a \<Longrightarrow> raw_kind raw = kind"
  by (auto simp: decode_def split: if_splits)

end

end
