(* ===== verification/Core_Objects.thy ===== *)
theory Core_Objects
  imports Core_Codec
begin

text \<open>
  The content-addressed object types of \<^verbatim>\<open>tig-core\<close>: \<^verbatim>\<open>blob.rs\<close>, \<^verbatim>\<open>tree.rs\<close>, \<^verbatim>\<open>snapshot.rs\<close> and
  \<^verbatim>\<open>sealed.rs\<close>, with the identifiers of \<^verbatim>\<open>id.rs\<close>. Each type has its wire shape and an
  interpretation of the codec contract; trees have their sorted-by-name invariant.
\<close>

type_synonym change_id = string
type_synonym op_id = u64
type_synonym principal_id = string

definition principal_local :: "string \<Rightarrow> principal_id" where
  "principal_local name = ''local:'' @ name"

section \<open>Blobs\<close>

record blob =
  blob_bytes :: bytes

definition blob_value :: "blob \<Rightarrow> cbor_value" where
  "blob_value b = CMap [(CText ''bytes'', CBytes (blob_bytes b))]"

definition blob_of :: "cbor_value \<Rightarrow> blob option" where
  "blob_of v = (case get_field ''bytes'' read_bytes v of
     None \<Rightarrow> None | Some b \<Rightarrow> Some \<lparr>blob_bytes = b\<rparr>)"

definition encode_blob :: "'x ext_scheme \<Rightarrow> blob \<Rightarrow> core_error + raw_object" where
  "encode_blob X = encode X KBlob blob_value"

definition decode_blob :: "'x ext_scheme \<Rightarrow> raw_object \<Rightarrow> core_error + blob" where
  "decode_blob X = decode X KBlob blob_of"

interpretation blob_codec: codec KBlob blob_value blob_of
proof (unfold_locales)
  show "order_blind blob_of" unfolding blob_of_def by (intro blind_intros)
qed (simp_all add: blob_value_def blob_of_def get_field_def)

section \<open>Trees\<close>

text \<open>The mode bits are octal in the source: 0100644, 0100755, 0120000, 040000, and the mask 0111.\<close>

type_synonym file_mode = u32

definition mode_regular :: file_mode where "mode_regular = 0x81A4"

definition mode_exec :: file_mode where "mode_exec = 0x81ED"

definition mode_symlink :: file_mode where "mode_symlink = 0xA000"

definition mode_dir :: file_mode where "mode_dir = 0x4000"

definition is_executable :: "file_mode \<Rightarrow> bool" where
  "is_executable m \<longleftrightarrow> and m 0x49 \<noteq> 0"

record tree_entry =
  te_name :: string
  te_kind :: entry_kind
  te_target :: hash
  te_mode :: file_mode
  te_vis :: "string option"

record tree =
  entries :: "tree_entry list"

definition validate_name :: "string \<Rightarrow> core_error + unit" where
  "validate_name name =
     (if name = [] \<or> name = ''.'' \<or> name = ''..'' \<or> CHR ''/'' \<in> set name \<or> CHR 0x00 \<in> set name
      then Inl (CInvalidPathComponent name) else Inr ())"

definition tree_new :: tree where
  "tree_new = \<lparr>entries = []\<rparr>"

text \<open>The first pair of neighbours with equal names: the \<^verbatim>\<open>windows(2)\<close> loop.\<close>

fun duplicate_name :: "tree_entry list \<Rightarrow> string option" where
  "duplicate_name (a # b # es) =
     (if te_name a = te_name b then Some (te_name a) else duplicate_name (b # es))"
| "duplicate_name _ = None"

definition from_entries :: "tree_entry list \<Rightarrow> core_error + tree" where
  "from_entries es =
     and_then (traverse (\<lambda>e. validate_name (te_name e)) es)
       (\<lambda>_. let sorted_es = sort_key te_name es
            in case duplicate_name sorted_es of
                 Some n \<Rightarrow> Inl (CInvalidPathComponent (''duplicate entry: '' @ n))
               | None \<Rightarrow> Inr \<lparr>entries = sorted_es\<rparr>)"

text \<open>
  \<^verbatim>\<open>slice::binary_search_by\<close> as the standard library writes it: the window is halved until one
  element is left, and only then compared for equality. \<open>Inr i\<close> is \<^verbatim>\<open>Ok(i)\<close>, \<open>Inl i\<close> the insertion
  point \<^verbatim>\<open>Err(i)\<close>.
\<close>

function bs_window :: "string \<Rightarrow> tree_entry list \<Rightarrow> nat \<Rightarrow> nat \<Rightarrow> nat" where
  "bs_window n es base sz =
     (if sz > 1
      then (let half = sz div 2; mid = base + half
            in bs_window n es (if te_name (es ! mid) > n then base else mid) (sz - half))
      else base)"
  by pat_completeness auto

termination
  by (relation "measure (\<lambda>(n, es, base, sz). sz)") auto

declare bs_window.simps [simp del]

definition binary_search :: "string \<Rightarrow> tree_entry list \<Rightarrow> nat + nat" where
  "binary_search n es =
     (if es = [] then Inl 0
      else let base = bs_window n es 0 (length es) in
        if te_name (es ! base) = n then Inr base
        else Inl (base + (if te_name (es ! base) < n then 1 else 0)))"

definition tree_insert :: "tree \<Rightarrow> tree_entry \<Rightarrow> core_error + tree" where
  "tree_insert t e =
     and_then (validate_name (te_name e))
       (\<lambda>_. Inr (case binary_search (te_name e) (entries t) of
          Inr idx \<Rightarrow> t\<lparr>entries := (entries t)[idx := e]\<rparr>
        | Inl idx \<Rightarrow> t\<lparr>entries := take idx (entries t) @ e # drop idx (entries t)\<rparr>))"

definition tree_get :: "tree \<Rightarrow> string \<Rightarrow> tree_entry option" where
  "tree_get t n =
     (case binary_search n (entries t) of Inr idx \<Rightarrow> Some (entries t ! idx) | Inl _ \<Rightarrow> None)"

text \<open>The invariant: strictly ascending, valid names.\<close>

definition names_ok :: "tree_entry list \<Rightarrow> bool" where
  "names_ok es \<longleftrightarrow> sorted_wrt (<) (map te_name es) \<and> (\<forall>e \<in> set es. validate_name (te_name e) = Inr ())"

definition tree_wf :: "tree \<Rightarrow> bool" where
  "tree_wf t \<longleftrightarrow> names_ok (entries t)"

text \<open>What a tree means: a map from names to entries.\<close>

definition tree_map :: "tree \<Rightarrow> string \<rightharpoonup> tree_entry" where
  "tree_map t = map_of (map (\<lambda>e. (te_name e, e)) (entries t))"

subsection \<open>Binary search finds what a linear search finds\<close>

lemma sorted_names_mono:
  "sorted_wrt (<) (map te_name es) \<Longrightarrow> i < j \<Longrightarrow> j < length es \<Longrightarrow> te_name (es ! i) < te_name (es ! j)"
  by (simp add: sorted_wrt_iff_nth_less)

lemma bs_window_done: "\<not> sz > 1 \<Longrightarrow> bs_window n es base sz = base"
  by (subst bs_window.simps) simp

lemma bs_window_step:
  "sz > 1 \<Longrightarrow> bs_window n es base sz =
     bs_window n es (if te_name (es ! (base + sz div 2)) > n then base else base + sz div 2) (sz - sz div 2)"
  by (subst bs_window.simps) (simp add: Let_def)

lemma bs_window_bounds:
  "sz > 0 \<Longrightarrow> base \<le> bs_window n es base sz \<and> bs_window n es base sz < base + sz"
proof (induction n es base sz rule: bs_window.induct)
  case (1 n es base sz)
  show ?case
  proof (cases "sz > 1")
    case True
    let ?h = "sz div 2"
    let ?b = "if te_name (es ! (base + ?h)) > n then base else base + ?h"
    have "?b \<le> bs_window n es ?b (sz - ?h) \<and> bs_window n es ?b (sz - ?h) < ?b + (sz - ?h)"
      by (rule "1.IH" [OF True refl refl]) (use True in simp)
    moreover have "bs_window n es base sz = bs_window n es ?b (sz - ?h)"
      by (rule bs_window_step [OF True])
    moreover have "base \<le> ?b" "?b + (sz - ?h) \<le> base + sz" by auto
    ultimately show ?thesis by linarith
  next
    case False
    with "1.prems" show ?thesis by (simp add: bs_window_done)
  qed
qed

text \<open>The result is the last entry that is not above \<open>n\<close>, or the first one.\<close>

lemma bs_window_split:
  "sorted_wrt (<) (map te_name es) \<Longrightarrow> sz > 0 \<Longrightarrow> base + sz \<le> length es \<Longrightarrow>
     (base > 0 \<longrightarrow> te_name (es ! base) \<le> n) \<Longrightarrow>
     (\<And>i. base + sz \<le> i \<Longrightarrow> i < length es \<Longrightarrow> n < te_name (es ! i)) \<Longrightarrow>
     (let r = bs_window n es base sz in
        (r > 0 \<longrightarrow> te_name (es ! r) \<le> n) \<and> (\<forall>i. r < i \<longrightarrow> i < length es \<longrightarrow> n < te_name (es ! i)))"
proof (induction n es base sz rule: bs_window.induct)
  case (1 n es base sz)
  show ?case
  proof (cases "sz > 1")
    case True
    let ?h = "sz div 2"
    let ?above = "te_name (es ! (base + ?h)) > n"
    let ?b = "if ?above then base else base + ?h"
    have high: "n < te_name (es ! i)" if "?b + (sz - ?h) \<le> i" "i < length es" for i
    proof (cases ?above)
      case True
      with that have "base + ?h \<le> i" by auto
      then consider "base + ?h = i" | "base + ?h < i" by linarith
      then show ?thesis
      proof cases
        case 2
        show ?thesis
          by (rule order.strict_trans [OF True sorted_names_mono [OF "1.prems"(1) 2 that(2)]])
      qed (use True in simp)
    next
      case False
      with that "1.prems"(5) show ?thesis by simp
    qed
    have "let r = bs_window n es ?b (sz - ?h) in
        (r > 0 \<longrightarrow> te_name (es ! r) \<le> n) \<and> (\<forall>i. r < i \<longrightarrow> i < length es \<longrightarrow> n < te_name (es ! i))"
    proof (rule "1.IH" [OF True refl refl "1.prems"(1)])
      show "0 < sz - ?h" using True by simp
      show "?b + (sz - ?h) \<le> length es" using "1.prems"(3) by auto
      show "0 < ?b \<longrightarrow> te_name (es ! ?b) \<le> n"
        using "1.prems"(4) by (cases ?above) (simp_all add: not_less)
    qed (rule high)
    moreover have "bs_window n es base sz = bs_window n es ?b (sz - ?h)"
      by (rule bs_window_step [OF True])
    ultimately show ?thesis by simp
  next
    case False
    with "1.prems" have "sz = 1" "bs_window n es base sz = base"
      by (simp_all add: bs_window_done)
    with "1.prems" show ?thesis by auto
  qed
qed

lemma binary_search_Inr:
  assumes "sorted_wrt (<) (map te_name es)"
  shows "binary_search n es = Inr i \<longleftrightarrow> i < length es \<and> te_name (es ! i) = n"
proof (cases "es = []")
  case False
  let ?r = "bs_window n es 0 (length es)"
  have split: "?r > 0 \<longrightarrow> te_name (es ! ?r) \<le> n" "\<forall>i. ?r < i \<longrightarrow> i < length es \<longrightarrow> n < te_name (es ! i)"
    using bs_window_split [OF assms, of "length es" 0 n] False by (auto simp: Let_def)
  have lt: "?r < length es" using bs_window_bounds [of "length es" 0 n es] False by auto
  show ?thesis
  proof
    assume "binary_search n es = Inr i"
    with False lt show "i < length es \<and> te_name (es ! i) = n"
      by (auto simp: binary_search_def Let_def split: if_splits)
  next
    assume i: "i < length es \<and> te_name (es ! i) = n"
    then have "\<not> ?r < i" using split(2) by auto
    moreover have "\<not> i < ?r"
    proof
      assume "i < ?r"
      with i lt assms have "n < te_name (es ! ?r)" using sorted_names_mono by metis
      with split(1) \<open>i < ?r\<close> show False by auto
    qed
    ultimately have "?r = i" by simp
    with i False show "binary_search n es = Inr i" by (simp add: binary_search_def Let_def)
  qed
qed (simp add: binary_search_def)

lemma binary_search_Inl:
  assumes "sorted_wrt (<) (map te_name es)" and "binary_search n es = Inl i"
  shows "i \<le> length es" "\<forall>j<i. te_name (es ! j) < n" "\<forall>j. i \<le> j \<longrightarrow> j < length es \<longrightarrow> n < te_name (es ! j)"
proof -
  let ?r = "bs_window n es 0 (length es)"
  have "i \<le> length es \<and> (\<forall>j<i. te_name (es ! j) < n) \<and> (\<forall>j. i \<le> j \<longrightarrow> j < length es \<longrightarrow> n < te_name (es ! j))"
  proof (cases "es = []")
    case False
    have split: "?r > 0 \<longrightarrow> te_name (es ! ?r) \<le> n" "\<forall>i. ?r < i \<longrightarrow> i < length es \<longrightarrow> n < te_name (es ! i)"
      using bs_window_split [OF assms(1), of "length es" 0 n] False by (auto simp: Let_def)
    have lt: "?r < length es" using bs_window_bounds [of "length es" 0 n es] False by auto
    have ne: "te_name (es ! ?r) \<noteq> n" and i: "i = ?r + (if te_name (es ! ?r) < n then 1 else 0)"
      using assms(2) False by (auto simp: binary_search_def Let_def split: if_splits)
    show ?thesis
    proof (cases "te_name (es ! ?r) < n")
      case True
      then have "te_name (es ! j) < n" if "j \<le> ?r" for j
        using that sorted_names_mono [OF assms(1), of j ?r] lt by (cases "j = ?r") auto
      with True i lt split(2) show ?thesis by auto
    next
      case False
      with ne split(1) have "?r = 0" by (metis le_less neq0_conv)
      moreover from False ne have "n < te_name (es ! ?r)" by (meson neqE)
      ultimately have "n < te_name (es ! j)" if "j < length es" for j
        using that split(2) by (cases "j = 0") auto
      with False i \<open>?r = 0\<close> show ?thesis by auto
    qed
  qed (use assms(2) in \<open>simp add: binary_search_def\<close>)
  then show "i \<le> length es" "\<forall>j<i. te_name (es ! j) < n" "\<forall>j. i \<le> j \<longrightarrow> j < length es \<longrightarrow> n < te_name (es ! j)"
    by auto
qed

subsection \<open>Trees as maps\<close>

lemma sorted_names_distinct: "sorted_wrt (<) (map te_name es) \<Longrightarrow> distinct (map te_name es)"
  using strict_sorted_iff by blast

lemma tree_map_Some:
  "tree_wf t \<Longrightarrow> tree_map t n = Some e \<longleftrightarrow> e \<in> set (entries t) \<and> te_name e = n"
proof -
  assume "tree_wf t"
  then have "distinct (map fst (map (\<lambda>e. (te_name e, e)) (entries t)))"
    using sorted_names_distinct [of "entries t"] by (simp add: tree_wf_def names_ok_def o_def)
  then show ?thesis unfolding tree_map_def by (subst map_of_eq_Some_iff) auto
qed

lemma tree_get_map: "tree_wf t \<Longrightarrow> tree_get t n = tree_map t n"
proof -
  assume wf: "tree_wf t"
  then have so: "sorted_wrt (<) (map te_name (entries t))" by (simp add: tree_wf_def names_ok_def)
  show "tree_get t n = tree_map t n"
  proof (cases "binary_search n (entries t)")
    case (Inr i)
    with binary_search_Inr [OF so] have "i < length (entries t)" "te_name (entries t ! i) = n" by auto
    then have "tree_map t n = Some (entries t ! i)" using wf by (simp add: tree_map_Some)
    with Inr show ?thesis by (simp add: tree_get_def)
  next
    case (Inl i)
    have "tree_map t n \<noteq> Some e" for e
    proof
      assume "tree_map t n = Some e"
      then obtain j where "j < length (entries t)" "te_name (entries t ! j) = n"
        using wf by (auto simp: tree_map_Some in_set_conv_nth)
      then have "binary_search n (entries t) = Inr j" using binary_search_Inr [OF so] by simp
      with Inl show False by simp
    qed
    with Inl show ?thesis by (cases "tree_map t n") (auto simp: tree_get_def)
  qed
qed

lemma names_ok_insert:
  assumes "names_ok es" and "validate_name (te_name e) = Inr ()" and "binary_search (te_name e) es = Inl i"
  shows "names_ok (take i es @ e # drop i es)"
proof -
  have so: "sorted_wrt (<) (map te_name es)" using assms(1) by (simp add: names_ok_def)
  note b = binary_search_Inl [OF so assms(3)]
  have lo: "te_name x < te_name e" if "x \<in> set (take i es)" for x
    using that b(1,2) by (auto simp: in_set_conv_nth)
  have hi: "te_name e < te_name x" if "x \<in> set (drop i es)" for x
    using that b(1,3) by (auto simp: in_set_conv_nth)
  have st: "sorted_wrt (<) (map te_name (take i es))" "sorted_wrt (<) (map te_name (drop i es))"
    using so by (simp_all add: sorted_wrt_take sorted_wrt_drop take_map [symmetric] drop_map [symmetric])
  have cross: "te_name x < te_name y" if "x \<in> set (take i es)" "y \<in> set (drop i es)" for x y
    using lo [OF that(1)] hi [OF that(2)] by (rule order.strict_trans)
  have "\<forall>x \<in> set (take i es @ e # drop i es). validate_name (te_name x) = Inr ()"
    using assms(1,2) by (auto simp: names_ok_def dest: in_set_takeD in_set_dropD)
  with st lo hi cross show ?thesis by (auto simp: names_ok_def sorted_wrt_append)
qed

lemma names_ok_update:
  assumes "names_ok es" and "i < length es" and "te_name (es ! i) = te_name e"
  shows "names_ok (es[i := e])"
proof -
  have m: "map te_name (es[i := e]) = map te_name es"
    using assms(2,3) by (metis list_update_id map_update)
  have "names_ok xs \<longleftrightarrow> sorted_wrt (<) (map te_name xs) \<and> (\<forall>n \<in> set (map te_name xs). validate_name n = Inr ())"
    for xs by (simp add: names_ok_def)
  with m assms(1) show ?thesis by metis
qed

lemma tree_insert_Inr:
  assumes "tree_wf t"
  shows "tree_insert t e = Inr t' \<Longrightarrow>
    validate_name (te_name e) = Inr () \<and> tree_wf t' \<and> tree_map t' = (tree_map t)(te_name e \<mapsto> e)"
proof -
  assume ins: "tree_insert t e = Inr t'"
  then have v: "validate_name (te_name e) = Inr ()"
    by (auto simp: tree_insert_def and_then_Inr_iff)
  have ok: "names_ok (entries t)" and so: "sorted_wrt (<) (map te_name (entries t))"
    using assms by (simp_all add: tree_wf_def names_ok_def)
  have "tree_wf t' \<and> (\<forall>x. x \<in> set (entries t') \<longleftrightarrow> x = e \<or> x \<in> set (entries t) \<and> te_name x \<noteq> te_name e)"
  proof (cases "binary_search (te_name e) (entries t)")
    case (Inr i)
    then have i: "i < length (entries t)" "te_name (entries t ! i) = te_name e"
      using binary_search_Inr [OF so] by auto
    have t': "t' = t\<lparr>entries := (entries t)[i := e]\<rparr>" using ins Inr v by (simp add: tree_insert_def)
    have "te_name (entries t ! j) = te_name e \<longleftrightarrow> j = i" if "j < length (entries t)" for j
      using that i so sorted_names_mono [OF so, of i j] sorted_names_mono [OF so, of j i]
      by (metis nat_neq_iff order.irrefl)
    then have "set ((entries t)[i := e]) = insert e {x \<in> set (entries t). te_name x \<noteq> te_name e}"
      using i by (auto simp: set_conv_nth nth_list_update) (metis nth_list_update_neq)+
    with t' names_ok_update [OF ok i] show ?thesis by (auto simp: tree_wf_def)
  next
    case (Inl i)
    have t': "t' = t\<lparr>entries := take i (entries t) @ e # drop i (entries t)\<rparr>"
      using ins Inl v by (simp add: tree_insert_def)
    have "te_name x \<noteq> te_name e" if "x \<in> set (entries t)" for x
    proof
      assume "te_name x = te_name e"
      with that obtain j where "j < length (entries t)" "te_name (entries t ! j) = te_name e"
        by (auto simp: in_set_conv_nth)
      then have "binary_search (te_name e) (entries t) = Inr j" using binary_search_Inr [OF so] by simp
      with Inl show False by simp
    qed
    moreover have "set (take i (entries t) @ e # drop i (entries t)) = insert e (set (entries t))"
      by (metis append_take_drop_id insert_is_Un list.simps(15) set_append sup_left_commute)
    ultimately show ?thesis
      using t' names_ok_insert [OF ok v Inl] by (auto simp: tree_wf_def)
  qed
  then have wf: "tree_wf t'"
    and mem: "\<And>x. x \<in> set (entries t') \<longleftrightarrow> x = e \<or> x \<in> set (entries t) \<and> te_name x \<noteq> te_name e"
    by auto
  have "tree_map t' n = ((tree_map t)(te_name e \<mapsto> e)) n" for n
  proof (rule option.expand)
    have "tree_map t' n = Some x \<longleftrightarrow> ((tree_map t)(te_name e \<mapsto> e)) n = Some x" for x
      using tree_map_Some [OF wf] tree_map_Some [OF assms] mem by auto
    then show "(tree_map t' n = None) = (((tree_map t)(te_name e \<mapsto> e)) n = None)"
      "tree_map t' n \<noteq> None \<Longrightarrow> ((tree_map t)(te_name e \<mapsto> e)) n \<noteq> None \<Longrightarrow>
       the (tree_map t' n) = the (((tree_map t)(te_name e \<mapsto> e)) n)"
      by (metis not_None_eq, metis option.exhaust_sel option.sel)
  qed
  with v wf show ?thesis by blast
qed

lemma tree_insert_valid: "validate_name (te_name e) = Inr () \<Longrightarrow> \<exists>t'. tree_insert t e = Inr t'"
  by (simp add: tree_insert_def)

lemma tree_new_wf [simp]: "tree_wf tree_new"
  by (simp add: tree_new_def tree_wf_def names_ok_def)

lemma duplicate_name_None:
  "sorted (map te_name es) \<Longrightarrow> duplicate_name es = None \<longleftrightarrow> sorted_wrt (<) (map te_name es)"
proof (induction es rule: duplicate_name.induct)
  case (1 a b es)
  then show ?case by (cases "te_name a = te_name b") (auto simp: le_less intro: order.strict_trans)
qed auto

lemma from_entries_Inr:
  "from_entries es = Inr t \<longleftrightarrow>
     (\<forall>e \<in> set es. validate_name (te_name e) = Inr ()) \<and> distinct (map te_name es)
     \<and> t = \<lparr>entries = sort_key te_name es\<rparr>"
proof -
  let ?s = "sort_key te_name es"
  have so: "sorted (map te_name ?s)" by simp
  have d: "distinct (map te_name ?s) \<longleftrightarrow> distinct (map te_name es)"
    by (metis mset_eq_imp_distinct_iff mset_map mset_sort)
  have "duplicate_name ?s = None \<longleftrightarrow> distinct (map te_name es)"
    unfolding duplicate_name_None [OF so] using so d by (simp add: strict_sorted_iff)
  moreover have "(\<exists>us. traverse (\<lambda>e. validate_name (te_name e)) es = Inr us) \<longleftrightarrow>
      (\<forall>e \<in> set es. validate_name (te_name e) = Inr ())"
    by (induction es) (auto split: sum.splits)
  ultimately show ?thesis
    by (auto simp: from_entries_def and_then_Inr_iff Let_def split: option.splits)
qed

lemma from_entries_wf:
  assumes "from_entries es = Inr t"
  shows "tree_wf t" and "set (entries t) = set es"
proof -
  have "sorted_wrt (<) (map te_name (sort_key te_name es))"
    using assms by (metis (no_types, lifting) from_entries_Inr mset_eq_imp_distinct_iff mset_map mset_sort
        sorted_sort_key strict_sorted_iff)
  with assms show "tree_wf t" "set (entries t) = set es"
    by (auto simp: from_entries_Inr tree_wf_def names_ok_def)
qed

subsection \<open>Wire form\<close>

fun entry_kind_name :: "entry_kind \<Rightarrow> string" where
  "entry_kind_name EFile = ''File''"
| "entry_kind_name ETree = ''Tree''"
| "entry_kind_name ESymlink = ''Symlink''"
| "entry_kind_name ESealed = ''Sealed''"
| "entry_kind_name EConflict = ''Conflict''"
| "entry_kind_name ESubmodule = ''Submodule''"

definition entry_kind_of :: "cbor_value \<Rightarrow> entry_kind option" where
  "entry_kind_of v =
     (case read_text v of
        None \<Rightarrow> None
      | Some n \<Rightarrow>
          List.find (\<lambda>k. entry_kind_name k = n) [EFile, ETree, ESymlink, ESealed, EConflict, ESubmodule])"

definition tree_entry_value :: "tree_entry \<Rightarrow> cbor_value" where
  "tree_entry_value e =
     CMap ([(CText ''name'', CText (te_name e)),
            (CText ''kind'', CText (entry_kind_name (te_kind e))),
            (CText ''target'', hash_value (te_target e)),
            (CText ''mode'', word_value (te_mode e))]
           @ opt_entry ''vis'' CText (te_vis e))"

definition tree_entry_of :: "cbor_value \<Rightarrow> tree_entry option" where
  "tree_entry_of v =
     (case get_field ''name'' read_text v of None \<Rightarrow> None | Some n \<Rightarrow>
      case get_field ''kind'' entry_kind_of v of None \<Rightarrow> None | Some k \<Rightarrow>
      case get_field ''target'' read_hash v of None \<Rightarrow> None | Some t \<Rightarrow>
      case get_field ''mode'' read_u32 v of None \<Rightarrow> None | Some m \<Rightarrow>
      case get_option ''vis'' read_text v of None \<Rightarrow> None | Some vis \<Rightarrow>
        Some \<lparr>te_name = n, te_kind = k, te_target = t, te_mode = m, te_vis = vis\<rparr>)"

definition tree_value :: "tree \<Rightarrow> cbor_value" where
  "tree_value t = CMap [(CText ''entries'', CArray (map tree_entry_value (entries t)))]"

definition tree_of :: "cbor_value \<Rightarrow> tree option" where
  "tree_of v = (case get_field ''entries'' (read_list tree_entry_of) v of
     None \<Rightarrow> None | Some es \<Rightarrow> Some \<lparr>entries = es\<rparr>)"

definition encode_tree :: "'x ext_scheme \<Rightarrow> tree \<Rightarrow> core_error + raw_object" where
  "encode_tree X = encode X KTree tree_value"

definition decode_tree :: "'x ext_scheme \<Rightarrow> raw_object \<Rightarrow> core_error + tree" where
  "decode_tree X = decode X KTree tree_of"

lemma entry_kind_of_name [simp]: "entry_kind_of (CText (entry_kind_name k)) = Some k"
  by (cases k) (simp_all add: entry_kind_of_def)

lemma blind_entry_kind [blind_intros]: "order_blind entry_kind_of"
  by (rule blind_leaf) (simp_all add: entry_kind_of_def)

lemma tree_entry_fields:
  "get_field ''name'' read_text (tree_entry_value e) = Some (te_name e)"
  "get_field ''kind'' entry_kind_of (tree_entry_value e) = Some (te_kind e)"
  "get_field ''target'' read_hash (tree_entry_value e) = Some (te_target e)"
  "get_field ''mode'' read_u32 (tree_entry_value e) = Some (te_mode e)"
  "get_option ''vis'' read_text (tree_entry_value e) = Some (te_vis e)"
  by (cases "te_vis e"; simp add: tree_entry_value_def get_field_def get_option_def opt_entry_def)+

lemma tree_entry_of_value [simp]: "tree_entry_of (tree_entry_value e) = Some e"
  by (simp add: tree_entry_of_def tree_entry_fields)

lemma blind_tree_entry [blind_intros]: "order_blind tree_entry_of"
  unfolding tree_entry_of_def by (intro blind_intros)

interpretation tree_codec: codec KTree tree_value tree_of
proof (unfold_locales)
  show "order_blind tree_of" unfolding tree_of_def by (intro blind_intros)
  show "tree_of (tree_value t) = Some t" for t
    by (simp add: tree_of_def tree_value_def get_field_def)
  have "struct_like (tree_entry_value e)" for e
    by (cases "te_vis e") (simp_all add: tree_entry_value_def opt_entry_def)
  then show "struct_like (tree_value t)" for t by (auto simp: tree_value_def)
  have "cbor_fits n (tree_entry_value e)" if "n > 0" for e n
    using that by (cases "te_vis e") (simp_all add: tree_entry_value_def opt_entry_def)
  then show "cbor_fits 255 (tree_value t)" for t by (simp add: tree_value_def)
qed

section \<open>Snapshots\<close>

record snapshot =
  sn_parents :: "hash list"
  sn_tree :: hash
  sn_author :: principal_id
  sn_timestamp_ns :: u64
  sn_message :: "string option"
  sn_op_id :: "op_id option"

definition snapshot_value :: "snapshot \<Rightarrow> cbor_value" where
  "snapshot_value s =
     CMap ([(CText ''parents'', CArray (map hash_value (sn_parents s))),
            (CText ''tree'', hash_value (sn_tree s)),
            (CText ''author'', CText (sn_author s)),
            (CText ''timestamp_ns'', word_value (sn_timestamp_ns s))]
           @ opt_entry ''message'' CText (sn_message s)
           @ opt_entry ''op_id'' word_value (sn_op_id s))"

definition snapshot_of :: "cbor_value \<Rightarrow> snapshot option" where
  "snapshot_of v =
     (case get_field ''parents'' (read_list read_hash) v of None \<Rightarrow> None | Some ps \<Rightarrow>
      case get_field ''tree'' read_hash v of None \<Rightarrow> None | Some t \<Rightarrow>
      case get_field ''author'' read_text v of None \<Rightarrow> None | Some a \<Rightarrow>
      case get_field ''timestamp_ns'' read_u64 v of None \<Rightarrow> None | Some ts \<Rightarrow>
      case get_option ''message'' read_text v of None \<Rightarrow> None | Some m \<Rightarrow>
      case get_option ''op_id'' read_u64 v of None \<Rightarrow> None | Some oid \<Rightarrow>
        Some \<lparr>sn_parents = ps, sn_tree = t, sn_author = a, sn_timestamp_ns = ts,
              sn_message = m, sn_op_id = oid\<rparr>)"

definition encode_snapshot :: "'x ext_scheme \<Rightarrow> snapshot \<Rightarrow> core_error + raw_object" where
  "encode_snapshot X = encode X KSnapshot snapshot_value"

definition decode_snapshot :: "'x ext_scheme \<Rightarrow> raw_object \<Rightarrow> core_error + snapshot" where
  "decode_snapshot X = decode X KSnapshot snapshot_of"

lemma snapshot_fields:
  "get_field ''parents'' (read_list read_hash) (snapshot_value s) = Some (sn_parents s)"
  "get_field ''tree'' read_hash (snapshot_value s) = Some (sn_tree s)"
  "get_field ''author'' read_text (snapshot_value s) = Some (sn_author s)"
  "get_field ''timestamp_ns'' read_u64 (snapshot_value s) = Some (sn_timestamp_ns s)"
  "get_option ''message'' read_text (snapshot_value s) = Some (sn_message s)"
  "get_option ''op_id'' read_u64 (snapshot_value s) = Some (sn_op_id s)"
  by (cases "sn_message s"; cases "sn_op_id s";
      simp add: snapshot_value_def get_field_def get_option_def opt_entry_def)+

lemma snapshot_of_value [simp]: "snapshot_of (snapshot_value s) = Some s"
  by (simp add: snapshot_of_def snapshot_fields)

interpretation snapshot_codec: codec KSnapshot snapshot_value snapshot_of
proof (unfold_locales)
  show "order_blind snapshot_of" unfolding snapshot_of_def by (intro blind_intros)
  show "struct_like (snapshot_value s)" for s
    by (cases "sn_message s"; cases "sn_op_id s") (auto simp: snapshot_value_def opt_entry_def)
  show "cbor_fits 255 (snapshot_value s)" for s
    by (cases "sn_message s"; cases "sn_op_id s") (auto simp: snapshot_value_def opt_entry_def)
qed simp

section \<open>Sealed payloads\<close>

datatype seal_algo = X25519XChaCha20Poly1305

record recipient_wrap =
  recipient_pk :: bytes
  wrapped_key :: bytes
  wrap_nonce :: bytes

record sealed =
  sl_algo :: seal_algo
  sl_ephemeral_pk :: bytes
  sl_recipients :: "recipient_wrap list"
  sl_ciphertext :: bytes
  sl_nonce :: bytes
  sl_aad :: bytes

definition recipient_for :: "sealed \<Rightarrow> bytes \<Rightarrow> recipient_wrap option" where
  "recipient_for s pk = List.find (\<lambda>r. recipient_pk r = pk) (sl_recipients s)"

definition algo_name :: string where
  "algo_name = ''X25519XChaCha20Poly1305''"

definition algo_of :: "cbor_value \<Rightarrow> seal_algo option" where
  "algo_of v = (if v = CText algo_name then Some X25519XChaCha20Poly1305 else None)"

definition wrap_value :: "recipient_wrap \<Rightarrow> cbor_value" where
  "wrap_value w =
     CMap [(CText ''recipient_pk'', CBytes (recipient_pk w)),
           (CText ''wrapped_key'', CBytes (wrapped_key w)),
           (CText ''wrap_nonce'', CBytes (wrap_nonce w))]"

definition wrap_of :: "cbor_value \<Rightarrow> recipient_wrap option" where
  "wrap_of v =
     (case get_field ''recipient_pk'' read_bytes v of None \<Rightarrow> None | Some pk \<Rightarrow>
      case get_field ''wrapped_key'' read_bytes v of None \<Rightarrow> None | Some wk \<Rightarrow>
      case get_field ''wrap_nonce'' read_bytes v of None \<Rightarrow> None | Some wn \<Rightarrow>
        Some \<lparr>recipient_pk = pk, wrapped_key = wk, wrap_nonce = wn\<rparr>)"

definition sealed_value :: "sealed \<Rightarrow> cbor_value" where
  "sealed_value s =
     CMap [(CText ''algo'', CText algo_name),
           (CText ''ephemeral_pk'', CBytes (sl_ephemeral_pk s)),
           (CText ''recipients'', CArray (map wrap_value (sl_recipients s))),
           (CText ''ciphertext'', CBytes (sl_ciphertext s)),
           (CText ''nonce'', CBytes (sl_nonce s)),
           (CText ''aad'', CBytes (sl_aad s))]"

definition sealed_of :: "cbor_value \<Rightarrow> sealed option" where
  "sealed_of v =
     (case get_field ''algo'' algo_of v of None \<Rightarrow> None | Some al \<Rightarrow>
      case get_field ''ephemeral_pk'' read_bytes v of None \<Rightarrow> None | Some ep \<Rightarrow>
      case get_field ''recipients'' (read_list wrap_of) v of None \<Rightarrow> None | Some rs \<Rightarrow>
      case get_field ''ciphertext'' read_bytes v of None \<Rightarrow> None | Some ct \<Rightarrow>
      case get_field ''nonce'' read_bytes v of None \<Rightarrow> None | Some n \<Rightarrow>
      case get_field ''aad'' read_bytes v of None \<Rightarrow> None | Some ad \<Rightarrow>
        Some \<lparr>sl_algo = al, sl_ephemeral_pk = ep, sl_recipients = rs, sl_ciphertext = ct,
              sl_nonce = n, sl_aad = ad\<rparr>)"

definition encode_sealed :: "'x ext_scheme \<Rightarrow> sealed \<Rightarrow> core_error + raw_object" where
  "encode_sealed X = encode X KSealed sealed_value"

definition decode_sealed :: "'x ext_scheme \<Rightarrow> raw_object \<Rightarrow> core_error + sealed" where
  "decode_sealed X = decode X KSealed sealed_of"

lemma blind_algo [blind_intros]: "order_blind algo_of"
  by (rule blind_leaf) (simp_all add: algo_of_def)

lemma blind_wrap [blind_intros]: "order_blind wrap_of"
  unfolding wrap_of_def by (intro blind_intros)

lemma wrap_of_value [simp]: "wrap_of (wrap_value w) = Some w"
  by (simp add: wrap_of_def wrap_value_def get_field_def)

lemma wrap_value_struct [simp]: "struct_like (wrap_value w)" "n > 0 \<Longrightarrow> cbor_fits n (wrap_value w)"
  by (simp_all add: wrap_value_def)

lemma sealed_fields:
  "get_field ''algo'' algo_of (sealed_value s) = Some (sl_algo s)"
  "get_field ''ephemeral_pk'' read_bytes (sealed_value s) = Some (sl_ephemeral_pk s)"
  "get_field ''recipients'' (read_list wrap_of) (sealed_value s) = Some (sl_recipients s)"
  "get_field ''ciphertext'' read_bytes (sealed_value s) = Some (sl_ciphertext s)"
  "get_field ''nonce'' read_bytes (sealed_value s) = Some (sl_nonce s)"
  "get_field ''aad'' read_bytes (sealed_value s) = Some (sl_aad s)"
  by (cases "sl_algo s"; simp add: sealed_value_def get_field_def algo_of_def)+

interpretation sealed_codec: codec KSealed sealed_value sealed_of
proof (unfold_locales)
  show "order_blind sealed_of" unfolding sealed_of_def by (intro blind_intros)
  show "sealed_of (sealed_value s) = Some s" for s
    by (simp add: sealed_of_def sealed_fields)
qed (auto simp: sealed_value_def algo_name_def)

end
