(* ===== verification/Core_Change.thy ===== *)
theory Core_Change
  imports Core_Objects
begin

text \<open>
  \<^verbatim>\<open>tig-core/src/change.rs\<close> and \<^verbatim>\<open>vis.rs\<close>: the mutable change record with its history, and the
  visibility labels with the two policy decisions every daemon endpoint goes through.
\<close>

section \<open>Visibility\<close>

datatype vis_label = VPublic | VPrivate | VOrg string | VTeam string | VPrincipal principal_id

fun vis_name :: "vis_label \<Rightarrow> string" where
  "vis_name VPublic = ''public''"
| "vis_name VPrivate = ''private''"
| "vis_name (VOrg _) = ''org''"
| "vis_name (VTeam _) = ''team''"
| "vis_name (VPrincipal _) = ''principal''"

fun can_see :: "vis_label \<Rightarrow> principal_id \<Rightarrow> principal_id option \<Rightarrow> bool" where
  "can_see VPublic author caller = True"
| "can_see VPrivate author caller = (case caller of Some c \<Rightarrow> c = author | None \<Rightarrow> False)"
| "can_see (VOrg _) author caller = (case caller of Some c \<Rightarrow> c = author | None \<Rightarrow> False)"
| "can_see (VTeam _) author caller = (case caller of Some c \<Rightarrow> c = author | None \<Rightarrow> False)"
| "can_see (VPrincipal allowed) author caller =
     (case caller of Some c \<Rightarrow> c = author \<or> c = allowed | None \<Rightarrow> False)"

definition can_mutate :: "principal_id \<Rightarrow> principal_id option \<Rightarrow> bool" where
  "can_mutate author caller = (case caller of Some c \<Rightarrow> c = author | None \<Rightarrow> False)"

lemma can_mutate_sees: "can_mutate author caller \<Longrightarrow> can_see v author caller"
  by (cases v) (auto simp: can_mutate_def split: option.splits)

lemma can_see_audience:
  "can_see v author caller \<longleftrightarrow>
     v = VPublic \<or> caller = Some author \<or> (\<exists>p. v = VPrincipal p \<and> caller = Some p)"
  by (cases v) (auto split: option.splits)

section \<open>Changes\<close>

datatype change_state = SWorking | SDraft | SReview | SLanded | SAbandoned

record change =
  ch_id :: change_id
  ch_current :: hash
  ch_bookmark :: "string option"
  ch_description :: string
  ch_state :: change_state
  ch_history :: "hash list"
  ch_author :: principal_id
  ch_visibility :: vis_label

definition default_anonymous_author :: principal_id where
  "default_anonymous_author = ''local:anonymous''"

text \<open>\<^verbatim>\<open>Change::new\<close>; the fresh ULID is the argument \<open>cid\<close>.\<close>

definition change_new :: "change_id \<Rightarrow> string \<Rightarrow> principal_id \<Rightarrow> hash \<Rightarrow> change" where
  "change_new cid description author initial =
     \<lparr>ch_id = cid, ch_current = initial, ch_bookmark = None, ch_description = description,
      ch_state = SWorking, ch_history = [initial], ch_author = author, ch_visibility = VPublic\<rparr>"

definition new_private_draft :: "change_id \<Rightarrow> string \<Rightarrow> principal_id \<Rightarrow> hash \<Rightarrow> change" where
  "new_private_draft cid description author initial =
     (change_new cid description author initial)\<lparr>ch_state := SDraft, ch_visibility := VPrivate\<rparr>"

definition advance :: "change \<Rightarrow> hash \<Rightarrow> change" where
  "advance c h =
     (if ch_current c \<noteq> h then c\<lparr>ch_current := h, ch_history := ch_history c @ [h]\<rparr> else c)"

text \<open>
  The invariant of a change: its history ends in the snapshot it points at, and no step of the
  history stands still.
\<close>

definition change_ok :: "change \<Rightarrow> bool" where
  "change_ok c \<longleftrightarrow>
     ch_history c \<noteq> [] \<and> last (ch_history c) = ch_current c
     \<and> successively (\<noteq>) (ch_history c)"

lemma change_new_ok: "change_ok (change_new cid d a h)" "change_ok (new_private_draft cid d a h)"
  by (simp_all add: change_ok_def change_new_def new_private_draft_def)

lemma advance_ok: "change_ok c \<Longrightarrow> change_ok (advance c h)"
  by (auto simp: change_ok_def advance_def successively_append_iff)

lemma advance_simps [simp]:
  "ch_current (advance c h) = h" "ch_id (advance c h) = ch_id c" "ch_author (advance c h) = ch_author c"
  "ch_visibility (advance c h) = ch_visibility c" "ch_bookmark (advance c h) = ch_bookmark c"
  "ch_state (advance c h) = ch_state c" "ch_description (advance c h) = ch_description c"
  by (simp_all add: advance_def)

lemma advance_idem [simp]: "advance (advance c h) h = advance c h"
  by (simp add: advance_def)

lemma advance_history_set: "change_ok c \<Longrightarrow> set (ch_history (advance c h)) = insert h (set (ch_history c))"
  using last_in_set [of "ch_history c"] by (auto simp: advance_def change_ok_def)

end
