(* ===== verification/Demo.thy ===== *)
theory Demo
  imports Core_Hash "HOL-Library.Code_Target_Nat"
begin

text \<open>
  One concrete instance of the third-party packages, used only to show that the laws other
  theories assume can hold and to evaluate the model on concrete inputs: hexadecimal text as
  it is, a prefix code for CBOR values, and a 16-bit polynomial checksum in the place of BLAKE3.
\<close>

section \<open>Hexadecimal text\<close>

definition hex_value :: "char \<Rightarrow> u8 option" where
  "hex_value c =
     (if CHR ''0'' \<le> c \<and> c \<le> CHR ''9'' then Some (of_nat (of_char c - 48))
      else if CHR ''a'' \<le> c \<and> c \<le> CHR ''f'' then Some (of_nat (of_char c - 87))
      else if CHR ''A'' \<le> c \<and> c \<le> CHR ''F'' then Some (of_nat (of_char c - 55))
      else None)"

definition hex_byte :: "u8 \<Rightarrow> string" where
  "hex_byte b = (let n = unat b in [hex_digits ! (n div 16), hex_digits ! (n mod 16)])"

definition to_hex_text :: "bytes \<Rightarrow> string" where
  "to_hex_text b = concat (map hex_byte b)"

fun of_hex_text :: "string \<Rightarrow> bytes option" where
  "of_hex_text [] = Some []"
| "of_hex_text [c] = None"
| "of_hex_text (c # d # s) =
     (case (hex_value c, hex_value d) of
        (Some x, Some y) \<Rightarrow> map_option ((#) (16 * x + y)) (of_hex_text s)
      | _ \<Rightarrow> None)"

lemma unat_of_nat_len: "k < 2 ^ LENGTH('a :: len) \<Longrightarrow> unat (of_nat k :: 'a word) = k"
  by (simp add: unat_of_nat)

lemma hex_digit_props:
  "\<forall>d \<in> set [0..<16]. hex_value (hex_digits ! d) = Some (of_nat d) \<and> hex_digits ! d \<in> set hex_digits"
  by code_simp

lemma nibbles: "unat (b :: u8) div 16 < 16" "unat b mod 16 < 16"
proof -
  have "unat b < 256" by (rule order.strict_trans2 [OF unsigned_less]) simp
  then show "unat b div 16 < 16" "unat b mod 16 < 16" by simp_all
qed

lemma hex_nibbles:
  "hex_value (hex_digits ! (unat b div 16)) = Some (of_nat (unat b div 16))"
  "hex_value (hex_digits ! (unat b mod 16)) = Some (of_nat (unat b mod 16))"
  "hex_digits ! (unat b div 16) \<in> set hex_digits" "hex_digits ! (unat b mod 16) \<in> set hex_digits"
  for b :: u8
  using hex_digit_props nibbles [of b] by (simp_all add: Ball_def)

lemma nibbles_join: "(16 * of_nat (unat b div 16) + of_nat (unat b mod 16) :: u8) = b"
proof -
  have "(16 * of_nat (unat b div 16) + of_nat (unat b mod 16) :: u8) = of_nat (16 * (unat b div 16) + unat b mod 16)"
    by (simp only: of_nat_add of_nat_mult of_nat_numeral)
  also have "16 * (unat b div 16) + unat b mod 16 = unat b" by (rule mult_div_mod_eq)
  finally show ?thesis by simp
qed

lemma of_hex_to_hex [simp]: "of_hex_text (to_hex_text b) = Some b"
  by (induction b) (simp_all add: to_hex_text_def hex_byte_def Let_def hex_nibbles nibbles_join)

section \<open>Evaluation\<close>

text \<open>For the evaluator: the combinators as case distinctions, which it evaluates lazily.\<close>

lemma combinators_unfold [code_unfold]:
  "and_then r k = (case r of Inl e \<Rightarrow> Inl e | Inr a \<Rightarrow> k a)"
  "bindE m f = (\<lambda>s. case m s of (Inl e, t) \<Rightarrow> (Inl e, t) | (Inr a, t) \<Rightarrow> f a t)"
  by (simp_all add: and_then_def bindE_def fun_eq_iff)

section \<open>A prefix code for CBOR values\<close>

function put_nat :: "nat \<Rightarrow> bytes" where
  "put_nat n = (if n < 128 then [of_nat n] else of_nat (128 + n mod 128) # put_nat (n div 128))"
  by pat_completeness auto

termination by (relation "measure id") auto

declare put_nat.simps [simp del]

fun get_nat :: "bytes \<Rightarrow> (nat \<times> bytes) option" where
  "get_nat [] = None"
| "get_nat (b # bs) =
     (if b < 128 then Some (unat b, bs)
      else case get_nat bs of None \<Rightarrow> None | Some (m, r) \<Rightarrow> Some (unat b - 128 + 128 * m, r))"

lemma get_put_nat [simp]: "get_nat (put_nat n @ r) = Some (n, r)"
proof (induction n rule: put_nat.induct)
  case (1 n)
  show ?case
  proof (cases "n < 128")
    case True
    then show ?thesis by (subst put_nat.simps) (simp add: word_less_nat_alt unat_of_nat)
  next
    case False
    have "n mod 128 < 128" by simp
    then have "128 + n mod 128 < 2 ^ LENGTH(8)" by simp
    then have "unat (of_nat (128 + n mod 128) :: u8) = 128 + n mod 128" by (rule unat_of_nat_len)
    then show ?thesis using False 1
      by (subst put_nat.simps) (simp add: word_less_nat_alt)
  qed
qed

text \<open>Byte strings end in 255; 254 escapes the two reserved bytes.\<close>

fun put_bytes :: "bytes \<Rightarrow> bytes" where
  "put_bytes [] = [255]"
| "put_bytes (b # bs) = (if b = 255 \<or> b = 254 then 254 # b # put_bytes bs else b # put_bytes bs)"

fun get_bytes :: "bytes \<Rightarrow> (bytes \<times> bytes) option" where
  "get_bytes [] = None"
| "get_bytes (b # bs) =
     (if b = 255 then Some ([], bs)
      else if b = 254
      then (case bs of [] \<Rightarrow> None
            | x # r \<Rightarrow> (case get_bytes r of None \<Rightarrow> None | Some (ys, q) \<Rightarrow> Some (x # ys, q)))
      else (case get_bytes bs of None \<Rightarrow> None | Some (ys, q) \<Rightarrow> Some (b # ys, q)))"

lemma get_put_bytes [simp]: "get_bytes (put_bytes b @ r) = Some (b, r)"
  by (induction b) auto

text \<open>Frequent texts, the field names among them, have one-byte codes.\<close>

definition text_codes :: "(string \<times> u8) list" where
  "text_codes =
    [(''entries'', 0), (''name'', 1), (''kind'', 2), (''target'', 3), (''mode'', 4), (''vis'', 5),
     (''bytes'', 6), (''file'', 7), (''tree'', 8), (''symlink'', 9), (''sealed'', 10), (''parents'',
     11), (''author'', 12), (''timestamp_ns'', 13), (''message'', 14), (''op_id'', 15), (''id'', 16),
     (''ts_ns'', 17), (''actor'', 18), (''before'', 19), (''after'', 20), (''value'', 21),
     (''snapshot'', 22), (''current'', 23), (''bookmark'', 24), (''description'', 25), (''state'',
     26), (''history'', 27), (''visibility'', 28)]"

definition text_of_code :: "u8 \<Rightarrow> string option" where
  "text_of_code w = map_option fst (List.find (\<lambda>e. snd e = w) text_codes)"

lemma text_codes_ok: "list_all (\<lambda>e. text_of_code (snd e) = Some (fst e)) text_codes"
  by code_simp

lemma text_of_code_of: "map_of text_codes s = Some w \<Longrightarrow> text_of_code w = Some s"
  using text_codes_ok by (fastforce simp: list_all_iff dest: map_of_SomeD)

fun put_value :: "cbor_value \<Rightarrow> bytes" where
  "put_value (CInt i) = (if 0 \<le> i then 0 # put_nat (nat i) else 1 # put_nat (nat (- i)))"
| "put_value (CBytes b) = 2 # put_bytes b"
| "put_value (CText s) =
     (case map_of text_codes s of Some w \<Rightarrow> [11, w] | None \<Rightarrow> 3 # put_bytes (str_bytes s))"
| "put_value (CBool b) = [if b then 4 else 5]"
| "put_value CNull = [6]"
| "put_value (CTag t v) = 7 # put_nat t @ put_value v"
| "put_value (CArray vs) = 8 # put_nat (length vs) @ concat (map put_value vs)"
| "put_value (CMap es) =
     9 # put_nat (length es) @ concat (map (\<lambda>e. put_value (fst e) @ put_value (snd e)) es)"
| "put_value (CFloat w) = [10]"

fun pair_up :: "'a list \<Rightarrow> ('a \<times> 'a) list" where
  "pair_up (x # y # zs) = (x, y) # pair_up zs"
| "pair_up _ = []"

function get_value :: "nat \<Rightarrow> bytes \<Rightarrow> (cbor_value \<times> bytes) option"
  and get_values :: "nat \<Rightarrow> nat \<Rightarrow> bytes \<Rightarrow> (cbor_value list \<times> bytes) option" where
  "get_value fuel bs =
     (if fuel = 0 \<or> bs = [] then None
      else let t = hd bs; r = tl bs in
        if t = 2 then map_option (\<lambda>(b, q). (CBytes b, q)) (get_bytes r)
        else if t = 3 then map_option (\<lambda>(b, q). (CText (bytes_str b), q)) (get_bytes r)
        else if t = 11 then
          (case r of [] \<Rightarrow> None | w # q \<Rightarrow> map_option (\<lambda>s. (CText s, q)) (text_of_code w))
        else if t = 4 then Some (CBool True, r) else if t = 5 then Some (CBool False, r)
        else if t = 6 then Some (CNull, r)
        else case get_nat r of None \<Rightarrow> None | Some (n, r) \<Rightarrow>
          if t = 0 then Some (CInt (int n), r)
          else if t = 1 then Some (CInt (- int n), r)
          else if t = 7 then (case get_value (fuel - 1) r of None \<Rightarrow> None | Some (v, r) \<Rightarrow> Some (CTag n v, r))
          else if t = 8 then (case get_values (fuel - 1) n r of None \<Rightarrow> None | Some (vs, r) \<Rightarrow> Some (CArray vs, r))
          else if t = 9 then
            (case get_values (fuel - 1) (2 * n) r of None \<Rightarrow> None | Some (vs, r) \<Rightarrow> Some (CMap (pair_up vs), r))
          else None)"
| "get_values fuel n bs =
     (if n = 0 then Some ([], bs)
      else case get_value fuel bs of None \<Rightarrow> None | Some (v, r) \<Rightarrow>
        (case get_values fuel (n - 1) r of None \<Rightarrow> None | Some (vs, r) \<Rightarrow> Some (v # vs, r)))"
  by pat_completeness auto

termination
  by (relation "measures [case_sum (\<lambda>(f, b). f) (\<lambda>(f, n, b). f), case_sum (\<lambda>(f, b). 0) (\<lambda>(f, n, b). n)]")
    auto

declare get_value.simps [simp del] get_values.simps [simp del]

lemma get_values_put:
  "(\<And>v r. v \<in> set vs \<Longrightarrow> get_value f (put_value v @ r) = Some (v, r)) \<Longrightarrow>
   get_values f (length vs) (concat (map put_value vs) @ r) = Some (vs, r)"
proof (induction vs arbitrary: r)
  case Nil
  then show ?case by (simp add: get_values.simps)
next
  case (Cons v vs)
  then show ?case by (subst get_values.simps) simp
qed

lemma pair_up_concat: "pair_up (concat (map (\<lambda>e. [fst e, snd e]) es)) = es"
  by (induction es) auto

lemma concat_pairs:
  "concat (map put_value (concat (map (\<lambda>e. [fst e, snd e]) es)))
     = concat (map (\<lambda>e. put_value (fst e) @ put_value (snd e)) es)"
  "length (concat (map (\<lambda>e. [fst e, snd e]) es)) = 2 * length es"
  by (induction es) auto

lemma get_put_value: "cbor_fits n v \<Longrightarrow> get_value (Suc n) (put_value v @ r) = Some (v, r)"
proof (induction v arbitrary: n r)
  case (CArray vs)
  then have "get_value n (put_value v @ q) = Some (v, q)" if "v \<in> set vs" for v q
    using that by (cases n) auto
  then show ?case by (subst get_value.simps) (simp add: get_values_put)
next
  case (CMap es)
  have each: "get_value n (put_value v @ q) = Some (v, q)"
    if mem: "v \<in> set (concat (map (\<lambda>e. [fst e, snd e]) es))" for v q
  proof -
    obtain e where e: "e \<in> set es" "v = fst e \<or> v = snd e" using mem by auto
    with CMap.prems have "cbor_fits (n - 1) v" "n = Suc (n - 1)" by auto
    moreover have "v \<in> Basic_BNFs.fsts e \<or> v \<in> Basic_BNFs.snds e"
      using e(2) by (cases e) (auto simp: fsts.simps snds.simps)
    ultimately show ?thesis using CMap.IH e(1) by metis
  qed
  let ?flat = "concat (map (\<lambda>e. [fst e, snd e]) es)"
  have "get_values n (length ?flat) (concat (map put_value ?flat) @ r) = Some (?flat, r)"
    by (rule get_values_put) (rule each)
  then have "get_values n (2 * length es) (concat (map (\<lambda>e. put_value (fst e) @ put_value (snd e)) es) @ r)
      = Some (?flat, r)" by (simp only: concat_pairs)
  then show ?case by (subst get_value.simps) (simp add: pair_up_concat)
next
  case (CTag t v)
  then obtain m where "n = Suc m" "cbor_fits m v" by (cases n) auto
  with CTag.IH show ?case by (subst get_value.simps) simp
next
  case (CText s)
  then show ?case
    by (cases "map_of text_codes s") (subst get_value.simps, simp add: text_of_code_of)+
qed (subst get_value.simps, simp)+

section \<open>The instance\<close>

definition checksum :: "bytes \<Rightarrow> int" where
  "checksum b = foldl (\<lambda>a x. (a * 5 + uint x + 1) mod 65536) 7 b"

definition demo_hash :: "bytes \<Rightarrow> b32" where
  "demo_hash b =
     (let c = checksum b in
      b32_of (replicate 30 0 @ map word_of_int [c div 256, c mod 256]))"

definition demo_write :: "cbor_value \<Rightarrow> bytes option" where
  "demo_write v = Some (put_value v)"

definition demo_read :: "bytes \<Rightarrow> cbor_value option" where
  "demo_read b = map_option fst (get_value 256 b)"

definition demo :: ext where
  "demo = \<lparr>blake3 = demo_hash, hex_encode = to_hex_text, hex_decode = of_hex_text,
     cbor_write = demo_write, cbor_read = demo_read\<rparr>"

lemma demo_hex: "hex_laws demo"
proof -
  have "length (to_hex_text b) = 2 * length b" for b
    by (induction b) (simp_all add: to_hex_text_def hex_byte_def Let_def)
  moreover have "to_hex_text (a @ b) = to_hex_text a @ to_hex_text b" for a b
    by (simp add: to_hex_text_def)
  moreover have "set (to_hex_text b) \<subseteq> set hex_digits" for b
    using hex_nibbles(3,4) by (auto simp: to_hex_text_def hex_byte_def Let_def)
  ultimately show ?thesis by (simp add: hex_laws_def demo_def)
qed

lemma demo_cbor: "cbor_laws demo"
proof -
  have "get_value 256 (put_value v) = Some (v, [])" if "cbor_fits 255 v" for v
    using get_put_value [OF that, of "[]"] by simp
  then show ?thesis by (simp add: cbor_laws_def demo_def demo_write_def demo_read_def)
qed

end
