(* ===== verification/Core_Theorems.thy ===== *)
theory Core_Theorems
  imports Core_Change Demo
begin

text \<open>
  The properties of \<^verbatim>\<open>tig-core\<close>: what encoding, hashing and the tree type promise to everything
  above them. Each has an instance on the concrete packages of the theory Demo.
\<close>

section \<open>Encoding\<close>

text \<open>C21. Every tree, snapshot, blob and sealed object can be encoded, the encoding carries the
  kind of its type, and decoding it gives the same object back although the canonical form has
  re-ordered the fields. Two objects of one type have the same encoding only if they are equal.\<close>

theorem objects_roundtrip:
  assumes "cbor_laws X"
  shows "(\<exists>raw. encode_tree X t = Inr raw \<and> raw_kind raw = KTree \<and> decode_tree X raw = Inr t
        \<and> (\<forall>t'. encode_tree X t' = Inr raw \<longleftrightarrow> t' = t))
    \<and> (\<exists>raw. encode_snapshot X sn = Inr raw \<and> raw_kind raw = KSnapshot \<and> decode_snapshot X raw = Inr sn
        \<and> (\<forall>sn'. encode_snapshot X sn' = Inr raw \<longleftrightarrow> sn' = sn))
    \<and> (\<exists>raw. encode_blob X b = Inr raw \<and> raw_kind raw = KBlob \<and> decode_blob X raw = Inr b
        \<and> (\<forall>b'. encode_blob X b' = Inr raw \<longleftrightarrow> b' = b))
    \<and> (\<exists>raw. encode_sealed X sl = Inr raw \<and> raw_kind raw = KSealed \<and> decode_sealed X raw = Inr sl
        \<and> (\<forall>sl'. encode_sealed X sl' = Inr raw \<longleftrightarrow> sl' = sl))"
  unfolding encode_tree_def decode_tree_def encode_snapshot_def decode_snapshot_def
    encode_blob_def decode_blob_def encode_sealed_def decode_sealed_def
  by (intro conjI tree_codec.roundtrip snapshot_codec.roundtrip blob_codec.roundtrip
      sealed_codec.roundtrip assms)

text \<open>A small tree, with a symbolic link in it.\<close>

definition demo_entry :: "string \<Rightarrow> entry_kind \<Rightarrow> file_mode \<Rightarrow> tree_entry" where
  "demo_entry n k m = \<lparr>te_name = n, te_kind = k, te_target = Hash (demo_hash (str_bytes n)), te_mode = m, te_vis = None\<rparr>"

definition demo_tree :: tree where
  "demo_tree = \<lparr>entries = [demo_entry ''a'' EFile mode_regular, demo_entry ''c'' ESymlink mode_symlink]\<rparr>"

theorem objects_roundtrip_witness:
  "\<exists>raw. encode_tree demo demo_tree = Inr raw \<and> raw_kind raw = KTree \<and> decode_tree demo raw = Inr demo_tree"
  using objects_roundtrip [OF demo_cbor, of demo_tree undefined undefined undefined] by blast

text \<open>C22. The canonical form does not depend on the order in which an encoder emits the fields of a
  struct, at any depth, and running it on its own output changes nothing: one logical object has
  one sequence of bytes, and so one hash.\<close>

theorem canonical_form_unique:
  assumes "cbor_laws X" and "struct_like v" and "cbor_fits 255 v" and "reordered v w"
  shows "canonical_encode X v = canonical_encode X w
    \<and> (\<exists>c b. canonicalize X v = Inr c \<and> sorted_maps X c \<and> canonicalize X c = Inr c
         \<and> canonical_encode X v = Inr b \<and> cbor_read X b = Some c)"
proof -
  obtain c where c: "canonicalize X v = Inr c" "struct_like c" "cbor_fits 255 c" "sorted_maps X c"
    using canonicalize_struct [OF assms(1-3)] by blast
  obtain b where b: "cbor_write X c = Some b" "cbor_read X b = Some c"
    using cbor_write_read [OF assms(1) c(3)] by blast
  have "canonicalize X v = canonicalize X w" by (rule canonicalize_reordered [OF assms(1,4,2,3)])
  with c b canonicalize_id [OF assms(1) c(2,4)] show ?thesis by (simp add: canonical_encode_def)
qed

theorem canonical_form_unique_witness:
  "canonical_encode demo (CMap [(CText ''kind'', CInt 1), (CText ''bytes'', CNull)])
     = canonical_encode demo (CMap [(CText ''bytes'', CNull), (CText ''kind'', CInt 1)])"
proof -
  have "reordered (CMap [(CText ''kind'', CInt 1), (CText ''bytes'', CNull)])
      (CMap [(CText ''bytes'', CNull), (CText ''kind'', CInt 1)])"
    by (rule reordered.entries [of _ "[(CText ''kind'', CInt 1), (CText ''bytes'', CNull)]"])
      (auto intro: reordered.same)
  then show ?thesis
    using canonical_form_unique [OF demo_cbor, of "CMap [(CText ''kind'', CInt 1), (CText ''bytes'', CNull)]"]
    by simp
qed

section \<open>Trees\<close>

text \<open>C23. Inserting into a sorted tree with the standard library's binary search keeps it sorted
  with valid, distinct names, and changes what the tree maps at exactly one name; a name that is
  empty, a dot path, or has a slash or a NUL is refused.\<close>

theorem tree_insert_correct:
  assumes "tree_wf t"
  shows "case tree_insert t e of
      Inl err \<Rightarrow> err = CInvalidPathComponent (te_name e) \<and> validate_name (te_name e) = Inl err
    | Inr t' \<Rightarrow> tree_wf t' \<and> (\<forall>n. tree_get t' n = (if n = te_name e then Some e else tree_get t n))"
proof (cases "tree_insert t e")
  case (Inl err)
  then show ?thesis by (auto simp: tree_insert_def validate_name_def split: if_splits)
next
  case (Inr t')
  with tree_insert_Inr [OF assms Inr] show ?thesis by (simp add: tree_get_map [OF assms] tree_get_map)
qed

lemma demo_tree_wf: "tree_wf demo_tree"
  by (simp add: demo_tree_def demo_entry_def tree_wf_def names_ok_def validate_name_def less_char_def)

theorem tree_insert_correct_witness:
  "case tree_insert demo_tree (demo_entry ''b'' EFile mode_exec) of
     Inl _ \<Rightarrow> False
   | Inr t' \<Rightarrow> tree_get t' ''b'' = Some (demo_entry ''b'' EFile mode_exec)"
proof -
  have "validate_name (te_name (demo_entry ''b'' EFile mode_exec)) = Inr ()"
    by (simp add: demo_entry_def validate_name_def)
  then show ?thesis
    using tree_insert_correct [OF demo_tree_wf, of "demo_entry ''b'' EFile mode_exec"]
    by (auto simp: demo_entry_def split: sum.splits)
qed

text \<open>Building a tree from a list of entries succeeds exactly when the names are valid and
  distinct; the tree then holds exactly those entries, sorted, whatever their order was.\<close>

theorem from_entries_correct:
  "case from_entries es of
     Inr t \<Rightarrow> tree_wf t \<and> mset (entries t) = mset es
   | Inl _ \<Rightarrow> \<not> (list_all (\<lambda>e. validate_name (te_name e) = Inr ()) es \<and> distinct (map te_name es))"
proof (cases "from_entries es")
  case (Inr t)
  then have "t = \<lparr>entries = sort_key te_name es\<rparr>" by (simp add: from_entries_Inr)
  with Inr from_entries_wf(1) [OF Inr] show ?thesis by simp
next
  case (Inl err)
  then show ?thesis
    using from_entries_Inr [of es "\<lparr>entries = sort_key te_name es\<rparr>"] by (simp add: list_all_iff)
qed

text \<open>Advancing a change makes the new snapshot current and the last of its history, keeps every
  earlier one, never records a step that stands still, and leaves the rest of the change alone.\<close>

theorem advance_correct:
  assumes "change_ok c"
  shows "change_ok (advance c h) \<and> ch_current (advance c h) = h
    \<and> ch_history (advance c h) = ch_history c @ (if ch_current c = h then [] else [h])
    \<and> advance (advance c h) h = advance c h
    \<and> advance c h = c\<lparr>ch_current := h, ch_history := ch_history (advance c h)\<rparr>"
  using advance_ok [OF assms, of h] by (cases c) (auto simp: advance_def)

theorem advance_correct_witness:
  "change_ok (advance (change_new ''01A'' ''d'' ''local:me'' (Hash (demo_hash []))) (Hash (demo_hash [1])))"
  using advance_correct [OF change_new_ok(1)] by blast

end
