(* ===== verification/Object_Store.thy ===== *)
theory Object_Store
  imports Core_Change
begin

text \<open>
  \<^verbatim>\<open>tig-store/src/objects.rs\<close>: the content-addressed directory \<^verbatim>\<open>objects/<2 hex>/<62 hex>\<close>. Files
  are kept in the order \<^verbatim>\<open>read_dir\<close> lists them. \<open>owritten\<close> is a history variable that no operation
  reads: every object ever handed to \<^verbatim>\<open>put\<close>; freedom of hash collisions is stated on it.
  Failures of the file system other than a missing file are not modelled, and a temporary file
  exists only inside one \<^verbatim>\<open>put\<close>.
\<close>

section \<open>Errors of the store crate\<close>

datatype corrupt_reason =
    ObjectFileEmpty
  | PrefixTooShort string
  | PrefixNotHex string
  | AmbiguousPrefix string "string list"
  | InvalidBookmarkName string
  | OplogEncode
  | OplogRecordTooLarge
  | OplogTruncatedHeader nat
  | OplogTruncatedPayload nat nat
  | OplogDecode nat
  | MarkerUnreadable string

datatype store_error =
    SIo
  | SNotFound string
  | SAlreadyExists string
  | SCore core_error
  | SJson
  | SCorrupt corrupt_reason
  | SPanic

section \<open>The directory\<close>

type_synonym object_path = "string \<times> string"

record objects_dir =
  ofiles :: "(object_path \<times> bytes) list"
  owritten :: "raw_object list"

definition objects_open :: objects_dir where
  "objects_open = \<lparr>ofiles = [], owritten = []\<rparr>"

definition path_for :: "'x ext_scheme \<Rightarrow> hash \<Rightarrow> object_path" where
  "path_for X h = (fanout X h, rest X h)"

definition frame :: "raw_object \<Rightarrow> bytes" where
  "frame obj = kind_tag (raw_kind obj) # raw_bytes obj"

fun unframe :: "bytes \<Rightarrow> store_error + raw_object" where
  "unframe [] = Inl (SCorrupt ObjectFileEmpty)"
| "unframe (tag # payload) =
     and_then (map_err SCore (from_tag tag))
       (\<lambda>kind. Inr \<lparr>raw_kind = kind, raw_bytes = payload\<rparr>)"

definition obj_put ::
  "'x ext_scheme \<Rightarrow> raw_object \<Rightarrow> ('r objects_dir_scheme, store_error, hash) eff" where
  "obj_put X obj r =
     (let h = raw_hash X obj;
          r' = r\<lparr>owritten := owritten r @ [obj]\<rparr>
      in if map_of (ofiles r) (path_for X h) \<noteq> None then (Inr h, r')
         else (Inr h, r'\<lparr>ofiles := ofiles r @ [(path_for X h, frame obj)]\<rparr>))"

definition obj_get :: "'x ext_scheme \<Rightarrow> hash \<Rightarrow> 'r objects_dir_scheme \<Rightarrow> store_error + raw_object" where
  "obj_get X h r =
     (case map_of (ofiles r) (path_for X h) of
        None \<Rightarrow> Inl (SNotFound (to_hex X h))
      | Some bytes \<Rightarrow>
          and_then (unframe bytes)
            (\<lambda>raw. and_then (map_err SCore (verify X raw h)) (\<lambda>_. Inr raw)))"

definition obj_has :: "'x ext_scheme \<Rightarrow> hash \<Rightarrow> 'r objects_dir_scheme \<Rightarrow> bool" where
  "obj_has X h r \<longleftrightarrow> map_of (ofiles r) (path_for X h) \<noteq> None"

definition obj_remove ::
  "'x ext_scheme \<Rightarrow> hash \<Rightarrow> ('r objects_dir_scheme, store_error, unit) eff" where
  "obj_remove X h r = (Inr (), r\<lparr>ofiles := AList.delete (path_for X h) (ofiles r)\<rparr>)"

text \<open>
  \<^verbatim>\<open>iter_all\<close>: the files the sweep visits, with their sizes; names that are not of the shape of
  a hash are passed over. The visitor of the only caller cannot fail, so the walk is a list.
\<close>

definition visited :: "'x ext_scheme \<Rightarrow> object_path \<times> bytes \<Rightarrow> (hash \<times> nat) option" where
  "visited X file =
     (let (shard_name, name) = fst file in
      if starts_with shard_name ''.'' \<or> length shard_name \<noteq> 2 then None
      else if starts_with name ''.'' \<or> length name \<noteq> 62 then None
      else case from_hex X (shard_name @ name) of
             Inl _ \<Rightarrow> None
           | Inr h \<Rightarrow> Some (h, length (snd file)))"

definition iter_all :: "'x ext_scheme \<Rightarrow> 'r objects_dir_scheme \<Rightarrow> (hash \<times> nat) list" where
  "iter_all X r = List.map_filter (visited X) (ofiles r)"

text \<open>
  Prefixes are lower-cased first. Lower-casing never turns a non-ASCII letter into a
  hexadecimal digit, so leaving those letters alone takes the same branches.
\<close>

definition ascii_lower :: "string \<Rightarrow> string" where
  "ascii_lower s =
     map (\<lambda>c. if CHR ''A'' \<le> c \<and> c \<le> CHR ''Z'' then char_of (of_char c + 32 :: nat) else c) s"

definition is_hexdigit :: "char \<Rightarrow> bool" where
  "is_hexdigit c \<longleftrightarrow>
     CHR ''0'' \<le> c \<and> c \<le> CHR ''9'' \<or> CHR ''a'' \<le> c \<and> c \<le> CHR ''f'' \<or> CHR ''A'' \<le> c \<and> c \<le> CHR ''F''"

definition resolve_prefix ::
  "'x ext_scheme \<Rightarrow> string \<Rightarrow> 'r objects_dir_scheme \<Rightarrow> store_error + hash" where
  "resolve_prefix X prefix0 r =
     (if length prefix0 < 4 then Inl (SCorrupt (PrefixTooShort prefix0))
      else let prefix = ascii_lower prefix0 in
        if \<not> list_all is_hexdigit prefix then Inl (SCorrupt (PrefixNotHex prefix))
        else if length prefix = 64
        then and_then (map_err SCore (from_hex X prefix))
               (\<lambda>h. if map_of (ofiles r) (path_for X h) \<noteq> None then Inr h else Inl (SNotFound prefix))
        else
          let fan = take 2 prefix; rest_prefix = drop 2 prefix;
              names = map (\<lambda>f. snd (fst f)) (filter (\<lambda>f. fst (fst f) = fan
                        \<and> \<not> starts_with (snd (fst f)) ''.'' \<and> starts_with (snd (fst f)) rest_prefix) (ofiles r));
              found = map (\<lambda>name. fan @ name) (take 5 names)
          in (case found of
                [] \<Rightarrow> Inl (SNotFound prefix)
              | [m] \<Rightarrow> map_err SCore (from_hex X m)
              | _ \<Rightarrow>
                  if list_ex (\<lambda>m. length m < 16) found then Inl SPanic
                  else Inl (SCorrupt (AmbiguousPrefix prefix (map (take 16) found)))))"

section \<open>What the store promises\<close>

text \<open>
  The contract its clients use. \<open>cf\<close> says that the objects handed to the store so far do not
  collide; \<open>grows\<close> relates a state to the states later writes lead to.
\<close>

locale content_store =
  fixes name_of :: "raw_object \<Rightarrow> hash"
    and put :: "raw_object \<Rightarrow> ('s, store_error, hash) eff"
    and get :: "hash \<Rightarrow> 's \<Rightarrow> store_error + raw_object"
    and ok :: "'s \<Rightarrow> bool"
    and cf :: "'s \<Rightarrow> bool"
    and grows :: "'s \<Rightarrow> 's \<Rightarrow> bool"
  assumes put_total: "\<exists>t. put raw s = (Inr (name_of raw), t)"
    and put_ok: "ok s \<Longrightarrow> put raw s = (r, t) \<Longrightarrow> ok t"
    and put_grows: "put raw s = (r, t) \<Longrightarrow> grows s t"
    and put_get: "ok s \<Longrightarrow> put raw s = (r, t) \<Longrightarrow> cf t \<Longrightarrow> get (name_of raw) t = Inr raw"
    and get_mono: "grows s t \<Longrightarrow> get h s = Inr raw \<Longrightarrow> get h t = Inr raw"
    and get_named: "get h s = Inr raw \<Longrightarrow> name_of raw = h"
    and cf_back: "grows s t \<Longrightarrow> cf t \<Longrightarrow> cf s"
    and grows_refl: "grows s s"
    and grows_trans: "grows s t \<Longrightarrow> grows t u \<Longrightarrow> grows s u"
begin

lemma put_result: "put raw s = (r, t) \<Longrightarrow> r = Inr (name_of raw)"
  using put_total [of raw s] by auto

lemma keeps_put: "keeps grows (put raw)"
  by (rule keepsI) (metis put_grows surjective_pairing)

lemma reflp_grows: "reflp grows" and transp_grows: "transp grows"
  by (auto intro: reflpI transpI grows_refl grows_trans)

text \<open>What was written stays readable through any later writes, until a collision.\<close>

lemma put_then_get:
  "ok s \<Longrightarrow> put raw s = (Inr h, t) \<Longrightarrow> grows t u \<Longrightarrow> cf u \<Longrightarrow> get h u = Inr raw"
  using put_result put_get get_mono cf_back by blast

lemma get_unique: "get h s = Inr a \<Longrightarrow> grows s t \<Longrightarrow> get h t = Inr b \<Longrightarrow> a = b"
  using get_mono by force

text \<open>Two writes under one name were the same object.\<close>

lemma put_twice:
  assumes "ok s" and "put a s = (Inr h, t)" and "put b t = (Inr h, u)" and "cf u"
  shows "a = b"
proof -
  have "get h u = Inr b" using put_then_get [OF put_ok [OF assms(1,2)] assms(3) grows_refl assms(4)] .
  moreover have "get h u = Inr a" using put_then_get [OF assms(1,2) put_grows [OF assms(3)] assms(4)] .
  ultimately show ?thesis by simp
qed

end

section \<open>The directory keeps the promise\<close>

definition objs_ok :: "'x ext_scheme \<Rightarrow> 'r objects_dir_scheme \<Rightarrow> bool" where
  "objs_ok X r \<longleftrightarrow>
     distinct (map fst (ofiles r))
     \<and> (\<forall>(p, b) \<in> set (ofiles r). \<exists>raw \<in> set (owritten r). p = path_for X (raw_hash X raw) \<and> b = frame raw)"

definition collision_free :: "'x ext_scheme \<Rightarrow> 'r objects_dir_scheme \<Rightarrow> bool" where
  "collision_free X r \<longleftrightarrow> inj_on (raw_hash X) (set (owritten r))"

definition store_grows :: "'r objects_dir_scheme \<Rightarrow> 'r objects_dir_scheme \<Rightarrow> bool" where
  "store_grows r s \<longleftrightarrow> map_of (ofiles r) \<subseteq>\<^sub>m map_of (ofiles s) \<and> set (owritten r) \<subseteq> set (owritten s)"

lemma objs_okD:
  "objs_ok X r \<Longrightarrow> (p, b) \<in> set (ofiles r) \<Longrightarrow>
   \<exists>raw \<in> set (owritten r). p = path_for X (raw_hash X raw) \<and> b = frame raw"
  by (auto simp: objs_ok_def)

lemma path_for_inject: "hex_laws X \<Longrightarrow> path_for X a = path_for X b \<longleftrightarrow> a = b"
  by (metis fanout_rest path_for_def prod.inject to_hex_inject)

lemma unframe_frame [simp]: "unframe (frame raw) = Inr raw"
  by (simp add: frame_def)

lemma unframe_Inr_iff: "unframe b = Inr raw \<longleftrightarrow> b = frame raw"
proof
  assume "unframe b = Inr raw"
  then show "b = frame raw" by (cases b) (auto simp: and_then_Inr_iff from_tag_Inr_iff frame_def)
qed simp

lemma obj_get_Inr_iff:
  "obj_get X h r = Inr raw \<longleftrightarrow> map_of (ofiles r) (path_for X h) = Some (frame raw) \<and> raw_hash X raw = h"
  by (auto simp: obj_get_def and_then_Inr_iff unframe_Inr_iff split: option.splits)

lemma obj_get_named: "obj_get X h r = Inr raw \<Longrightarrow> raw_hash X raw = h"
  by (simp add: obj_get_Inr_iff)

lemma obj_put_written [simp]: "owritten (snd (obj_put X raw r)) = owritten r @ [raw]"
  by (simp add: obj_put_def Let_def)

lemma obj_put_files:
  "ofiles (snd (obj_put X raw r)) =
     (if map_of (ofiles r) (path_for X (raw_hash X raw)) = None
      then ofiles r @ [(path_for X (raw_hash X raw), frame raw)] else ofiles r)"
  by (simp add: obj_put_def Let_def)

lemma obj_put_fst: "fst (obj_put X raw r) = Inr (raw_hash X raw)"
  by (simp add: obj_put_def Let_def)

lemma obj_put_grows: "store_grows r (snd (obj_put X raw r))"
  by (auto simp: store_grows_def obj_put_files map_le_def map_add_def split: option.splits)

lemma obj_put_ok:
  assumes "objs_ok X r"
  shows "objs_ok X (snd (obj_put X raw r))"
proof -
  let ?p = "path_for X (raw_hash X raw)"
  have "distinct (map fst (ofiles (snd (obj_put X raw r))))"
    using assms by (auto simp: obj_put_files objs_ok_def map_of_eq_None_iff)
  moreover have "\<exists>o' \<in> set (owritten r @ [raw]). p = path_for X (raw_hash X o') \<and> b = frame o'"
    if "(p, b) \<in> set (ofiles (snd (obj_put X raw r)))" for p b
    using that assms by (auto simp: obj_put_files objs_ok_def split: if_splits)
  ultimately show ?thesis by (auto simp: objs_ok_def)
qed

lemma obj_put_get:
  assumes "hex_laws X" and "objs_ok X r" and "collision_free X (snd (obj_put X raw r))"
  shows "obj_get X (raw_hash X raw) (snd (obj_put X raw r)) = Inr raw"
proof (cases "map_of (ofiles r) (path_for X (raw_hash X raw))")
  case None
  then show ?thesis by (simp add: obj_get_Inr_iff obj_put_files map_add_def)
next
  case (Some b)
  then obtain o' where o': "o' \<in> set (owritten r)" "path_for X (raw_hash X raw) = path_for X (raw_hash X o')"
      "b = frame o'"
    using assms(2) by (fastforce simp: objs_ok_def dest: map_of_SomeD)
  then have "raw_hash X raw = raw_hash X o'" using assms(1) by (simp add: path_for_inject)
  with assms(3) o'(1) have "raw = o'" by (auto simp: collision_free_def inj_on_def)
  with o' Some show ?thesis by (simp add: obj_get_Inr_iff obj_put_files)
qed

lemma store_grows_refl [simp]: "store_grows r r"
  by (simp add: store_grows_def)

lemma store_grows_trans: "store_grows r s \<Longrightarrow> store_grows s t \<Longrightarrow> store_grows r t"
  by (auto simp: store_grows_def intro: map_le_trans)

lemma obj_get_mono: "store_grows r s \<Longrightarrow> obj_get X h r = Inr raw \<Longrightarrow> obj_get X h s = Inr raw"
  by (auto simp: obj_get_Inr_iff store_grows_def map_le_def) (metis domI)

lemma collision_free_back: "store_grows r s \<Longrightarrow> collision_free X s \<Longrightarrow> collision_free X r"
  by (auto simp: store_grows_def collision_free_def intro: inj_on_subset)

text \<open>
  The laws hold for every hash and hexadecimal codec: for one whose text form is injective,
  on the states whose objects do not collide.
\<close>

interpretation store: content_store "raw_hash X" "obj_put X" "obj_get X"
    "\<lambda>r. hex_laws X \<and> objs_ok X r" "collision_free X" store_grows
  for X :: "'x ext_scheme"
proof (unfold_locales)
  fix s :: "'r objects_dir_scheme" and raw
  show "\<exists>t. obj_put X raw s = (Inr (raw_hash X raw), t)" by (metis obj_put_fst prod.collapse)
next
  fix s t :: "'r objects_dir_scheme" and raw r
  assume ok: "hex_laws X \<and> objs_ok X s" and p: "obj_put X raw s = (r, t)"
  from p have t: "t = snd (obj_put X raw s)" by simp
  show "hex_laws X \<and> objs_ok X t" using ok by (simp add: t obj_put_ok)
  show "collision_free X t \<Longrightarrow> obj_get X (raw_hash X raw) t = Inr raw"
    using ok by (simp add: t obj_put_get)
next
  fix s t :: "'r objects_dir_scheme" and raw r
  assume "obj_put X raw s = (r, t)"
  then show "store_grows s t" using obj_put_grows [of s X raw] by simp
qed (auto intro: obj_get_mono obj_get_named collision_free_back store_grows_trans)

section \<open>Walking, removing, resolving\<close>

lemma hex_start: "hex_laws X \<Longrightarrow> \<not> starts_with (hex_encode X b) ''.''"
proof
  assume X: "hex_laws X" and "starts_with (hex_encode X b) ''.''"
  then have "CHR ''.'' \<in> set (hex_encode X b)"
    by (cases "hex_encode X b") (auto simp: starts_with_def)
  with hex_encode_chars [OF X] show False by (fastforce simp: hex_digits_def)
qed

lemma visited_object:
  assumes "hex_laws X"
  shows "visited X (path_for X h, b) = Some (h, length b)"
proof -
  have "\<not> starts_with (fanout X h) ''.''" "\<not> starts_with (rest X h) ''.''"
    using hex_start [OF assms] by (simp_all add: fanout_def rest_def)
  then show ?thesis
    using assms
    by (simp add: visited_def path_for_def length_fanout length_rest fanout_rest from_hex_to_hex)
qed

lemma iter_all_map:
  assumes "hex_laws X" and "objs_ok X r"
  shows "\<exists>hs. distinct hs \<and> (\<forall>h. h \<in> set hs \<longleftrightarrow> obj_has X h r) \<and>
    iter_all X r = map (\<lambda>h. (h, length (the (map_of (ofiles r) (path_for X h))))) hs"
proof -
  have "\<forall>f \<in> set (ofiles r). \<exists>h. fst f = path_for X h"
    using objs_okD [OF assms(2)] by (metis prod.collapse)
  then obtain key where key: "\<And>f. f \<in> set (ofiles r) \<Longrightarrow> fst f = path_for X (key f)" by metis
  have d: "distinct (map fst (ofiles r))" using assms(2) by (simp add: objs_ok_def)
  have "iter_all X r = map (\<lambda>f. (key f, length (snd f))) (ofiles r)"
  proof -
    have "visited X f = Some (key f, length (snd f))" if "f \<in> set (ofiles r)" for f
      using visited_object [OF assms(1), of "key f" "snd f"] key [OF that] by (metis prod.collapse)
    then show ?thesis unfolding iter_all_def by (rule map_filter_Some)
  qed
  also have "\<dots> = map (\<lambda>h. (h, length (the (map_of (ofiles r) (path_for X h))))) (map key (ofiles r))"
  proof -
    have "map_of (ofiles r) (path_for X (key f)) = Some (snd f)" if "f \<in> set (ofiles r)" for f
      using that d key [OF that] by (metis map_of_eq_Some_iff prod.collapse)
    then show ?thesis by simp
  qed
  finally have it: "iter_all X r
      = map (\<lambda>h. (h, length (the (map_of (ofiles r) (path_for X h))))) (map key (ofiles r))" .
  moreover have "map (path_for X) (map key (ofiles r)) = map fst (ofiles r)"
    using key by (auto simp: o_def)
  then have "distinct (map key (ofiles r))" using d by (metis distinct_map)
  moreover have "h \<in> set (map key (ofiles r)) \<longleftrightarrow> obj_has X h r" for h
  proof
    assume "h \<in> set (map key (ofiles r))"
    then obtain f where "f \<in> set (ofiles r)" "h = key f" by auto
    then have "path_for X h \<in> fst ` set (ofiles r)" using key by (metis image_eqI)
    then show "obj_has X h r" by (simp add: obj_has_def map_of_eq_None_iff)
  next
    assume "obj_has X h r"
    then obtain b where f: "(path_for X h, b) \<in> set (ofiles r)"
      by (auto simp: obj_has_def dest: map_of_SomeD)
    then have "path_for X h = path_for X (key (path_for X h, b))" using key [OF f] by simp
    then have "h = key (path_for X h, b)" by (simp only: path_for_inject [OF assms(1)])
    with f show "h \<in> set (map key (ofiles r))" by (metis image_eqI list.set_map)
  qed
  ultimately show ?thesis by blast
qed

lemma obj_has_get: "objs_ok X r \<Longrightarrow> hex_laws X \<Longrightarrow> obj_has X h r \<Longrightarrow> \<exists>raw. obj_get X h r = Inr raw"
proof -
  assume ok: "objs_ok X r" and X: "hex_laws X" and "obj_has X h r"
  then obtain b where b: "map_of (ofiles r) (path_for X h) = Some b" by (auto simp: obj_has_def)
  then obtain raw where raw: "path_for X h = path_for X (raw_hash X raw)" "b = frame raw"
    using ok by (fastforce simp: objs_ok_def dest: map_of_SomeD)
  with X have "raw_hash X raw = h" by (metis path_for_inject)
  with b raw(2) have "obj_get X h r = Inr raw" by (simp add: obj_get_Inr_iff)
  then show ?thesis ..
qed

lemma obj_has_written:
  assumes "hex_laws X" and "objs_ok X r"
  shows "obj_has X h r \<Longrightarrow> h \<in> raw_hash X ` set (owritten r)"
  using obj_has_get [OF assms(2,1)] assms(2)
  by (fastforce simp: obj_get_Inr_iff objs_ok_def path_for_inject [OF assms(1)] dest: map_of_SomeD)

lemma obj_remove_files [simp]:
  "ofiles (snd (obj_remove X h r)) = AList.delete (path_for X h) (ofiles r)"
  "owritten (snd (obj_remove X h r)) = owritten r" "fst (obj_remove X h r) = Inr ()"
  by (simp_all add: obj_remove_def)

lemma obj_remove_ok: "objs_ok X r \<Longrightarrow> objs_ok X (snd (obj_remove X h r))"
  unfolding objs_ok_def obj_remove_files
  by (auto simp: AList.distinct_delete set_AList_delete)

lemma obj_get_remove_other:
  "hex_laws X \<Longrightarrow> h \<noteq> k \<Longrightarrow> obj_get X h (snd (obj_remove X k r)) = obj_get X h r"
  by (simp add: obj_get_def AList.delete_conv' path_for_inject)

lemma obj_has_remove:
  "hex_laws X \<Longrightarrow> obj_has X h (snd (obj_remove X k r)) \<longleftrightarrow> h \<noteq> k \<and> obj_has X h r"
  by (auto simp: obj_has_def AList.delete_conv' path_for_inject)

lemma hexdigit_lower [simp]: "set s \<subseteq> set hex_digits \<Longrightarrow> ascii_lower s = s"
  unfolding ascii_lower_def
  by (rule map_idI) (auto simp: hex_digits_def less_eq_char_def)

lemma hexdigit_all [simp]: "set s \<subseteq> set hex_digits \<Longrightarrow> list_all is_hexdigit s"
  unfolding list_all_iff by (auto simp: hex_digits_def is_hexdigit_def less_eq_char_def)

text \<open>A full hash resolves to itself exactly when it is stored.\<close>

lemma resolve_full:
  assumes "hex_laws X"
  shows "resolve_prefix X (to_hex X h) r =
    (if obj_has X h r then Inr h else Inl (SNotFound (to_hex X h)))"
proof -
  have "set (to_hex X h) \<subseteq> set hex_digits"
    using hex_encode_chars [OF assms] by (auto simp: to_hex_def)
  then show ?thesis
    using assms length_to_hex [OF assms, of h]
    by (simp add: resolve_prefix_def Let_def from_hex_to_hex obj_has_def)
qed

text \<open>What a shorter prefix resolves to is the only stored object it can mean.\<close>

lemma resolve_short:
  assumes "hex_laws X" and "objs_ok X r" and "resolve_prefix X p r = Inr h"
    and "length p \<noteq> 64"
  shows "obj_has X h r \<and> prefix (ascii_lower p) (to_hex X h) \<and>
    (\<forall>k. obj_has X k r \<longrightarrow> prefix (ascii_lower p) (to_hex X k) \<longrightarrow> k = h)"
proof -
  let ?q = "ascii_lower p"
  let ?sel = "\<lambda>f :: object_path \<times> bytes. fst (fst f) = take 2 ?q \<and> \<not> starts_with (snd (fst f)) ''.''
      \<and> starts_with (snd (fst f)) (drop 2 ?q)"
  let ?names = "map (\<lambda>f. snd (fst f)) (filter ?sel (ofiles r))"
  have len: "length ?q = length p" by (simp add: ascii_lower_def)
  have "\<exists>m. map (\<lambda>name. take 2 ?q @ name) (take 5 ?names) = [m] \<and> from_hex X m = Inr h"
    using assms(3,4) len
    by (auto simp: resolve_prefix_def Let_def split: if_splits list.splits)
  then obtain n where n: "take 5 ?names = [n]" and m: "from_hex X (take 2 ?q @ n) = Inr h" by auto
  have one: "?names = [n]"
    using n by (cases ?names; cases "tl ?names") auto
  then obtain f where f: "filter ?sel (ofiles r) = [f]" "snd (fst f) = n"
    by auto
  then have fin: "f \<in> set (ofiles r)" "?sel f"
  proof -
    have "f \<in> set (filter ?sel (ofiles r))" unfolding f(1) by simp
    then show "f \<in> set (ofiles r)" "?sel f" by auto
  qed
  then obtain raw where raw: "fst f = path_for X (raw_hash X raw)"
    using objs_okD [OF assms(2), of "fst f" "snd f"] by auto
  have q: "take 2 ?q @ drop 2 ?q = ?q" by simp
  have "take 2 ?q @ n = to_hex X (raw_hash X raw)"
    using fin(2) f(2) raw fanout_rest [OF assms(1)] by (metis fst_conv path_for_def snd_conv)
  with m have h: "h = raw_hash X raw" using from_hex_to_hex [OF assms(1)] by auto
  have hexh: "to_hex X h = take 2 ?q @ n" by (simp add: \<open>take 2 ?q @ n = to_hex X (raw_hash X raw)\<close> h)
  have "prefix (drop 2 ?q) n" using fin(2) f(2) by (simp add: starts_with_iff_prefix)
  then have "prefix ?q (to_hex X h)" unfolding hexh by (metis q same_prefix_prefix)
  moreover have "obj_has X h r"
    using fin(1) raw h unfolding obj_has_def by (metis map_of_eq_None_iff image_eqI)
  moreover have "k = h" if k: "obj_has X k r" "prefix ?q (to_hex X k)" for k
  proof -
    from k(1) obtain b where b: "(path_for X k, b) \<in> set (ofiles r)"
      by (auto simp: obj_has_def dest: map_of_SomeD)
    have l2: "2 \<le> length ?q" using assms(3) len by (auto simp: resolve_prefix_def split: if_splits)
    obtain z where z: "to_hex X k = ?q @ z" using k(2) by (auto simp: prefix_def)
    then have fr: "fanout X k @ rest X k = take 2 ?q @ drop 2 ?q @ z"
      using fanout_rest [OF assms(1)] by (metis append.assoc q)
    have "fanout X k = take 2 ?q \<and> rest X k = drop 2 ?q @ z"
      using fr l2 length_fanout [OF assms(1), of k] by (subst (asm) append_eq_append_conv) auto
    then have "?sel (path_for X k, b)"
      using hex_start [OF assms(1), of "drop 1 (b32_bytes (hash_bytes k))"]
      by (simp add: path_for_def rest_def)
    with b have "(path_for X k, b) \<in> set (filter ?sel (ofiles r))" by simp
    then have "(path_for X k, b) = f" unfolding f(1) by simp
    with raw h show "k = h" using assms(1) by (metis fst_conv path_for_inject)
  qed
  ultimately show ?thesis by blast
qed

end
