(* ===== verification/Ref_Store.thy ===== *)
theory Ref_Store
  imports Object_Store
begin

text \<open>
  \<^verbatim>\<open>tig-store/src/refs.rs\<close>: changes, bookmarks and HEAD, each a small file replaced atomically by
  rename. A JSON file is represented by the value it parses to, or \<open>NotJson\<close>. Identifiers are
  single path components (the code joins them to the directory unchecked).
\<close>

datatype 'a json_file = Json 'a | NotJson

definition parse_json :: "'a json_file \<Rightarrow> store_error + 'a" where
  "parse_json f = (case f of Json a \<Rightarrow> Inr a | NotJson \<Rightarrow> Inl SJson)"

lemma parse_json_simps [simp]: "parse_json (Json a) = Inr a" "parse_json NotJson = Inl SJson"
  by (simp_all add: parse_json_def)

lemma parse_json_Inr [simp]: "parse_json f = Inr a \<longleftrightarrow> f = Json a"
  by (cases f) simp_all

record ref_dir = objects_dir +
  rchanges :: "(change_id \<times> change json_file) list"
  rbookmarks :: "(string \<times> string) list"
  rhead :: "string option"

section \<open>\<^verbatim>\<open>str::trim\<close>\<close>

text \<open>The UTF-8 encodings of the characters with Unicode's \<^verbatim>\<open>White_Space\<close> property.\<close>

definition white_space :: "string list" where
  "white_space =
     [[CHR 0x09], [CHR 0x0A], [CHR 0x0B], [CHR 0x0C], [CHR 0x0D], [CHR 0x20],
      [CHR 0xC2, CHR 0x85], [CHR 0xC2, CHR 0xA0], [CHR 0xE1, CHR 0x9A, CHR 0x80],
      [CHR 0xE2, CHR 0x80, CHR 0x80], [CHR 0xE2, CHR 0x80, CHR 0x81], [CHR 0xE2, CHR 0x80, CHR 0x82],
      [CHR 0xE2, CHR 0x80, CHR 0x83], [CHR 0xE2, CHR 0x80, CHR 0x84], [CHR 0xE2, CHR 0x80, CHR 0x85],
      [CHR 0xE2, CHR 0x80, CHR 0x86], [CHR 0xE2, CHR 0x80, CHR 0x87], [CHR 0xE2, CHR 0x80, CHR 0x88],
      [CHR 0xE2, CHR 0x80, CHR 0x89], [CHR 0xE2, CHR 0x80, CHR 0x8A], [CHR 0xE2, CHR 0x80, CHR 0xA8],
      [CHR 0xE2, CHR 0x80, CHR 0xA9], [CHR 0xE2, CHR 0x80, CHR 0xAF], [CHR 0xE2, CHR 0x81, CHR 0x9F],
      [CHR 0xE3, CHR 0x80, CHR 0x80]]"

fun strip :: "string list \<Rightarrow> string \<Rightarrow> string" where
  "strip ws [] = []"
| "strip ws (c # cs) =
     (case List.find (\<lambda>w. w \<noteq> [] \<and> starts_with (c # cs) w) ws of
        None \<Rightarrow> c # cs
      | Some w \<Rightarrow> strip ws (drop (length w - 1) cs))"

definition trim :: "string \<Rightarrow> string" where
  "trim s = rev (strip (map rev white_space) (rev (strip white_space s)))"

definition trimmed :: "string \<Rightarrow> bool" where
  "trimmed s \<longleftrightarrow> trim s = s"

section \<open>Operations\<close>

definition put_change :: "change \<Rightarrow> ('r ref_dir_scheme, store_error, unit) eff" where
  "put_change c r = (Inr (), r\<lparr>rchanges := AList.update (ch_id c) (Json c) (rchanges r)\<rparr>)"

definition get_change :: "change_id \<Rightarrow> 'r ref_dir_scheme \<Rightarrow> store_error + change" where
  "get_change cid r =
     (case map_of (rchanges r) cid of
        None \<Rightarrow> Inl (SNotFound (''change '' @ cid))
      | Some f \<Rightarrow> parse_json f)"

definition list_changes :: "'r ref_dir_scheme \<Rightarrow> change_id list" where
  "list_changes r = sort (filter (\<lambda>n. \<not> starts_with n ''.'') (map fst (rchanges r)))"

definition delete_change :: "change_id \<Rightarrow> ('r ref_dir_scheme, store_error, unit) eff" where
  "delete_change cid r = (Inr (), r\<lparr>rchanges := AList.delete cid (rchanges r)\<rparr>)"

definition bookmark_name_ok :: "string \<Rightarrow> bool" where
  "bookmark_name_ok name \<longleftrightarrow> name \<noteq> [] \<and> CHR ''/'' \<notin> set name \<and> CHR 0x00 \<notin> set name"

definition set_bookmark :: "string \<Rightarrow> change_id \<Rightarrow> ('r ref_dir_scheme, store_error, unit) eff" where
  "set_bookmark name cid r =
     (if \<not> bookmark_name_ok name then (Inl (SCorrupt (InvalidBookmarkName name)), r)
      else (Inr (), r\<lparr>rbookmarks := AList.update name cid (rbookmarks r)\<rparr>))"

definition get_bookmark :: "string \<Rightarrow> 'r ref_dir_scheme \<Rightarrow> change_id option" where
  "get_bookmark name r = map_option trim (map_of (rbookmarks r) name)"

definition list_bookmarks :: "'r ref_dir_scheme \<Rightarrow> (string \<times> change_id) list" where
  "list_bookmarks r =
     sort_key fst (sort_key snd
       (map (\<lambda>(n, t). (n, trim t)) (filter (\<lambda>(n, t). \<not> starts_with n ''.'') (rbookmarks r))))"

definition delete_bookmark :: "string \<Rightarrow> ('r ref_dir_scheme, store_error, unit) eff" where
  "delete_bookmark name r = (Inr (), r\<lparr>rbookmarks := AList.delete name (rbookmarks r)\<rparr>)"

definition head :: "'r ref_dir_scheme \<Rightarrow> change_id option" where
  "head r = map_option trim (rhead r)"

definition set_head :: "change_id \<Rightarrow> ('r ref_dir_scheme, store_error, unit) eff" where
  "set_head cid r = (Inr (), r\<lparr>rhead := Some cid\<rparr>)"

definition clear_head :: "('r ref_dir_scheme, store_error, unit) eff" where
  "clear_head r = (Inr (), r\<lparr>rhead := None\<rparr>)"

section \<open>A directory of named records\<close>

text \<open>
  What the change directory, the bookmark directory and the workspace registry have in common.
\<close>

locale named_records =
  fixes put :: "'k \<Rightarrow> 'v \<Rightarrow> 's \<Rightarrow> 's"
    and del :: "'k \<Rightarrow> 's \<Rightarrow> 's"
    and get :: "'k \<Rightarrow> 's \<Rightarrow> 'v option"
  assumes get_put: "get k (put l v s) = (if k = l then Some v else get k s)"
    and get_del: "get k (del l s) = (if k = l then None else get k s)"
begin

definition restore :: "'k \<Rightarrow> 'v option \<Rightarrow> 's \<Rightarrow> 's" where
  "restore k v s = (case v of None \<Rightarrow> del k s | Some x \<Rightarrow> put k x s)"

lemma get_restore: "get k (restore l v s) = (if k = l then v else get k s)"
  by (cases v) (simp_all add: restore_def get_put get_del)

text \<open>Writing a value and restoring what was there before leaves no trace.\<close>

lemma undo_put: "get k (restore l (get l s) (put l v s)) = get k s"
  by (simp add: get_restore get_put)

lemma undo_del: "get k (restore l (get l s) (del l s)) = get k s"
  by (simp add: get_restore get_del)

end

definition change_file :: "change_id \<Rightarrow> 'r ref_dir_scheme \<Rightarrow> change json_file option" where
  "change_file cid r = map_of (rchanges r) cid"

definition put_change_file :: "change_id \<Rightarrow> change json_file \<Rightarrow> 'r ref_dir_scheme \<Rightarrow> 'r ref_dir_scheme" where
  "put_change_file cid f r = r\<lparr>rchanges := AList.update cid f (rchanges r)\<rparr>"

interpretation changes: named_records put_change_file "\<lambda>k r. snd (delete_change k r)" change_file
  by unfold_locales (simp_all add: change_file_def put_change_file_def delete_change_def
      AList.update_conv' AList.delete_conv')

interpretation bookmarks: named_records
    "\<lambda>k v r. r\<lparr>rbookmarks := AList.update k v (rbookmarks r)\<rparr>"
    "\<lambda>k r. snd (delete_bookmark k r)" "\<lambda>k r. map_of (rbookmarks r) k"
  by unfold_locales (simp_all add: delete_bookmark_def AList.update_conv' AList.delete_conv')

lemma put_change_put: "put_change c r = (Inr (), put_change_file (ch_id c) (Json c) r)"
  by (simp add: put_change_def put_change_file_def)

lemma get_change_file: "get_change cid r =
    (case change_file cid r of None \<Rightarrow> Inl (SNotFound (''change '' @ cid)) | Some f \<Rightarrow> parse_json f)"
  by (simp add: get_change_def change_file_def)

lemma get_put_change:
  "get_change cid (snd (put_change c r)) = (if cid = ch_id c then Inr c else get_change cid r)"
  by (simp add: put_change_put get_change_file changes.get_put)

lemma get_delete_change:
  "get_change cid (snd (delete_change k r)) =
     (if cid = k then Inl (SNotFound (''change '' @ cid)) else get_change cid r)"
  by (simp add: get_change_file changes.get_del)

lemma list_changes_set:
  "set (list_changes r) = {n. change_file n r \<noteq> None \<and> \<not> starts_with n ''.''}"
  by (auto simp: list_changes_def change_file_def map_of_eq_None_iff)

lemma list_changes_sorted [simp]: "sorted (list_changes r)"
  by (simp add: list_changes_def)

lemma refs_keep_objects [simp]:
  "ofiles (snd (put_change c r)) = ofiles r" "owritten (snd (put_change c r)) = owritten r"
  "ofiles (snd (delete_change k r)) = ofiles r" "owritten (snd (delete_change k r)) = owritten r"
  "ofiles (snd (set_head k r)) = ofiles r" "owritten (snd (set_head k r)) = owritten r"
  "ofiles (snd (clear_head r)) = ofiles r" "owritten (snd (clear_head r)) = owritten r"
  "ofiles (snd (set_bookmark n k r)) = ofiles r" "owritten (snd (set_bookmark n k r)) = owritten r"
  "ofiles (snd (delete_bookmark n r)) = ofiles r" "owritten (snd (delete_bookmark n r)) = owritten r"
  by (simp_all add: put_change_def delete_change_def set_head_def clear_head_def set_bookmark_def
      delete_bookmark_def)

lemma obj_get_same_files: "ofiles r = ofiles s \<Longrightarrow> obj_get X h r = obj_get X h s"
  by (simp add: obj_get_def)

text \<open>Identifiers without white space at the ends survive the text files they are kept in.\<close>

lemma trimmed_iff: "trimmed s \<longleftrightarrow> trim s = s"
  by (simp add: trimmed_def)

lemma strip_stops: "w \<in> set ws \<Longrightarrow> w \<noteq> [] \<Longrightarrow> \<not> starts_with (strip ws s) w"
proof (induction ws s rule: strip.induct)
  case (1 ws)
  then show ?case by (auto simp: starts_with_def)
next
  case (2 ws c cs)
  show ?case
  proof (cases "List.find (\<lambda>w. w \<noteq> [] \<and> starts_with (c # cs) w) ws")
    case None
    then have "\<not> starts_with (c # cs) w" using 2 (2,3) by (auto simp: find_None_iff)
    with None show ?thesis by simp
  next
    case (Some v)
    with 2 show ?thesis by simp
  qed
qed

lemma strip_stuck: "(\<And>w. w \<in> set ws \<Longrightarrow> w \<noteq> [] \<Longrightarrow> \<not> starts_with s w) \<Longrightarrow> strip ws s = s"
proof (cases s)
  case (Cons c cs)
  assume "\<And>w. w \<in> set ws \<Longrightarrow> w \<noteq> [] \<Longrightarrow> \<not> starts_with s w"
  then have "List.find (\<lambda>w. w \<noteq> [] \<and> starts_with (c # cs) w) ws = None"
    using Cons by (auto simp: find_None_iff)
  then show ?thesis by (simp add: Cons)
qed simp

lemma strip_suffix: "suffix (strip ws s) s"
proof (induction ws s rule: strip.induct)
  case (2 ws c cs)
  show ?case
  proof (cases "List.find (\<lambda>w. w \<noteq> [] \<and> starts_with (c # cs) w) ws")
    case (Some w)
    have "suffix (drop (length w - 1) cs) (c # cs)" by (simp add: suffix_ConsI suffix_drop)
    with 2 [OF Some] Some show ?thesis by (auto intro: suffix_order.trans)
  qed simp
qed simp

text \<open>Trimming twice is trimming once, so what was read from a text file is trimmed.\<close>

lemma trim_trim [simp]: "trim (trim s) = trim s"
proof -
  let ?a = "strip white_space s" and ?rw = "map rev white_space"
  have "prefix (trim s) ?a"
    using strip_suffix [of ?rw "rev ?a"] by (simp add: trim_def suffix_to_prefix)
  then have "strip white_space (trim s) = trim s"
    using strip_stops [of _ white_space s]
    by (intro strip_stuck) (meson starts_with_iff_prefix prefix_order.trans)
  moreover have "strip ?rw (rev (trim s)) = rev (trim s)"
    by (rule strip_stuck) (simp add: trim_def strip_stops)
  ultimately show ?thesis by (simp add: trim_def)
qed

lemma head_trimmed: "head r = Some i \<Longrightarrow> trimmed i"
  by (auto simp: head_def trimmed_def)

lemma head_set_head: "trimmed cid \<Longrightarrow> head (snd (set_head cid r)) = Some cid"
  by (simp add: head_def set_head_def trimmed_def)

lemma get_set_bookmark:
  "trimmed cid \<Longrightarrow> bookmark_name_ok n \<Longrightarrow>
   get_bookmark m (snd (set_bookmark n cid r)) = (if m = n then Some cid else get_bookmark m r)"
  by (simp add: get_bookmark_def set_bookmark_def trimmed_def AList.update_conv')

end
