(* ===== verification/Workspace_Store.thy ===== *)
theory Workspace_Store
  imports Ref_Store
begin

text \<open>
  \<^verbatim>\<open>tig-store/src/workspace.rs\<close>: the registry of secondary workspaces, and \<^verbatim>\<open>repo.rs\<close>: the bundle
  of stores under one \<^verbatim>\<open>.tig\<close> directory. An absolute path is kept as text in the records and as a
  list of components where it is walked.
\<close>

type_synonym workspace_id = string
type_synonym path = "string list"

definition parse_path :: "string \<Rightarrow> path" where
  "parse_path s = filter (\<lambda>c. c \<noteq> []) (split_char CHR ''/'' s)"

record workspace_manifest =
  ws_id :: workspace_id
  ws_name :: string
  ws_location :: string
  ws_change_id :: change_id
  ws_created_ns :: u64

record workspace_marker =
  mk_repo :: string
  mk_workspace_id :: workspace_id

text \<open>
  The state of one \<^verbatim>\<open>.tig\<close> directory. The manifests are keyed by file name (\<^verbatim>\<open><id>.json\<close>); \<open>rlog\<close> is
  the byte content of \<^verbatim>\<open>oplog/000000.log\<close>, when the file exists.
\<close>

record repo = ref_dir +
  rworkspaces :: "(string \<times> workspace_manifest json_file) list"
  rlog :: "bytes option"

definition json_name :: "workspace_id \<Rightarrow> string" where
  "json_name i = i @ ''.json''"

lemma json_name_inject [simp]: "json_name a = json_name b \<longleftrightarrow> a = b"
  by (simp add: json_name_def)

section \<open>The registry\<close>

definition ws_put :: "workspace_manifest \<Rightarrow> ('r repo_scheme, store_error, unit) eff" where
  "ws_put m r = (Inr (), r\<lparr>rworkspaces := AList.update (json_name (ws_id m)) (Json m) (rworkspaces r)\<rparr>)"

definition ws_get :: "workspace_id \<Rightarrow> 'r repo_scheme \<Rightarrow> store_error + workspace_manifest" where
  "ws_get i r =
     (case map_of (rworkspaces r) (json_name i) of
        None \<Rightarrow> Inl (SNotFound (''workspace '' @ i))
      | Some f \<Rightarrow> parse_json f)"

definition ws_list :: "'r repo_scheme \<Rightarrow> store_error + workspace_manifest list" where
  "ws_list r =
     and_then
       (traverse (\<lambda>f. parse_json (snd f))
         (filter (\<lambda>f. ends_with (fst f) ''.json'' \<and> \<not> starts_with (fst f) ''.'') (rworkspaces r)))
       (\<lambda>ms. Inr (sort_key ws_id ms))"

definition ws_find_by_name :: "string \<Rightarrow> 'r repo_scheme \<Rightarrow> store_error + workspace_manifest option" where
  "ws_find_by_name name r =
     and_then (ws_list r) (\<lambda>ms. Inr (List.find (\<lambda>m. ws_name m = name) ms))"

definition ws_delete :: "workspace_id \<Rightarrow> ('r repo_scheme, store_error, unit) eff" where
  "ws_delete i r =
     (case map_of (rworkspaces r) (json_name i) of
        None \<Rightarrow> (Inl (SNotFound (''workspace '' @ i)), r)
      | Some _ \<Rightarrow> (Inr (), r\<lparr>rworkspaces := AList.delete (json_name i) (rworkspaces r)\<rparr>))"

definition ws_file :: "workspace_id \<Rightarrow> 'r repo_scheme \<Rightarrow> workspace_manifest json_file option" where
  "ws_file i r = map_of (rworkspaces r) (json_name i)"

definition ws_put_file ::
  "workspace_id \<Rightarrow> workspace_manifest json_file \<Rightarrow> 'r repo_scheme \<Rightarrow> 'r repo_scheme" where
  "ws_put_file i f r = r\<lparr>rworkspaces := AList.update (json_name i) f (rworkspaces r)\<rparr>"

interpretation workspaces: named_records ws_put_file "\<lambda>i r. snd (ws_delete i r)" ws_file
  by unfold_locales
    (auto simp: ws_put_file_def ws_file_def ws_delete_def AList.update_conv' AList.delete_conv'
      split: option.splits)

lemma ws_put_put: "ws_put m r = (Inr (), ws_put_file (ws_id m) (Json m) r)"
  by (simp add: ws_put_def ws_put_file_def)

lemma ws_get_file: "ws_get i r =
    (case ws_file i r of None \<Rightarrow> Inl (SNotFound (''workspace '' @ i)) | Some f \<Rightarrow> parse_json f)"
  by (simp add: ws_get_def ws_file_def)

lemma ws_get_put: "ws_get i (snd (ws_put m r)) = (if i = ws_id m then Inr m else ws_get i r)"
  by (simp add: ws_put_put ws_get_file workspaces.get_put)

lemma ws_get_delete:
  "ws_get i (snd (ws_delete k r)) =
     (if i = k then Inl (SNotFound (''workspace '' @ i)) else ws_get i r)"
  by (simp add: ws_get_file workspaces.get_del)

lemma ws_delete_fst: "fst (ws_delete i r) = (if ws_file i r = None then Inl (SNotFound (''workspace '' @ i)) else Inr ())"
  by (auto simp: ws_delete_def ws_file_def split: option.splits)

lemma ws_list_sorted: "ws_list r = Inr ms \<Longrightarrow> sorted (map ws_id ms)"
  by (auto simp: ws_list_def and_then_Inr_iff)

lemma ws_find_by_name_Some:
  assumes "ws_find_by_name name r = Inr (Some m)"
  shows "ws_name m = name" and "\<exists>ms. ws_list r = Inr ms \<and> m \<in> set ms"
  using assms by (auto simp: ws_find_by_name_def and_then_Inr_iff find_Some_iff in_set_conv_nth)

section \<open>Repositories on a host\<close>

text \<open>
  What discovery sees of the file system: which directories exist, the repositories by the
  path of their \<^verbatim>\<open>.tig\<close>, and the marker files by the directory they stand in.
\<close>

record host =
  h_dirs :: "path list"
  h_repos :: "(path \<times> repo) list"
  h_markers :: "(path \<times> workspace_marker json_file) list"

definition tig_dir :: string where "tig_dir = ''.tig''"

definition marker_file :: string where "marker_file = ''.tig-workspace''"

definition default_worktree_dir :: string where "default_worktree_dir = ''.tig-worktrees''"

definition repo_new :: repo where
  "repo_new = \<lparr>ofiles = [], owritten = [], rchanges = [], rbookmarks = [], rhead = None,
     rworkspaces = [], rlog = None\<rparr>"

definition show_path :: "path \<Rightarrow> string" where
  "show_path p = CHR ''/'' # join ''/'' p"

definition repo_init :: "path \<Rightarrow> host \<Rightarrow> (store_error + repo) \<times> host" where
  "repo_init workdir h =
     (let dir = workdir @ [tig_dir] in
      if map_of (h_repos h) dir \<noteq> None then (Inl (SAlreadyExists (show_path dir)), h)
      else (Inr repo_new, h\<lparr>h_dirs := dir # workdir # h_dirs h, h_repos := h_repos h @ [(dir, repo_new)]\<rparr>))"

definition open_at_tig_dir :: "path \<Rightarrow> host \<Rightarrow> store_error + repo" where
  "open_at_tig_dir dir h =
     (case map_of (h_repos h) dir of
        None \<Rightarrow> Inl (SNotFound (''not a tig directory: '' @ show_path dir))
      | Some r \<Rightarrow> Inr r)"

definition repo_open :: "path \<Rightarrow> host \<Rightarrow> store_error + repo" where
  "repo_open workdir h =
     (if map_of (h_repos h) (workdir @ [tig_dir]) = None
      then Inl (SNotFound (''no .tig directory at '' @ show_path workdir))
      else open_at_tig_dir (workdir @ [tig_dir]) h)"

text \<open>
  The upward walks. A path is given in reverse, so popping the last component is taking the
  tail; \<open>start\<close> is the canonical form of the directory the walk started in.
\<close>

fun repo_discover_up :: "path \<Rightarrow> host \<Rightarrow> string list \<Rightarrow> store_error + repo" where
  "repo_discover_up start h cur =
     (if map_of (h_repos h) (rev cur @ [tig_dir]) \<noteq> None then repo_open (rev cur) h
      else case cur of
             [] \<Rightarrow> Inl (SNotFound (''no .tig directory in '' @ show_path start @ '' or any parent''))
           | _ # up \<Rightarrow> repo_discover_up start h up)"

definition repo_discover :: "path \<Rightarrow> host \<Rightarrow> store_error + repo" where
  "repo_discover start h =
     (if start \<in> set (h_dirs h) then repo_discover_up start h (rev start) else Inl SIo)"

datatype workspace_kind = WMain | WSecondary workspace_manifest

text \<open>A workspace handle: the path of the \<^verbatim>\<open>.tig\<close> it belongs to, and which kind it is.\<close>

record workspace =
  w_tig :: path
  w_kind :: workspace_kind

fun discover_up :: "path \<Rightarrow> host \<Rightarrow> string list \<Rightarrow> store_error + workspace" where
  "discover_up start h cur =
     (case map_of (h_markers h) (rev cur) of
        Some f \<Rightarrow>
          and_then (parse_json f) (\<lambda>mk.
            and_then (open_at_tig_dir (parse_path (mk_repo mk)) h) (\<lambda>r.
              and_then (ws_get (mk_workspace_id mk) r) (\<lambda>m.
                Inr \<lparr>w_tig = parse_path (mk_repo mk), w_kind = WSecondary m\<rparr>)))
      | None \<Rightarrow>
          if map_of (h_repos h) (rev cur @ [tig_dir]) \<noteq> None
          then and_then (repo_open (rev cur) h) (\<lambda>r. Inr \<lparr>w_tig = rev cur @ [tig_dir], w_kind = WMain\<rparr>)
          else case cur of
                 [] \<Rightarrow> Inl (SNotFound (''no .tig or .tig-workspace anywhere above '' @ show_path start))
               | _ # up \<Rightarrow> discover_up start h up)"

definition discover :: "path \<Rightarrow> host \<Rightarrow> store_error + workspace" where
  "discover start h = (if start \<in> set (h_dirs h) then discover_up start h (rev start) else Inl SIo)"

declare repo_discover_up.simps [simp del] discover_up.simps [simp del]

section \<open>Workspace handles\<close>

definition workdir :: "workspace \<Rightarrow> path" where
  "workdir w = (case w_kind w of WMain \<Rightarrow> butlast (w_tig w) | WSecondary m \<Rightarrow> parse_path (ws_location m))"

definition current_change_id :: "workspace_kind \<Rightarrow> 'r repo_scheme \<Rightarrow> change_id option" where
  "current_change_id k r = (case k of WMain \<Rightarrow> head r | WSecondary m \<Rightarrow> Some (ws_change_id m))"

text \<open>Returns the handle's new kind: for a secondary workspace the manifest in memory moves too.\<close>

definition set_current_change_id ::
  "workspace_kind \<Rightarrow> change_id \<Rightarrow> ('r repo_scheme, store_error, workspace_kind) eff" where
  "set_current_change_id k cid =
     (case k of
        WMain \<Rightarrow> bindE (set_head cid) (\<lambda>_. retE WMain)
      | WSecondary m \<Rightarrow>
          (let m' = m\<lparr>ws_change_id := cid\<rparr> in bindE (ws_put m') (\<lambda>_. retE (WSecondary m'))))"

definition id_for_display :: "workspace_kind \<Rightarrow> string" where
  "id_for_display k = (case k of WMain \<Rightarrow> ''(main)'' | WSecondary m \<Rightarrow> ws_name m)"

definition workspace_id_of :: "workspace_kind \<Rightarrow> workspace_id option" where
  "workspace_id_of k = (case k of WMain \<Rightarrow> None | WSecondary m \<Rightarrow> Some (ws_id m))"

text \<open>What is set is what is current, both in the handle and on disk.\<close>

lemma set_current_then_get:
  assumes "set_current_change_id k cid r = (Inr k', r')" and "trimmed cid"
  shows "current_change_id k' r' = Some cid"
  using assms by (auto simp: set_current_change_id_def current_change_id_def eff_iffs
      set_head_def head_def trimmed_def Let_def split: workspace_kind.splits)

lemma set_current_on_disk:
  assumes "set_current_change_id (WSecondary m) cid r = (Inr k', r')"
  shows "ws_get (ws_id m) r' = Inr (m\<lparr>ws_change_id := cid\<rparr>)"
proof -
  have "r' = snd (ws_put (m\<lparr>ws_change_id := cid\<rparr>) r)"
    using assms by (auto simp: set_current_change_id_def eff_iffs Let_def)
  then show ?thesis by (simp add: ws_get_put)
qed

text \<open>
  The nearest directory decides: nothing between the start and the directory that discovery
  settles on has a marker or a \<^verbatim>\<open>.tig\<close>, and a marker there wins over a \<^verbatim>\<open>.tig\<close> beside it.
\<close>

definition marks :: "host \<Rightarrow> path \<Rightarrow> bool" where
  "marks h d \<longleftrightarrow> map_of (h_markers h) d \<noteq> None \<or> map_of (h_repos h) (d @ [tig_dir]) \<noteq> None"

definition marker_leads :: "host \<Rightarrow> workspace_marker \<Rightarrow> workspace_manifest \<Rightarrow> bool" where
  "marker_leads h mk m \<longleftrightarrow>
     (\<exists>r. map_of (h_repos h) (parse_path (mk_repo mk)) = Some r \<and> ws_get (mk_workspace_id mk) r = Inr m)"

lemma discover_up_nearest:
  "discover_up start h cur = Inr w \<Longrightarrow>
   \<exists>above below. cur = below @ above \<and> marks h (rev above)
     \<and> (\<forall>b c. below = b @ c \<longrightarrow> c \<noteq> [] \<longrightarrow> \<not> marks h (rev (c @ above)))
     \<and> (case map_of (h_markers h) (rev above) of
          None \<Rightarrow> w = \<lparr>w_tig = rev above @ [tig_dir], w_kind = WMain\<rparr>
        | Some f \<Rightarrow> \<exists>mk m. f = Json mk \<and> w = \<lparr>w_tig = parse_path (mk_repo mk), w_kind = WSecondary m\<rparr>
            \<and> marker_leads h mk m)"
proof (induction cur)
  case Nil
  then show ?case
    by (subst (asm) discover_up.simps)
      (auto simp: marks_def marker_leads_def and_then_Inr_iff open_at_tig_dir_def split: option.splits if_splits)
next
  case (Cons c cur)
  show ?case
  proof (cases "marks h (rev (c # cur))")
    case True
    with Cons.prems show ?thesis
      by (subst (asm) discover_up.simps, intro exI [of _ "c # cur"] exI [of _ "[]"])
        (auto simp: marks_def marker_leads_def and_then_Inr_iff open_at_tig_dir_def split: option.splits if_splits)
  next
    case False
    then have "discover_up start h (c # cur) = discover_up start h cur"
      by (subst discover_up.simps) (auto simp: marks_def split: option.splits)
    with Cons obtain above below where ab: "cur = below @ above" "marks h (rev above)"
        "\<forall>b c. below = b @ c \<longrightarrow> c \<noteq> [] \<longrightarrow> \<not> marks h (rev (c @ above))"
        "case map_of (h_markers h) (rev above) of
          None \<Rightarrow> w = \<lparr>w_tig = rev above @ [tig_dir], w_kind = WMain\<rparr>
        | Some f \<Rightarrow> \<exists>mk m. f = Json mk \<and> w = \<lparr>w_tig = parse_path (mk_repo mk), w_kind = WSecondary m\<rparr>
            \<and> marker_leads h mk m" by auto
    have "\<not> marks h (rev (d @ above))" if "c # below = b @ d" "d \<noteq> []" for b d
      using that ab(1,3) False by (cases b) auto
    with ab show ?thesis by (intro exI [of _ above] exI [of _ "c # below"]) auto
  qed
qed

end
