(* ===== verification/Oplog_Codec.thy ===== *)
theory Oplog_Codec
  imports Workspace_Store
begin

text \<open>
  The records of \<^verbatim>\<open>tig-store/src/oplog.rs\<close> and their CBOR form (plain \<^verbatim>\<open>ciborium\<close>, not the
  canonical profile): externally tagged variants, \<^verbatim>\<open>null\<close> for an absent optional payload.
\<close>

section \<open>Operations\<close>

datatype ref_snapshot =
    RHead "change_id option"
  | RChange change_id "change option"
  | RWorkspace workspace_id "workspace_manifest option"
  | RBookmark string "change_id option"

datatype op_kind =
    OkSnap hash "string option"
  | OkChangeNew change_id string
  | OkWtMake workspace_id string
  | OkWtDrop workspace_id string
  | OkChangeTransition change_id change_state change_state vis_label vis_label
  | OkUndo op_id

record op_in_progress =
  oip_actor :: principal_id
  oip_kind :: op_kind
  oip_before :: "ref_snapshot list"
  oip_after :: "ref_snapshot list"

record op =
  op_id_of :: op_id
  op_ts_ns :: u64
  op_actor :: principal_id
  op_kind_of :: op_kind
  op_before :: "ref_snapshot list"
  op_after :: "ref_snapshot list"

fun change_state_name :: "change_state \<Rightarrow> string" where
  "change_state_name SWorking = ''Working''"
| "change_state_name SDraft = ''Draft''"
| "change_state_name SReview = ''Review''"
| "change_state_name SLanded = ''Landed''"
| "change_state_name SAbandoned = ''Abandoned''"

text \<open>Decimal numbers, as \<^verbatim>\<open>Display\<close> for integers writes them.\<close>

fun show_nat :: "nat \<Rightarrow> string" where
  "show_nat n = (if n < 10 then [char_of (n + 48)] else show_nat (n div 10) @ [char_of (n mod 10 + 48)])"

declare show_nat.simps [simp del]

definition show_op_id :: "op_id \<Rightarrow> string" where
  "show_op_id i = ''op#'' @ show_nat (unat i)"

text \<open>The arrow of the display line is the character U+2192, three bytes of UTF-8.\<close>

fun one_line :: "'x ext_scheme \<Rightarrow> op_kind \<Rightarrow> string" where
  "one_line X (OkSnap snapshot message) =
     (let label = (case message of None \<Rightarrow> ''(auto)'' | Some m \<Rightarrow> m)
      in ''Snap '' @ take 12 (to_hex X snapshot) @ ''  '' @ label)"
| "one_line X (OkChangeNew cid description) = ''ChangeNew '' @ cid @ ''  '' @ description"
| "one_line X (OkWtMake wid name) = ''WtMake '' @ name @ '' ('' @ wid @ '')''"
| "one_line X (OkWtDrop wid name) = ''WtDrop '' @ name @ '' ('' @ wid @ '')''"
| "one_line X (OkChangeTransition cid from_state to_state from_vis to_vis) =
     ''ChangeTransition '' @ cid @ ''  '' @ change_state_name from_state @ ''/'' @ vis_name from_vis
       @ '' '' @ [CHR 0xE2, CHR 0x86, CHR 0x92] @ '' ''
       @ change_state_name to_state @ ''/'' @ vis_name to_vis"
| "one_line X (OkUndo undone) = ''Undo of '' @ show_op_id undone"

section \<open>Writing\<close>

definition variant :: "string \<Rightarrow> cbor_value \<Rightarrow> cbor_value" where
  "variant n v = CMap [(CText n, v)]"

definition opt_value :: "('a \<Rightarrow> cbor_value) \<Rightarrow> 'a option \<Rightarrow> cbor_value" where
  "opt_value wr a = (case a of None \<Rightarrow> CNull | Some x \<Rightarrow> wr x)"

fun vis_value :: "vis_label \<Rightarrow> cbor_value" where
  "vis_value VPublic = CText ''Public''"
| "vis_value VPrivate = CText ''Private''"
| "vis_value (VOrg n) = variant ''Org'' (CText n)"
| "vis_value (VTeam n) = variant ''Team'' (CText n)"
| "vis_value (VPrincipal p) = variant ''Principal'' (CText p)"

definition change_value :: "change \<Rightarrow> cbor_value" where
  "change_value c =
     CMap ([(CText ''id'', CText (ch_id c)), (CText ''current'', hash_value (ch_current c))]
           @ opt_entry ''bookmark'' CText (ch_bookmark c)
           @ [(CText ''description'', CText (ch_description c)),
              (CText ''state'', CText (change_state_name (ch_state c))),
              (CText ''history'', CArray (map hash_value (ch_history c))),
              (CText ''author'', CText (ch_author c)),
              (CText ''visibility'', vis_value (ch_visibility c))])"

definition manifest_value :: "workspace_manifest \<Rightarrow> cbor_value" where
  "manifest_value m =
     CMap [(CText ''id'', CText (ws_id m)), (CText ''name'', CText (ws_name m)),
           (CText ''location'', CText (ws_location m)), (CText ''change_id'', CText (ws_change_id m)),
           (CText ''created_ns'', word_value (ws_created_ns m))]"

fun ref_value :: "ref_snapshot \<Rightarrow> cbor_value" where
  "ref_value (RHead h) = variant ''Head'' (opt_value CText h)"
| "ref_value (RChange i c) =
     variant ''Change'' (CMap [(CText ''id'', CText i), (CText ''value'', opt_value change_value c)])"
| "ref_value (RWorkspace i m) =
     variant ''Workspace'' (CMap [(CText ''id'', CText i), (CText ''value'', opt_value manifest_value m)])"
| "ref_value (RBookmark n c) =
     variant ''Bookmark'' (CMap [(CText ''name'', CText n), (CText ''value'', opt_value CText c)])"

fun kind_value :: "op_kind \<Rightarrow> cbor_value" where
  "kind_value (OkSnap s m) =
     variant ''Snap'' (CMap [(CText ''snapshot'', hash_value s), (CText ''message'', opt_value CText m)])"
| "kind_value (OkChangeNew i d) =
     variant ''ChangeNew'' (CMap [(CText ''change_id'', CText i), (CText ''description'', CText d)])"
| "kind_value (OkWtMake i n) =
     variant ''WtMake'' (CMap [(CText ''workspace_id'', CText i), (CText ''name'', CText n)])"
| "kind_value (OkWtDrop i n) =
     variant ''WtDrop'' (CMap [(CText ''workspace_id'', CText i), (CText ''name'', CText n)])"
| "kind_value (OkChangeTransition i fs ts fv tv) =
     variant ''ChangeTransition''
       (CMap [(CText ''change_id'', CText i),
              (CText ''from_state'', CText (change_state_name fs)),
              (CText ''to_state'', CText (change_state_name ts)),
              (CText ''from_vis'', vis_value fv), (CText ''to_vis'', vis_value tv)])"
| "kind_value (OkUndo u) = variant ''Undo'' (CMap [(CText ''undone_op'', word_value u)])"

definition op_value :: "op \<Rightarrow> cbor_value" where
  "op_value p =
     CMap [(CText ''id'', word_value (op_id_of p)), (CText ''ts_ns'', word_value (op_ts_ns p)),
           (CText ''actor'', CText (op_actor p)), (CText ''kind'', kind_value (op_kind_of p)),
           (CText ''before'', CArray (map ref_value (op_before p))),
           (CText ''after'', CArray (map ref_value (op_after p)))]"

section \<open>Reading\<close>

definition change_state_of :: "cbor_value \<Rightarrow> change_state option" where
  "change_state_of v =
     (case read_text v of None \<Rightarrow> None
      | Some n \<Rightarrow> List.find (\<lambda>s. change_state_name s = n) [SWorking, SDraft, SReview, SLanded, SAbandoned])"

text \<open>A variant with a payload: the one entry of its map.\<close>

definition variant_of :: "cbor_value \<Rightarrow> (string \<times> cbor_value) option" where
  "variant_of v = (case v of CMap [(CText n, x)] \<Rightarrow> Some (n, x) | _ \<Rightarrow> None)"

definition vis_of :: "cbor_value \<Rightarrow> vis_label option" where
  "vis_of v =
     (if v = CText ''Public'' then Some VPublic
      else if v = CText ''Private'' then Some VPrivate
      else case variant_of v of
             None \<Rightarrow> None
           | Some (n, x) \<Rightarrow>
               if n = ''Org'' then map_option VOrg (read_text x)
               else if n = ''Team'' then map_option VTeam (read_text x)
               else if n = ''Principal'' then map_option VPrincipal (read_text x)
               else None)"

definition read_opt :: "(cbor_value \<Rightarrow> 'a option) \<Rightarrow> cbor_value \<Rightarrow> 'a option option" where
  "read_opt rd v = (if v = CNull then Some None else map_option Some (rd v))"

definition change_of :: "cbor_value \<Rightarrow> change option" where
  "change_of v =
     (case get_field ''id'' read_text v of None \<Rightarrow> None | Some i \<Rightarrow>
      case get_field ''current'' read_hash v of None \<Rightarrow> None | Some cur \<Rightarrow>
      case get_option ''bookmark'' read_text v of None \<Rightarrow> None | Some bm \<Rightarrow>
      case get_field ''description'' read_text v of None \<Rightarrow> None | Some d \<Rightarrow>
      case get_field ''state'' change_state_of v of None \<Rightarrow> None | Some st \<Rightarrow>
      case get_field ''history'' (read_list read_hash) v of None \<Rightarrow> None | Some hist \<Rightarrow>
      case (if has_field ''author'' v then get_field ''author'' read_text v
            else Some default_anonymous_author) of None \<Rightarrow> None | Some a \<Rightarrow>
      case (if has_field ''visibility'' v then get_field ''visibility'' vis_of v
            else Some VPublic) of None \<Rightarrow> None | Some vis \<Rightarrow>
        Some \<lparr>ch_id = i, ch_current = cur, ch_bookmark = bm, ch_description = d, ch_state = st,
              ch_history = hist, ch_author = a, ch_visibility = vis\<rparr>)"

definition manifest_of :: "cbor_value \<Rightarrow> workspace_manifest option" where
  "manifest_of v =
     (case get_field ''id'' read_text v of None \<Rightarrow> None | Some i \<Rightarrow>
      case get_field ''name'' read_text v of None \<Rightarrow> None | Some n \<Rightarrow>
      case get_field ''location'' read_text v of None \<Rightarrow> None | Some l \<Rightarrow>
      case get_field ''change_id'' read_text v of None \<Rightarrow> None | Some c \<Rightarrow>
      case get_field ''created_ns'' read_u64 v of None \<Rightarrow> None | Some ts \<Rightarrow>
        Some \<lparr>ws_id = i, ws_name = n, ws_location = l, ws_change_id = c, ws_created_ns = ts\<rparr>)"

definition pair_of ::
  "string \<Rightarrow> string \<Rightarrow> (cbor_value \<Rightarrow> 'a option) \<Rightarrow> (string \<Rightarrow> 'a option \<Rightarrow> 'b) \<Rightarrow> cbor_value \<Rightarrow> 'b option" where
  "pair_of key val rd mk x =
     (case get_field key read_text x of None \<Rightarrow> None
      | Some i \<Rightarrow> map_option (mk i) (get_option val rd x))"

definition ref_of :: "cbor_value \<Rightarrow> ref_snapshot option" where
  "ref_of v =
     (case variant_of v of
        None \<Rightarrow> None
      | Some (n, x) \<Rightarrow>
          if n = ''Head'' then map_option RHead (read_opt read_text x)
          else if n = ''Change'' then pair_of ''id'' ''value'' change_of RChange x
          else if n = ''Workspace'' then pair_of ''id'' ''value'' manifest_of RWorkspace x
          else if n = ''Bookmark'' then pair_of ''name'' ''value'' read_text RBookmark x
          else None)"

definition two_texts :: "string \<Rightarrow> string \<Rightarrow> (string \<Rightarrow> string \<Rightarrow> 'b) \<Rightarrow> cbor_value \<Rightarrow> 'b option" where
  "two_texts a b mk x =
     (case get_field a read_text x of None \<Rightarrow> None
      | Some i \<Rightarrow> map_option (mk i) (get_field b read_text x))"

definition transition_of :: "cbor_value \<Rightarrow> op_kind option" where
  "transition_of x =
     (case get_field ''change_id'' read_text x of None \<Rightarrow> None | Some i \<Rightarrow>
      case get_field ''from_state'' change_state_of x of None \<Rightarrow> None | Some fs \<Rightarrow>
      case get_field ''to_state'' change_state_of x of None \<Rightarrow> None | Some ts \<Rightarrow>
      case get_field ''from_vis'' vis_of x of None \<Rightarrow> None | Some fv \<Rightarrow>
      case get_field ''to_vis'' vis_of x of None \<Rightarrow> None | Some tv \<Rightarrow>
        Some (OkChangeTransition i fs ts fv tv))"

definition kind_of :: "cbor_value \<Rightarrow> op_kind option" where
  "kind_of v =
     (case variant_of v of
        None \<Rightarrow> None
      | Some (n, x) \<Rightarrow>
          if n = ''Snap'' then
            (case get_field ''snapshot'' read_hash x of None \<Rightarrow> None
             | Some s \<Rightarrow> map_option (OkSnap s) (get_option ''message'' read_text x))
          else if n = ''ChangeNew'' then two_texts ''change_id'' ''description'' OkChangeNew x
          else if n = ''WtMake'' then two_texts ''workspace_id'' ''name'' OkWtMake x
          else if n = ''WtDrop'' then two_texts ''workspace_id'' ''name'' OkWtDrop x
          else if n = ''ChangeTransition'' then transition_of x
          else if n = ''Undo'' then map_option OkUndo (get_field ''undone_op'' read_u64 x)
          else None)"

definition op_of :: "cbor_value \<Rightarrow> op option" where
  "op_of v =
     (case get_field ''id'' read_u64 v of None \<Rightarrow> None | Some i \<Rightarrow>
      case get_field ''ts_ns'' read_u64 v of None \<Rightarrow> None | Some ts \<Rightarrow>
      case get_field ''actor'' read_text v of None \<Rightarrow> None | Some a \<Rightarrow>
      case get_field ''kind'' kind_of v of None \<Rightarrow> None | Some k \<Rightarrow>
      case get_field ''before'' (read_list ref_of) v of None \<Rightarrow> None | Some b \<Rightarrow>
      case get_field ''after'' (read_list ref_of) v of None \<Rightarrow> None | Some af \<Rightarrow>
        Some \<lparr>op_id_of = i, op_ts_ns = ts, op_actor = a, op_kind_of = k, op_before = b, op_after = af\<rparr>)"

section \<open>Reading back what was written\<close>

lemma change_state_of_name [simp]: "change_state_of (CText (change_state_name s)) = Some s"
  by (cases s) (simp_all add: change_state_of_def)

lemma variant_of_variant [simp]: "variant_of (variant n x) = Some (n, x)"
  by (simp add: variant_of_def variant_def)

lemma vis_of_value [simp]: "vis_of (vis_value v) = Some v"
  by (cases v) (simp_all add: vis_of_def variant_def variant_of_def)

lemma change_fields:
  "get_field ''id'' read_text (change_value c) = Some (ch_id c)"
  "get_field ''current'' read_hash (change_value c) = Some (ch_current c)"
  "get_option ''bookmark'' read_text (change_value c) = Some (ch_bookmark c)"
  "get_field ''description'' read_text (change_value c) = Some (ch_description c)"
  "get_field ''state'' change_state_of (change_value c) = Some (ch_state c)"
  "get_field ''history'' (read_list read_hash) (change_value c) = Some (ch_history c)"
  "get_field ''author'' read_text (change_value c) = Some (ch_author c)"
  "get_field ''visibility'' vis_of (change_value c) = Some (ch_visibility c)"
  "has_field ''author'' (change_value c)" "has_field ''visibility'' (change_value c)"
  by (cases "ch_bookmark c"; simp add: change_value_def get_field_def get_option_def opt_entry_def)+

lemma change_of_value [simp]: "change_of (change_value c) = Some c"
  by (simp add: change_of_def change_fields)

lemma manifest_of_value [simp]: "manifest_of (manifest_value m) = Some m"
  by (simp add: manifest_of_def manifest_value_def get_field_def)

lemma values_not_null [simp]:
  "change_value c \<noteq> CNull" "manifest_value m \<noteq> CNull"
  by (simp_all add: change_value_def manifest_value_def)

lemma ref_of_value [simp]: "ref_of (ref_value s) = Some s"
proof (cases s)
  case (RHead h)
  then show ?thesis by (cases h) (simp_all add: ref_of_def read_opt_def opt_value_def)
next
  case (RChange i c)
  then show ?thesis
    by (cases c) (simp_all add: ref_of_def pair_of_def get_field_def get_option_def opt_value_def)
next
  case (RWorkspace i m)
  then show ?thesis
    by (cases m) (simp_all add: ref_of_def pair_of_def get_field_def get_option_def opt_value_def)
next
  case (RBookmark n c)
  then show ?thesis
    by (cases c) (simp_all add: ref_of_def pair_of_def get_field_def get_option_def opt_value_def)
qed

lemma kind_of_value [simp]: "kind_of (kind_value k) = Some k"
proof (cases k)
  case (OkSnap s m)
  then show ?thesis
    by (cases m) (simp_all add: kind_of_def get_field_def get_option_def opt_value_def)
qed (simp_all add: kind_of_def two_texts_def transition_of_def get_field_def)

lemma op_of_value [simp]: "op_of (op_value p) = Some p"
  by (simp add: op_of_def op_value_def get_field_def)

lemma vis_value_fits: "0 < n \<Longrightarrow> cbor_fits n (vis_value v)"
  by (cases v) (simp_all add: variant_def)

lemma change_value_fits: "1 < n \<Longrightarrow> cbor_fits n (change_value c)"
  by (cases "ch_bookmark c") (simp_all add: change_value_def opt_entry_def vis_value_fits)

lemma ref_value_fits: "3 < n \<Longrightarrow> cbor_fits n (ref_value s)"
  by (cases s)
    (auto simp: variant_def opt_value_def change_value_fits manifest_value_def split: option.splits)

lemma kind_value_fits: "2 < n \<Longrightarrow> cbor_fits n (kind_value k)"
  by (cases k) (auto simp: variant_def opt_value_def vis_value_fits split: option.splits)

lemma op_value_fits: "cbor_fits 255 (op_value p)"
  by (simp add: op_value_def ref_value_fits kind_value_fits)

end
