(* ===== verification/Oplog.thy ===== *)
theory Oplog
  imports Oplog_Codec
begin

text \<open>
  \<^verbatim>\<open>tig-store/src/oplog.rs\<close>: the append-only log file with its length-prefixed records, the
  identifiers the log hands out, and undo. A session is a repository together with the log
  handle a process holds on it; the handle caches the next identifier, as the code does.
\<close>

unbundle bit_operations_syntax

section \<open>Frames\<close>

text \<open>\<^verbatim>\<open>u32::to_be_bytes\<close> and \<^verbatim>\<open>from_be_bytes\<close>.\<close>

definition be_bytes :: "u32 \<Rightarrow> bytes" where
  "be_bytes w = [ucast (drop_bit 24 w), ucast (drop_bit 16 w), ucast (drop_bit 8 w), ucast w]"

definition be_u32 :: "bytes \<Rightarrow> u32" where
  "be_u32 b =
     (case b of
        [b3, b2, b1, b0] \<Rightarrow>
          push_bit 24 (ucast b3) OR push_bit 16 (ucast b2) OR push_bit 8 (ucast b1) OR ucast b0
      | _ \<Rightarrow> 0)"

lemma length_be_bytes [simp]: "length (be_bytes w) = 4"
  by (simp add: be_bytes_def)

lemma be_bytes_not_Nil [simp]: "be_bytes w \<noteq> []"
  by (simp add: be_bytes_def)

lemma be_u32_bytes [simp]: "be_u32 (be_bytes w) = w"
proof (rule bit_word_eqI)
  fix n assume "n < LENGTH(32)"
  then have n: "n < 32" by simp
  then consider "n < 8" | "8 \<le> n" "n < 16" | "16 \<le> n" "n < 24" | "24 \<le> n" "n < 32" by linarith
  then show "bit (be_u32 (be_bytes w)) n = bit w n"
    by cases (auto simp: be_u32_def be_bytes_def bit_simps)
qed

definition frame_record :: "bytes \<Rightarrow> bytes" where
  "frame_record payload = be_bytes (of_nat (length payload)) @ payload"

text \<open>\<^verbatim>\<open>read_all\<close>, on the bytes left to read; \<open>pos\<close> is the offset the messages report.\<close>

function read_ops :: "'x ext_scheme \<Rightarrow> nat \<Rightarrow> bytes \<Rightarrow> store_error + op list" where
  "read_ops X pos left =
     (if left = [] then Inr []
      else if length left < 4 then Inl (SCorrupt (OplogTruncatedHeader pos))
      else
        let len = unat (be_u32 (take 4 left)); body = drop 4 left in
        if length body < len then Inl (SCorrupt (OplogTruncatedPayload (pos + 4) len))
        else case Option.bind (cbor_read X (take len body)) op_of of
               None \<Rightarrow> Inl (SCorrupt (OplogDecode (pos + 4 + len)))
             | Some p \<Rightarrow>
                 and_then (read_ops X (pos + 4 + len) (drop len body)) (\<lambda>ps. Inr (p # ps)))"
  by pat_completeness auto

termination
  by (relation "measure (\<lambda>(X, pos, left). length left)") auto

declare read_ops.simps [simp del]

definition read_all :: "'x ext_scheme \<Rightarrow> 'r repo_scheme \<Rightarrow> store_error + op list" where
  "read_all X r = (case rlog r of None \<Rightarrow> Inr [] | Some b \<Rightarrow> read_ops X 0 b)"

text \<open>What the log file holds.\<close>

definition log_bytes :: "'r repo_scheme \<Rightarrow> bytes" where
  "log_bytes s = (case rlog s of None \<Rightarrow> [] | Some l \<Rightarrow> l)"

text \<open>The identifiers are compared as \<^verbatim>\<open>i64\<close>.\<close>

definition compute_next_id :: "'x ext_scheme \<Rightarrow> 'r repo_scheme \<Rightarrow> store_error + u64" where
  "compute_next_id X r =
     and_then (read_all X r)
       (\<lambda>ops. Inr (word_of_int (foldl (\<lambda>mx p. if sint (op_id_of p) > mx then sint (op_id_of p) else mx) (-1) ops + 1)))"

section \<open>The log\<close>

datatype op_log = FileLog (next_id_of: op_id) | InMemory (next_id_of: op_id) "op list"

record session = repo +
  slog :: op_log

definition log_open :: "'x ext_scheme \<Rightarrow> ('r session_scheme, store_error, unit) eff" where
  "log_open X s =
     (let s' = (case rlog s of None \<Rightarrow> s\<lparr>rlog := Some []\<rparr> | Some _ \<Rightarrow> s) in
      case compute_next_id X s' of
        Inl e \<Rightarrow> (Inl e, s')
      | Inr n \<Rightarrow> (Inr (), s'\<lparr>slog := FileLog n\<rparr>))"

definition finalize :: "op_id \<Rightarrow> u64 \<Rightarrow> op_in_progress \<Rightarrow> op" where
  "finalize n now p =
     \<lparr>op_id_of = n, op_ts_ns = now, op_actor = oip_actor p, op_kind_of = oip_kind p,
      op_before = oip_before p, op_after = oip_after p\<rparr>"

text \<open>\<open>now\<close> is the clock reading.\<close>

definition log_append ::
  "'x ext_scheme \<Rightarrow> u64 \<Rightarrow> op_in_progress \<Rightarrow> ('r session_scheme, store_error, op) eff" where
  "log_append X now p s =
     (case slog s of
        FileLog n \<Rightarrow>
          (let fin = finalize n now p in
           case cbor_write X (op_value fin) of
             None \<Rightarrow> (Inl (SCorrupt OplogEncode), s)
           | Some b \<Rightarrow>
               if length b \<ge> 2 ^ 32 then (Inl (SCorrupt OplogRecordTooLarge), s)
               else (Inr fin, s\<lparr>rlog := Some ((case rlog s of None \<Rightarrow> [] | Some l \<Rightarrow> l) @ frame_record b),
                               slog := FileLog (n + 1)\<rparr>))
      | InMemory n ops \<Rightarrow>
          (let fin = finalize n now p in (Inr fin, s\<lparr>slog := InMemory (n + 1) (ops @ [fin])\<rparr>)))"

definition log_list :: "'x ext_scheme \<Rightarrow> 'r session_scheme \<Rightarrow> store_error + op list" where
  "log_list X s = (case slog s of FileLog _ \<Rightarrow> read_all X s | InMemory _ ops \<Rightarrow> Inr ops)"

definition log_last :: "'x ext_scheme \<Rightarrow> 'r session_scheme \<Rightarrow> store_error + op option" where
  "log_last X s = and_then (log_list X s) (\<lambda>ops. Inr (if ops = [] then None else Some (last ops)))"

section \<open>What is appended is read back\<close>

lemma read_ops_frame:
  assumes "cbor_laws X" and "cbor_write X (op_value p) = Some b" and "length b < 2 ^ 32"
  shows "read_ops X pos (frame_record b @ rest_bytes) =
    and_then (read_ops X (pos + 4 + length b) rest_bytes) (\<lambda>ps. Inr (p # ps))"
proof -
  have "unat (of_nat (length b) :: u32) = length b"
    using assms(3) by (simp add: unat_of_nat)
  moreover have "cbor_read X b = Some (op_value p)"
    using cbor_read_written [OF assms(1) op_value_fits assms(2)] .
  ultimately show ?thesis
    by (subst read_ops.simps) (simp add: frame_record_def Let_def)
qed

lemma read_ops_Nil [simp]: "read_ops X pos [] = Inr []"
  by (simp add: read_ops.simps)

text \<open>One step of the reader, when it succeeds.\<close>

lemma read_ops_Inr_Cons:
  assumes "read_ops X pos l = Inr ps" and "l \<noteq> []"
  obtains len p qs where "len = unat (be_u32 (take 4 l))" "4 + len \<le> length l"
    "Option.bind (cbor_read X (take len (drop 4 l))) op_of = Some p"
    "read_ops X (pos + 4 + len) (drop (4 + len) l) = Inr qs" "ps = p # qs"
proof -
  let ?len = "unat (be_u32 (take 4 l))"
  from assms(1) have eq: "(if l = [] then Inr []
      else if length l < 4 then Inl (SCorrupt (OplogTruncatedHeader pos))
      else if length (drop 4 l) < ?len then Inl (SCorrupt (OplogTruncatedPayload (pos + 4) ?len))
        else case Option.bind (cbor_read X (take ?len (drop 4 l))) op_of of
               None \<Rightarrow> Inl (SCorrupt (OplogDecode (pos + 4 + ?len)))
             | Some p \<Rightarrow>
                 and_then (read_ops X (pos + 4 + ?len) (drop ?len (drop 4 l))) (\<lambda>ps. Inr (p # ps)))
      = Inr ps"
    by (subst (asm) read_ops.simps) (simp only: Let_def)
  then have len: "4 \<le> length l" "?len \<le> length (drop 4 l)"
    using assms(2) by (auto split: if_splits)
  with eq assms(2) obtain p where p: "Option.bind (cbor_read X (take ?len (drop 4 l))) op_of = Some p"
    by (auto split: option.splits)
  with eq len assms(2) have "and_then (read_ops X (pos + 4 + ?len) (drop ?len (drop 4 l))) (\<lambda>ps. Inr (p # ps)) = Inr ps"
    by simp
  with len p that [of ?len p] show ?thesis by (auto simp: and_then_Inr_iff add.commute)
qed

lemma read_ops_step:
  assumes "len = unat (be_u32 (take 4 l))" "4 + len \<le> length l" "l \<noteq> []"
    "Option.bind (cbor_read X (take len (drop 4 l))) op_of = Some p"
  shows "read_ops X pos l = and_then (read_ops X (pos + 4 + len) (drop (4 + len) l)) (\<lambda>ps. Inr (p # ps))"
  using assms by (subst read_ops.simps) (simp add: Let_def not_less add.commute)

lemma read_ops_append:
  assumes "cbor_laws X" and "cbor_write X (op_value p) = Some b" and "length b < 2 ^ 32"
  shows "read_ops X pos l = Inr ps \<Longrightarrow> read_ops X pos (l @ frame_record b) = Inr (ps @ [p])"
proof (induction "length l" arbitrary: pos l ps rule: less_induct)
  case less
  show ?case
  proof (cases "l = []")
    case True
    with less.prems read_ops_frame [OF assms, of pos "[]"] show ?thesis by simp
  next
    case False
    obtain len q qs where st: "len = unat (be_u32 (take 4 l))" "4 + len \<le> length l"
        "Option.bind (cbor_read X (take len (drop 4 l))) op_of = Some q"
        "read_ops X (pos + 4 + len) (drop (4 + len) l) = Inr qs" "ps = q # qs"
      using read_ops_Inr_Cons [OF less.prems False] by blast
    have ih: "read_ops X (pos + 4 + len) (drop (4 + len) l @ frame_record b) = Inr (qs @ [p])"
      by (rule less.hyps) (use st False in auto)
    have "read_ops X pos (l @ frame_record b) =
        and_then (read_ops X (pos + 4 + len) (drop (4 + len) (l @ frame_record b))) (\<lambda>ps. Inr (q # ps))"
      by (rule read_ops_step) (use st False in simp_all)
    also have "drop (4 + len) (l @ frame_record b) = drop (4 + len) l @ frame_record b"
      using st(2) by simp
    finally show ?thesis using ih st(5) by simp
  qed
qed

text \<open>A truncated log is an error, never a shorter log: every cut inside a record is reported.\<close>

lemma read_ops_truncated:
  assumes "cbor_laws X" and "cbor_write X (op_value p) = Some b" and "length b < 2 ^ 32"
    and "0 < n" and "n < length (frame_record b)"
  shows "\<exists>e. read_ops X pos (take n (frame_record b)) = Inl (SCorrupt e)"
proof (cases "n < 4")
  case True
  with assms(4,5) show ?thesis by (subst read_ops.simps) (auto simp: frame_record_def)
next
  case False
  have len: "unat (of_nat (length b) :: u32) = length b"
    using assms(3) by (simp add: unat_of_nat)
  have "take 4 (take n (frame_record b)) = be_bytes (of_nat (length b))"
    using False by (simp add: frame_record_def min_def)
  moreover have "length (drop 4 (take n (frame_record b))) < length b"
    using False assms(5) by (auto simp: frame_record_def)
  ultimately show ?thesis
    using assms(4,5) False len by (subst read_ops.simps) (simp add: Let_def, simp add: frame_record_def)
qed

text \<open>So a crash in the middle of an append makes the whole log unreadable until the tail is cut off.\<close>

lemma read_ops_torn:
  assumes "cbor_laws X" and "cbor_write X (op_value p) = Some b" and "length b < 2 ^ 32"
    and "0 < n" and "n < length (frame_record b)"
  shows "read_ops X pos l = Inr ps \<Longrightarrow> \<exists>e. read_ops X pos (l @ take n (frame_record b)) = Inl (SCorrupt e)"
proof (induction "length l" arbitrary: pos l ps rule: less_induct)
  case less
  show ?case
  proof (cases "l = []")
    case True
    with read_ops_truncated [OF assms] show ?thesis by simp
  next
    case False
    obtain len q qs where st: "len = unat (be_u32 (take 4 l))" "4 + len \<le> length l"
        "Option.bind (cbor_read X (take len (drop 4 l))) op_of = Some q"
        "read_ops X (pos + 4 + len) (drop (4 + len) l) = Inr qs" "ps = q # qs"
      using read_ops_Inr_Cons [OF less.prems False] by blast
    obtain e where "read_ops X (pos + 4 + len) (drop (4 + len) l @ take n (frame_record b)) = Inl (SCorrupt e)"
      using less.hyps [OF _ st(4)] st(2) False by auto
    moreover have "read_ops X pos (l @ take n (frame_record b)) =
        and_then (read_ops X (pos + 4 + len) (drop (4 + len) (l @ take n (frame_record b)))) (\<lambda>ps. Inr (q # ps))"
      by (rule read_ops_step) (use st False in simp_all)
    ultimately show ?thesis using st(2) by simp
  qed
qed

section \<open>Identifiers\<close>

text \<open>The operations of a log are numbered in order, and the handle knows the next number.\<close>

definition numbered :: "op list \<Rightarrow> op_id \<Rightarrow> bool" where
  "numbered ops n \<longleftrightarrow>
     length ops < 2 ^ 63 \<and> n = of_nat (length ops)
     \<and> (\<forall>i < length ops. op_id_of (ops ! i) = of_nat i)"

definition log_ok :: "'x ext_scheme \<Rightarrow> 'r session_scheme \<Rightarrow> op list \<Rightarrow> bool" where
  "log_ok X s ops \<longleftrightarrow> log_list X s = Inr ops \<and> numbered ops (next_id_of (slog s))"

lemma numbered_unat: "numbered ops n \<Longrightarrow> i < length ops \<Longrightarrow> unat (op_id_of (ops ! i)) = i"
  by (simp add: numbered_def unat_of_nat)

lemma numbered_distinct: "numbered ops n \<Longrightarrow> distinct (map op_id_of ops)"
  by (simp add: distinct_conv_nth) (metis numbered_unat)

lemma numbered_fresh: "numbered ops n \<Longrightarrow> n \<notin> op_id_of ` set ops"
proof
  assume n: "numbered ops n" and "n \<in> op_id_of ` set ops"
  then obtain i where i: "i < length ops" "op_id_of (ops ! i) = n" by (auto simp: in_set_conv_nth)
  then have "unat n = i" using numbered_unat [OF n i(1)] by simp
  moreover have "unat n = length ops" using n by (simp add: numbered_def unat_of_nat)
  ultimately show False using i(1) by simp
qed

lemma numbered_append:
  assumes "numbered ops n" and "op_id_of p = n" and "length ops + 1 < 2 ^ 63"
  shows "numbered (ops @ [p]) (n + 1)"
  using assms by (auto simp: numbered_def nth_append less_Suc_eq)

lemma sint_of_nat_small: "i < 2 ^ 63 \<Longrightarrow> sint (of_nat i :: u64) = int i"
proof -
  assume "i < 2 ^ 63"
  then have "signed_take_bit 63 (int i) = int i"
    by (intro signed_take_bit_int_eq_self) simp_all
  moreover have "(of_nat i :: u64) = word_of_int (int i)" by simp
  ultimately show ?thesis by (simp only: sint_sbintrunc') simp
qed

lemma compute_max:
  "(\<And>i. i < length ops \<Longrightarrow> sint (op_id_of (ops ! i)) = int i) \<Longrightarrow>
   foldl (\<lambda>mx p. if sint (op_id_of p) > mx then sint (op_id_of p) else mx) (-1) ops = int (length ops) - 1"
proof (induction ops rule: rev_induct)
  case (snoc p ops)
  have "sint (op_id_of (ops ! i)) = int i" if "i < length ops" for i
    using snoc.prems [of i] that by (simp add: nth_append)
  moreover have "sint (op_id_of p) = int (length ops)"
    using snoc.prems [of "length ops"] by simp
  ultimately show ?case using snoc.IH by simp
qed simp

lemma compute_next_id_numbered:
  assumes "read_all X s = Inr ops" and "numbered ops n"
  shows "compute_next_id X s = Inr n"
proof -
  have "sint (op_id_of (ops ! i)) = int i" if "i < length ops" for i
  proof -
    have "i < 2 ^ 63" using that assms(2) by (simp add: numbered_def)
    moreover have "op_id_of (ops ! i) = of_nat i" using that assms(2) by (simp add: numbered_def)
    ultimately show ?thesis by (simp add: sint_of_nat_small)
  qed
  from compute_max [OF this] assms show ?thesis
    by (simp add: compute_next_id_def numbered_def)
qed

section \<open>Appending and opening\<close>

text \<open>Everything but the log is left alone.\<close>

definition same_refs :: "'r session_scheme \<Rightarrow> 'r session_scheme \<Rightarrow> bool" where
  "same_refs s t \<longleftrightarrow>
     ofiles t = ofiles s \<and> owritten t = owritten s \<and> rchanges t = rchanges s
     \<and> rbookmarks t = rbookmarks s \<and> rhead t = rhead s \<and> rworkspaces t = rworkspaces s"

lemma log_append_same_refs: "log_append X now p s = (r, t) \<Longrightarrow> same_refs s t"
  by (auto simp: log_append_def same_refs_def Let_def split: op_log.splits option.splits if_splits)

lemma log_append_cases:
  assumes "cbor_laws X"
  shows "(\<exists>t. log_append X now p s = (Inr (finalize (next_id_of (slog s)) now p), t))
    \<or> log_append X now p s = (Inl (SCorrupt OplogRecordTooLarge), s)"
proof -
  have "\<exists>b. cbor_write X (op_value q) = Some b" for q
    using cbor_write_read [OF assms op_value_fits] by blast
  then show ?thesis
    by (auto simp: log_append_def Let_def split: op_log.splits option.splits)
      (metis option.distinct(1))+
qed

lemma log_append_ok:
  assumes "cbor_laws X" and "log_ok X s ops" and "length ops + 1 < 2 ^ 63"
    and "log_append X now p s = (Inr q, t)"
  shows "q = finalize (next_id_of (slog s)) now p" and "log_ok X t (ops @ [q])"
    and "next_id_of (slog t) = next_id_of (slog s) + 1"
proof -
  let ?n = "next_id_of (slog s)"
  have num: "numbered ops ?n" and lst: "log_list X s = Inr ops"
    using assms(2) by (simp_all add: log_ok_def)
  have "q = finalize ?n now p \<and> log_list X t = Inr (ops @ [q]) \<and> next_id_of (slog t) = ?n + 1"
  proof (cases "slog s")
    case (FileLog n)
    let ?fin = "finalize n now p"
    obtain b where b: "cbor_write X (op_value ?fin) = Some b"
      using cbor_write_read [OF assms(1) op_value_fits] by blast
    have small: "length b < 2 ^ 32"
      using assms(4) FileLog b by (auto simp: log_append_def Let_def split: if_splits)
    then have t: "q = ?fin" "t = s\<lparr>rlog := Some ((case rlog s of None \<Rightarrow> [] | Some l \<Rightarrow> l) @ frame_record b),
        slog := FileLog (n + 1)\<rparr>"
      using assms(4) FileLog b by (simp_all add: log_append_def Let_def)
    have "read_ops X 0 (case rlog s of None \<Rightarrow> [] | Some l \<Rightarrow> l) = Inr ops"
      using lst FileLog by (auto simp: log_list_def read_all_def split: option.splits)
    from read_ops_append [OF assms(1) b small this] t FileLog show ?thesis
      by (simp add: log_list_def read_all_def)
  next
    case (InMemory n l)
    with assms(4) lst show ?thesis by (auto simp: log_append_def log_list_def Let_def)
  qed
  then show "q = finalize ?n now p" "log_ok X t (ops @ [q])" "next_id_of (slog t) = ?n + 1"
    using numbered_append [OF num _ assms(3), of q] by (auto simp: log_ok_def finalize_def)
qed

lemma log_open_ok:
  assumes "read_all X s = Inr ops" and "numbered ops n"
  shows "\<exists>t. log_open X s = (Inr (), t) \<and> log_ok X t ops \<and> same_refs s t"
proof -
  let ?s = "case rlog s of None \<Rightarrow> s\<lparr>rlog := Some []\<rparr> | Some _ \<Rightarrow> s"
  have r: "read_all X ?s = Inr ops"
    using assms(1) by (auto simp: read_all_def split: option.splits)
  then have "log_open X s = (Inr (), ?s\<lparr>slog := FileLog n\<rparr>)"
    using compute_next_id_numbered [OF r assms(2)] by (simp add: log_open_def Let_def)
  moreover have "log_ok X (?s\<lparr>slog := FileLog n\<rparr>) ops"
    using r assms(2) by (auto simp: log_ok_def log_list_def read_all_def split: option.splits)
  moreover have "same_refs s (?s\<lparr>slog := FileLog n\<rparr>)"
    by (auto simp: same_refs_def split: option.splits)
  ultimately show ?thesis by blast
qed

text \<open>
  The cached counter is per handle. A second process that opened the log before our append and
  appends after it gives its operation the same identifier, write lock or not.
\<close>

lemma stale_handle_ids:
  assumes "log_append X now p s = (Inr a, s1)"
    and "log_append X now' q (s1\<lparr>slog := slog s\<rparr>) = (Inr b, s2)"
  shows "op_id_of a = op_id_of b"
  using assms
  by (auto simp: log_append_def finalize_def Let_def split: op_log.splits option.splits if_splits)

end
