(* ===== verification/Undo.thy ===== *)
theory Undo
  imports Oplog
begin

text \<open>
  Undo, the second half of \<^verbatim>\<open>tig-store/src/oplog.rs\<close>: capturing and restoring references, choosing
  the operation to undo, and \<^verbatim>\<open>undo_once\<close>. The references are specified as one map from
  reference keys to snapshots; restoring is an update of that map.
\<close>

section \<open>Captured references\<close>

datatype ref_key = KyHead | KyChange change_id | KyWorkspace workspace_id | KyBookmark string

fun key_of_ref :: "ref_snapshot \<Rightarrow> ref_key" where
  "key_of_ref (RHead _) = KyHead"
| "key_of_ref (RChange i _) = KyChange i"
| "key_of_ref (RWorkspace i _) = KyWorkspace i"
| "key_of_ref (RBookmark n _) = KyBookmark n"

fun read_current :: "ref_snapshot \<Rightarrow> 'r repo_scheme \<Rightarrow> store_error + ref_snapshot" where
  "read_current (RHead _) r = Inr (RHead (head r))"
| "read_current (RChange i _) r =
     (case get_change i r of
        Inr c \<Rightarrow> Inr (RChange i (Some c))
      | Inl (SNotFound _) \<Rightarrow> Inr (RChange i None)
      | Inl e \<Rightarrow> Inl e)"
| "read_current (RWorkspace i _) r =
     (case ws_get i r of
        Inr m \<Rightarrow> Inr (RWorkspace i (Some m))
      | Inl (SNotFound _) \<Rightarrow> Inr (RWorkspace i None)
      | Inl e \<Rightarrow> Inl e)"
| "read_current (RBookmark n _) r = Inr (RBookmark n (get_bookmark n r))"

fun restore_ref :: "ref_snapshot \<Rightarrow> ('r repo_scheme, store_error, unit) eff" where
  "restore_ref (RHead v) = (case v of Some i \<Rightarrow> set_head i | None \<Rightarrow> clear_head)"
| "restore_ref (RChange i v) = (case v of Some c \<Rightarrow> put_change c | None \<Rightarrow> delete_change i)"
| "restore_ref (RWorkspace i v) =
     (case v of
        Some m \<Rightarrow> ws_put m
      | None \<Rightarrow> (\<lambda>r. case ws_delete i r of
                     (Inl (SNotFound _), t) \<Rightarrow> (Inr (), t)
                   | (res, t) \<Rightarrow> (res, t)))"
| "restore_ref (RBookmark n v) =
     (case v of Some i \<Rightarrow> set_bookmark n i | None \<Rightarrow> delete_bookmark n)"

definition workspace_ref_snapshot :: "workspace_kind \<Rightarrow> 'r repo_scheme \<Rightarrow> store_error + ref_snapshot" where
  "workspace_ref_snapshot k r =
     (case k of
        WMain \<Rightarrow> Inr (RHead (head r))
      | WSecondary m \<Rightarrow>
          (case ws_get (ws_id m) r of
             Inr v \<Rightarrow> Inr (RWorkspace (ws_id m) (Some v))
           | Inl (SNotFound _) \<Rightarrow> Inr (RWorkspace (ws_id m) None)
           | Inl e \<Rightarrow> Inl e))"

section \<open>Choosing the operation\<close>

definition is_undo :: "op \<Rightarrow> bool" where
  "is_undo p = (case op_kind_of p of OkUndo _ \<Rightarrow> True | _ \<Rightarrow> False)"

text \<open>The backward loop, with its counter.\<close>

fun pick_loop :: "nat \<Rightarrow> op list \<Rightarrow> op option" where
  "pick_loop undo_depth [] = None"
| "pick_loop undo_depth (p # ps) =
     (if is_undo p then pick_loop (undo_depth + 1) ps
      else if undo_depth > 0 then pick_loop (undo_depth - 1) ps
      else Some p)"

definition pick_op_to_undo :: "op list \<Rightarrow> op option" where
  "pick_op_to_undo ops = pick_loop 0 (rev ops)"

text \<open>The specification: a stack that operations push and undos pop.\<close>

definition undo_stack :: "op list \<Rightarrow> op list" where
  "undo_stack ops = foldl (\<lambda>st p. if is_undo p then tl st else p # st) [] ops"

lemma undo_stack_simps [simp]:
  "undo_stack [] = []"
  "undo_stack (ops @ [p]) = (if is_undo p then tl (undo_stack ops) else p # undo_stack ops)"
  by (simp_all add: undo_stack_def)

lemma pick_loop_stack:
  "pick_loop d (rev ops) = (case drop d (undo_stack ops) of [] \<Rightarrow> None | p # _ \<Rightarrow> Some p)"
proof (induction ops arbitrary: d rule: rev_induct)
  case (snoc p ops)
  then show ?case by (cases d) (auto simp: drop_Suc split: list.splits)
qed simp

lemma pick_is_top: "pick_op_to_undo ops = (case undo_stack ops of [] \<Rightarrow> None | p # _ \<Rightarrow> Some p)"
  by (simp add: pick_op_to_undo_def pick_loop_stack)

lemma undo_stack_subset: "set (undo_stack ops) \<subseteq> {p \<in> set ops. \<not> is_undo p}"
proof (induction ops rule: rev_induct)
  case (snoc p ops)
  then show ?case using list.set_sel(2) by (cases "undo_stack ops") auto
qed simp

lemma pick_in: "pick_op_to_undo ops = Some p \<Longrightarrow> p \<in> set ops \<and> \<not> is_undo p"
  using undo_stack_subset [of ops] by (auto simp: pick_is_top split: list.splits)

section \<open>Undoing\<close>

record undo_outcome =
  uo_undone :: op
  uo_recorded :: op

definition undo_once ::
  "'x ext_scheme \<Rightarrow> u64 \<Rightarrow> principal_id \<Rightarrow> ('r session_scheme, store_error, undo_outcome option) eff" where
  "undo_once X now actor =
     bindE (readE (log_list X)) (\<lambda>ops.
       case pick_op_to_undo ops of
         None \<Rightarrow> retE None
       | Some target \<Rightarrow>
           bindE (readE (\<lambda>s. traverse (\<lambda>snap. read_current snap s) (op_before target))) (\<lambda>before_undo.
             bindE (forE restore_ref (op_before target)) (\<lambda>_.
               bindE (log_append X now
                        \<lparr>oip_actor = actor, oip_kind = OkUndo (op_id_of target),
                         oip_before = before_undo, oip_after = op_before target\<rparr>) (\<lambda>recorded.
                 retE (Some \<lparr>uo_undone = target, uo_recorded = recorded\<rparr>)))))"

section \<open>The references as one map\<close>

fun snapshot_at :: "ref_key \<Rightarrow> ref_snapshot" where
  "snapshot_at KyHead = RHead None"
| "snapshot_at (KyChange i) = RChange i None"
| "snapshot_at (KyWorkspace i) = RWorkspace i None"
| "snapshot_at (KyBookmark n) = RBookmark n None"

definition refs_view :: "'r repo_scheme \<Rightarrow> ref_key \<Rightarrow> store_error + ref_snapshot" where
  "refs_view r k = read_current (snapshot_at k) r"

lemma read_current_view: "read_current s r = refs_view r (key_of_ref s)"
  by (cases s) (simp_all add: refs_view_def)

text \<open>A snapshot that names its own key and survives the file it is restored to.\<close>

fun snap_wf :: "ref_snapshot \<Rightarrow> bool" where
  "snap_wf (RHead v) \<longleftrightarrow> (case v of None \<Rightarrow> True | Some i \<Rightarrow> trimmed i)"
| "snap_wf (RChange i v) \<longleftrightarrow> (case v of None \<Rightarrow> True | Some c \<Rightarrow> ch_id c = i)"
| "snap_wf (RWorkspace i v) \<longleftrightarrow> (case v of None \<Rightarrow> True | Some m \<Rightarrow> ws_id m = i)"
| "snap_wf (RBookmark n v) \<longleftrightarrow> (case v of None \<Rightarrow> True | Some i \<Rightarrow> trimmed i \<and> bookmark_name_ok n)"

lemma refs_view_simps:
  "refs_view r KyHead = Inr (RHead (head r))"
  "refs_view r (KyBookmark n) = Inr (RBookmark n (get_bookmark n r))"
  "refs_view r (KyChange i) = (case get_change i r of Inr c \<Rightarrow> Inr (RChange i (Some c))
      | Inl (SNotFound _) \<Rightarrow> Inr (RChange i None) | Inl e \<Rightarrow> Inl e)"
  "refs_view r (KyWorkspace i) = (case ws_get i r of Inr m \<Rightarrow> Inr (RWorkspace i (Some m))
      | Inl (SNotFound _) \<Rightarrow> Inr (RWorkspace i None) | Inl e \<Rightarrow> Inl e)"
  by (simp_all add: refs_view_def)

lemma view_eqI:
  assumes "\<And>s. key_of_ref s = k \<Longrightarrow> read_current s t = v" shows "refs_view t k = v"
proof -
  have "key_of_ref (snapshot_at k) = k" by (cases k) simp_all
  with assms show ?thesis by (simp add: refs_view_def)
qed

text \<open>Restoring is updating the map.\<close>

lemma restore_ref_view:
  assumes "snap_wf s"
  shows "\<exists>t. restore_ref s r = (Inr (), t) \<and> refs_view t = (refs_view r)(key_of_ref s := Inr s)"
proof -
  have res: "fst (restore_ref s r) = Inr ()"
    using assms
    by (cases s) (auto simp: set_head_def clear_head_def put_change_def delete_change_def ws_put_def
        ws_delete_def set_bookmark_def delete_bookmark_def split: option.splits)
  have "refs_view (snd (restore_ref s r)) k = ((refs_view r)(key_of_ref s := Inr s)) k" for k
  proof (cases s)
    case (RHead v)
    with assms show ?thesis
      by (cases k) (auto simp: refs_view_simps set_head_def clear_head_def head_def get_change_def
          ws_get_def get_bookmark_def trimmed_def split: option.splits)
  next
    case (RChange i v)
    with assms show ?thesis
      by (cases k; cases v)
        (simp_all add: refs_view_simps get_put_change get_delete_change,
         simp_all add: put_change_def delete_change_def head_def ws_get_def get_bookmark_def)
  next
    case (RWorkspace i v)
    show ?thesis
    proof (cases v)
      case None
      have "snd (restore_ref s r) = snd (ws_delete i r)"
        using RWorkspace None by (auto split: prod.splits sum.splits store_error.splits)
      with RWorkspace None show ?thesis
        by (cases k) (simp_all add: refs_view_simps ws_get_delete,
            simp_all add: ws_delete_def head_def get_change_def get_bookmark_def split: option.splits)
    next
      case (Some m)
      with RWorkspace assms show ?thesis
        by (cases k) (simp_all add: refs_view_simps ws_get_put,
            simp_all add: ws_put_def head_def get_change_def get_bookmark_def)
    qed
  next
    case (RBookmark n v)
    with assms show ?thesis
      by (cases k; cases v)
        (auto simp: refs_view_simps set_bookmark_def delete_bookmark_def head_def get_change_def
          ws_get_def get_bookmark_def trimmed_def AList.update_conv' AList.delete_conv')
  qed
  with res show ?thesis by (metis ext prod.collapse)
qed

fun view_update :: "ref_snapshot list \<Rightarrow> (ref_key \<Rightarrow> store_error + ref_snapshot) \<Rightarrow> ref_key \<Rightarrow> store_error + ref_snapshot" where
  "view_update [] v = v"
| "view_update (s # ss) v = view_update ss (v(key_of_ref s := Inr s))"

lemma restore_refs_view:
  "\<forall>s \<in> set ss. snap_wf s \<Longrightarrow>
   \<exists>t. forE restore_ref ss r = (Inr (), t) \<and> refs_view t = view_update ss (refs_view r)"
proof (induction ss arbitrary: r)
  case (Cons s ss)
  obtain u where u: "restore_ref s r = (Inr (), u)" "refs_view u = (refs_view r)(key_of_ref s := Inr s)"
    using restore_ref_view Cons.prems by (metis list.set_intros(1))
  obtain t where "forE restore_ref ss u = (Inr (), t)" "refs_view t = view_update ss (refs_view u)"
    using Cons.IH Cons.prems by (metis list.set_intros(2))
  with u show ?case by simp
qed simp

lemma view_update_notin: "k \<notin> key_of_ref ` set ss \<Longrightarrow> view_update ss v k = v k"
  by (induction ss arbitrary: v) auto

lemma view_update_in:
  "distinct (map key_of_ref ss) \<Longrightarrow> s \<in> set ss \<Longrightarrow> view_update ss v (key_of_ref s) = Inr s"
proof (induction ss arbitrary: v)
  case (Cons a ss)
  then show ?case by (cases "s = a") (auto simp: view_update_notin)
qed simp

text \<open>Restoring references never touches the objects or the log.\<close>

definition same_store :: "'r session_scheme \<Rightarrow> 'r session_scheme \<Rightarrow> bool" where
  "same_store s t \<longleftrightarrow> ofiles t = ofiles s \<and> owritten t = owritten s \<and> rlog t = rlog s \<and> slog t = slog s"

lemma restore_same_store: "restore_ref x s = (r, t) \<Longrightarrow> same_store s t"
  by (cases x)
    (auto simp: same_store_def set_head_def clear_head_def put_change_def delete_change_def ws_put_def
      ws_delete_def set_bookmark_def delete_bookmark_def split: option.splits if_splits)

lemma restores_same_store: "forE restore_ref ss s = (r, t) \<Longrightarrow> same_store s t"
proof -
  have "keeps same_store (forE restore_ref ss)"
  proof (rule keeps_forE)
    show "reflp same_store" "transp same_store"
      by (auto intro!: reflpI transpI simp: same_store_def)
    show "keeps same_store (restore_ref x)" for x
      by (rule keepsI) (metis prod.collapse restore_same_store)
  qed
  then show "forE restore_ref ss s = (r, t) \<Longrightarrow> same_store s t" by (rule keepsD)
qed

lemma log_list_same: "same_store s t \<Longrightarrow> log_list X t = log_list X s"
  by (auto simp: log_list_def read_all_def same_store_def split: op_log.splits)

lemma refs_view_same: "same_refs s t \<Longrightarrow> refs_view t = refs_view s"
proof (rule ext)
  fix k assume "same_refs s t"
  then show "refs_view t k = refs_view s k"
    by (cases k) (simp_all add: refs_view_simps same_refs_def head_def get_change_def ws_get_def get_bookmark_def)
qed

section \<open>What undo does\<close>

text \<open>
  With readable references, undo restores exactly the references the operation recorded and
  leaves every other reference and all objects alone; it either records itself, so the next
  undo picks the operation below, or the record does not fit the log's 32-bit length.
\<close>

lemma undo_once_spec:
  assumes "cbor_laws X" and "log_ok X s ops" and "length ops + 1 < 2 ^ 63"
    and "pick_op_to_undo ops = Some p"
    and "\<forall>x \<in> set (op_before p). snap_wf x"
    and "\<forall>x \<in> set (op_before p). \<exists>y. read_current x s = Inr y"
  shows "\<exists>t r. undo_once X now actor s = (r, t)
    \<and> refs_view t = view_update (op_before p) (refs_view s)
    \<and> ofiles t = ofiles s \<and> owritten t = owritten s
    \<and> ((\<exists>q. r = Inr (Some \<lparr>uo_undone = p, uo_recorded = q\<rparr>) \<and> is_undo q
          \<and> log_ok X t (ops @ [q]) \<and> undo_stack (ops @ [q]) = tl (undo_stack ops))
       \<or> r = Inl (SCorrupt OplogRecordTooLarge) \<and> log_ok X t ops)"
proof -
  have lst: "log_list X s = Inr ops" using assms(2) by (simp add: log_ok_def)
  let ?b = "map (\<lambda>x. case read_current x s of Inr y \<Rightarrow> y | Inl _ \<Rightarrow> x) (op_before p)"
  have tr: "traverse (\<lambda>x. read_current x s) (op_before p) = Inr ?b"
    by (rule traverse_map_Inr) (use assms(6) in fastforce)
  obtain u where u: "forE restore_ref (op_before p) s = (Inr (), u)"
      "refs_view u = view_update (op_before p) (refs_view s)"
    using restore_refs_view [OF assms(5)] by blast
  have st: "same_store s u" using restores_same_store [OF u(1)] .
  have oku: "log_ok X u ops" using assms(2) st log_list_same [OF st, of X] by (simp add: log_ok_def same_store_def)
  let ?rec = "\<lparr>oip_actor = actor, oip_kind = OkUndo (op_id_of p), oip_before = ?b, oip_after = op_before p\<rparr>"
  have eq: "undo_once X now actor s =
      (case log_append X now ?rec u of (Inl e, t) \<Rightarrow> (Inl e, t)
       | (Inr q, t) \<Rightarrow> (Inr (Some \<lparr>uo_undone = p, uo_recorded = q\<rparr>), t))"
    by (simp add: undo_once_def eff_simps lst assms(4) tr u(1) split: prod.splits sum.splits)
  from log_append_cases [OF assms(1), of now ?rec u] show ?thesis
  proof
    assume "\<exists>t. log_append X now ?rec u = (Inr (finalize (next_id_of (slog u)) now ?rec), t)"
    then obtain q t where a: "log_append X now ?rec u = (Inr q, t)" by blast
    note ok = log_append_ok [OF assms(1) oku assms(3) a]
    have sr: "same_refs u t" using log_append_same_refs [OF a] .
    have "refs_view t = refs_view u" by (rule refs_view_same [OF sr])
    moreover have "ofiles t = ofiles u" "owritten t = owritten u" using sr by (simp_all add: same_refs_def)
    moreover have "is_undo q" using ok(1) by (simp add: finalize_def is_undo_def)
    moreover have "ofiles u = ofiles s" "owritten u = owritten s" using st by (simp_all add: same_store_def)
    moreover have "undo_once X now actor s = (Inr (Some \<lparr>uo_undone = p, uo_recorded = q\<rparr>), t)"
      using eq a by simp
    ultimately show ?thesis using ok(2) u(2)
      by (intro exI [of _ t] exI [of _ "Inr (Some \<lparr>uo_undone = p, uo_recorded = q\<rparr>)"]) simp
  next
    assume "log_append X now ?rec u = (Inl (SCorrupt OplogRecordTooLarge), u)"
    with eq have "undo_once X now actor s = (Inl (SCorrupt OplogRecordTooLarge), u)" by simp
    with oku u(2) st show ?thesis
      by (intro exI [of _ u] exI [of _ "Inl (SCorrupt OplogRecordTooLarge)"]) (simp add: same_store_def)
  qed
qed

lemma undo_once_nothing:
  assumes "log_list X s = Inr ops" and "undo_stack ops = []"
  shows "undo_once X now actor s = (Inr None, s)"
  using assms by (simp add: undo_once_def eff_simps pick_is_top)

end
