(* ===== verification/Gc.thy ===== *)
theory Gc
  imports Undo
begin

text \<open>
  \<^verbatim>\<open>tig-store/src/gc.rs\<close>: mark and sweep over the object store. The mark phase is the code's
  worklist loop; its result is shown to be exactly the objects reachable from the roots, and
  the sweep to delete exactly the others.
\<close>

record gc_options =
  gc_dry_run :: bool
  include_oplog_snapshots :: bool

definition gc_options_default :: gc_options where
  "gc_options_default = \<lparr>gc_dry_run = False, include_oplog_snapshots = True\<rparr>"

record gc_summary =
  gs_roots :: nat
  gs_kept :: nat
  gs_removed :: nat
  gs_bytes_freed :: nat
  gs_dry_run :: bool

section \<open>Roots\<close>

definition change_roots :: "change \<Rightarrow> hash list" where
  "change_roots c = ch_current c # ch_history c"

fun snapshot_roots :: "ref_snapshot \<Rightarrow> hash list" where
  "snapshot_roots (RChange i (Some c)) = change_roots c"
| "snapshot_roots _ = []"

definition op_roots :: "op \<Rightarrow> hash list" where
  "op_roots p =
     (case op_kind_of p of OkSnap h _ \<Rightarrow> [h] | _ \<Rightarrow> [])
     @ concat (map snapshot_roots (op_before p @ op_after p))"

text \<open>The set of roots, as a list without repetitions (a \<^verbatim>\<open>HashSet\<close> has no order).\<close>

definition gc_roots :: "'x ext_scheme \<Rightarrow> gc_options \<Rightarrow> 'r session_scheme \<Rightarrow> store_error + hash list" where
  "gc_roots X opts s =
     and_then (traverse (\<lambda>i. get_change i s) (list_changes s)) (\<lambda>cs.
       and_then (if include_oplog_snapshots opts then log_list X s else Inr []) (\<lambda>ops.
         Inr (remdups (concat (map change_roots cs) @ concat (map op_roots ops)))))"

section \<open>Mark\<close>

text \<open>What a marked object pushes, in the order it is pushed.\<close>

definition pushed_kind :: "entry_kind \<Rightarrow> bool" where
  "pushed_kind k \<longleftrightarrow> (case k of ESymlink \<Rightarrow> False | ESubmodule \<Rightarrow> False | _ \<Rightarrow> True)"

definition gc_children :: "'x ext_scheme \<Rightarrow> raw_object \<Rightarrow> store_error + hash list" where
  "gc_children X raw =
     (case raw_kind raw of
        KSnapshot \<Rightarrow>
          and_then (map_err SCore (decode_snapshot X raw)) (\<lambda>sn. Inr (sn_tree sn # sn_parents sn))
      | KTree \<Rightarrow>
          and_then (map_err SCore (decode_tree X raw))
            (\<lambda>t. Inr (map te_target (filter (\<lambda>e. pushed_kind (te_kind e)) (entries t))))
      | _ \<Rightarrow> Inr [])"

text \<open>The queue is a \<^verbatim>\<open>Vec\<close> used as a stack; here its top comes first.\<close>

lemma finite_b32: "finite (UNIV :: b32 set)"
proof -
  have "finite (b32_bytes ` UNIV)"
    by (rule finite_subset [OF _ finite_lists_length_eq [of "UNIV :: u8 set" 32]]) auto
  then show ?thesis by (rule finite_imageD) (simp add: inj_def b32_bytes_inject)
qed

lemma finite_hash: "finite (UNIV :: hash set)"
proof -
  have "(UNIV :: hash set) = Hash ` UNIV" by (auto intro: range_eqI [of _ _ "hash_bytes x" for x])
  then show ?thesis using finite_b32 by (metis finite_imageI)
qed

lemma unmarked_decreases:
  "(h :: hash) \<notin> set marked \<Longrightarrow> card (UNIV - insert h (set marked)) < card (UNIV - set marked)"
  by (rule psubset_card_mono) (use finite_hash in \<open>auto intro: finite_subset\<close>)

function gc_mark :: "'x ext_scheme \<Rightarrow> 'r objects_dir_scheme \<Rightarrow> hash list \<Rightarrow> hash list \<Rightarrow> store_error + hash list" where
  "gc_mark X r marked [] = Inr marked"
| "gc_mark X r marked (h # queue) =
     (if h \<in> set marked then gc_mark X r marked queue
      else case obj_get X h r of
             Inl (SNotFound _) \<Rightarrow> gc_mark X r (h # marked) queue
           | Inl e \<Rightarrow> Inl e
           | Inr raw \<Rightarrow>
               (case gc_children X raw of
                  Inl e \<Rightarrow> Inl e
                | Inr hs \<Rightarrow> gc_mark X r (h # marked) (rev hs @ queue)))"
  by pat_completeness auto

termination
  by (relation "measures [\<lambda>(X, r, marked, queue). card (UNIV - set marked), \<lambda>(X, r, marked, queue). length queue]")
    (auto dest: unmarked_decreases)

section \<open>Sweep\<close>

definition gc_unmarked :: "hash list \<Rightarrow> (hash \<times> nat) list \<Rightarrow> (hash \<times> nat) list" where
  "gc_unmarked marked found = filter (\<lambda>(h, _). h \<notin> set marked) found"

definition gc_sweep ::
  "'x ext_scheme \<Rightarrow> bool \<Rightarrow> (hash \<times> nat) list \<Rightarrow> ('r objects_dir_scheme, store_error, unit) eff" where
  "gc_sweep X dry to_remove =
     forE (\<lambda>(h, _). if dry then retE () else obj_remove X h) to_remove"

definition collect_garbage ::
  "'x ext_scheme \<Rightarrow> gc_options \<Rightarrow> ('r session_scheme, store_error, gc_summary) eff" where
  "collect_garbage X opts =
     bindE (readE (gc_roots X opts)) (\<lambda>roots.
       bindE (readE (\<lambda>s. gc_mark X s [] roots)) (\<lambda>marked.
         bindE (readE (\<lambda>s. Inr (iter_all X s))) (\<lambda>found.
           let to_remove = gc_unmarked marked found in
           bindE (gc_sweep X (gc_dry_run opts) to_remove) (\<lambda>_.
             retE \<lparr>gs_roots = length roots,
                   gs_kept = length (filter (\<lambda>(h, _). h \<in> set marked) found),
                   gs_removed = length to_remove,
                   gs_bytes_freed = sum_list (map snd to_remove),
                   gs_dry_run = gc_dry_run opts\<rparr>))))"

section \<open>Reachability\<close>

text \<open>One step of the object graph as the collector sees it, and what it can reach.\<close>

definition gc_edge :: "'x ext_scheme \<Rightarrow> 'r objects_dir_scheme \<Rightarrow> hash \<Rightarrow> hash \<Rightarrow> bool" where
  "gc_edge X r h k \<longleftrightarrow>
     (\<exists>raw hs. obj_get X h r = Inr raw \<and> gc_children X raw = Inr hs \<and> k \<in> set hs)"

inductive reachable :: "'x ext_scheme \<Rightarrow> 'r objects_dir_scheme \<Rightarrow> hash set \<Rightarrow> hash \<Rightarrow> bool"
  for X r S where
  root: "h \<in> S \<Longrightarrow> reachable X r S h"
| step: "reachable X r S h \<Longrightarrow> gc_edge X r h k \<Longrightarrow> reachable X r S k"

lemma reachable_mono: "reachable X r S h \<Longrightarrow> S \<subseteq> T \<Longrightarrow> reachable X r T h"
  by (induction rule: reachable.induct) (auto intro: reachable.intros)

text \<open>
  Loop invariant of the mark phase: whatever a marked object points at is marked or queued,
  and nothing is marked or queued that is not reachable.
\<close>

definition marked_closed :: "'x ext_scheme \<Rightarrow> 'r objects_dir_scheme \<Rightarrow> hash set \<Rightarrow> hash set \<Rightarrow> bool" where
  "marked_closed X r M Q \<longleftrightarrow> (\<forall>h \<in> M. \<forall>k. gc_edge X r h k \<longrightarrow> k \<in> M \<union> Q)"

lemma gc_edge_missing: "obj_get X h r = Inl e \<Longrightarrow> \<not> gc_edge X r h k"
  by (simp add: gc_edge_def)

lemma gc_edge_children: "obj_get X h r = Inr raw \<Longrightarrow> gc_children X raw = Inr hs \<Longrightarrow> gc_edge X r h k \<longleftrightarrow> k \<in> set hs"
  by (auto simp: gc_edge_def)

lemma gc_mark_closed:
  "gc_mark X r marked queue = Inr res \<Longrightarrow> marked_closed X r (set marked) (set queue) \<Longrightarrow>
   set marked \<union> set queue \<subseteq> set res \<and> marked_closed X r (set res) {}"
proof (induction X r marked queue arbitrary: res rule: gc_mark.induct)
  case (2 X r marked h queue)
  show ?case
  proof (cases "h \<in> set marked")
    case True
    then have "set marked \<union> set queue \<subseteq> set res \<and> marked_closed X r (set res) {}"
      by (intro "2.IH"(1)) (use "2.prems" True in \<open>auto simp: marked_closed_def\<close>)
    with True show ?thesis by auto
  next
    case False
    show ?thesis
    proof (cases "obj_get X h r")
      case (Inl e)
      with "2.prems"(1) False obtain m where e: "e = SNotFound m"
        by (cases e) simp_all
      have "set (h # marked) \<union> set queue \<subseteq> set res \<and> marked_closed X r (set res) {}"
        using "2.prems" False Inl e
        by (intro "2.IH"(2)) (auto simp: marked_closed_def gc_edge_missing)
      then show ?thesis by auto
    next
      case (Inr raw)
      with "2.prems"(1) False obtain hs where hs: "gc_children X raw = Inr hs"
        by (cases "gc_children X raw") simp_all
      have "set (h # marked) \<union> set (rev hs @ queue) \<subseteq> set res \<and> marked_closed X r (set res) {}"
        using "2.prems" False Inr hs
        by (intro "2.IH"(3)) (auto simp: marked_closed_def gc_edge_children)
      then show ?thesis by auto
    qed
  qed
qed auto

lemma gc_mark_reached:
  "gc_mark X r marked queue = Inr res \<Longrightarrow> (\<forall>h \<in> set marked \<union> set queue. reachable X r S h) \<Longrightarrow>
   h \<in> set res \<Longrightarrow> reachable X r S h"
proof (induction X r marked queue arbitrary: res rule: gc_mark.induct)
  case (2 X r marked k queue)
  show ?case
  proof (cases "k \<in> set marked")
    case True
    show ?thesis by (rule "2.IH"(1)) (use "2.prems" True in auto)
  next
    case False
    show ?thesis
    proof (cases "obj_get X k r")
      case (Inl e)
      with "2.prems"(1) False obtain m where e: "e = SNotFound m"
        by (cases e) simp_all
      show ?thesis by (rule "2.IH"(2)) (use "2.prems" False Inl e in auto)
    next
      case (Inr raw)
      with "2.prems"(1) False obtain hs where hs: "gc_children X raw = Inr hs"
        by (cases "gc_children X raw") simp_all
      have "\<forall>c \<in> set hs. reachable X r S c"
        using "2.prems"(2) by (auto intro: reachable.step simp: gc_edge_children [OF Inr hs])
      then show ?thesis
        by (intro "2.IH"(3) [of raw hs res]) (use "2.prems" False Inr hs in auto)
    qed
  qed
qed auto

text \<open>The mark phase computes reachability.\<close>

lemma gc_mark_exact:
  assumes "gc_mark X r [] roots = Inr res"
  shows "h \<in> set res \<longleftrightarrow> reachable X r (set roots) h"
proof
  have c: "set roots \<subseteq> set res \<and> marked_closed X r (set res) {}"
    using gc_mark_closed [OF assms] by (simp add: marked_closed_def)
  show "reachable X r (set roots) h \<Longrightarrow> h \<in> set res"
    by (induction rule: reachable.induct) (use c in \<open>auto simp: marked_closed_def\<close>)
next
  have "\<forall>h \<in> set [] \<union> set roots. reachable X r (set roots) h"
    by (auto intro: reachable.root)
  then show "h \<in> set res \<Longrightarrow> reachable X r (set roots) h"
    using gc_mark_reached [OF assms] by blast
qed

section \<open>What the sweep leaves\<close>

definition same_but_objects :: "'r session_scheme \<Rightarrow> 'r session_scheme \<Rightarrow> bool" where
  "same_but_objects s t \<longleftrightarrow> (\<exists>fs. t = s\<lparr>ofiles := fs\<rparr>)"

lemma gc_sweep_dry: "gc_sweep X True xs s = (Inr (), s)"
  by (induction xs arbitrary: s) (auto simp: gc_sweep_def retE_def split_beta)

lemma gc_sweep_live:
  "gc_sweep X False xs (s :: 'r objects_dir_scheme) =
     (Inr (), s\<lparr>ofiles := filter (\<lambda>f. fst f \<notin> (\<lambda>x. path_for X (fst x)) ` set xs) (ofiles s)\<rparr>)"
proof (induction xs arbitrary: s)
  case (Cons x xs)
  have "gc_sweep X False (x # xs) s = gc_sweep X False xs (s\<lparr>ofiles := AList.delete (path_for X (fst x)) (ofiles s)\<rparr>)"
    by (simp add: gc_sweep_def obj_remove_def split_beta)
  also have "\<dots> = (Inr (), s\<lparr>ofiles := filter (\<lambda>f. fst f \<notin> (\<lambda>x. path_for X (fst x)) ` set (x # xs)) (ofiles s)\<rparr>)"
    unfolding Cons by (auto simp: AList.delete_eq split_beta intro!: arg_cong [where f = "\<lambda>fs. s\<lparr>ofiles := fs\<rparr>"] filter_cong)
  finally show ?case .
qed (simp add: gc_sweep_def)

lemma map_of_filter_keys:
  "map_of (filter (\<lambda>f. fst f \<notin> K) xs) k = (if k \<in> K then None else map_of xs k)"
  by (induction xs) auto

lemma collect_garbage_result:
  assumes "collect_garbage X opts s = (Inr smry, t)"
  obtains roots marked where "gc_roots X opts s = Inr roots" "gc_mark X s [] roots = Inr marked"
    "let found = iter_all X s; gone = gc_unmarked marked found in
       smry = \<lparr>gs_roots = length roots, gs_kept = length (filter (\<lambda>(h, _). h \<in> set marked) found),
              gs_removed = length gone, gs_bytes_freed = sum_list (map snd gone), gs_dry_run = gc_dry_run opts\<rparr>
       \<and> t = (if gc_dry_run opts then s
              else s\<lparr>ofiles := filter (\<lambda>f. fst f \<notin> (\<lambda>x. path_for X (fst x)) ` set gone) (ofiles s)\<rparr>)"
  using assms
  by (cases "gc_dry_run opts")
    (auto simp: collect_garbage_def bindE_Inr_iff readE_iff retE_iff gc_sweep_dry gc_sweep_live Let_def)

text \<open>
  A collection keeps exactly the stored objects that are reachable from the roots: those read
  back unchanged, the others are gone.
\<close>

lemma collect_garbage_exact:
  assumes "hex_laws X" and "objs_ok X s" and "collect_garbage X opts s = (Inr smry, t)" and "\<not> gc_dry_run opts"
  obtains roots where "gc_roots X opts s = Inr roots"
    "\<And>h. reachable X s (set roots) h \<Longrightarrow> obj_get X h t = obj_get X h s"
    "\<And>h. obj_has X h t \<longleftrightarrow> obj_has X h s \<and> reachable X s (set roots) h"
proof -
  obtain roots marked where rm: "gc_roots X opts s = Inr roots" "gc_mark X s [] roots = Inr marked"
    and t: "t = s\<lparr>ofiles := filter (\<lambda>f. fst f \<notin> (\<lambda>x. path_for X (fst x)) `
              set (gc_unmarked marked (iter_all X s))) (ofiles s)\<rparr>"
    by (rule collect_garbage_result [OF assms(3)]) (use assms(4) in \<open>simp add: Let_def\<close>)
  note mark = gc_mark_exact [OF rm(2)]
  obtain hs where hs: "\<And>h. h \<in> set hs \<longleftrightarrow> obj_has X h s"
      "iter_all X s = map (\<lambda>h. (h, length (the (map_of (ofiles s) (path_for X h))))) hs"
    using iter_all_map [OF assms(1,2)] by blast
  have gone: "path_for X h \<in> (\<lambda>x. path_for X (fst x)) ` set (gc_unmarked marked (iter_all X s))
      \<longleftrightarrow> obj_has X h s \<and> h \<notin> set marked" for h
    unfolding hs(2) gc_unmarked_def using assms(1) hs(1) by (force simp: path_for_inject image_iff)
  have files: "map_of (ofiles t) (path_for X h) =
      (if obj_has X h s \<and> h \<notin> set marked then None else map_of (ofiles s) (path_for X h))" for h
    unfolding t by (simp add: map_of_filter_keys gone)
  show ?thesis
  proof (rule that [OF rm(1)])
    show "obj_get X h t = obj_get X h s" if "reachable X s (set roots) h" for h
      using that mark by (simp add: obj_get_def files)
    show "obj_has X h t \<longleftrightarrow> obj_has X h s \<and> reachable X s (set roots) h" for h
      using mark by (auto simp: obj_has_def files)
  qed
qed

lemma collect_garbage_kept:
  assumes "hex_laws X" and "objs_ok X s" and "collect_garbage X opts s = (Inr smry, t)" and "\<not> gc_dry_run opts"
  shows "objs_ok X t" "refs_view t = refs_view s" "log_list X t = log_list X s"
    "gs_removed smry = length (ofiles s) - length (ofiles t)"
proof -
  obtain marked fs where t: "fs = filter (\<lambda>f. fst f \<notin> (\<lambda>x. path_for X (fst x)) `
              set (gc_unmarked marked (iter_all X s))) (ofiles s)" "t = s\<lparr>ofiles := fs\<rparr>"
      "gs_removed smry = length (gc_unmarked marked (iter_all X s))"
    by (rule collect_garbage_result [OF assms(3)]) (use assms(4) in \<open>simp add: Let_def\<close>)
  show "objs_ok X t" using assms(2) by (auto simp: t objs_ok_def distinct_map_filter)
  show "refs_view t = refs_view s"
  proof (rule ext)
    show "refs_view t k = refs_view s k" for k
      by (cases k) (simp_all add: t refs_view_simps head_def get_change_def ws_get_def get_bookmark_def)
  qed
  show "log_list X t = log_list X s"
    by (simp add: t log_list_def read_all_def split: op_log.split)
  obtain hs where hs: "distinct hs" "\<And>h. h \<in> set hs \<longleftrightarrow> obj_has X h s"
      "iter_all X s = map (\<lambda>h. (h, length (the (map_of (ofiles s) (path_for X h))))) hs"
    using iter_all_map [OF assms(1,2)] by blast
  let ?gone = "filter (\<lambda>h. h \<notin> set marked) hs"
  have un: "map fst (gc_unmarked marked (iter_all X s)) = ?gone"
    by (simp add: gc_unmarked_def hs(3) filter_map o_def)
  have keys: "set (map fst (ofiles s)) = path_for X ` set hs"
  proof (intro set_eqI iffI)
    fix p assume p: "p \<in> set (map fst (ofiles s))"
    then obtain b where "(p, b) \<in> set (ofiles s)" by auto
    from objs_okD [OF assms(2) this] obtain raw where raw: "p = path_for X (raw_hash X raw)" by blast
    with p have "obj_has X (raw_hash X raw) s" by (simp add: obj_has_def map_of_eq_None_iff)
    with raw hs(2) show "p \<in> path_for X ` set hs" by blast
  next
    fix p assume "p \<in> path_for X ` set hs"
    then obtain h where "p = path_for X h" "obj_has X h s" using hs(2) by blast
    then show "p \<in> set (map fst (ofiles s))" by (simp add: obj_has_def map_of_eq_None_iff)
  qed
  have d: "distinct (map fst (ofiles s))" using assms(2) by (simp add: objs_ok_def)
  have inj: "inj (path_for X)" by (rule injI) (simp add: path_for_inject [OF assms(1)])
  let ?K = "(\<lambda>x. path_for X (fst x)) ` set (gc_unmarked marked (iter_all X s))"
  have K: "?K = path_for X ` set ?gone"
    by (simp flip: un add: image_image)
  have "length (ofiles s) - length fs = length (filter (\<lambda>p. p \<in> ?K) (map fst (ofiles s)))"
    using sum_length_filter_compl [of "\<lambda>f. fst f \<in> ?K" "ofiles s"] by (simp add: t(1) filter_map o_def)
  also have "\<dots> = card (set (filter (\<lambda>p. p \<in> ?K) (map fst (ofiles s))))"
    using d by (intro distinct_card [symmetric]) simp
  also have "set (filter (\<lambda>p. p \<in> ?K) (map fst (ofiles s))) = path_for X ` set ?gone"
    unfolding K set_filter keys by auto
  also have "card (path_for X ` set ?gone) = card (set ?gone)"
    by (rule card_image) (use inj in \<open>auto intro: inj_on_subset\<close>)
  also have "\<dots> = length ?gone" using hs(1) by (intro distinct_card) simp
  also have "\<dots> = gs_removed smry" using t(3) un by (metis length_map)
  finally show "gs_removed smry = length (ofiles s) - length (ofiles t)" by (simp add: t(2))
qed

lemma collect_garbage_dry:
  "collect_garbage X opts s = (Inr smry, t) \<Longrightarrow> gc_dry_run opts \<Longrightarrow> t = s"
  by (erule collect_garbage_result) (simp add: Let_def)

end
