(* ===== verification/Tree_Edit.thy ===== *)
theory Tree_Edit
  imports Object_Store
begin

text \<open>
  \<^verbatim>\<open>tig-fs/src/tree_edit.rs\<close>: reading and rewriting trees through the object store alone. Every
  edit writes a new version of each ancestor tree and returns the new root's hash; the old
  root stays valid.
\<close>

datatype fs_error =
    FIo
  | FCore core_error
  | FStore store_error
  | FUnsupportedKind string string
  | FCrash

section \<open>Loading and storing typed objects\<close>

definition load_tree :: "'x ext_scheme \<Rightarrow> hash \<Rightarrow> 'r objects_dir_scheme \<Rightarrow> fs_error + tree" where
  "load_tree X h s =
     and_then (map_err FStore (obj_get X h s)) (\<lambda>raw. map_err FCore (decode_tree X raw))"

definition load_blob :: "'x ext_scheme \<Rightarrow> hash \<Rightarrow> 'r objects_dir_scheme \<Rightarrow> fs_error + blob" where
  "load_blob X h s =
     and_then (map_err FStore (obj_get X h s)) (\<lambda>raw. map_err FCore (decode_blob X raw))"

definition load_snapshot :: "'x ext_scheme \<Rightarrow> hash \<Rightarrow> 'r objects_dir_scheme \<Rightarrow> fs_error + snapshot" where
  "load_snapshot X h s =
     and_then (map_err FStore (obj_get X h s)) (\<lambda>raw. map_err FCore (decode_snapshot X raw))"

definition store_raw ::
  "'x ext_scheme \<Rightarrow> core_error + raw_object \<Rightarrow> ('r objects_dir_scheme, fs_error, hash) eff" where
  "store_raw X enc = bindE (liftE (map_err FCore enc)) (\<lambda>raw. mapE FStore (obj_put X raw))"

definition store_tree :: "'x ext_scheme \<Rightarrow> tree \<Rightarrow> ('r objects_dir_scheme, fs_error, hash) eff" where
  "store_tree X t = store_raw X (encode_tree X t)"

definition store_blob :: "'x ext_scheme \<Rightarrow> blob \<Rightarrow> ('r objects_dir_scheme, fs_error, hash) eff" where
  "store_blob X b = store_raw X (encode_blob X b)"

definition store_sealed :: "'x ext_scheme \<Rightarrow> sealed \<Rightarrow> ('r objects_dir_scheme, fs_error, hash) eff" where
  "store_sealed X sl = store_raw X (encode_sealed X sl)"

definition store_snapshot :: "'x ext_scheme \<Rightarrow> snapshot \<Rightarrow> ('r objects_dir_scheme, fs_error, hash) eff" where
  "store_snapshot X sn = store_raw X (encode_snapshot X sn)"

section \<open>Paths\<close>

definition split_path :: "string \<Rightarrow> fs_error + string list" where
  "split_path path =
     (let parts = filter (\<lambda>p. p \<noteq> []) (split_char CHR ''/'' path) in
      if parts = [] then Inl (FCore (CInvalidPathComponent ''(empty path)''))
      else case List.find (\<lambda>p. p = ''.'' \<or> p = ''..'' \<or> CHR 0x00 \<in> set p) parts of
             Some p \<Rightarrow> Inl (FCore (CInvalidPathComponent p))
           | None \<Rightarrow> Inr parts)"

section \<open>Lookup\<close>

text \<open>The loop of \<^verbatim>\<open>lookup_entry\<close>; \<open>pre\<close> is the part of the path already walked.\<close>

fun lookup_parts ::
  "'x ext_scheme \<Rightarrow> 'r objects_dir_scheme \<Rightarrow> string list \<Rightarrow> tree \<Rightarrow> string list \<Rightarrow> fs_error + tree_entry" where
  "lookup_parts X s pre t [] = Inl FCrash"
| "lookup_parts X s pre t (part # parts) =
     (case tree_get t part of
        None \<Rightarrow> Inl (FCore (CDecode (NoEntry part (join ''/'' pre))))
      | Some e \<Rightarrow>
          if parts = [] then Inr e
          else if te_kind e \<noteq> ETree
          then Inl (FCore (CDecode (TraversesNonTree (te_kind e) (join ''/'' pre) part)))
          else and_then (load_tree X (te_target e) s) (\<lambda>t'. lookup_parts X s (pre @ [part]) t' parts))"

definition lookup_entry ::
  "'x ext_scheme \<Rightarrow> hash \<Rightarrow> string list \<Rightarrow> 'r objects_dir_scheme \<Rightarrow> fs_error + tree_entry" where
  "lookup_entry X root parts s =
     (if parts = [] then Inl (FCore (CDecode EmptyPath))
      else and_then (load_tree X root s) (\<lambda>t. lookup_parts X s [] t parts))"

definition read_blob_at_path ::
  "'x ext_scheme \<Rightarrow> hash \<Rightarrow> string \<Rightarrow> 'r objects_dir_scheme \<Rightarrow> fs_error + bytes" where
  "read_blob_at_path X root path s =
     and_then (split_path path) (\<lambda>parts.
       and_then (lookup_entry X root parts s) (\<lambda>e.
         if te_kind e \<noteq> EFile then Inl (FCore (CDecode (NotAFile path (te_kind e))))
         else and_then (load_blob X (te_target e) s) (\<lambda>b. Inr (blob_bytes b))))"

text \<open>The loop of \<^verbatim>\<open>try_read_blob_at_path\<close>: a missing path is an answer, not an error.\<close>

fun try_read_parts ::
  "'x ext_scheme \<Rightarrow> 'r objects_dir_scheme \<Rightarrow> tree \<Rightarrow> string list \<Rightarrow> fs_error + bytes option" where
  "try_read_parts X s t [] = Inl FCrash"
| "try_read_parts X s t (part # parts) =
     (case tree_get t part of
        None \<Rightarrow> Inr None
      | Some e \<Rightarrow>
          if parts = []
          then (if te_kind e \<noteq> EFile then Inr None
                else and_then (load_blob X (te_target e) s) (\<lambda>b. Inr (Some (blob_bytes b))))
          else if te_kind e \<noteq> ETree then Inr None
          else and_then (load_tree X (te_target e) s) (\<lambda>t'. try_read_parts X s t' parts))"

definition try_read_blob_at_path ::
  "'x ext_scheme \<Rightarrow> hash \<Rightarrow> string \<Rightarrow> 'r objects_dir_scheme \<Rightarrow> fs_error + bytes option" where
  "try_read_blob_at_path X root path s =
     and_then (split_path path) (\<lambda>parts.
       and_then (load_tree X root s) (\<lambda>t. try_read_parts X s t parts))"

definition list_tree ::
  "'x ext_scheme \<Rightarrow> hash \<Rightarrow> string \<Rightarrow> 'r objects_dir_scheme \<Rightarrow> fs_error + tree" where
  "list_tree X root path s =
     (let trimmed_path = trim_matches CHR ''/'' path in
      if trimmed_path = [] then load_tree X root s
      else and_then (split_path trimmed_path) (\<lambda>parts.
        and_then (lookup_entry X root parts s) (\<lambda>e.
          if te_kind e \<noteq> ETree then Inl (FCore (CDecode (NotATree path (te_kind e))))
          else load_tree X (te_target e) s)))"

section \<open>Edits\<close>

fun rewrite_insert ::
  "'x ext_scheme \<Rightarrow> string list \<Rightarrow> hash \<Rightarrow> entry_kind \<Rightarrow> file_mode \<Rightarrow> hash \<Rightarrow>
     ('r objects_dir_scheme, fs_error, hash) eff" where
  "rewrite_insert X [] target kind mode tree_hash = throwE FCrash"
| "rewrite_insert X [name] target kind mode tree_hash =
     bindE (readE (load_tree X tree_hash)) (\<lambda>t.
       bindE (liftE (map_err FCore (tree_insert t
                \<lparr>te_name = name, te_kind = kind, te_target = target, te_mode = mode, te_vis = None\<rparr>)))
         (store_tree X))"
| "rewrite_insert X (name # p # ps) target kind mode tree_hash =
     bindE (readE (load_tree X tree_hash)) (\<lambda>t.
       bindE (case tree_get t name of
                Some e \<Rightarrow>
                  if te_kind e = ETree then retE (te_target e)
                  else throwE (FCore (CDecode (CannotDescend (te_kind e) name)))
              | None \<Rightarrow> store_tree X tree_new) (\<lambda>sub_hash.
         bindE (rewrite_insert X (p # ps) target kind mode sub_hash) (\<lambda>new_sub.
           bindE (liftE (map_err FCore (tree_insert t
                    \<lparr>te_name = name, te_kind = ETree, te_target = new_sub, te_mode = mode_dir,
                     te_vis = None\<rparr>)))
             (store_tree X))))"

text \<open>\<^verbatim>\<open>Vec::remove\<close> at the first entry of that name.\<close>

fun remove_name :: "string \<Rightarrow> tree_entry list \<Rightarrow> tree_entry list" where
  "remove_name n [] = []"
| "remove_name n (e # es) = (if te_name e = n then es else e # remove_name n es)"

fun rewrite_remove ::
  "'x ext_scheme \<Rightarrow> string list \<Rightarrow> hash \<Rightarrow> ('r objects_dir_scheme, fs_error, hash) eff" where
  "rewrite_remove X [] tree_hash = throwE FCrash"
| "rewrite_remove X [name] tree_hash =
     bindE (readE (load_tree X tree_hash)) (\<lambda>t.
       if \<exists>e \<in> set (entries t). te_name e = name
       then store_tree X (t\<lparr>entries := remove_name name (entries t)\<rparr>)
       else throwE (FCore (CDecode (NoEntryToDelete name))))"
| "rewrite_remove X (name # p # ps) tree_hash =
     bindE (readE (load_tree X tree_hash)) (\<lambda>t.
       case tree_get t name of
         None \<Rightarrow> throwE (FCore (CDecode (NoEntryOnTheWay name)))
       | Some e \<Rightarrow>
           if te_kind e \<noteq> ETree then throwE (FCore (CDecode (CannotDescend (te_kind e) name)))
           else
             bindE (rewrite_remove X (p # ps) (te_target e)) (\<lambda>new_sub_hash.
               bindE (readE (load_tree X new_sub_hash)) (\<lambda>new_sub.
                 bindE (if entries new_sub = []
                        then retE (t\<lparr>entries := remove_name name (entries t)\<rparr>)
                        else liftE (map_err FCore (tree_insert t
                               \<lparr>te_name = name, te_kind = ETree, te_target = new_sub_hash,
                                te_mode = mode_dir, te_vis = None\<rparr>)))
                   (store_tree X))))"

definition write_blob_at_path ::
  "'x ext_scheme \<Rightarrow> hash \<Rightarrow> string \<Rightarrow> bytes \<Rightarrow> ('r objects_dir_scheme, fs_error, hash) eff" where
  "write_blob_at_path X root path data =
     bindE (liftE (split_path path)) (\<lambda>parts.
       bindE (store_blob X \<lparr>blob_bytes = data\<rparr>) (\<lambda>blob_hash.
         rewrite_insert X parts blob_hash EFile mode_regular root))"

definition write_sealed_at_path ::
  "'x ext_scheme \<Rightarrow> hash \<Rightarrow> string \<Rightarrow> sealed \<Rightarrow> ('r objects_dir_scheme, fs_error, hash) eff" where
  "write_sealed_at_path X root path sl =
     bindE (liftE (split_path path)) (\<lambda>parts.
       bindE (store_sealed X sl) (\<lambda>sealed_hash.
         rewrite_insert X parts sealed_hash ESealed mode_regular root))"

definition delete_at_path ::
  "'x ext_scheme \<Rightarrow> hash \<Rightarrow> string \<Rightarrow> ('r objects_dir_scheme, fs_error, hash) eff" where
  "delete_at_path X root path =
     bindE (liftE (split_path path)) (\<lambda>parts. rewrite_remove X parts root)"

section \<open>The invariant of a repository's objects\<close>

text \<open>Every stored tree is sorted with valid, distinct names.\<close>

definition trees_ok :: "'x ext_scheme \<Rightarrow> 'r objects_dir_scheme \<Rightarrow> bool" where
  "trees_ok X s \<longleftrightarrow> (\<forall>raw \<in> set (owritten s). case decode_tree X raw of Inr t \<Rightarrow> tree_wf t | Inl _ \<Rightarrow> True)"

definition store_ok :: "'x ext_scheme \<Rightarrow> 'r objects_dir_scheme \<Rightarrow> bool" where
  "store_ok X s \<longleftrightarrow> hex_laws X \<and> cbor_laws X \<and> objs_ok X s \<and> trees_ok X s"

lemma store_okD: "store_ok X s \<Longrightarrow> hex_laws X" "store_ok X s \<Longrightarrow> cbor_laws X"
  "store_ok X s \<Longrightarrow> objs_ok X s" "store_ok X s \<Longrightarrow> trees_ok X s"
  by (simp_all add: store_ok_def)

lemma obj_get_written: "objs_ok X s \<Longrightarrow> obj_get X h s = Inr raw \<Longrightarrow> raw \<in> set (owritten s)"
proof -
  assume ok: "objs_ok X s" and "obj_get X h s = Inr raw"
  then have "(path_for X h, frame raw) \<in> set (ofiles s)"
    by (auto simp: obj_get_Inr_iff dest: map_of_SomeD)
  with objs_okD [OF ok] obtain raw' where "raw' \<in> set (owritten s)" "frame raw = frame raw'" by blast
  then show ?thesis by (metis sum.inject(2) unframe_frame)
qed

lemma load_tree_wf: "store_ok X s \<Longrightarrow> load_tree X h s = Inr t \<Longrightarrow> tree_wf t"
  using obj_get_written [of X s h]
  by (fastforce simp: load_tree_def and_then_Inr_iff store_ok_def trees_ok_def)

lemma load_mono:
  "store_grows s t \<Longrightarrow> load_tree X h s = Inr tr \<Longrightarrow> load_tree X h t = Inr tr"
  "store_grows s t \<Longrightarrow> load_blob X h s = Inr b \<Longrightarrow> load_blob X h t = Inr b"
  "store_grows s t \<Longrightarrow> load_snapshot X h s = Inr sn \<Longrightarrow> load_snapshot X h t = Inr sn"
  by (auto simp: load_tree_def load_blob_def load_snapshot_def and_then_Inr_iff obj_get_mono)

end
