(* ===== verification/Tree_Edit_Props.thy ===== *)
theory Tree_Edit_Props
  imports Tree_Edit
begin

text \<open>
  What the tree edits guarantee: a written file reads back, every path the edit does not touch
  reads as before, a deleted path is gone, and the invariant of the store is kept throughout.
\<close>

section \<open>Storing typed objects\<close>

lemma store_raw_spec:
  assumes "store_ok X s" and "enc = Inr raw"
    and "\<And>t. decode_tree X raw = Inr t \<Longrightarrow> tree_wf t"
  obtains h u where "store_raw X enc s = (Inr h, u)" "store_ok X u" "store_grows s u"
    "collision_free X u \<Longrightarrow> obj_get X h u = Inr raw"
proof -
  obtain u where u: "obj_put X raw s = (Inr (raw_hash X raw), u)"
    using store.put_total by metis
  have ok: "hex_laws X \<and> objs_ok X s" using assms(1) by (simp add: store_ok_def)
  have "owritten u = owritten s @ [raw]" using obj_put_written [of X raw s] u by simp
  then have "trees_ok X u" using assms(1,3) by (auto simp: store_ok_def trees_ok_def split: sum.splits)
  moreover have "hex_laws X \<and> objs_ok X u" using store.put_ok [OF ok u] .
  ultimately have "store_ok X u" using assms(1) by (simp add: store_ok_def)
  moreover have "store_raw X enc s = (Inr (raw_hash X raw), u)"
    using u assms(2) by (simp add: store_raw_def eff_simps)
  moreover have "store_grows s u" using store.put_grows [OF u] .
  moreover have "collision_free X u \<Longrightarrow> obj_get X (raw_hash X raw) u = Inr raw"
    using store.put_get [OF ok u] .
  ultimately show ?thesis using that by blast
qed

lemma store_tree_spec:
  assumes "store_ok X s" and "tree_wf t"
  obtains h u where "store_tree X t s = (Inr h, u)" "store_ok X u" "store_grows s u"
    "collision_free X u \<Longrightarrow> load_tree X h u = Inr t"
proof -
  obtain raw where raw: "encode_tree X t = Inr raw"
    using tree_codec.encode_total [OF store_okD(2) [OF assms(1)]] by (auto simp: encode_tree_def)
  have dec: "decode_tree X raw = Inr t"
    using tree_codec.decode_encode [OF store_okD(2) [OF assms(1)]] raw
    by (simp add: encode_tree_def decode_tree_def)
  obtain h u where "store_raw X (encode_tree X t) s = (Inr h, u)" "store_ok X u" "store_grows s u"
      "collision_free X u \<Longrightarrow> obj_get X h u = Inr raw"
    by (rule store_raw_spec [OF assms(1) raw]) (use dec assms(2) in auto)
  with that dec show ?thesis by (simp add: store_tree_def load_tree_def)
qed

lemma decode_tree_other: "raw_kind raw \<noteq> KTree \<Longrightarrow> decode_tree X raw = Inr t \<Longrightarrow> tree_wf t"
  by (simp add: decode_tree_def decode_def)

lemma store_blob_spec:
  assumes "store_ok X s"
  obtains h u where "store_blob X b s = (Inr h, u)" "store_ok X u" "store_grows s u"
    "collision_free X u \<Longrightarrow> load_blob X h u = Inr b"
proof -
  obtain raw where raw: "encode_blob X b = Inr raw"
    using blob_codec.encode_total [OF store_okD(2) [OF assms]] by (auto simp: encode_blob_def)
  have dec: "decode_blob X raw = Inr b" and k: "raw_kind raw = KBlob"
    using blob_codec.decode_encode [OF store_okD(2) [OF assms]] blob_codec.encode_kind raw
    by (simp_all add: encode_blob_def decode_blob_def)
  obtain h u where "store_raw X (encode_blob X b) s = (Inr h, u)" "store_ok X u" "store_grows s u"
      "collision_free X u \<Longrightarrow> obj_get X h u = Inr raw"
    by (rule store_raw_spec [OF assms raw]) (rule decode_tree_other, use k in simp_all)
  with that dec show ?thesis by (simp add: store_blob_def load_blob_def)
qed

lemma store_snapshot_spec:
  assumes "store_ok X s"
  obtains h u where "store_snapshot X sn s = (Inr h, u)" "store_ok X u" "store_grows s u"
    "collision_free X u \<Longrightarrow> load_snapshot X h u = Inr sn"
proof -
  obtain raw where raw: "encode_snapshot X sn = Inr raw"
    using snapshot_codec.encode_total [OF store_okD(2) [OF assms]] by (auto simp: encode_snapshot_def)
  have dec: "decode_snapshot X raw = Inr sn" and k: "raw_kind raw = KSnapshot"
    using snapshot_codec.decode_encode [OF store_okD(2) [OF assms]] snapshot_codec.encode_kind raw
    by (simp_all add: encode_snapshot_def decode_snapshot_def)
  obtain h u where "store_raw X (encode_snapshot X sn) s = (Inr h, u)" "store_ok X u" "store_grows s u"
      "collision_free X u \<Longrightarrow> obj_get X h u = Inr raw"
    by (rule store_raw_spec [OF assms raw]) (rule decode_tree_other, use k in simp_all)
  with that dec show ?thesis by (simp add: store_snapshot_def load_snapshot_def)
qed

lemma store_sealed_spec:
  assumes "store_ok X s"
  obtains h u raw where "store_sealed X sl s = (Inr h, u)" "store_ok X u" "store_grows s u"
    "decode_sealed X raw = Inr sl" "collision_free X u \<Longrightarrow> obj_get X h u = Inr raw"
proof -
  obtain raw where raw: "encode_sealed X sl = Inr raw"
    using sealed_codec.encode_total [OF store_okD(2) [OF assms]] by (auto simp: encode_sealed_def)
  have dec: "decode_sealed X raw = Inr sl" and k: "raw_kind raw = KSealed"
    using sealed_codec.decode_encode [OF store_okD(2) [OF assms]] sealed_codec.encode_kind raw
    by (simp_all add: encode_sealed_def decode_sealed_def)
  obtain h u where "store_raw X (encode_sealed X sl) s = (Inr h, u)" "store_ok X u" "store_grows s u"
      "collision_free X u \<Longrightarrow> obj_get X h u = Inr raw"
    by (rule store_raw_spec [OF assms raw]) (rule decode_tree_other, use k in simp_all)
  with that dec show ?thesis by (simp add: store_sealed_def)
qed

text \<open>
  The same facts for a write that is known to have happened, with the reads at any later state
  \<open>f\<close> that is still free of collisions.
\<close>

lemma store_tree_Inr:
  assumes "store_tree X t s = (Inr h, u)" and "store_ok X s" and "tree_wf t"
  shows "store_ok X u" "store_grows s u"
    "store_grows u f \<Longrightarrow> collision_free X f \<Longrightarrow> load_tree X h f = Inr t"
proof -
  obtain h' u' where "store_tree X t s = (Inr h', u')" "store_ok X u'" "store_grows s u'"
      "collision_free X u' \<Longrightarrow> load_tree X h' u' = Inr t"
    using store_tree_spec [OF assms(2,3)] by metis
  with assms(1) have *: "store_ok X u" "store_grows s u" "collision_free X u \<Longrightarrow> load_tree X h u = Inr t"
    by auto
  then show "store_ok X u" "store_grows s u" by blast+
  show "load_tree X h f = Inr t" if "store_grows u f" "collision_free X f"
    using load_mono(1) [OF that(1) *(3) [OF collision_free_back [OF that]]] .
qed

lemma store_blob_at:
  assumes "store_ok X s"
  shows "\<exists>h u. store_blob X b s = (Inr h, u) \<and> store_ok X u \<and> store_grows s u
    \<and> (\<forall>f. store_grows u f \<longrightarrow> collision_free X f \<longrightarrow> load_blob X h f = Inr b)"
proof -
  obtain h u where b: "store_blob X b s = (Inr h, u)" "store_ok X u" "store_grows s u"
      "collision_free X u \<Longrightarrow> load_blob X h u = Inr b"
    using store_blob_spec [OF assms] by metis
  have "load_blob X h f = Inr b" if "store_grows u f" "collision_free X f" for f
    using load_mono(2) [OF that(1) b(4) [OF collision_free_back [OF that]]] .
  with b show ?thesis by blast
qed

lemma store_snapshot_at:
  assumes "store_ok X s"
  shows "\<exists>h u. store_snapshot X sn s = (Inr h, u) \<and> store_ok X u \<and> store_grows s u
    \<and> (\<forall>f. store_grows u f \<longrightarrow> collision_free X f \<longrightarrow> load_snapshot X h f = Inr sn)"
proof -
  obtain h u where b: "store_snapshot X sn s = (Inr h, u)" "store_ok X u" "store_grows s u"
      "collision_free X u \<Longrightarrow> load_snapshot X h u = Inr sn"
    using store_snapshot_spec [OF assms] by metis
  have "load_snapshot X h f = Inr sn" if "store_grows u f" "collision_free X f" for f
    using load_mono(3) [OF that(1) b(4) [OF collision_free_back [OF that]]] .
  with b show ?thesis by blast
qed

section \<open>Lookup as a search\<close>

fun find_at :: "'x ext_scheme \<Rightarrow> 'r objects_dir_scheme \<Rightarrow> tree \<Rightarrow> string list \<Rightarrow> tree_entry option" where
  "find_at X s t [] = None"
| "find_at X s t [part] = tree_get t part"
| "find_at X s t (part # p # ps) =
     (case tree_get t part of
        None \<Rightarrow> None
      | Some e \<Rightarrow>
          if te_kind e \<noteq> ETree then None
          else case load_tree X (te_target e) s of Inl _ \<Rightarrow> None | Inr t' \<Rightarrow> find_at X s t' (p # ps))"

lemma lookup_parts_find: "lookup_parts X s pre t parts = Inr e \<longleftrightarrow> find_at X s t parts = Some e"
proof (induction X s t parts arbitrary: pre rule: find_at.induct)
  case (2 X s t part)
  show ?case by (auto split: option.splits)
next
  case (3 X s t part p ps)
  show ?case
    by (subst lookup_parts.simps(2))
      (use "3.IH" in \<open>auto simp: and_then_Inr_iff simp del: lookup_parts.simps split: option.splits sum.splits\<close>)
qed simp

lemma lookup_entry_find:
  "lookup_entry X root parts s = Inr e \<longleftrightarrow> (\<exists>t. load_tree X root s = Inr t \<and> find_at X s t parts = Some e)"
  by (cases "parts = []") (simp_all add: lookup_entry_def and_then_Inr_iff lookup_parts_find del: lookup_parts.simps)

lemma find_at_mono: "store_grows s u \<Longrightarrow> find_at X s t parts = Some e \<Longrightarrow> find_at X u t parts = Some e"
  by (induction X s t parts rule: find_at.induct)
    (auto simp: load_mono split: option.splits if_splits sum.splits)

lemma lookup_entry_mono:
  "store_grows s u \<Longrightarrow> lookup_entry X root parts s = Inr e \<Longrightarrow> lookup_entry X root parts u = Inr e"
  by (auto simp: lookup_entry_find load_mono find_at_mono)

lemma tree_get_new [simp]: "tree_get tree_new n = None"
  by (simp add: tree_get_def binary_search_def tree_new_def)

lemma find_at_new [simp]: "find_at X s tree_new parts = None"
  by (induction X s tree_new parts rule: find_at.induct) simp_all

text \<open>What an edit at the entry \<open>n\<close> of a tree leaves alone.\<close>

lemma find_at_other_head:
  assumes "tree_wf t" and "tree_wf t'" and "tree_map t' = (tree_map t)(n := v)" and "m \<noteq> n"
  shows "find_at X s t' (m # ps) = find_at X s t (m # ps)"
proof -
  have "tree_get t' m = tree_get t m" using assms by (simp add: tree_get_map)
  then show ?thesis by (cases ps) simp_all
qed

lemma tree_insert_get:
  assumes "tree_wf t" and "tree_insert t e = Inr t'"
  shows "tree_wf t'" "tree_map t' = (tree_map t)(te_name e \<mapsto> e)" "tree_get t' (te_name e) = Some e"
  using tree_insert_Inr [OF assms] by (simp_all add: tree_get_map)

section \<open>Insertion\<close>

text \<open>
  After an insertion the new root has the entry at the path, and every path that neither
  contains the edited one nor lies below it finds what it found in the old root.
\<close>

lemma rewrite_insert_spec:
  "rewrite_insert X parts target kind mode root s = (Inr root', u) \<Longrightarrow> store_ok X s \<Longrightarrow>
   store_ok X u \<and> store_grows s u \<and>
   (\<forall>f. store_grows u f \<longrightarrow> collision_free X f \<longrightarrow>
      (\<exists>t t'. load_tree X root f = Inr t \<and> load_tree X root' f = Inr t' \<and>
         find_at X f t' parts =
           Some \<lparr>te_name = last parts, te_kind = kind, te_target = target, te_mode = mode, te_vis = None\<rparr> \<and>
         (\<forall>q. \<not> prefix parts q \<longrightarrow> \<not> prefix q parts \<longrightarrow> find_at X f t' q = find_at X f t q)))"
proof (induction X parts target kind mode root arbitrary: s root' u rule: rewrite_insert.induct)
  case (2 X name target kind mode root)
  let ?e = "\<lparr>te_name = name, te_kind = kind, te_target = target, te_mode = mode, te_vis = None\<rparr>"
  obtain t t' where t: "load_tree X root s = Inr t" "tree_insert t ?e = Inr t'" "store_tree X t' s = (Inr root', u)"
    using "2.prems"(1) by (auto simp: eff_iffs)
  have wf: "tree_wf t" using load_tree_wf [OF "2.prems"(2) t(1)] .
  note ins = tree_insert_get [OF wf t(2)]
  note st = store_tree_Inr [OF t(3) "2.prems"(2) ins(1)]
  have other: "find_at X f t' q = find_at X f t q" if "\<not> prefix [name] q" for q f
    using that find_at_other_head [OF wf ins(1), of name _ _ X f] ins(2) by (cases q) auto
  have "load_tree X root f = Inr t" if "store_grows u f" for f
    using load_mono(1) [OF store_grows_trans [OF st(2) that] t(1)] .
  then show ?case using st ins(3) other by auto
next
  case (3 X name p ps target kind mode root)
  obtain t where t: "load_tree X root s = Inr t" using "3.prems"(1) by (auto simp: eff_iffs)
  have wf: "tree_wf t" using load_tree_wf [OF "3.prems"(2) t] .
  obtain sub u1 where sub: "(case tree_get t name of
                Some e \<Rightarrow>
                  if te_kind e = ETree then retE (te_target e)
                  else throwE (FCore (CDecode (CannotDescend (te_kind e) name)))
              | None \<Rightarrow> store_tree X tree_new) s = (Inr sub, u1)"
    using "3.prems"(1) t by (auto simp: bindE_Inr_iff readE_iff)
  obtain new_sub u2 where rec: "rewrite_insert X (p # ps) target kind mode sub u1 = (Inr new_sub, u2)"
    using "3.prems"(1) t sub by (auto simp: bindE_Inr_iff readE_iff)
  let ?e = "\<lparr>te_name = name, te_kind = ETree, te_target = new_sub, te_mode = mode_dir, te_vis = None\<rparr>"
  obtain t' where t': "tree_insert t ?e = Inr t'" "store_tree X t' u2 = (Inr root', u)"
    using "3.prems"(1) t sub rec by (auto simp: bindE_Inr_iff readE_iff liftE_iff)
  have u1: "store_ok X u1" "store_grows s u1"
    using sub "3.prems"(2) store_tree_Inr(1,2) [of X tree_new s]
    by (auto simp: eff_iffs split: option.splits if_splits)
  note ih = "3.IH" [OF rec u1(1)]
  have u2: "store_ok X u2" "store_grows u1 u2" using ih by auto
  note ins = tree_insert_get [OF wf t'(1)]
  note st = store_tree_Inr [OF t'(2) u2(1) ins(1)]
  have grow: "store_grows s u" using u1(2) u2(2) st(2) store_grows_trans by blast
  show ?case
  proof (intro conjI allI impI)
    fix f assume gf: "store_grows u f" and cf: "collision_free X f"
    have g2: "store_grows u2 f" and g1: "store_grows u1 f"
      using gf st(2) u2(2) store_grows_trans by blast+
    obtain ts ts' where ts: "load_tree X sub f = Inr ts" "load_tree X new_sub f = Inr ts'"
        "find_at X f ts' (p # ps) =
           Some \<lparr>te_name = last (p # ps), te_kind = kind, te_target = target, te_mode = mode, te_vis = None\<rparr>"
        "\<forall>q. \<not> prefix (p # ps) q \<longrightarrow> \<not> prefix q (p # ps) \<longrightarrow> find_at X f ts' q = find_at X f ts q"
      using ih g2 cf by blast
    have sub_find: "find_at X f t (name # q # qs) = find_at X f ts (q # qs)" for q qs
    proof (cases "tree_get t name")
      case None
      then have "store_tree X tree_new s = (Inr sub, u1)" using sub by simp
      from store_tree_Inr(3) [OF this "3.prems"(2) tree_new_wf g1 cf] ts(1) have "ts = tree_new" by simp
      with None show ?thesis by simp
    next
      case (Some e)
      with sub have "te_kind e = ETree" "sub = te_target e"
        by (auto simp: eff_iffs split: if_splits)
      with Some ts(1) show ?thesis by simp
    qed
    have get': "tree_get t' name = Some ?e" using ins(3) by simp
    have "find_at X f t' (name # p # ps) =
        Some \<lparr>te_name = last (name # p # ps), te_kind = kind, te_target = target, te_mode = mode, te_vis = None\<rparr>"
      using get' ts(2,3) by simp
    moreover have "find_at X f t' q = find_at X f t q"
      if q: "\<not> prefix (name # p # ps) q" "\<not> prefix q (name # p # ps)" for q
    proof (cases q)
      case (Cons m qs)
      show ?thesis
      proof (cases "m = name")
        case False
        have "tree_map t' = (tree_map t)(name := Some ?e)" using ins(2) by simp
        from find_at_other_head [OF wf ins(1) this False] Cons show ?thesis by simp
      next
        case True
        with q Cons obtain q1 qt where qs: "qs = q1 # qt" by (cases qs) auto
        with q Cons True have "\<not> prefix (p # ps) qs" "\<not> prefix qs (p # ps)" by auto
        then have "find_at X f ts' qs = find_at X f ts qs" using ts(4) by blast
        moreover have "find_at X f t' (name # q1 # qt) = find_at X f ts' (q1 # qt)"
          using get' ts(2) by simp
        ultimately show ?thesis using Cons True qs sub_find by simp
      qed
    qed (use q in simp)
    moreover have "load_tree X root f = Inr t"
      by (rule load_mono(1) [OF store_grows_trans [OF grow gf] t])
    ultimately show "\<exists>t t'. load_tree X root f = Inr t \<and> load_tree X root' f = Inr t' \<and>
         find_at X f t' (name # p # ps) =
           Some \<lparr>te_name = last (name # p # ps), te_kind = kind, te_target = target, te_mode = mode, te_vis = None\<rparr> \<and>
         (\<forall>q. \<not> prefix (name # p # ps) q \<longrightarrow> \<not> prefix q (name # p # ps) \<longrightarrow> find_at X f t' q = find_at X f t q)"
      using st(3) [OF gf cf] by blast
  qed (use st grow in auto)
qed (simp add: throwE_def)

section \<open>Removal\<close>

lemma remove_name_filter:
  "distinct (map te_name es) \<Longrightarrow> remove_name n es = filter (\<lambda>e. te_name e \<noteq> n) es"
proof (induction es)
  case (Cons e es)
  have "filter (\<lambda>x. te_name x \<noteq> te_name e) es = es"
    using Cons.prems by (simp add: filter_id_conv) (metis image_eqI)
  with Cons show ?case by auto
qed simp

lemma remove_name_tree:
  fixes n :: string
  assumes "tree_wf t"
  defines "t' \<equiv> t\<lparr>entries := remove_name n (entries t)\<rparr>"
  shows "tree_wf t'" "tree_map t' = (tree_map t)(n := None)" "tree_get t' n = None"
proof -
  have so: "sorted_wrt (<) (map te_name (entries t))" using assms(1) by (simp add: tree_wf_def names_ok_def)
  have es: "entries t' = filter (\<lambda>e. te_name e \<noteq> n) (entries t)"
    using remove_name_filter sorted_names_distinct [OF so] by (simp add: t'_def)
  have "sorted_wrt (<) (map te_name (filter (\<lambda>e. te_name e \<noteq> n) (entries t)))"
    using so by (simp add: sorted_wrt_map sorted_wrt_filter)
  then show wf: "tree_wf t'" using assms(1) by (simp add: tree_wf_def names_ok_def es)
  have "tree_map t' m = ((tree_map t)(n := None)) m" for m
  proof (rule option.expand)
    have "tree_map t' m = Some x \<longleftrightarrow> ((tree_map t)(n := None)) m = Some x" for x
      using tree_map_Some [OF wf] tree_map_Some [OF assms(1)] es by auto
    then show "(tree_map t' m = None) = (((tree_map t)(n := None)) m = None)"
      "tree_map t' m \<noteq> None \<Longrightarrow> ((tree_map t)(n := None)) m \<noteq> None \<Longrightarrow>
       the (tree_map t' m) = the (((tree_map t)(n := None)) m)"
      by (metis not_None_eq, metis option.exhaust_sel option.sel)
  qed
  then show "tree_map t' = (tree_map t)(n := None)" by blast
  then show "tree_get t' n = None" by (simp add: tree_get_map [OF wf])
qed

lemma tree_get_member: "tree_wf t \<Longrightarrow> tree_get t n \<noteq> None \<longleftrightarrow> (\<exists>e \<in> set (entries t). te_name e = n)"
  by (metis (no_types, lifting) not_None_eq tree_get_map tree_map_Some)

text \<open>No empty directory is left on the way to the removed path.\<close>

fun pruned :: "'x ext_scheme \<Rightarrow> 'r objects_dir_scheme \<Rightarrow> tree \<Rightarrow> string list \<Rightarrow> bool" where
  "pruned X f t (name # p # ps) \<longleftrightarrow>
     (case tree_get t name of
        None \<Rightarrow> True
      | Some e \<Rightarrow>
          (case load_tree X (te_target e) f of
             Inl _ \<Rightarrow> False
           | Inr t' \<Rightarrow> entries t' \<noteq> [] \<and> pruned X f t' (p # ps)))"
| "pruned X f t _ \<longleftrightarrow> True"

text \<open>After a removal the path is gone, everything beside it is found as before.\<close>

lemma find_at_empty: "entries t = [] \<Longrightarrow> find_at X f t q = None"
  using find_at_new [of X f q] by (simp add: tree_new_def) (metis old.unit.exhaust tree.surjective)

lemma rewrite_remove_spec:
  "rewrite_remove X parts root s = (Inr root', u) \<Longrightarrow> store_ok X s \<Longrightarrow>
   store_ok X u \<and> store_grows s u \<and>
   (\<forall>f. store_grows u f \<longrightarrow> collision_free X f \<longrightarrow>
      (\<exists>t t'. load_tree X root f = Inr t \<and> load_tree X root' f = Inr t' \<and>
         find_at X f t parts \<noteq> None \<and> find_at X f t' parts = None \<and> pruned X f t' parts \<and>
         (\<forall>q. \<not> prefix parts q \<longrightarrow> \<not> prefix q parts \<longrightarrow> find_at X f t' q = find_at X f t q)))"
proof (induction X parts root arbitrary: s root' u rule: rewrite_remove.induct)
  case (2 X name root)
  obtain t where t: "load_tree X root s = Inr t" "\<exists>e \<in> set (entries t). te_name e = name"
      "store_tree X (t\<lparr>entries := remove_name name (entries t)\<rparr>) s = (Inr root', u)"
    using "2.prems"(1) by (auto simp: eff_iffs split: if_splits)
  have wf: "tree_wf t" using load_tree_wf [OF "2.prems"(2) t(1)] .
  note rem = remove_name_tree [OF wf, of name]
  note st = store_tree_Inr [OF t(3) "2.prems"(2) rem(1)]
  have other: "find_at X f (t\<lparr>entries := remove_name name (entries t)\<rparr>) q = find_at X f t q"
    if "\<not> prefix [name] q" for q f
  proof (cases q)
    case (Cons m ps)
    with that have "m \<noteq> name" by auto
    from find_at_other_head [OF wf rem(1,2) this] Cons show ?thesis by simp
  qed simp
  have "load_tree X root f = Inr t" if "store_grows u f" for f
    using load_mono(1) [OF store_grows_trans [OF st(2) that] t(1)] .
  then show ?case using st rem(3) other tree_get_member [OF wf] t(2) by auto
next
  case (3 X name p ps root)
  obtain t e where t: "load_tree X root s = Inr t" "tree_get t name = Some e" "te_kind e = ETree"
    using "3.prems"(1) by (auto simp: eff_iffs split: option.splits if_splits)
  have wf: "tree_wf t" using load_tree_wf [OF "3.prems"(2) t(1)] .
  obtain new_sub u1 where rec: "rewrite_remove X (p # ps) (te_target e) s = (Inr new_sub, u1)"
    using "3.prems"(1) t by (auto simp: bindE_Inr_iff readE_iff)
  obtain sub where sub: "load_tree X new_sub u1 = Inr sub"
    using "3.prems"(1) t rec by (auto simp: bindE_Inr_iff readE_iff)
  let ?e = "\<lparr>te_name = name, te_kind = ETree, te_target = new_sub, te_mode = mode_dir, te_vis = None\<rparr>"
  obtain t' where t': "if entries sub = [] then t' = t\<lparr>entries := remove_name name (entries t)\<rparr>
        else tree_insert t ?e = Inr t'" "store_tree X t' u1 = (Inr root', u)"
    using "3.prems"(1) t rec sub
    by (cases "entries sub = []") (auto simp: bindE_Inr_iff readE_iff liftE_iff retE_iff)
  note ih = "3.IH" [OF t(2) _ rec "3.prems"(2), simplified t(3), simplified]
  have u1: "store_ok X u1" "store_grows s u1" using ih by auto
  let ?v = "if entries sub = [] then None else Some ?e"
  have upd: "tree_wf t'" "tree_map t' = (tree_map t)(name := ?v)" "tree_get t' name = ?v"
    using t'(1) remove_name_tree [OF wf, of name] tree_insert_get [OF wf, of ?e t']
    by (auto split: if_splits)
  note st = store_tree_Inr [OF t'(2) u1(1) upd(1)]
  have grow: "store_grows s u" using u1(2) st(2) store_grows_trans by blast
  show ?case
  proof (intro conjI allI impI)
    fix f assume gf: "store_grows u f" and cf: "collision_free X f"
    have g1: "store_grows u1 f" using gf st(2) store_grows_trans by blast
    obtain ts ts' where ts: "load_tree X (te_target e) f = Inr ts" "load_tree X new_sub f = Inr ts'"
        "find_at X f ts (p # ps) \<noteq> None" "find_at X f ts' (p # ps) = None" "pruned X f ts' (p # ps)"
        "\<forall>q. \<not> prefix (p # ps) q \<longrightarrow> \<not> prefix q (p # ps) \<longrightarrow> find_at X f ts' q = find_at X f ts q"
      using ih g1 cf by blast
    have "ts' = sub" using ts(2) load_mono(1) [OF g1 sub] by simp
    have new_find: "find_at X f t' (name # q # qs) = find_at X f sub (q # qs)" for q qs
      using upd(3) ts(2) \<open>ts' = sub\<close> by (auto simp: find_at_empty split: if_splits)
    have old_find: "find_at X f t (name # q # qs) = find_at X f ts (q # qs)" for q qs
      using t(2,3) ts(1) by simp
    have oth: "find_at X f t' q = find_at X f t q"
      if q: "\<not> prefix (name # p # ps) q" "\<not> prefix q (name # p # ps)" for q
    proof (cases q)
      case (Cons m qs)
      show ?thesis
      proof (cases "m = name")
        case False
        from find_at_other_head [OF wf upd(1,2) False] Cons show ?thesis by simp
      next
        case True
        with q Cons obtain q1 qt where qs: "qs = q1 # qt" by (cases qs) auto
        with q Cons True have "\<not> prefix (p # ps) qs" "\<not> prefix qs (p # ps)" by auto
        then show ?thesis using ts(6) Cons True qs new_find old_find \<open>ts' = sub\<close> by auto
      qed
    qed (use q in simp)
    have pr: "pruned X f t' (name # p # ps)"
      using upd(3) ts(2,5) \<open>ts' = sub\<close> by (simp split: option.splits)
    have lr: "load_tree X root f = Inr t"
      by (rule load_mono(1) [OF store_grows_trans [OF grow gf] t(1)])
    have was: "find_at X f t (name # p # ps) \<noteq> None" unfolding old_find by (rule ts(3))
    have gone: "find_at X f t' (name # p # ps) = None" unfolding new_find using ts(4) \<open>ts' = sub\<close> by simp
    show "\<exists>t t'. load_tree X root f = Inr t \<and> load_tree X root' f = Inr t' \<and>
         find_at X f t (name # p # ps) \<noteq> None \<and> find_at X f t' (name # p # ps) = None \<and>
         pruned X f t' (name # p # ps) \<and>
         (\<forall>q. \<not> prefix (name # p # ps) q \<longrightarrow> \<not> prefix q (name # p # ps) \<longrightarrow> find_at X f t' q = find_at X f t q)"
      by (intro exI [of _ t] exI [of _ t'] conjI allI impI lr st(3) [OF gf cf] was gone pr) (rule oth)
  qed (use st grow in auto)
qed (simp add: throwE_def)

section \<open>Reads after writes\<close>

lemma split_path_parts:
  assumes "split_path path = Inr parts"
  shows "parts \<noteq> []" "\<forall>p \<in> set parts. validate_name p = Inr ()"
proof -
  have p: "parts = filter (\<lambda>p. p \<noteq> []) (split_char CHR ''/'' path)"
    "\<forall>p \<in> set parts. p \<noteq> ''.'' \<and> p \<noteq> ''..'' \<and> CHR 0x00 \<notin> set p"
    using assms by (auto simp: split_path_def Let_def find_None_iff split: if_splits option.splits)
  show "parts \<noteq> []" using assms by (auto simp: split_path_def Let_def split: if_splits option.splits)
  show "\<forall>p \<in> set parts. validate_name p = Inr ()"
  proof
    fix q assume q: "q \<in> set parts"
    then have "q \<noteq> []" "q \<in> set (split_char CHR ''/'' path)" using p(1) by simp_all
    then have "q \<noteq> []" "CHR ''/'' \<notin> set q" using split_char_no_sep by auto
    moreover have "q \<noteq> ''.''" "q \<noteq> ''..''" "CHR 0x00 \<notin> set q" using p(2) q by blast+
    ultimately show "validate_name q = Inr ()" unfolding validate_name_def by (simp only: if_False HOL.simp_thms)
  qed
qed

lemma write_blob_steps:
  assumes "write_blob_at_path X root path data s = (Inr root', u)" and "store_ok X s"
  obtains parts h s1 where "split_path path = Inr parts" "store_ok X s1" "store_grows s s1"
    "rewrite_insert X parts h EFile mode_regular root s1 = (Inr root', u)"
    "\<And>f. store_grows s1 f \<Longrightarrow> collision_free X f \<Longrightarrow> load_blob X h f = Inr \<lparr>blob_bytes = data\<rparr>"
proof -
  obtain parts h s1 where st: "split_path path = Inr parts"
      "store_blob X \<lparr>blob_bytes = data\<rparr> s = (Inr h, s1)"
      "rewrite_insert X parts h EFile mode_regular root s1 = (Inr root', u)"
    using assms(1) by (auto simp: write_blob_at_path_def eff_iffs)
  obtain h' u' where b: "store_blob X \<lparr>blob_bytes = data\<rparr> s = (Inr h', u')" "store_ok X u'" "store_grows s u'"
      "collision_free X u' \<Longrightarrow> load_blob X h' u' = Inr \<lparr>blob_bytes = data\<rparr>"
    using store_blob_spec [OF assms(2)] by metis
  with st(2) have eq: "h' = h" "u' = s1" by auto
  have "load_blob X h f = Inr \<lparr>blob_bytes = data\<rparr>" if "store_grows s1 f" "collision_free X f" for f
    using load_mono(2) [OF that(1)] b(4) collision_free_back [OF that] by (simp add: eq)
  with that st b eq show ?thesis by blast
qed

lemma read_blob_find:
  assumes "split_path path = Inr parts"
  shows "read_blob_at_path X root path s = Inr data \<longleftrightarrow>
    (\<exists>t e. load_tree X root s = Inr t \<and> find_at X s t parts = Some e \<and> te_kind e = EFile
       \<and> load_blob X (te_target e) s = Inr \<lparr>blob_bytes = data\<rparr>)"
  using assms
  by (auto simp: read_blob_at_path_def and_then_Inr_iff lookup_entry_find)

lemma read_blob_mono:
  assumes "store_grows s u" and "read_blob_at_path X root path s = Inr data"
  shows "read_blob_at_path X root path u = Inr data"
proof -
  obtain parts where parts: "split_path path = Inr parts"
    using assms(2) by (auto simp: read_blob_at_path_def and_then_Inr_iff)
  obtain t e where "load_tree X root s = Inr t" "find_at X s t parts = Some e" "te_kind e = EFile"
      "load_blob X (te_target e) s = Inr \<lparr>blob_bytes = data\<rparr>"
    using assms(2) by (auto simp: read_blob_find [OF parts])
  then have "load_tree X root u = Inr t" "find_at X u t parts = Some e"
      "load_blob X (te_target e) u = Inr \<lparr>blob_bytes = data\<rparr>" "te_kind e = EFile"
    using load_mono(1,2) [OF assms(1)] find_at_mono [OF assms(1)] by blast+
  then show ?thesis unfolding read_blob_find [OF parts] by blast
qed

text \<open>An edit that succeeds found its root.\<close>

lemma rewrite_insert_root:
  "rewrite_insert X parts h k m root s = (Inr root', u) \<Longrightarrow> \<exists>t. load_tree X root s = Inr t"
  by (cases "(X, parts, h, k, m, root)" rule: rewrite_insert.cases) (auto simp: bindE_Inr_iff readE_iff throwE_def)

lemma rewrite_remove_root:
  "rewrite_remove X parts root s = (Inr root', u) \<Longrightarrow> \<exists>t. load_tree X root s = Inr t"
  by (cases "(X, parts, root)" rule: rewrite_remove.cases) (auto simp: bindE_Inr_iff readE_iff throwE_def)

end
