(* ===== verification/Utf8.thy ===== *)
theory Utf8
  imports Prelude
begin

text \<open>
  UTF-8 validity and lossy decoding as the standard library does them
  (\<^verbatim>\<open>str::from_utf8\<close>, \<^verbatim>\<open>to_string_lossy\<close>, \<^verbatim>\<open>String::from_utf8_lossy\<close>): an invalid sequence is cut at
  its maximal valid prefix and replaced by U+FFFD.
\<close>

definition in_range :: "nat \<Rightarrow> nat \<Rightarrow> char \<Rightarrow> bool" where
  "in_range lo hi c \<longleftrightarrow> lo \<le> of_char c \<and> of_char c \<le> hi"

text \<open>The byte ranges a lead byte demands of the bytes after it.\<close>

definition follow :: "char \<Rightarrow> (nat \<times> nat) list option" where
  "follow c =
     (if in_range 0 0x7F c then Some []
      else if in_range 0xC2 0xDF c then Some [(0x80, 0xBF)]
      else if in_range 0xE0 0xE0 c then Some [(0xA0, 0xBF), (0x80, 0xBF)]
      else if in_range 0xED 0xED c then Some [(0x80, 0x9F), (0x80, 0xBF)]
      else if in_range 0xE1 0xEF c then Some [(0x80, 0xBF), (0x80, 0xBF)]
      else if in_range 0xF0 0xF0 c then Some [(0x90, 0xBF), (0x80, 0xBF), (0x80, 0xBF)]
      else if in_range 0xF1 0xF3 c then Some [(0x80, 0xBF), (0x80, 0xBF), (0x80, 0xBF)]
      else if in_range 0xF4 0xF4 c then Some [(0x80, 0x8F), (0x80, 0xBF), (0x80, 0xBF)]
      else None)"

fun matched :: "(nat \<times> nat) list \<Rightarrow> string \<Rightarrow> nat" where
  "matched ((lo, hi) # rs) (c # cs) = (if in_range lo hi c then Suc (matched rs cs) else 0)"
| "matched _ _ = 0"

text \<open>One step: is the sequence at the front complete, and how many bytes are consumed?\<close>

fun utf8_step :: "string \<Rightarrow> bool \<times> nat" where
  "utf8_step [] = (True, 0)"
| "utf8_step (c # cs) =
     (case follow c of
        None \<Rightarrow> (False, 1)
      | Some rs \<Rightarrow> (let m = matched rs cs in (m = length rs, Suc m)))"

function valid_utf8 :: "string \<Rightarrow> bool" where
  "valid_utf8 [] = True"
| "valid_utf8 (c # cs) =
     (let (ok, n) = utf8_step (c # cs) in ok \<and> valid_utf8 (drop (n - 1) cs))"
  by pat_completeness auto

termination by (relation "measure length") auto

definition replacement :: string where
  "replacement = [CHR 0xEF, CHR 0xBF, CHR 0xBD]"

function lossy :: "string \<Rightarrow> string" where
  "lossy [] = []"
| "lossy (c # cs) =
     (let (ok, n) = utf8_step (c # cs) in
      (if ok then take n (c # cs) else replacement) @ lossy (drop (n - 1) cs))"
  by pat_completeness auto

termination by (relation "measure length") auto

lemma lossy_valid [simp]: "valid_utf8 s \<Longrightarrow> lossy s = s"
proof (induction s rule: valid_utf8.induct)
  case (2 c cs)
  obtain ok n where st: "utf8_step (c # cs) = (ok, n)" by (cases "utf8_step (c # cs)")
  then have n: "n \<noteq> 0" by (auto simp: Let_def split: option.splits)
  with 2 st have "ok" "lossy (drop (n - 1) cs) = drop (n - 1) cs" by auto
  with st n show ?case by (cases n) (simp_all del: utf8_step.simps)
qed simp

lemma matched_append: "matched rs cs = length rs \<Longrightarrow> matched rs (take (length rs) cs @ t) = length rs"
  by (induction rs cs rule: matched.induct) (auto split: if_splits)

lemma valid_step:
  assumes "follow c = Some rs" and "matched rs cs = length rs"
  shows "valid_utf8 (c # take (length rs) cs @ t) \<longleftrightarrow> valid_utf8 t"
proof -
  have len: "length rs \<le> length cs" using assms(2)
    by (induction rs cs rule: matched.induct) (auto split: if_splits)
  then show ?thesis using assms matched_append [OF assms(2), of t] by (simp add: Let_def)
qed

lemma valid_replacement: "valid_utf8 (replacement @ t) \<longleftrightarrow> valid_utf8 t"
proof -
  have "follow (CHR 0xEF) = Some [(0x80, 0xBF), (0x80, 0xBF)]"
    by (simp add: follow_def in_range_def)
  then show ?thesis by (simp add: replacement_def in_range_def Let_def)
qed

text \<open>Lossy decoding always yields a string.\<close>

lemma valid_lossy [simp]: "valid_utf8 (lossy s)"
proof (induction s rule: lossy.induct)
  case (2 c cs)
  obtain ok n where st: "utf8_step (c # cs) = (ok, n)" by (cases "utf8_step (c # cs)")
  from 2 st have ih: "valid_utf8 (lossy (drop (n - 1) cs))" by simp
  show ?case
  proof (cases ok)
    case True
    with st obtain rs where rs: "follow c = Some rs" "matched rs cs = length rs" "n = Suc (length rs)"
      by (auto simp: Let_def split: option.splits)
    with st True ih valid_step [OF rs(1,2)] show ?thesis by (simp del: utf8_step.simps)
  next
    case False
    with st ih show ?thesis by (simp add: valid_replacement del: utf8_step.simps)
  qed
qed simp

lemma valid_utf8_ascii: "\<forall>c \<in> set s. of_char c < (128 :: nat) \<Longrightarrow> valid_utf8 s"
proof (induction s)
  case (Cons c cs)
  then have "follow c = Some []" by (simp add: follow_def in_range_def)
  with Cons show ?case by (simp add: Let_def)
qed simp

end
