(* ===== verification/Workdir.thy ===== *)
theory Workdir
  imports Tree_Edit_Props Utf8
begin

text \<open>
  The working directory on disk, and \<^verbatim>\<open>tig-fs/src/scan.rs\<close>. Names and link targets are raw byte
  strings that need not be UTF-8. Of the permission bits the model keeps what the code reads:
  whether any execute bit is set.
\<close>

datatype wnode =
    WFile bytes bool
  | WLink string
  | WDir "(string \<times> wnode) list"
  | WSpecial string

section \<open>Scanning\<close>

record scan_options =
  sc_ignore :: "string list"

definition scan_options_default :: scan_options where
  "scan_options_default = \<lparr>sc_ignore = [''.tig'', ''.tig-worktrees'']\<rparr>"

definition join_path :: "string \<Rightarrow> string \<Rightarrow> string" where
  "join_path dir name = dir @ ''/'' @ name"

text \<open>
  The first loop: names must be UTF-8, ignored ones are passed over, and the sorted map keeps
  the rest in name order.
\<close>

definition scan_children ::
  "scan_options \<Rightarrow> (string \<times> wnode) list \<Rightarrow> fs_error + (string \<times> wnode) list" where
  "scan_children opts ch =
     (case List.find (\<lambda>c. \<not> valid_utf8 (fst c)) ch of
        Some c \<Rightarrow> Inl (FCore (CInvalidPathComponent (lossy (fst c))))
      | None \<Rightarrow> Inr (sort_key fst (filter (\<lambda>c. fst c \<notin> set (sc_ignore opts)) ch)))"

definition unix_mode :: "bool \<Rightarrow> file_mode" where
  "unix_mode exec = (if exec then mode_exec else mode_regular)"

definition entry_for :: "string \<Rightarrow> entry_kind \<Rightarrow> file_mode \<Rightarrow> hash \<Rightarrow> tree_entry" where
  "entry_for name kind mode target =
     \<lparr>te_name = name, te_kind = kind, te_target = target, te_mode = mode, te_vis = None\<rparr>"

text \<open>
  \<^verbatim>\<open>build_entry\<close> on a child that is not a directory; \<open>scan_dir\<close> has the directory case in line,
  which makes the recursion structural.
\<close>

fun build_leaf ::
  "'x ext_scheme \<Rightarrow> string \<Rightarrow> string \<Rightarrow> wnode \<Rightarrow> ('r objects_dir_scheme, fs_error, tree_entry) eff" where
  "build_leaf X dir name (WFile data exec) =
     bindE (store_blob X \<lparr>blob_bytes = data\<rparr>) (\<lambda>h. retE (entry_for name EFile (unix_mode exec) h))"
| "build_leaf X dir name (WLink target) =
     bindE (store_blob X \<lparr>blob_bytes = str_bytes (lossy target)\<rparr>)
       (\<lambda>h. retE (entry_for name ESymlink mode_symlink h))"
| "build_leaf X dir name (WSpecial kind) = throwE (FUnsupportedKind (join_path dir name) kind)"
| "build_leaf X dir name (WDir ch) = throwE FCrash"

lemma scan_children_sub:
  "scan_children opts ch = Inr cs \<Longrightarrow> c \<in> set cs \<Longrightarrow> c \<in> set ch"
  by (auto simp: scan_children_def split: option.splits)

lemma wdir_child_size:
  "(n, WDir ch') \<in> set ch \<Longrightarrow> size_list (size_prod (\<lambda>_. 0) size) ch' < size_list (size_prod (\<lambda>_. 0) size) ch"
proof (induction ch)
  case (Cons c ch)
  then show ?case by (cases c) auto
qed simp

function scan_dir ::
  "'x ext_scheme \<Rightarrow> scan_options \<Rightarrow> string \<Rightarrow> (string \<times> wnode) list \<Rightarrow>
     ('r objects_dir_scheme, fs_error, hash) eff" where
  "scan_dir X opts dir ch =
     (case scan_children opts ch of
        Inl e \<Rightarrow> throwE e
      | Inr cs \<Rightarrow>
          bindE
            (foldE (\<lambda>t c.
               bindE
                 (case snd c of
                    WDir ch' \<Rightarrow>
                      bindE (scan_dir X opts (join_path dir (fst c)) ch')
                        (\<lambda>h. retE (entry_for (fst c) ETree mode_dir h))
                  | node \<Rightarrow> build_leaf X dir (fst c) node)
                 (\<lambda>e. liftE (map_err FCore (tree_insert t e))))
             tree_new cs)
            (store_tree X))"
  by pat_completeness auto

termination
proof (relation "measure (\<lambda>(X, opts, dir, ch). size_list (size_prod (\<lambda>_. 0) size) ch)")
  fix X :: "'x ext_scheme" and opts dir and ch cs ch' :: "(string \<times> wnode) list" and c :: "string \<times> wnode"
  assume "scan_children opts ch = Inr cs" "c \<in> set cs" "snd c = WDir ch'"
  then have "(fst c, WDir ch') \<in> set ch" by (metis prod.collapse scan_children_sub)
  then show "((X, opts, join_path dir (fst c), ch'), X, opts, dir, ch)
      \<in> measure (\<lambda>(X, opts, dir, ch). size_list (size_prod (\<lambda>_. 0) size) ch)"
    using wdir_child_size by simp
qed simp

declare scan_dir.simps [simp del]

definition build_entry ::
  "'x ext_scheme \<Rightarrow> scan_options \<Rightarrow> string \<Rightarrow> string \<times> wnode \<Rightarrow> ('r objects_dir_scheme, fs_error, tree_entry) eff" where
  "build_entry X opts dir c =
     (case snd c of
        WDir ch' \<Rightarrow>
          bindE (scan_dir X opts (join_path dir (fst c)) ch')
            (\<lambda>h. retE (entry_for (fst c) ETree mode_dir h))
      | node \<Rightarrow> build_leaf X dir (fst c) node)"

lemma scan_dir_eq:
  "scan_dir X opts dir ch =
     (case scan_children opts ch of
        Inl e \<Rightarrow> throwE e
      | Inr cs \<Rightarrow>
          bindE
            (foldE (\<lambda>t c. bindE (build_entry X opts dir c) (\<lambda>e. liftE (map_err FCore (tree_insert t e))))
              tree_new cs)
            (store_tree X))"
  unfolding build_entry_def by (rule scan_dir.simps)

definition scan ::
  "'x ext_scheme \<Rightarrow> scan_options \<Rightarrow> string \<Rightarrow> wnode option \<Rightarrow> ('r objects_dir_scheme, fs_error, hash) eff" where
  "scan X opts dir w = (case w of Some (WDir ch) \<Rightarrow> scan_dir X opts dir ch | _ \<Rightarrow> throwE FIo)"

section \<open>What a stored tree shows\<close>

text \<open>
  A tree entry shows a node when the objects it leads to are exactly that node's contents, in
  name order: the meaning of a tree hash in a given store.
\<close>

fun entry_shows :: "'x ext_scheme \<Rightarrow> 'r objects_dir_scheme \<Rightarrow> tree_entry \<Rightarrow> wnode \<Rightarrow> bool" where
  "entry_shows X s e (WFile data exec) \<longleftrightarrow>
     te_kind e = EFile \<and> is_executable (te_mode e) = exec \<and> load_blob X (te_target e) s = Inr \<lparr>blob_bytes = data\<rparr>"
| "entry_shows X s e (WLink target) \<longleftrightarrow>
     te_kind e = ESymlink \<and> valid_utf8 target
     \<and> load_blob X (te_target e) s = Inr \<lparr>blob_bytes = str_bytes target\<rparr>"
| "entry_shows X s e (WSpecial k) \<longleftrightarrow> False"
| "entry_shows X s e (WDir ch) \<longleftrightarrow>
     te_kind e = ETree
     \<and> (case load_tree X (te_target e) s of
          Inl _ \<Rightarrow> False
        | Inr t \<Rightarrow> list_all2 (\<lambda>e c. te_name e = fst c \<and> entry_shows X s e (snd c)) (entries t) ch)"

definition tree_shows :: "'x ext_scheme \<Rightarrow> 'r objects_dir_scheme \<Rightarrow> hash \<Rightarrow> (string \<times> wnode) list \<Rightarrow> bool" where
  "tree_shows X s h ch \<longleftrightarrow>
     (\<exists>t. load_tree X h s = Inr t
        \<and> list_all2 (\<lambda>e c. te_name e = fst c \<and> entry_shows X s e (snd c)) (entries t) ch)"

end
