(* ===== verification/Workdir_Props.thy ===== *)
theory Workdir_Props
  imports Workdir
begin

text \<open>
  What a scan records: exactly the visible contents of the directory, independently of the
  order in which the file system lists it and of ignored entries.
\<close>

section \<open>The contents a scan can see\<close>

text \<open>Names in order, ignored entries left out, link targets as text.\<close>

fun norm_node :: "scan_options \<Rightarrow> wnode \<Rightarrow> wnode" where
  "norm_node opts (WFile data exec) = WFile data exec"
| "norm_node opts (WLink target) = WLink (lossy target)"
| "norm_node opts (WSpecial k) = WSpecial k"
| "norm_node opts (WDir ch) =
     WDir (sort_key fst (map (\<lambda>c. (fst c, norm_node opts (snd c)))
            (filter (\<lambda>c. fst c \<notin> set (sc_ignore opts)) ch)))"

definition norm_children :: "scan_options \<Rightarrow> (string \<times> wnode) list \<Rightarrow> (string \<times> wnode) list" where
  "norm_children opts ch =
     map (\<lambda>c. (fst c, norm_node opts (snd c))) (sort_key fst (filter (\<lambda>c. fst c \<notin> set (sc_ignore opts)) ch))"

lemma sort_key_map_values: "sort_key fst (map (\<lambda>c. (fst c, f (snd c))) xs) = map (\<lambda>c. (fst c, f (snd c))) (sort_key fst xs)"
proof (induction xs)
  case (Cons x xs)
  have "insort_key fst (fst x, f (snd x)) (map (\<lambda>c. (fst c, f (snd c))) ys)
      = map (\<lambda>c. (fst c, f (snd c))) (insort_key fst x ys)" for ys
    by (induction ys) auto
  with Cons show ?case by simp
qed simp

lemma norm_node_dir: "norm_node opts (WDir ch) = WDir (norm_children opts ch)"
  by (simp add: norm_children_def sort_key_map_values)

text \<open>
  What the scan can record: no devices or sockets, names that are text and that the operating
  system allows.
\<close>

fun scannable :: "scan_options \<Rightarrow> wnode \<Rightarrow> bool" where
  "scannable opts (WDir ch) \<longleftrightarrow>
     distinct (map fst ch)
     \<and> (\<forall>c \<in> set ch. valid_utf8 (fst c)
          \<and> (fst c \<notin> set (sc_ignore opts) \<longrightarrow> validate_name (fst c) = Inr () \<and> scannable opts (snd c)))"
| "scannable opts (WSpecial k) \<longleftrightarrow> False"
| "scannable opts _ \<longleftrightarrow> True"

lemma scan_children_scannable:
  "scannable opts (WDir ch) \<Longrightarrow>
   scan_children opts ch = Inr (sort_key fst (filter (\<lambda>c. fst c \<notin> set (sc_ignore opts)) ch))"
  by (auto simp: scan_children_def find_None_iff split: option.splits)
    (metis find_None_iff option.distinct(1))

section \<open>One directory\<close>

lemma tree_insert_last:
  assumes "tree_wf t" and "\<forall>x \<in> set (entries t). te_name x < te_name e" and "validate_name (te_name e) = Inr ()"
  shows "tree_insert t e = Inr (t\<lparr>entries := entries t @ [e]\<rparr>)"
proof -
  have so: "sorted_wrt (<) (map te_name (entries t))" using assms(1) by (simp add: tree_wf_def names_ok_def)
  have ne: "binary_search (te_name e) (entries t) \<noteq> Inr i" for i
    using binary_search_Inr [OF so] assms(2) by (metis nth_mem order.strict_iff_not)
  then obtain i where i: "binary_search (te_name e) (entries t) = Inl i"
    by (cases "binary_search (te_name e) (entries t)") auto
  note b = binary_search_Inl [OF so i]
  have "i = length (entries t)"
  proof (rule ccontr)
    assume "i \<noteq> length (entries t)"
    with b(1) have "i < length (entries t)" by simp
    with b(3) have "te_name e < te_name (entries t ! i)" by simp
    moreover have "te_name (entries t ! i) < te_name e" using assms(2) \<open>i < length (entries t)\<close> by simp
    ultimately show False using order.strict_trans by blast
  qed
  with i assms(3) show ?thesis by (simp add: tree_insert_def)
qed

definition entries_show ::
  "'x ext_scheme \<Rightarrow> 'r objects_dir_scheme \<Rightarrow> tree_entry list \<Rightarrow> (string \<times> wnode) list \<Rightarrow> bool" where
  "entries_show X f es ch \<longleftrightarrow> list_all2 (\<lambda>e c. te_name e = fst c \<and> entry_shows X f e (snd c)) es ch"

lemma entry_shows_dir:
  "entry_shows X f e (WDir ch) \<longleftrightarrow> te_kind e = ETree \<and> tree_shows X f (te_target e) ch"
  by (auto simp: tree_shows_def split: sum.splits)

lemma tree_shows_entries:
  "tree_shows X f h ch \<longleftrightarrow> (\<exists>t. load_tree X h f = Inr t \<and> entries_show X f (entries t) ch)"
  by (simp add: tree_shows_def entries_show_def)

text \<open>The hashes, as plain functions of the contents.\<close>

definition blob_hash :: "'x ext_scheme \<Rightarrow> bytes \<Rightarrow> hash" where
  "blob_hash X data = raw_hash X (unres (encode_blob X \<lparr>blob_bytes = data\<rparr>))"

definition tree_hash :: "'x ext_scheme \<Rightarrow> tree_entry list \<Rightarrow> hash" where
  "tree_hash X es = raw_hash X (unres (encode_tree X \<lparr>entries = es\<rparr>))"

fun node_entry :: "'x ext_scheme \<Rightarrow> string \<Rightarrow> wnode \<Rightarrow> tree_entry" where
  "node_entry X n (WFile data exec) = entry_for n EFile (unix_mode exec) (blob_hash X data)"
| "node_entry X n (WLink target) = entry_for n ESymlink mode_symlink (blob_hash X (str_bytes target))"
| "node_entry X n (WDir ch) =
     entry_for n ETree mode_dir (tree_hash X (map (\<lambda>c. node_entry X (fst c) (snd c)) ch))"
| "node_entry X n (WSpecial k) = undefined"

definition dir_hash :: "'x ext_scheme \<Rightarrow> (string \<times> wnode) list \<Rightarrow> hash" where
  "dir_hash X ch = tree_hash X (map (\<lambda>c. node_entry X (fst c) (snd c)) ch)"

lemma node_entry_name: "scannable opts v \<Longrightarrow> te_name (node_entry X n v) = n"
  by (cases v) (simp_all add: entry_for_def)

lemma store_hash:
  "store_blob X \<lparr>blob_bytes = data\<rparr> s = (Inr h, u) \<Longrightarrow> h = blob_hash X data"
  "store_tree X \<lparr>entries = es\<rparr> s = (Inr h, u) \<Longrightarrow> h = tree_hash X es"
  by (auto simp: store_blob_def store_tree_def store_raw_def eff_iffs blob_hash_def tree_hash_def
      dest!: store.put_result)

text \<open>A step of the scan that records the node \<open>v\<close> under its name.\<close>

definition records ::
  "'x ext_scheme \<Rightarrow> string \<Rightarrow> wnode \<Rightarrow> ('r objects_dir_scheme, fs_error, tree_entry) eff \<Rightarrow> bool" where
  "records X n v m \<longleftrightarrow>
     (\<forall>s. store_ok X s \<longrightarrow> (\<exists>u. m s = (Inr (node_entry X n v), u) \<and> te_name (node_entry X n v) = n
        \<and> store_ok X u \<and> store_grows s u
        \<and> (\<forall>f. store_grows u f \<longrightarrow> collision_free X f \<longrightarrow> entry_shows X f (node_entry X n v) v)))"

lemma scan_loop:
  fixes s :: "'r objects_dir_scheme"
  assumes "\<And>c. c \<in> set cs \<Longrightarrow>
      records X (fst c) (v c) (build_entry X opts dir c :: ('r objects_dir_scheme, fs_error, tree_entry) eff)"
    and "sorted_wrt (<) (map fst cs)" and "\<And>c. c \<in> set cs \<Longrightarrow> validate_name (fst c) = Inr ()"
  shows "store_ok X s \<Longrightarrow> tree_wf t \<Longrightarrow> \<forall>x \<in> set (entries t). \<forall>c \<in> set cs. te_name x < fst c \<Longrightarrow>
    \<exists>u. let es = map (\<lambda>c. node_entry X (fst c) (v c)) cs in
      foldE (\<lambda>t c. bindE (build_entry X opts dir c) (\<lambda>e. liftE (map_err FCore (tree_insert t e)))) t cs s
        = (Inr (t\<lparr>entries := entries t @ es\<rparr>), u)
      \<and> tree_wf (t\<lparr>entries := entries t @ es\<rparr>) \<and> store_ok X u \<and> store_grows s u
      \<and> (\<forall>f. store_grows u f \<longrightarrow> collision_free X f \<longrightarrow> entries_show X f es (map (\<lambda>c. (fst c, v c)) cs))"
  using assms
proof (induction cs arbitrary: s t)
  case Nil
  then show ?case by (intro exI [of _ s]) (simp add: entries_show_def)
next
  case (Cons c cs)
  let ?e = "node_entry X (fst c) (v c)"
  let ?es = "map (\<lambda>c. node_entry X (fst c) (v c)) cs"
  obtain u where e: "build_entry X opts dir c s = (Inr ?e, u)" "te_name ?e = fst c" "store_ok X u" "store_grows s u"
      "\<forall>f. store_grows u f \<longrightarrow> collision_free X f \<longrightarrow> entry_shows X f ?e (v c)"
    using Cons.prems(4) [of c] Cons.prems(1) unfolding records_def by (metis list.set_intros(1))
  have below: "\<forall>x \<in> set (entries t). te_name x < te_name ?e" using Cons.prems(3) e(2) by simp
  have val: "validate_name (te_name ?e) = Inr ()" using Cons.prems(6) e(2) by simp
  let ?t = "t\<lparr>entries := entries t @ [?e]\<rparr>"
  have ins: "tree_insert t ?e = Inr ?t" by (rule tree_insert_last [OF Cons.prems(2) below val])
  have wf: "tree_wf ?t" using tree_insert_Inr [OF Cons.prems(2) ins] by simp
  have "\<exists>w. let es = ?es in
      foldE (\<lambda>t c. bindE (build_entry X opts dir c) (\<lambda>e. liftE (map_err FCore (tree_insert t e)))) ?t cs u
        = (Inr (?t\<lparr>entries := entries ?t @ es\<rparr>), w)
      \<and> tree_wf (?t\<lparr>entries := entries ?t @ es\<rparr>) \<and> store_ok X w \<and> store_grows u w
      \<and> (\<forall>f. store_grows w f \<longrightarrow> collision_free X f \<longrightarrow> entries_show X f es (map (\<lambda>c. (fst c, v c)) cs))"
  proof (rule Cons.IH [OF e(3) wf])
    show "\<forall>x \<in> set (entries ?t). \<forall>c \<in> set cs. te_name x < fst c"
      using Cons.prems(3,5) e(2) by auto
  qed (use Cons.prems in auto)
  then obtain w where w: "foldE (\<lambda>t c. bindE (build_entry X opts dir c) (\<lambda>e. liftE (map_err FCore (tree_insert t e)))) ?t cs u
        = (Inr (t\<lparr>entries := entries t @ ?e # ?es\<rparr>), w)"
      "tree_wf (t\<lparr>entries := entries t @ ?e # ?es\<rparr>)" "store_ok X w" "store_grows u w"
      "\<forall>f. store_grows w f \<longrightarrow> collision_free X f \<longrightarrow> entries_show X f ?es (map (\<lambda>c. (fst c, v c)) cs)"
    by (auto simp: Let_def)
  have step: "bindE (build_entry X opts dir c) (\<lambda>e. liftE (map_err FCore (tree_insert t e))) s = (Inr ?t, u)"
    by (simp add: bindE_def e(1) ins liftE_def)
  have "entries_show X f (?e # ?es) (map (\<lambda>c. (fst c, v c)) (c # cs))"
    if "store_grows w f" "collision_free X f" for f
    using that w(5) e(2,5) store_grows_trans [OF w(4) that(1)] by (simp add: entries_show_def)
  then show ?case
    using w e(4) step by (intro exI [of _ w]) (auto simp: Let_def intro: store_grows_trans)
qed

lemma sort_key_strict:
  "distinct (map fst xs) \<Longrightarrow> sorted_wrt (<) (map fst (sort_key fst xs))"
  by (metis mset_eq_imp_distinct_iff mset_map mset_sort sorted_sort_key strict_sorted_iff)

section \<open>The whole directory\<close>

lemma records_leaf:
  "records X n (WFile data exec) (build_leaf X dir n (WFile data exec))"
  "records X n (WLink (lossy target)) (build_leaf X dir n (WLink target))"
proof -
  have ex: "is_executable (unix_mode exec) = exec"
    by (cases exec) (simp_all add: is_executable_def unix_mode_def mode_exec_def mode_regular_def)
  show "records X n (WFile data exec) (build_leaf X dir n (WFile data exec))"
    unfolding records_def
  proof (intro allI impI)
    fix s :: "'r objects_dir_scheme" assume "store_ok X s"
    then obtain h u where "store_blob X \<lparr>blob_bytes = data\<rparr> s = (Inr h, u)" "store_ok X u" "store_grows s u"
        "\<forall>f. store_grows u f \<longrightarrow> collision_free X f \<longrightarrow> load_blob X h f = Inr \<lparr>blob_bytes = data\<rparr>"
      using store_blob_at by blast
    then show "\<exists>u. build_leaf X dir n (WFile data exec) s = (Inr (node_entry X n (WFile data exec)), u)
        \<and> te_name (node_entry X n (WFile data exec)) = n \<and> store_ok X u \<and> store_grows s u
        \<and> (\<forall>f. store_grows u f \<longrightarrow> collision_free X f \<longrightarrow>
             entry_shows X f (node_entry X n (WFile data exec)) (WFile data exec))"
      using ex store_hash(1) [of X data s h u]
      by (intro exI [of _ u]) (auto simp: eff_simps entry_for_def)
  qed
  show "records X n (WLink (lossy target)) (build_leaf X dir n (WLink target))"
    unfolding records_def
  proof (intro allI impI)
    fix s :: "'r objects_dir_scheme" assume "store_ok X s"
    then obtain h u where "store_blob X \<lparr>blob_bytes = str_bytes (lossy target)\<rparr> s = (Inr h, u)" "store_ok X u"
        "store_grows s u"
        "\<forall>f. store_grows u f \<longrightarrow> collision_free X f \<longrightarrow> load_blob X h f = Inr \<lparr>blob_bytes = str_bytes (lossy target)\<rparr>"
      using store_blob_at by blast
    then show "\<exists>u. build_leaf X dir n (WLink target) s = (Inr (node_entry X n (WLink (lossy target))), u)
        \<and> te_name (node_entry X n (WLink (lossy target))) = n \<and> store_ok X u \<and> store_grows s u
        \<and> (\<forall>f. store_grows u f \<longrightarrow> collision_free X f \<longrightarrow>
             entry_shows X f (node_entry X n (WLink (lossy target))) (WLink (lossy target)))"
      using store_hash(1) [of X "str_bytes (lossy target)" s h u]
      by (intro exI [of _ u]) (auto simp: eff_simps entry_for_def)
  qed
qed

text \<open>The scan records the visible contents of the directory, whatever they are.\<close>

lemma scan_dir_shows:
  fixes s :: "'r objects_dir_scheme"
  shows "scannable opts (WDir ch) \<Longrightarrow> store_ok X s \<Longrightarrow>
   \<exists>u. scan_dir X opts dir ch s = (Inr (dir_hash X (norm_children opts ch)), u)
     \<and> store_ok X u \<and> store_grows s u
     \<and> (\<forall>f. store_grows u f \<longrightarrow> collision_free X f \<longrightarrow>
          tree_shows X f (dir_hash X (norm_children opts ch)) (norm_children opts ch))"
proof (induction "size_list (size_prod (\<lambda>_. 0) size) ch" arbitrary: ch s dir rule: less_induct)
  case less
  let ?cs = "sort_key fst (filter (\<lambda>c. fst c \<notin> set (sc_ignore opts)) ch)"
  let ?es = "map (\<lambda>c. node_entry X (fst c) (norm_node opts (snd c))) ?cs"
  have sc: "scan_children opts ch = Inr ?cs" by (rule scan_children_scannable [OF less.prems(1)])
  have in_ch: "c \<in> set ch \<and> fst c \<notin> set (sc_ignore opts)" if "c \<in> set ?cs" for c using that by simp
  have rec: "records X (fst c) (norm_node opts (snd c))
      (build_entry X opts dir c :: ('r objects_dir_scheme, fs_error, tree_entry) eff)" if c: "c \<in> set ?cs" for c
  proof (cases "snd c")
    case (WDir ch')
    then have m: "(fst c, WDir ch') \<in> set ch" using in_ch [OF c] by (metis prod.collapse)
    have sc': "scannable opts (WDir ch')" using less.prems(1) in_ch [OF c] WDir by fastforce
    have ne: "node_entry X (fst c) (norm_node opts (snd c)) = entry_for (fst c) ETree mode_dir (dir_hash X (norm_children opts ch'))"
      by (simp add: WDir norm_node_dir dir_hash_def del: norm_node.simps)
    show ?thesis
      unfolding records_def ne
    proof (intro allI impI)
      fix s :: "'r objects_dir_scheme" assume "store_ok X s"
      from less.hyps [OF wdir_child_size [OF m] sc' this] obtain u where
        "scan_dir X opts (join_path dir (fst c)) ch' s = (Inr (dir_hash X (norm_children opts ch')), u)"
        "store_ok X u" "store_grows s u"
        "\<forall>f. store_grows u f \<longrightarrow> collision_free X f \<longrightarrow>
           tree_shows X f (dir_hash X (norm_children opts ch')) (norm_children opts ch')" by blast
      then show "\<exists>u. build_entry X opts dir c s
            = (Inr (entry_for (fst c) ETree mode_dir (dir_hash X (norm_children opts ch'))), u)
          \<and> te_name (entry_for (fst c) ETree mode_dir (dir_hash X (norm_children opts ch'))) = fst c
          \<and> store_ok X u \<and> store_grows s u
          \<and> (\<forall>f. store_grows u f \<longrightarrow> collision_free X f \<longrightarrow>
               entry_shows X f (entry_for (fst c) ETree mode_dir (dir_hash X (norm_children opts ch')))
                 (norm_node opts (snd c)))"
        using WDir
        by (intro exI [of _ u])
          (simp add: build_entry_def eff_simps entry_for_def norm_node_dir entry_shows_dir
            del: norm_node.simps entry_shows.simps)
    qed
  next
    case (WSpecial k)
    then show ?thesis using less.prems(1) in_ch [OF c] by fastforce
  qed (simp_all add: build_entry_def records_leaf del: build_leaf.simps node_entry.simps)
  have so: "sorted_wrt (<) (map fst ?cs)"
    by (rule sort_key_strict) (use less.prems(1) in \<open>simp add: distinct_map_filter\<close>)
  have va: "validate_name (fst c) = Inr ()" if "c \<in> set ?cs" for c
    using less.prems(1) in_ch [OF that] by simp
  obtain u where u: "foldE (\<lambda>t c. bindE (build_entry X opts dir c) (\<lambda>e. liftE (map_err FCore (tree_insert t e)))) tree_new ?cs s
        = (Inr \<lparr>entries = ?es\<rparr>, u)" "tree_wf \<lparr>entries = ?es\<rparr>" "store_ok X u" "store_grows s u"
      "\<forall>f. store_grows u f \<longrightarrow> collision_free X f \<longrightarrow>
         entries_show X f ?es (map (\<lambda>c. (fst c, norm_node opts (snd c))) ?cs)"
    using scan_loop [where X = X and v = "\<lambda>c. norm_node opts (snd c)" and cs = ?cs and t = tree_new and s = s,
        OF rec so va less.prems(2) tree_new_wf]
    by (auto simp: tree_new_def Let_def)
  obtain h w where w1: "store_tree X \<lparr>entries = ?es\<rparr> u = (Inr h, w)"
    by (rule store_tree_spec [OF u(3,2)]) (rule that)
  note w = w1 store_tree_Inr [OF w1 u(3,2)]
  have h: "h = dir_hash X (norm_children opts ch)"
    using store_hash(2) [OF w(1)] by (simp add: dir_hash_def norm_children_def o_def)
  have "scan_dir X opts dir ch s = (Inr h, w)"
    by (subst scan_dir_eq) (simp add: sc bindE_def u(1) w(1))
  moreover have "tree_shows X f h (norm_children opts ch)" if "store_grows w f" "collision_free X f" for f
    using w(4) [OF that] u(5) that store_grows_trans [OF w(3) that(1)]
    by (simp add: tree_shows_entries norm_children_def)
  moreover have "store_grows s w" using u(4) w(3) by (rule store_grows_trans)
  ultimately show ?case using w(2) h by blast
qed

end
