(* ===== verification/Materialize.thy ===== *)
theory Materialize
  imports Workdir_Props
begin

text \<open>
  Writing stored trees to disk: \<^verbatim>\<open>tig-fs/src/clone.rs\<close>, \<^verbatim>\<open>materialize.rs\<close> and \<^verbatim>\<open>restore.rs\<close>. The
  directory being written is part of the state, so a failure leaves behind what was written
  before it.
\<close>

section \<open>Cloning\<close>

datatype io_error = IoAlreadyExists | IoUnsupported | IoCrossesDevices | IoRawOs int | IoOther

type_synonym clone_result = "io_error + wnode"

text \<open>The generic copier; a device or socket cannot be copied.\<close>

function copy_recursive :: "wnode \<Rightarrow> clone_result" where
  "copy_recursive (WDir ch) =
     and_then (traverse (\<lambda>c. case copy_recursive (snd c) of Inl e \<Rightarrow> Inl e | Inr v \<Rightarrow> Inr (fst c, v)) ch)
       (\<lambda>ch'. Inr (WDir ch'))"
| "copy_recursive (WLink target) = Inr (WLink target)"
| "copy_recursive (WFile data exec) = Inr (WFile data exec)"
| "copy_recursive (WSpecial k) = Inl IoOther"
  by pat_completeness auto

termination
proof (relation "measure size")
  fix ch :: "(string \<times> wnode) list" and c assume "c \<in> set ch"
  then show "(snd c, WDir ch) \<in> measure size"
    by (induction ch) (auto simp: size_prod_def)
qed simp

text \<open>A clone engine, given the source and whether the destination exists.\<close>

record clone_engine =
  ce_name :: string
  ce_clone :: "wnode \<Rightarrow> bool \<Rightarrow> clone_result"

definition copy_fallback :: clone_engine where
  "copy_fallback = \<lparr>ce_name = ''copy'',
     ce_clone = \<lambda>src dst_exists. if dst_exists then Inl IoAlreadyExists else copy_recursive src\<rparr>"

definition is_fallback_eligible :: "io_error \<Rightarrow> bool" where
  "is_fallback_eligible e \<longleftrightarrow> e = IoUnsupported \<or> e = IoCrossesDevices \<or> e = IoRawOs 45 \<or> e = IoRawOs 18"

text \<open>
  The primary engine with its fallback: what the refused attempt left at the destination is
  removed first, so the fallback finds it absent.
\<close>

definition auto_clone :: "clone_engine \<Rightarrow> clone_engine \<Rightarrow> clone_engine" where
  "auto_clone primary fallback = \<lparr>ce_name = ce_name primary,
     ce_clone = \<lambda>src dst_exists.
       case ce_clone primary src dst_exists of
         Inr v \<Rightarrow> Inr v
       | Inl e \<Rightarrow> if is_fallback_eligible e then ce_clone fallback src False else Inl e\<rparr>"

section \<open>Rendering\<close>

datatype on_unsealable = OnError | OnSkip

record materialize_options =
  mo_unsealer :: "(sealed \<Rightarrow> bytes \<Rightarrow> string + bytes) option"
  mo_on_unsealable :: on_unsealable

definition materialize_options_default :: materialize_options where
  "materialize_options_default = \<lparr>mo_unsealer = None, mo_on_unsealable = OnError\<rparr>"

record render_stats =
  rs_files :: nat
  rs_bytes :: nat
  rs_sealed_unsealed :: nat
  rs_sealed_skipped :: nat

definition stats_zero :: render_stats where
  "stats_zero = \<lparr>rs_files = 0, rs_bytes = 0, rs_sealed_unsealed = 0, rs_sealed_skipped = 0\<rparr>"

text \<open>The state of a render: the directory being filled, and the counters.\<close>

type_synonym render_state = "(string \<times> wnode) list \<times> render_stats"

text \<open>
  \<^verbatim>\<open>fs::write\<close> followed by the permission update: an existing file is truncated and keeps its
  bits. Writing over a directory fails; so does writing through a link here.
\<close>

definition write_file :: "string \<Rightarrow> bytes \<Rightarrow> bool \<Rightarrow> (render_state, fs_error, unit) eff" where
  "write_file name data exec st =
     (case map_of (fst st) name of
        None \<Rightarrow> (Inr (), (fst st @ [(name, WFile data exec)], snd st))
      | Some (WFile _ exec0) \<Rightarrow> (Inr (), (AList.update name (WFile data (exec0 \<or> exec)) (fst st), snd st))
      | Some _ \<Rightarrow> (Inl FIo, st))"

definition make_symlink :: "string \<Rightarrow> string \<Rightarrow> (render_state, fs_error, unit) eff" where
  "make_symlink name target st =
     (if map_of (fst st) name \<noteq> None then (Inl FIo, st)
      else (Inr (), (fst st @ [(name, WLink target)], snd st)))"

text \<open>\<^verbatim>\<open>create_dir\<close>, then the given work inside the new directory.\<close>

definition in_new_dir :: "string \<Rightarrow> (render_state, fs_error, unit) eff \<Rightarrow> (render_state, fs_error, unit) eff" where
  "in_new_dir name m st =
     (if map_of (fst st) name \<noteq> None then (Inl FIo, st)
      else case m ([], snd st) of
             (r, (ch, stats)) \<Rightarrow> (r, (fst st @ [(name, WDir ch)], stats)))"

definition count :: "(render_stats \<Rightarrow> render_stats) \<Rightarrow> (render_state, fs_error, unit) eff" where
  "count f = updE (\<lambda>(ch, stats). (ch, f stats))"

definition child_path :: "string \<Rightarrow> string \<Rightarrow> string" where
  "child_path pfx name = (if pfx = [] then name else pfx @ ''/'' @ name)"

definition sealed_no_identity :: string where
  "sealed_no_identity =
     ''sealed (no --as <identity> configured; pass an unsealer to materialize sealed entries)''"

fun show_entry_kind :: "entry_kind \<Rightarrow> string" where
  "show_entry_kind k = entry_kind_name k"

definition render_file ::
  "'x ext_scheme \<Rightarrow> 'r objects_dir_scheme \<Rightarrow> tree_entry \<Rightarrow> (render_state, fs_error, unit) eff" where
  "render_file X s e =
     bindE (liftE (load_blob X (te_target e) s)) (\<lambda>b.
       bindE (write_file (te_name e) (blob_bytes b) (is_executable (te_mode e))) (\<lambda>_.
         count (\<lambda>st. st\<lparr>rs_files := rs_files st + 1, rs_bytes := rs_bytes st + length (blob_bytes b)\<rparr>)))"

definition render_symlink ::
  "'x ext_scheme \<Rightarrow> 'r objects_dir_scheme \<Rightarrow> tree_entry \<Rightarrow> (render_state, fs_error, unit) eff" where
  "render_symlink X s e =
     bindE (liftE (load_blob X (te_target e) s)) (\<lambda>b.
       if valid_utf8 (bytes_str (blob_bytes b)) then make_symlink (te_name e) (bytes_str (blob_bytes b))
       else throwE (FCore (CDecode SymlinkNotUtf8)))"

definition load_sealed :: "'x ext_scheme \<Rightarrow> hash \<Rightarrow> 'r objects_dir_scheme \<Rightarrow> fs_error + sealed" where
  "load_sealed X h s =
     and_then (map_err FStore (obj_get X h s)) (\<lambda>raw. map_err FCore (decode_sealed X raw))"

definition render_sealed ::
  "'x ext_scheme \<Rightarrow> 'r objects_dir_scheme \<Rightarrow> materialize_options \<Rightarrow> string \<Rightarrow> tree_entry \<Rightarrow>
     (render_state, fs_error, unit) eff" where
  "render_sealed X s opts entry_path e =
     (case mo_unsealer opts of
        None \<Rightarrow> throwE (FUnsupportedKind entry_path sealed_no_identity)
      | Some unsealer \<Rightarrow>
          bindE (liftE (load_sealed X (te_target e) s)) (\<lambda>sl.
            case unsealer sl (str_bytes entry_path) of
              Inr plaintext \<Rightarrow>
                bindE (write_file (te_name e) plaintext (is_executable (te_mode e))) (\<lambda>_.
                  count (\<lambda>st. st\<lparr>rs_sealed_unsealed := rs_sealed_unsealed st + 1,
                                rs_bytes := rs_bytes st + length plaintext\<rparr>))
            | Inl reason \<Rightarrow>
                (case mo_on_unsealable opts of
                   OnError \<Rightarrow>
                     throwE (FUnsupportedKind entry_path (''sealed (decrypt failed: '' @ reason @ '')''))
                 | OnSkip \<Rightarrow> count (\<lambda>st. st\<lparr>rs_sealed_skipped := rs_sealed_skipped st + 1\<rparr>))))"

text \<open>
  The recursion follows hashes, so it carries fuel; running out stands for exhausting the
  stack, which the bound used below excludes for every tree that shows something.
\<close>

fun render_tree ::
  "'x ext_scheme \<Rightarrow> 'r objects_dir_scheme \<Rightarrow> materialize_options \<Rightarrow> nat \<Rightarrow> string \<Rightarrow> string \<Rightarrow> hash \<Rightarrow>
     (render_state, fs_error, unit) eff" where
  "render_tree X s opts 0 dst pfx h = throwE FCrash"
| "render_tree X s opts (Suc fuel) dst pfx h =
     bindE (liftE (load_tree X h s)) (\<lambda>t.
       forE (\<lambda>e.
         let entry_path = child_path pfx (te_name e) in
         case te_kind e of
           EFile \<Rightarrow> render_file X s e
         | ETree \<Rightarrow>
             in_new_dir (te_name e)
               (render_tree X s opts fuel (join_path dst (te_name e)) entry_path (te_target e))
         | ESymlink \<Rightarrow> render_symlink X s e
         | ESealed \<Rightarrow> render_sealed X s opts entry_path e
         | k \<Rightarrow> throwE (FUnsupportedKind (join_path dst (te_name e))
                  (show_entry_kind k @ '' (milestone 1 cannot materialize this kind)'')))
       (entries t))"

text \<open>One more level than there are stored objects.\<close>

definition tree_fuel :: "'r objects_dir_scheme \<Rightarrow> nat" where
  "tree_fuel s = Suc (length (ofiles s))"

definition render_tree_into ::
  "'x ext_scheme \<Rightarrow> 'r objects_dir_scheme \<Rightarrow> materialize_options \<Rightarrow> string \<Rightarrow> hash \<Rightarrow>
     ((string \<times> wnode) list, fs_error, render_stats) eff" where
  "render_tree_into X s opts dst h ch =
     (case render_tree X s opts (tree_fuel s) dst [] h (ch, stats_zero) of
        (Inl e, (ch', _)) \<Rightarrow> (Inl e, ch')
      | (Inr _, (ch', stats)) \<Rightarrow> (Inr stats, ch'))"

datatype materialize_outcome = Cloned string | Rendered render_stats

definition materialize_change_into ::
  "'x ext_scheme \<Rightarrow> 'r objects_dir_scheme \<Rightarrow> materialize_options \<Rightarrow> string \<Rightarrow> hash \<Rightarrow>
     (wnode option, fs_error, materialize_outcome) eff" where
  "materialize_change_into X s opts dst snap w =
     (case w of
        Some _ \<Rightarrow> (Inl FIo, w)
      | None \<Rightarrow>
          (case load_snapshot X snap s of
             Inl e \<Rightarrow> (Inl e, Some (WDir []))
           | Inr sn \<Rightarrow>
               (case render_tree_into X s opts dst (sn_tree sn) [] of
                  (Inl e, ch) \<Rightarrow> (Inl e, Some (WDir ch))
                | (Inr stats, ch) \<Rightarrow> (Inr (Rendered stats), Some (WDir ch)))))"

definition is_workspace_internal :: "string \<Rightarrow> bool" where
  "is_workspace_internal name \<longleftrightarrow>
     name = ''.tig'' \<or> name = ''.tig-worktrees'' \<or> name = ''.tig-workspace''"

text \<open>
  The clone path: the donor's top-level entries, one engine call each. A destination name is
  the lossy text of the donor's name.
\<close>

definition materialize_from_workspace ::
  "clone_engine \<Rightarrow> (string \<times> wnode) list option \<Rightarrow> (wnode option, fs_error, materialize_outcome) eff" where
  "materialize_from_workspace engine donor w =
     (case w of
        Some _ \<Rightarrow> (Inl FIo, w)
      | None \<Rightarrow>
          (case donor of
             None \<Rightarrow> (Inl FIo, Some (WDir []))
           | Some src \<Rightarrow>
               (case foldE (\<lambda>_ c ch.
                        if is_workspace_internal (lossy (fst c)) then (Inr (), ch)
                        else case ce_clone engine (snd c) (map_of ch (lossy (fst c)) \<noteq> None) of
                               Inl e \<Rightarrow> (Inl FIo, ch)
                             | Inr v \<Rightarrow> (Inr (), AList.update (lossy (fst c)) v ch)) () src [] of
                  (Inl e, ch) \<Rightarrow> (Inl e, Some (WDir ch))
                | (Inr _, ch) \<Rightarrow> (Inr (Cloned (ce_name engine)), Some (WDir ch)))))"

section \<open>Sealed paths\<close>

fun walk_for_sealed ::
  "'x ext_scheme \<Rightarrow> 'r objects_dir_scheme \<Rightarrow> nat \<Rightarrow> string \<Rightarrow> hash \<Rightarrow> fs_error + string list" where
  "walk_for_sealed X s 0 pfx h = Inl FCrash"
| "walk_for_sealed X s (Suc fuel) pfx h =
     and_then (load_tree X h s) (\<lambda>t.
       and_then
         (traverse (\<lambda>e.
            let path = child_path pfx (te_name e) in
            case te_kind e of
              ESealed \<Rightarrow> Inr [path]
            | ETree \<Rightarrow> walk_for_sealed X s fuel path (te_target e)
            | _ \<Rightarrow> Inr [])
          (entries t))
         (\<lambda>ps. Inr (concat ps)))"

definition collect_sealed_paths ::
  "'x ext_scheme \<Rightarrow> hash \<Rightarrow> 'r objects_dir_scheme \<Rightarrow> fs_error + string list" where
  "collect_sealed_paths X h s = walk_for_sealed X s (tree_fuel s) [] h"

section \<open>Restoring\<close>

record restore_options =
  ro_force :: bool
  ro_materialize :: materialize_options

record restore_outcome =
  rt_tree :: hash
  rt_render :: render_stats
  rt_top_level_removed :: nat

definition clear_workdir :: "(string \<times> wnode) list \<Rightarrow> (string \<times> wnode) list \<times> nat" where
  "clear_workdir ch =
     (let kept = filter (\<lambda>c. is_workspace_internal (lossy (fst c))) ch
      in (kept, length ch - length kept))"

text \<open>The state: the repository's objects (the dirty check scans into it) and the workdir.\<close>

definition restore_tree_into ::
  "'x ext_scheme \<Rightarrow> restore_options \<Rightarrow> string \<Rightarrow> hash \<Rightarrow> hash \<Rightarrow>
     ('r objects_dir_scheme \<times> (string \<times> wnode) list, fs_error, restore_outcome) eff" where
  "restore_tree_into X opts dir target_snapshot current_snapshot =
     bindE (readE (\<lambda>(s, ch). load_snapshot X target_snapshot s)) (\<lambda>target.
       bindE (readE (\<lambda>(s, ch).
                if mo_unsealer (ro_materialize opts) \<noteq> None then Inr ()
                else and_then (collect_sealed_paths X (sn_tree target) s)
                       (\<lambda>ps. if ps = [] then Inr () else Inl (FCore (CDecode (RefuseSealed ps)))))) (\<lambda>_.
         bindE (if ro_force opts then retE ()
                else (\<lambda>(s, ch).
                  case scan X scan_options_default dir (Some (WDir ch)) s of
                    (Inl e, s') \<Rightarrow> (Inl e, (s', ch))
                  | (Inr workdir_tree, s') \<Rightarrow>
                      (and_then (load_snapshot X current_snapshot s') (\<lambda>current.
                         if workdir_tree \<noteq> sn_tree current then Inl (FCore (CDecode DirtyWorkdir))
                         else Inr ()), (s', ch)))) (\<lambda>_.
           (\<lambda>(s, ch).
              case clear_workdir ch of
                (kept, removed) \<Rightarrow>
                  (case render_tree_into X s (ro_materialize opts) dir (sn_tree target) kept of
                     (Inl e, ch') \<Rightarrow> (Inl e, (s, ch'))
                   | (Inr stats, ch') \<Rightarrow>
                       (Inr \<lparr>rt_tree = sn_tree target, rt_render = stats,
                             rt_top_level_removed = removed\<rparr>, (s, ch')))))))"

end
