(* ===== verification/Materialize_Props.thy ===== *)
theory Materialize_Props
  imports Materialize
begin

text \<open>
  Rendering is the inverse of scanning: a tree that shows a directory renders to that
  directory, the recursion never runs out of stack on it, and scanning the result gives the
  hash back.
\<close>

section \<open>Copies are faithful\<close>

fun plain :: "wnode \<Rightarrow> bool" where
  "plain (WDir ch) \<longleftrightarrow> (\<forall>c \<in> set ch. plain (snd c))"
| "plain (WSpecial k) \<longleftrightarrow> False"
| "plain _ \<longleftrightarrow> True"

lemma copy_recursive_plain: "plain v \<Longrightarrow> copy_recursive v = Inr v"
proof (induction v rule: copy_recursive.induct)
  case (1 ch)
  then have "traverse (\<lambda>c. case copy_recursive (snd c) of Inl e \<Rightarrow> Inl e | Inr v \<Rightarrow> Inr (fst c, v)) ch = Inr (map id ch)"
    by (intro traverse_map_Inr) simp
  then show ?case by simp
qed simp_all

lemma traverse_Inl: "x \<in> set xs \<Longrightarrow> f x = Inl e \<Longrightarrow> \<exists>e'. traverse f xs = Inl e'"
  by (induction xs) (auto split: sum.splits)

lemma copy_recursive_not_plain: "\<not> plain v \<Longrightarrow> \<exists>e. copy_recursive v = Inl e"
proof (induction v rule: copy_recursive.induct)
  case (1 ch)
  then obtain c where c: "c \<in> set ch" "\<not> plain (snd c)" by auto
  from "1.IH" [OF c] obtain e where e: "copy_recursive (snd c) = Inl e" by blast
  obtain e' where "traverse (\<lambda>c. case copy_recursive (snd c) of Inl e \<Rightarrow> Inl e | Inr v \<Rightarrow> Inr (fst c, v)) ch = Inl e'"
    using traverse_Inl [OF c(1), of "\<lambda>c. case copy_recursive (snd c) of Inl e \<Rightarrow> Inl e | Inr v \<Rightarrow> Inr (fst c, v)" e] e
    by auto
  then show ?case by (subst copy_recursive.simps) simp
qed auto

lemma copy_recursive_Inr: "copy_recursive v = Inr w \<longleftrightarrow> w = v \<and> plain v"
proof (cases "plain v")
  case True
  then show ?thesis by (auto simp: copy_recursive_plain)
next
  case False
  then obtain e where "copy_recursive v = Inl e" using copy_recursive_not_plain by blast
  with False show ?thesis by simp
qed

lemma list_all2_in1: "list_all2 P xs ys \<Longrightarrow> x \<in> set xs \<Longrightarrow> \<exists>y \<in> set ys. P x y"
  by (induction rule: list_all2_induct) auto

lemma list_all2_in2: "list_all2 P xs ys \<Longrightarrow> y \<in> set ys \<Longrightarrow> \<exists>x \<in> set xs. P x y"
  by (induction rule: list_all2_induct) auto

section \<open>What a tree shows is unique\<close>

lemma list_all2_unique:
  "list_all2 P es xs \<Longrightarrow> list_all2 P es ys \<Longrightarrow> (\<And>e x y. e \<in> set es \<Longrightarrow> x \<in> set xs \<Longrightarrow> P e x \<Longrightarrow> P e y \<Longrightarrow> x = y) \<Longrightarrow> xs = ys"
  by (induction arbitrary: ys rule: list_all2_induct) (auto simp: list_all2_Cons1)

lemma entry_shows_unique: "entry_shows X s e v \<Longrightarrow> entry_shows X s e w \<Longrightarrow> v = w"
proof (induction v arbitrary: e w)
  case (WDir ch)
  obtain t where t: "te_kind e = ETree" "load_tree X (te_target e) s = Inr t"
      "list_all2 (\<lambda>e c. te_name e = fst c \<and> entry_shows X s e (snd c)) (entries t) ch"
    using WDir.prems(1) by (auto split: sum.splits)
  with WDir.prems(2) obtain ch' where w: "w = WDir ch'"
      "list_all2 (\<lambda>e c. te_name e = fst c \<and> entry_shows X s e (snd c)) (entries t) ch'"
    by (cases w) auto
  have "ch = ch'"
  proof (rule list_all2_unique [OF t(3) w(2)])
    fix e' x y assume "x \<in> set ch" "te_name e' = fst x \<and> entry_shows X s e' (snd x)"
      "te_name e' = fst y \<and> entry_shows X s e' (snd y)"
    then show "x = y" using WDir.IH [of x "snd x" e' "snd y"] by (auto simp: prod_eq_iff snds.simps)
  qed
  with w show ?case by simp
next
  case (WFile data exec)
  then show ?case by (cases w) (auto split: sum.splits)
next
  case (WLink target)
  then show ?case by (cases w) (auto split: sum.splits)
qed simp

lemma tree_shows_unique: "tree_shows X s h ch \<Longrightarrow> tree_shows X s h ch' \<Longrightarrow> ch = ch'"
proof -
  let ?e = "entry_for [] ETree mode_dir h"
  assume "tree_shows X s h ch" "tree_shows X s h ch'"
  then have "entry_shows X s ?e (WDir ch)" "entry_shows X s ?e (WDir ch')"
    by (simp_all only: entry_shows_dir) (simp_all add: entry_for_def)
  then show "ch = ch'" using entry_shows_unique by blast
qed

section \<open>The fuel is enough\<close>

fun depth :: "wnode \<Rightarrow> nat" where
  "depth (WDir ch) = Suc (fold (\<lambda>c d. max (depth (snd c)) d) ch 0)"
| "depth _ = 0"

lemma depth_dir_le: "depth (WDir ch) \<le> Suc n \<longleftrightarrow> (\<forall>c \<in> set ch. depth (snd c) \<le> n)"
proof -
  have "fold (\<lambda>c d. max (depth (snd c)) d) ch m \<le> n \<longleftrightarrow> m \<le> n \<and> (\<forall>c \<in> set ch. depth (snd c) \<le> n)" for m
    by (induction ch arbitrary: m) auto
  then show ?thesis by simp
qed

text \<open>The directories below a tree hash, the hash itself included.\<close>

inductive below :: "'x ext_scheme \<Rightarrow> 'r objects_dir_scheme \<Rightarrow> hash \<Rightarrow> hash \<Rightarrow> bool" for X s where
  refl: "below X s h h"
| step: "load_tree X h s = Inr t \<Longrightarrow> e \<in> set (entries t) \<Longrightarrow> te_kind e = ETree \<Longrightarrow>
     below X s (te_target e) k \<Longrightarrow> below X s h k"

lemma below_shows:
  "below X s h k \<Longrightarrow> tree_shows X s h ch \<Longrightarrow>
   \<exists>ch'. tree_shows X s k ch' \<and> size (WDir ch') \<le> size (WDir ch)"
proof (induction arbitrary: ch rule: below.induct)
  case (step h t e k)
  have "list_all2 (\<lambda>e c. te_name e = fst c \<and> entry_shows X s e (snd c)) (entries t) ch"
    using step.prems step.hyps(1) by (simp add: tree_shows_def)
  from list_all2_in1 [OF this step.hyps(2)] obtain c where c: "c \<in> set ch" "entry_shows X s e (snd c)"
    by blast
  with step.hyps(3) obtain ch1 where ch1: "snd c = WDir ch1" "tree_shows X s (te_target e) ch1"
    by (cases "snd c") (auto simp: entry_shows_dir simp del: entry_shows.simps(4))
  obtain ch' where ch': "tree_shows X s k ch'" "size (WDir ch') \<le> size (WDir ch1)"
    using step.IH [OF ch1(2)] by blast
  have "(fst c, WDir ch1) \<in> set ch" using c(1) ch1(1) by (metis prod.collapse)
  then have "size (WDir ch1) \<le> size (WDir ch)" using wdir_child_size by fastforce
  with ch' show ?case by (meson order.trans)
qed auto

lemma below_stored: "below X s h k \<Longrightarrow> tree_shows X s h ch \<Longrightarrow> obj_has X k s"
  using below_shows [of X s h k ch]
  by (auto simp: tree_shows_def load_tree_def and_then_Inr_iff obj_has_def obj_get_Inr_iff)

lemma stored_finite:
  assumes "hex_laws X"
  shows "card {h. obj_has X h s} \<le> length (ofiles s)"
proof -
  have "path_for X ` {h. obj_has X h s} \<subseteq> set (map fst (ofiles s))"
    by (auto simp: obj_has_def dest: map_of_SomeD intro!: image_eqI)
  moreover have "inj_on (path_for X) {h. obj_has X h s}"
    by (rule inj_onI) (simp add: path_for_inject [OF assms])
  ultimately have "card {h. obj_has X h s} \<le> card (set (map fst (ofiles s)))"
    by (metis card_image card_mono finite_set)
  then show ?thesis by (metis card_length le_trans length_map)
qed

lemma stored_set_finite: "hex_laws X \<Longrightarrow> finite {h. obj_has X h s}"
proof -
  assume X: "hex_laws X"
  have "finite (path_for X ` {h. obj_has X h s})"
    by (rule finite_subset [of _ "set (map fst (ofiles s))"])
      (auto simp: obj_has_def dest: map_of_SomeD intro!: image_eqI)
  then show ?thesis by (rule finite_imageD) (auto intro: inj_onI simp: path_for_inject [OF X])
qed

text \<open>A tree that shows something is no deeper than there are stored objects.\<close>

lemma depth_below:
  assumes "hex_laws X"
  shows "tree_shows X s h ch \<Longrightarrow> depth (WDir ch) \<le> card {k. below X s h k}"
proof (induction "size (WDir ch)" arbitrary: h ch rule: less_induct)
  case less
  have fin: "finite {k. below X s h k}"
    by (rule finite_subset [OF _ stored_set_finite [OF assms, of s]]) (use below_stored less.prems in blast)
  have each: "depth (snd c) \<le> card {k. below X s h k} - 1" if c: "c \<in> set ch" for c
  proof (cases "snd c")
    case (WDir ch1)
    obtain t where t: "load_tree X h s = Inr t"
        "list_all2 (\<lambda>e c. te_name e = fst c \<and> entry_shows X s e (snd c)) (entries t) ch"
      using less.prems by (auto simp: tree_shows_def)
    from list_all2_in2 [OF t(2) c] obtain e where e: "load_tree X h s = Inr t" "e \<in> set (entries t)"
        "entry_shows X s e (snd c)" using t(1) by blast
    then have k: "te_kind e = ETree" "tree_shows X s (te_target e) ch1"
      using WDir by (auto simp: entry_shows_dir simp del: entry_shows.simps(4))
    have "(fst c, WDir ch1) \<in> set ch" using c WDir by (metis prod.collapse)
    then have sz: "size (WDir ch1) < size (WDir ch)" using wdir_child_size by fastforce
    have "\<not> below X s (te_target e) h"
    proof
      assume "below X s (te_target e) h"
      from below_shows [OF this k(2)] obtain ch' where "tree_shows X s h ch'" "size (WDir ch') \<le> size (WDir ch1)"
        by blast
      with tree_shows_unique [OF less.prems] sz show False by fastforce
    qed
    then have "{k. below X s (te_target e) k} \<subseteq> {k. below X s h k} - {h}"
      using below.step [OF e(1,2) k(1)] by auto
    then have "card {k. below X s (te_target e) k} \<le> card ({k. below X s h k} - {h})"
      using fin by (intro card_mono) auto
    also have "\<dots> = card {k. below X s h k} - 1"
      by (rule card_Diff_singleton) (simp add: below.refl)
    finally show ?thesis using less.hyps [OF sz k(2)] WDir by simp
  qed simp_all
  have "card {k. below X s h k} \<noteq> 0" using fin below.refl by auto
  then obtain n where "card {k. below X s h k} = Suc n" by (cases "card {k. below X s h k}") auto
  then show ?case using each by (simp only: depth_dir_le) simp
qed

lemma depth_fuel:
  assumes "hex_laws X" and "tree_shows X s h ch"
  shows "depth (WDir ch) < tree_fuel s"
proof -
  have "{k. below X s h k} \<subseteq> {k. obj_has X k s}" using below_stored assms(2) by blast
  then have "card {k. below X s h k} \<le> length (ofiles s)"
    by (rule order.trans [OF card_mono [OF stored_set_finite [OF assms(1)]] stored_finite [OF assms(1)]])
  with depth_below [OF assms] show ?thesis by (simp add: tree_fuel_def)
qed

section \<open>Rendering writes what the tree shows\<close>

fun nfiles :: "wnode \<Rightarrow> nat" where
  "nfiles (WDir ch) = sum_list (map (\<lambda>c. nfiles (snd c)) ch)"
| "nfiles (WFile data exec) = 1"
| "nfiles _ = 0"

fun nbytes :: "wnode \<Rightarrow> nat" where
  "nbytes (WDir ch) = sum_list (map (\<lambda>c. nbytes (snd c)) ch)"
| "nbytes (WFile data exec) = length data"
| "nbytes _ = 0"

definition tally :: "wnode \<Rightarrow> render_stats \<Rightarrow> render_stats" where
  "tally v st = st\<lparr>rs_files := rs_files st + nfiles v, rs_bytes := rs_bytes st + nbytes v\<rparr>"

lemma tally_dir: "tally (WDir (c # ch)) st = tally (WDir ch) (tally (snd c) st)"
  by (simp add: tally_def)

lemma tally_empty [simp]: "tally (WDir []) st = st" "tally (WLink t) st = st"
  by (simp_all add: tally_def)

text \<open>One round of the render loop.\<close>

definition render_step ::
  "'x ext_scheme \<Rightarrow> 'r objects_dir_scheme \<Rightarrow> materialize_options \<Rightarrow> nat \<Rightarrow> string \<Rightarrow> string \<Rightarrow> tree_entry \<Rightarrow>
     (render_state, fs_error, unit) eff" where
  "render_step X s opts fuel dst pfx e =
     (let entry_path = child_path pfx (te_name e) in
         case te_kind e of
           EFile \<Rightarrow> render_file X s e
         | ETree \<Rightarrow>
             in_new_dir (te_name e)
               (render_tree X s opts fuel (join_path dst (te_name e)) entry_path (te_target e))
         | ESymlink \<Rightarrow> render_symlink X s e
         | ESealed \<Rightarrow> render_sealed X s opts entry_path e
         | k \<Rightarrow> throwE (FUnsupportedKind (join_path dst (te_name e))
                  (show_entry_kind k @ '' (milestone 1 cannot materialize this kind)'')))"

lemma render_tree_step:
  "render_tree X s opts (Suc fuel) dst pfx h =
     bindE (liftE (load_tree X h s)) (\<lambda>t. forE (render_step X s opts fuel dst pfx) (entries t))"
  unfolding render_step_def [abs_def] by (rule render_tree.simps(2))

lemma render_loop:
  assumes "list_all2 (\<lambda>e c. te_name e = fst c \<and>
      (\<forall>d st. te_name e \<notin> fst ` set d \<longrightarrow>
         body e (d, st) = (Inr (), (d @ [(te_name e, snd c)], tally (snd c) st)))) es ch"
    and "distinct (map fst ch)" and "fst ` set d \<inter> fst ` set ch = {}"
  shows "forE body es (d, st) = (Inr (), (d @ ch, tally (WDir ch) st))"
  using assms
proof (induction es arbitrary: ch d st)
  case (Cons e es)
  then obtain c ch' where ch: "ch = c # ch'" by (auto simp: list_all2_Cons1)
  with Cons.prems(1) have e: "te_name e = fst c"
      "\<And>d st. te_name e \<notin> fst ` set d \<Longrightarrow> body e (d, st) = (Inr (), (d @ [(te_name e, snd c)], tally (snd c) st))"
    and rest: "list_all2 (\<lambda>e c. te_name e = fst c \<and>
      (\<forall>d st. te_name e \<notin> fst ` set d \<longrightarrow>
         body e (d, st) = (Inr (), (d @ [(te_name e, snd c)], tally (snd c) st)))) es ch'"
    by auto
  have "body e (d, st) = (Inr (), (d @ [c], tally (snd c) st))"
  proof -
    have "fst c \<notin> fst ` set d" using Cons.prems(3) ch by auto
    with e(2) [of d st] e(1) show ?thesis by simp
  qed
  moreover have "forE body es (d @ [c], tally (snd c) st)
      = (Inr (), ((d @ [c]) @ ch', tally (WDir ch') (tally (snd c) st)))"
    by (rule Cons.IH [OF rest]) (use Cons.prems(2,3) ch in auto)
  ultimately show ?case by (simp add: ch tally_dir)
qed simp

lemma tree_shows_distinct:
  assumes "store_ok X s" and "tree_shows X s h ch"
  shows "distinct (map fst ch)"
proof -
  obtain t where t: "load_tree X h s = Inr t"
      "list_all2 (\<lambda>e c. te_name e = fst c \<and> entry_shows X s e (snd c)) (entries t) ch"
    using assms(2) by (auto simp: tree_shows_def)
  have "map te_name (entries t) = map fst ch"
    using t(2) by (induction rule: list_all2_induct) auto
  moreover have "tree_wf t" using load_tree_wf [OF assms(1) t(1)] .
  ultimately show ?thesis using sorted_names_distinct by (metis names_ok_def tree_wf_def)
qed

lemma fresh_map_of: "n \<notin> fst ` set d \<Longrightarrow> map_of d n = None"
  by (simp add: map_of_eq_None_iff)

lemma render_tree_shows:
  "store_ok X s \<Longrightarrow> tree_shows X s h ch \<Longrightarrow> depth (WDir ch) \<le> fuel \<Longrightarrow> fst ` set d \<inter> fst ` set ch = {} \<Longrightarrow>
   render_tree X s opts fuel dst pfx h (d, st) = (Inr (), (d @ ch, tally (WDir ch) st))"
proof (induction fuel arbitrary: h ch d st dst pfx)
  case (Suc fuel)
  obtain t where t: "load_tree X h s = Inr t"
      "list_all2 (\<lambda>e c. te_name e = fst c \<and> entry_shows X s e (snd c)) (entries t) ch"
    using Suc.prems(2) by (auto simp: tree_shows_def)
  have each: "render_step X s opts fuel dst pfx e (d, st) = (Inr (), (d @ [(te_name e, snd c)], tally (snd c) st))"
    if sh: "entry_shows X s e (snd c)" and c: "c \<in> set ch" and fr: "te_name e \<notin> fst ` set d" for e c d st
  proof (cases "snd c")
    case (WFile data exec)
    with sh fr show ?thesis
      by (simp add: render_step_def render_file_def eff_simps write_file_def count_def fresh_map_of tally_def)
  next
    case (WLink target)
    with sh fr show ?thesis
      by (simp add: render_step_def render_symlink_def eff_simps make_symlink_def fresh_map_of)
  next
    case (WDir ch1)
    then have k: "te_kind e = ETree" "tree_shows X s (te_target e) ch1"
      using sh by (simp_all add: entry_shows_dir del: entry_shows.simps(4))
    have d1: "depth (WDir ch1) \<le> fuel"
      using Suc.prems(3) c WDir by (metis depth_dir_le)
    have "render_tree X s opts fuel (join_path dst (te_name e)) (child_path pfx (te_name e)) (te_target e) ([], st)
        = (Inr (), ([] @ ch1, tally (WDir ch1) st))"
      by (rule Suc.IH [OF Suc.prems(1) k(2) d1]) simp
    with k fr WDir show ?thesis by (simp add: render_step_def in_new_dir_def fresh_map_of)
  next
    case (WSpecial x)
    with sh show ?thesis by simp
  qed
  have "list_all2 (\<lambda>e c. te_name e = fst c \<and>
      (\<forall>d st. te_name e \<notin> fst ` set d \<longrightarrow>
         render_step X s opts fuel dst pfx e (d, st) = (Inr (), (d @ [(te_name e, snd c)], tally (snd c) st)))) (entries t) ch"
    by (rule list.rel_mono_strong [OF t(2)]) (use each in blast)
  from render_loop [OF this tree_shows_distinct [OF Suc.prems(1,2)] Suc.prems(4)] t(1)
  show ?case by (simp only: render_tree_step bindE_def liftE_def) simp
qed simp

lemma render_tree_into_shows:
  assumes "store_ok X s" and "tree_shows X s h ch" and "fst ` set d \<inter> fst ` set ch = {}"
  shows "render_tree_into X s opts dst h d = (Inr (tally (WDir ch) stats_zero), d @ ch)"
  using render_tree_shows [OF assms(1,2) _ assms(3), of "tree_fuel s" opts dst "[]" stats_zero]
    depth_fuel [OF store_okD(1) [OF assms(1)] assms(2)]
  by (simp add: render_tree_into_def)

section \<open>A plain tree has no sealed paths\<close>

lemma walk_for_sealed_shows:
  "tree_shows X s h ch \<Longrightarrow> depth (WDir ch) \<le> fuel \<Longrightarrow> walk_for_sealed X s fuel pfx h = Inr []"
proof (induction fuel arbitrary: h ch pfx)
  case (Suc fuel)
  obtain t where t: "load_tree X h s = Inr t"
      "list_all2 (\<lambda>e c. te_name e = fst c \<and> entry_shows X s e (snd c)) (entries t) ch"
    using Suc.prems(1) by (auto simp: tree_shows_def)
  have "traverse (\<lambda>e. let path = child_path pfx (te_name e) in
            case te_kind e of ESealed \<Rightarrow> Inr [path] | ETree \<Rightarrow> walk_for_sealed X s fuel path (te_target e) | _ \<Rightarrow> Inr [])
          (entries t) = Inr (map (\<lambda>e. []) (entries t))"
  proof (rule traverse_map_Inr)
    fix e assume "e \<in> set (entries t)"
    from list_all2_in1 [OF t(2) this] obtain c where c: "c \<in> set ch" "entry_shows X s e (snd c)" by blast
    show "(let path = child_path pfx (te_name e) in
            case te_kind e of ESealed \<Rightarrow> Inr [path] | ETree \<Rightarrow> walk_for_sealed X s fuel path (te_target e) | _ \<Rightarrow> Inr [])
          = Inr []"
    proof (cases "snd c")
      case (WDir ch1)
      then have k: "te_kind e = ETree" "tree_shows X s (te_target e) ch1"
        using c(2) by (simp_all add: entry_shows_dir del: entry_shows.simps(4))
      have "depth (WDir ch1) \<le> fuel" using Suc.prems(2) c(1) WDir by (metis depth_dir_le)
      from Suc.IH [OF k(2) this] k(1) show ?thesis by simp
    qed (use c(2) in simp_all)
  qed
  then show ?case by (simp add: t(1) concat_replicate_trivial map_replicate_const)
qed simp

lemma collect_sealed_shows: "hex_laws X \<Longrightarrow> tree_shows X s h ch \<Longrightarrow> collect_sealed_paths X h s = Inr []"
  using walk_for_sealed_shows [of X s h ch "tree_fuel s" "[]"] depth_fuel [of X s h ch]
  by (simp add: collect_sealed_paths_def)

end
