(* ===== verification/Frames.thy ===== *)
theory Frames
  imports Materialize_Props
begin

text \<open>
  The frame rule of the object store: whatever relation between states a single \<^verbatim>\<open>put\<close> keeps, the
  routines that reach the state only through \<^verbatim>\<open>put\<close> keep too. The relation is the parameter of a
  locale; components interpret it for what they need to know is left alone.
\<close>

locale object_frame =
  fixes R :: "'r objects_dir_scheme \<Rightarrow> 'r objects_dir_scheme \<Rightarrow> bool" and X :: "'x ext_scheme"
  assumes reflp_R: "reflp R" and transp_R: "transp R" and put: "keeps R (obj_put X raw)"
begin

lemmas steps = keeps_pure [OF reflp_R] keeps_bindE [OF transp_R] keeps_mapE

lemma store_any: "keeps R (store_raw X enc)"
  unfolding store_raw_def by (intro steps put)

lemma stores: "keeps R (store_tree X t)" "keeps R (store_blob X b)" "keeps R (store_sealed X sl)" "keeps R (store_snapshot X sn)"
 
  by (simp_all add: store_tree_def store_blob_def store_sealed_def store_snapshot_def store_any)

lemma insert_path: "keeps R (rewrite_insert X parts target kind mode h)"
proof (induction parts arbitrary: h rule: induct_list012)
  case (3 n p ps)
  show ?case unfolding rewrite_insert.simps
    by (intro steps 3) (auto intro!: steps stores 3 split: option.split)
qed (auto intro!: steps stores)

lemma remove_path: "keeps R (rewrite_remove X parts h)"
proof (induction parts arbitrary: h rule: induct_list012)
  case (3 n p ps)
  show ?case unfolding rewrite_remove.simps
    by (auto intro!: steps stores 3 split: option.split)
qed (auto intro!: steps stores)

lemma edits: "keeps R (write_blob_at_path X root path data)" "keeps R (write_sealed_at_path X root path sl)"
  "keeps R (delete_at_path X root path)"
 
  unfolding write_blob_at_path_def write_sealed_at_path_def delete_at_path_def
  by (intro steps stores insert_path remove_path)+

lemma scan_below: "keeps R (scan_dir X opts dir ch)"
proof (induction opts dir ch rule: scan_dir.induct [where P = "\<lambda>(_ :: 'x ext_scheme) opts dir ch. keeps R (scan_dir X opts dir ch)"])
  case (1 X' opts dir ch)
  show ?case
  proof (cases "scan_children opts ch")
    case (Inr cs)
    have leaf: "keeps R (build_leaf X dir n v)" for n v
      by (cases v) (auto intro!: steps stores)
    have "keeps R (case snd c of
              WDir ch' \<Rightarrow> bindE (scan_dir X opts (join_path dir (fst c)) ch') (\<lambda>h. retE (entry_for (fst c) ETree mode_dir h))
            | node \<Rightarrow> build_leaf X dir (fst c) node)" if "c \<in> set cs" for c
    proof (cases "snd c")
      case (WDir ch')
      from 1 [OF Inr that this] WDir show ?thesis by (auto intro!: steps)
    qed (simp_all add: leaf del: build_leaf.simps)
    then show ?thesis
      by (subst scan_dir.simps) (auto simp: Inr intro!: steps keeps_foldE reflp_R transp_R stores)
  qed (auto simp: scan_dir.simps intro!: steps)
qed

lemma scan_all: "keeps R (scan X opts dir w)"
  by (auto simp: scan_def intro!: steps scan_below split: option.split wnode.split)

end

end
