(* ===== verification/Snap.thy ===== *)
theory Snap
  imports Undo Gc Frames
begin

text \<open>
  \<^verbatim>\<open>tig-fs/src/snap.rs\<close>: taking a snapshot of a workspace, and of a change that has no working
  directory. Both advance the change, record the operation in the log with the references as
  they were before and after, and are undone by \<^verbatim>\<open>undo_once\<close>.
\<close>

record snap_options =
  so_author :: principal_id
  so_message :: "string option"
  so_force :: bool
  so_initial_description :: string
  so_extra_ignores :: "string list"

definition snap_options_default :: snap_options where
  "snap_options_default =
     \<lparr>so_author = principal_local ''anonymous'', so_message = None, so_force = False,
      so_initial_description = ''initial work'', so_extra_ignores = []\<rparr>"

datatype snap_outcome = Snapped hash hash change bool | Unchanged change

fun outcome_change :: "snap_outcome \<Rightarrow> change" where
  "outcome_change (Snapped _ _ c _) = c"
| "outcome_change (Unchanged c) = c"

definition placeholder_hash :: "'x ext_scheme \<Rightarrow> hash" where
  "placeholder_hash X = compute X KSnapshot (str_bytes ''tig:placeholder'')"

definition capture_workspace_ref :: "workspace_kind \<Rightarrow> 'r repo_scheme \<Rightarrow> ref_snapshot" where
  "capture_workspace_ref k r =
     (case k of
        WMain \<Rightarrow> RHead (head r)
      | WSecondary m \<Rightarrow>
          RWorkspace (ws_id m) (case ws_get (ws_id m) r of Inr v \<Rightarrow> Some v | Inl _ \<Rightarrow> None))"

text \<open>
  The two clock readings (\<open>t1\<close> for the snapshot, \<open>t2\<close> for the log) and the fresh ULID \<open>cid\<close> are
  arguments. The result carries the workspace handle's new kind.
\<close>

definition scan_opts_for :: "snap_options \<Rightarrow> scan_options" where
  "scan_opts_for opts = \<lparr>sc_ignore = sc_ignore scan_options_default @ so_extra_ignores opts\<rparr>"

definition new_snapshot :: "snap_options \<Rightarrow> u64 \<Rightarrow> hash list \<Rightarrow> hash \<Rightarrow> snapshot" where
  "new_snapshot opts t1 parents tree_h =
     \<lparr>sn_parents = parents, sn_tree = tree_h, sn_author = so_author opts, sn_timestamp_ns = t1,
      sn_message = so_message opts, sn_op_id = None\<rparr>"

text \<open>The part after the scan and the unchanged test.\<close>

definition snap_commit ::
  "'x ext_scheme \<Rightarrow> u64 \<Rightarrow> u64 \<Rightarrow> snap_options \<Rightarrow> workspace_kind \<Rightarrow> hash \<Rightarrow> change \<Rightarrow> hash list \<Rightarrow> bool \<Rightarrow>
     change option \<Rightarrow> ('r session_scheme, fs_error, snap_outcome \<times> workspace_kind) eff" where
  "snap_commit X t1 t2 opts kind tree_h c parents fresh change_before =
     bindE (readE (\<lambda>s. Inr (capture_workspace_ref kind s))) (\<lambda>ws_before.
       bindE (store_snapshot X (new_snapshot opts t1 parents tree_h)) (\<lambda>snap_hash.
         let c' = (if fresh then c\<lparr>ch_current := snap_hash, ch_history := [snap_hash]\<rparr> else advance c snap_hash) in
         bindE (mapE FStore (put_change c')) (\<lambda>_.
           bindE (if fresh then mapE FStore (set_current_change_id kind (ch_id c')) else retE kind) (\<lambda>kind'.
             bindE (readE (\<lambda>s. Inr (capture_workspace_ref kind' s))) (\<lambda>ws_after.
               bindE (mapE FStore (log_append X t2
                        \<lparr>oip_actor = so_author opts, oip_kind = OkSnap snap_hash (so_message opts),
                         oip_before = [ws_before, RChange (ch_id c) change_before],
                         oip_after = [ws_after, RChange (ch_id c') (Some c')]\<rparr>)) (\<lambda>_.
                 retE (Snapped snap_hash tree_h c' fresh, kind')))))))"

definition snap_now ::
  "'x ext_scheme \<Rightarrow> u64 \<Rightarrow> u64 \<Rightarrow> change_id \<Rightarrow> snap_options \<Rightarrow> string \<Rightarrow> wnode option \<Rightarrow> workspace_kind \<Rightarrow>
     ('r session_scheme, fs_error, snap_outcome \<times> workspace_kind) eff" where
  "snap_now X t1 t2 cid opts dir w kind =
     bindE (scan X (scan_opts_for opts) dir w) (\<lambda>tree_h.
       bindE (readE (\<lambda>s. Inr (current_change_id kind s))) (\<lambda>current.
         case current of
           Some i \<Rightarrow>
             bindE (readE (\<lambda>s. map_err FStore (get_change i s))) (\<lambda>c.
               bindE (readE (load_snapshot X (ch_current c))) (\<lambda>prev.
                 if sn_tree prev = tree_h \<and> so_message opts = None \<and> \<not> so_force opts
                 then retE (Unchanged c, kind)
                 else snap_commit X t1 t2 opts kind tree_h c [ch_current c] False (Some c)))
         | None \<Rightarrow>
             snap_commit X t1 t2 opts kind tree_h
               (change_new cid (so_initial_description opts) (so_author opts) (placeholder_hash X)) [] True None))"

definition snap_change_directly ::
  "'x ext_scheme \<Rightarrow> u64 \<Rightarrow> u64 \<Rightarrow> change_id \<Rightarrow> hash \<Rightarrow> snap_options \<Rightarrow>
     ('r session_scheme, fs_error, snap_outcome) eff" where
  "snap_change_directly X t1 t2 cid new_tree opts =
     bindE (readE (\<lambda>s. map_err FStore (get_change cid s))) (\<lambda>c.
       bindE (readE (load_snapshot X (ch_current c))) (\<lambda>prev.
         if sn_tree prev = new_tree \<and> so_message opts = None \<and> \<not> so_force opts
         then retE (Unchanged c)
         else
           bindE (store_snapshot X (new_snapshot opts t1 [ch_current c] new_tree)) (\<lambda>snap_hash.
             let c' = advance c snap_hash in
             bindE (mapE FStore (put_change c')) (\<lambda>_.
               bindE (mapE FStore (log_append X t2
                        \<lparr>oip_actor = so_author opts, oip_kind = OkSnap snap_hash (so_message opts),
                         oip_before = [RChange cid (Some c)], oip_after = [RChange cid (Some c')]\<rparr>)) (\<lambda>_.
                 retE (Snapped snap_hash new_tree c' False))))))"

section \<open>Objects, references and the log move separately\<close>

lemma obj_put_frame:
  "obj_put X raw s = (r, t) \<Longrightarrow>
   rchanges t = rchanges s \<and> rbookmarks t = rbookmarks s \<and> rhead t = rhead s
   \<and> rworkspaces t = rworkspaces s \<and> rlog t = rlog s \<and> slog t = slog s"
  for s :: "'r session_scheme"
  by (auto simp: obj_put_def Let_def split: if_splits)

text \<open>A step that touches nothing but the objects.\<close>

definition objects_only :: "'r session_scheme \<Rightarrow> 'r session_scheme \<Rightarrow> bool" where
  "objects_only s t \<longleftrightarrow>
     rchanges t = rchanges s \<and> rbookmarks t = rbookmarks s \<and> rhead t = rhead s
     \<and> rworkspaces t = rworkspaces s \<and> rlog t = rlog s \<and> slog t = slog s"

lemma objects_only_order: "reflp objects_only" "transp objects_only"
  by (auto intro!: reflpI transpI simp: objects_only_def)

interpretation objs: object_frame objects_only X for X
  by unfold_locales
    (auto intro!: reflpI transpI keepsI simp: objects_only_def obj_put_def Let_def)

lemma objects_only_refs: "objects_only s t \<Longrightarrow> refs_view t = refs_view s"
proof (rule ext)
  fix k assume "objects_only s t"
  then show "refs_view t k = refs_view s k"
    by (cases k) (simp_all add: refs_view_simps objects_only_def head_def get_change_def ws_get_def get_bookmark_def)
qed

lemma objects_only_log: "objects_only s t \<Longrightarrow> log_ok X s ops \<Longrightarrow> log_ok X t ops"
  by (auto simp: objects_only_def log_ok_def log_list_def read_all_def split: op_log.splits)

lemma objects_only_change: "objects_only s t \<Longrightarrow> get_change i t = get_change i s"
  by (simp add: objects_only_def get_change_def)

lemma store_ok_same: "ofiles t = ofiles s \<Longrightarrow> owritten t = owritten s \<Longrightarrow> store_ok X t = store_ok X s"
  for s t :: "'r objects_dir_scheme"
  by (simp add: store_ok_def objs_ok_def trees_ok_def)

lemma store_grows_same: "ofiles t = ofiles s \<Longrightarrow> owritten t = owritten s \<Longrightarrow> store_grows u t = store_grows u s"
  for s t :: "'r objects_dir_scheme"
  by (simp add: store_grows_def)

lemma store_grows_from: "ofiles t = ofiles s \<Longrightarrow> owritten t = owritten s \<Longrightarrow> store_grows t u = store_grows s u"
  for s t :: "'r objects_dir_scheme"
  by (simp add: store_grows_def)

section \<open>A snapshot is an operation of the log\<close>

text \<open>The change as it is after the snapshot \<open>h\<close>.\<close>

definition snapped_change :: "bool \<Rightarrow> change \<Rightarrow> hash \<Rightarrow> change" where
  "snapped_change fresh c h = (if fresh then c\<lparr>ch_current := h, ch_history := [h]\<rparr> else advance c h)"

text \<open>The references a snapshot sets: the change, and HEAD where the change is new.\<close>

definition snap_sets :: "bool \<Rightarrow> change \<Rightarrow> ref_snapshot list" where
  "snap_sets fresh c = RChange (ch_id c) (Some c) # (if fresh then [RHead (Some (ch_id c))] else [])"

lemma snapped_change_id [simp]: "ch_id (snapped_change fresh c h) = ch_id c"
  by (simp add: snapped_change_def advance_def)

lemma put_change_view:
  "refs_view (snd (put_change c s)) = (refs_view s)(KyChange (ch_id c) := Inr (RChange (ch_id c) (Some c)))"
  using restore_ref_view [of "RChange (ch_id c) (Some c)" s] by (auto simp: put_change_def)

lemma set_head_view:
  "trimmed i \<Longrightarrow> refs_view (snd (set_head i s)) = (refs_view s)(KyHead := Inr (RHead (Some i)))"
  using restore_ref_view [of "RHead (Some i)" s] by (auto simp: set_head_def)

lemma log_ok_same:
  "rlog t = rlog s \<Longrightarrow> slog t = slog s \<Longrightarrow> log_ok X t ops = log_ok X s ops"
  by (auto simp: log_ok_def log_list_def read_all_def split: op_log.splits)

lemma refs_only_steps:
  "ofiles (snd (put_change c s)) = ofiles s" "owritten (snd (put_change c s)) = owritten s"
  "rlog (snd (put_change c s)) = rlog s" "slog (snd (put_change c s)) = slog s"
  "ofiles (snd (set_head i s)) = ofiles s" "owritten (snd (set_head i s)) = owritten s"
  "rlog (snd (set_head i s)) = rlog s" "slog (snd (set_head i s)) = slog s"
  for s :: "'r session_scheme"
  by (simp_all add: put_change_def set_head_def)

text \<open>An append either grows the log by the record, or finds it too long and changes nothing.\<close>

lemma logged:
  assumes "cbor_laws X" and "log_ok X w ops" and "length ops + 1 < 2 ^ 63"
  shows "(\<exists>q t. log_append X now p w = (Inr q, t) \<and> log_ok X t (ops @ [q]) \<and> same_refs w t
      \<and> op_kind_of q = oip_kind p \<and> op_before q = oip_before p)
    \<or> log_append X now p w = (Inl (SCorrupt OplogRecordTooLarge), w)"
proof -
  from log_append_cases [OF assms(1), of now p w] show ?thesis
  proof
    assume "\<exists>t. log_append X now p w = (Inr (finalize (next_id_of (slog w)) now p), t)"
    then obtain q t where a: "log_append X now p w = (Inr q, t)" by blast
    note ok = log_append_ok [OF assms a]
    have "op_kind_of q = oip_kind p" "op_before q = oip_before p" using ok(1) by (simp_all add: finalize_def)
    with a ok(2) log_append_same_refs [OF a] show ?thesis by blast
  qed simp
qed

text \<open>
  The commit of a snapshot, both when the log takes the record and when it does not: the
  snapshot object is stored, exactly the change (and HEAD for a new one) moves, and the record
  in the log holds the references as they were.
\<close>

lemma snap_commit_spec:
  fixes s :: "'r session_scheme"
  assumes "store_ok X s" and "log_ok X s ops" and "length ops + 1 < 2 ^ 63"
    and fresh: "fresh \<longrightarrow> kind = WMain \<and> trimmed (ch_id c)"
  shows "\<exists>h t r. snap_commit X t1 t2 opts kind tree_h c parents fresh old s = (r, t)
    \<and> store_ok X t \<and> store_grows s t
    \<and> (\<forall>f. store_grows t f \<longrightarrow> collision_free X f \<longrightarrow>
         load_snapshot X h f = Inr (new_snapshot opts t1 parents tree_h))
    \<and> refs_view t = view_update (snap_sets fresh (snapped_change fresh c h)) (refs_view s)
    \<and> ((\<exists>q. r = Inr (Snapped h tree_h (snapped_change fresh c h) fresh, kind)
          \<and> log_ok X t (ops @ [q]) \<and> op_kind_of q = OkSnap h (so_message opts)
          \<and> op_before q = [capture_workspace_ref kind s, RChange (ch_id c) old])
       \<or> r = Inl (FStore (SCorrupt OplogRecordTooLarge)) \<and> log_ok X t ops)"
proof -
  obtain h u where u: "store_snapshot X (new_snapshot opts t1 parents tree_h) s = (Inr h, u)"
      "store_ok X u" "store_grows s u"
      "\<forall>f. store_grows u f \<longrightarrow> collision_free X f \<longrightarrow> load_snapshot X h f = Inr (new_snapshot opts t1 parents tree_h)"
    using store_snapshot_at [OF assms(1)] by blast
  have oo: "objects_only s u"
    using u(1) keepsD [OF objs.store_any] by (simp add: store_snapshot_def)
  let ?c = "snapped_change fresh c h"
  let ?v = "snd (put_change ?c u)"
  define w where "w = (if fresh then snd (set_head (ch_id ?c) ?v) else ?v)"
  have w: "ofiles w = ofiles u" "owritten w = owritten u" "rlog w = rlog u" "slog w = slog u"
    by (simp_all add: w_def refs_only_steps)
  have vw: "refs_view w = view_update (snap_sets fresh ?c) (refs_view s)"
    using fresh by (simp add: w_def put_change_view set_head_view objects_only_refs [OF oo] snap_sets_def)
  have lw: "log_ok X w ops" using log_ok_same [of w u X ops] objects_only_log [OF oo assms(2)] w by simp
  define p where "p = \<lparr>oip_actor = so_author opts, oip_kind = OkSnap h (so_message opts),
      oip_before = [capture_workspace_ref kind s, RChange (ch_id c) old],
      oip_after = [capture_workspace_ref kind w, RChange (ch_id ?c) (Some ?c)]\<rparr>"
  have eq: "snap_commit X t1 t2 opts kind tree_h c parents fresh old s =
      (case log_append X t2 p w of (Inl e, t) \<Rightarrow> (Inl (FStore e), t)
       | (Inr q, t) \<Rightarrow> (Inr (Snapped h tree_h ?c fresh, kind), t))"
    using fresh u(1)
    by (auto simp: snap_commit_def eff_simps Let_def snapped_change_def [symmetric] put_change_def
        set_current_change_id_def set_head_def w_def p_def split: prod.splits sum.splits)
  from logged [OF store_okD(2) [OF assms(1)] lw assms(3), of t2 p] show ?thesis
  proof
    assume "\<exists>q t. log_append X t2 p w = (Inr q, t) \<and> log_ok X t (ops @ [q]) \<and> same_refs w t
      \<and> op_kind_of q = oip_kind p \<and> op_before q = oip_before p"
    then obtain q t where a: "log_append X t2 p w = (Inr q, t)" "log_ok X t (ops @ [q])" "same_refs w t"
        "op_kind_of q = oip_kind p" "op_before q = oip_before p" by blast
    have of_eq: "ofiles t = ofiles u" "owritten t = owritten u" using a(3) w by (simp_all add: same_refs_def)
    from eq a(1) have "snap_commit X t1 t2 opts kind tree_h c parents fresh old s =
        (Inr (Snapped h tree_h ?c fresh, kind), t)" by simp
    moreover have "refs_view t = refs_view w" by (rule refs_view_same [OF a(3)])
    moreover have "\<exists>q. log_ok X t (ops @ [q]) \<and> op_kind_of q = OkSnap h (so_message opts)
        \<and> op_before q = [capture_workspace_ref kind s, RChange (ch_id c) old]"
      using a(2,4,5) by (intro exI [of _ q]) (simp add: p_def)
    ultimately show ?thesis using u vw
      by (intro exI [of _ h] exI [of _ t] exI [of _ "Inr (Snapped h tree_h ?c fresh, kind)"])
        (simp add: store_ok_same [OF of_eq] store_grows_same [OF of_eq] store_grows_from [OF of_eq])
  next
    assume "log_append X t2 p w = (Inl (SCorrupt OplogRecordTooLarge), w)"
    with eq have "snap_commit X t1 t2 opts kind tree_h c parents fresh old s =
        (Inl (FStore (SCorrupt OplogRecordTooLarge)), w)" by simp
    with u vw lw show ?thesis
      by (intro exI [of _ h] exI [of _ w] exI [of _ "Inl (FStore (SCorrupt OplogRecordTooLarge))"])
        (simp add: store_ok_same [OF w(1,2)] store_grows_same [OF w(1,2)] store_grows_from [OF w(1,2)])
  qed
qed

section \<open>Undoing what an operation recorded\<close>

lemma view_update_known:
  "(\<forall>x \<in> set xs. v (key_of_ref x) = Inr x) \<Longrightarrow>
   view_update xs u k = (if k \<in> key_of_ref ` set xs then v k else u k)"
proof (induction xs arbitrary: u)
  case (Cons x xs)
  then show ?case by (auto simp: view_update_notin)
qed simp

lemma view_update_readable: "(\<exists>y. v k = Inr y) \<Longrightarrow> \<exists>y. view_update xs v k = Inr y"
  by (induction xs arbitrary: v) auto

text \<open>
  An operation whose record captures, as they were, all references it set is taken back by
  the next undo.
\<close>

lemma undo_takes_back:
  assumes "cbor_laws X" and "log_ok X t (ops @ [q])" and "length ops + 2 < 2 ^ 63" and "\<not> is_undo q"
    and was: "\<forall>x \<in> set (op_before q). snap_wf x \<and> v (key_of_ref x) = Inr x"
    and view: "refs_view t = view_update set_refs v"
    and keys: "key_of_ref ` set set_refs \<subseteq> key_of_ref ` set (op_before q)"
  shows "\<exists>t' r. undo_once X now actor t = (r, t') \<and> refs_view t' = v
    \<and> ofiles t' = ofiles t \<and> owritten t' = owritten t
    \<and> ((\<exists>p. r = Inr (Some \<lparr>uo_undone = q, uo_recorded = p\<rparr>) \<and> log_ok X t' (ops @ [q, p])
          \<and> undo_stack (ops @ [q, p]) = undo_stack ops)
       \<or> r = Inl (SCorrupt OplogRecordTooLarge))"
proof -
  have pick: "pick_op_to_undo (ops @ [q]) = Some q" using assms(4) by (simp add: pick_is_top)
  have rd: "\<exists>y. read_current x t = Inr y" if "x \<in> set (op_before q)" for x
    using that was view_update_readable [of v "key_of_ref x" set_refs] by (auto simp: read_current_view view)
  have restored: "view_update (op_before q) (refs_view t) = v"
  proof (rule ext)
    fix k
    have "k \<notin> key_of_ref ` set (op_before q) \<Longrightarrow> view_update set_refs v k = v k"
      using keys by (intro view_update_notin) blast
    then show "view_update (op_before q) (refs_view t) k = v k"
      using view_update_known [of "op_before q" v "refs_view t" k] was by (auto simp: view)
  qed
  have len: "length (ops @ [q]) + 1 < 2 ^ 63" using assms(3) by simp
  have "\<forall>x \<in> set (op_before q). snap_wf x" "\<forall>x \<in> set (op_before q). \<exists>y. read_current x t = Inr y"
    using was rd by auto
  from undo_once_spec [OF assms(1,2) len pick this, of now actor] restored assms(4)
  show ?thesis by auto
qed

text \<open>The workspace handle is usable: its own manifest is readable and names itself.\<close>

definition handle_ok :: "workspace_kind \<Rightarrow> 'r repo_scheme \<Rightarrow> bool" where
  "handle_ok k r =
     (case k of WMain \<Rightarrow> True
      | WSecondary m \<Rightarrow> (case ws_get (ws_id m) r of Inr v \<Rightarrow> ws_id v = ws_id m | Inl _ \<Rightarrow> False))"

lemma capture_as_is:
  assumes "handle_ok k s"
  shows "snap_wf (capture_workspace_ref k s)"
    and "refs_view s (key_of_ref (capture_workspace_ref k s)) = Inr (capture_workspace_ref k s)"
  using assms head_trimmed [of s]
  by (auto simp: handle_ok_def capture_workspace_ref_def refs_view_simps split: workspace_kind.splits sum.splits option.splits)

lemma change_view:
  "get_change i s = Inr c \<Longrightarrow> refs_view s (KyChange i) = Inr (RChange i (Some c))"
  "get_change i s = Inl (SNotFound m) \<Longrightarrow> refs_view s (KyChange i) = Inr (RChange i None)"
  by (simp_all add: refs_view_simps)

section \<open>\<^verbatim>\<open>snap_now\<close>\<close>

text \<open>What the scan of a workspace leaves: the tree is stored, references and log are as before.\<close>

lemma scan_workspace:
  fixes s :: "'r session_scheme"
  assumes "store_ok X s" and "log_ok X s ops" and "scannable opts (WDir ch)"
  shows "\<exists>u. scan X opts dir (Some (WDir ch)) s = (Inr (dir_hash X (norm_children opts ch)), u)
    \<and> store_ok X u \<and> store_grows s u \<and> objects_only s u \<and> log_ok X u ops
    \<and> (\<forall>f. store_grows u f \<longrightarrow> collision_free X f \<longrightarrow>
         tree_shows X f (dir_hash X (norm_children opts ch)) (norm_children opts ch))"
proof -
  obtain u where u: "scan_dir X opts dir ch s = (Inr (dir_hash X (norm_children opts ch)), u)"
      "store_ok X u" "store_grows s u"
      "\<forall>f. store_grows u f \<longrightarrow> collision_free X f \<longrightarrow>
         tree_shows X f (dir_hash X (norm_children opts ch)) (norm_children opts ch)"
    using scan_dir_shows [OF assms(3,1)] by blast
  have "objects_only s u" by (rule keepsD [OF objs.scan_below u(1)])
  with u objects_only_log [OF this assms(2)] show ?thesis by (simp add: scan_def)
qed

text \<open>The two branches on a workspace that has a current change.\<close>

lemma snap_now_current:
  assumes "scan X (scan_opts_for opts) dir w s = (Inr th, u)" and "objects_only s u" and "store_grows s u"
    and "current_change_id kind s = Some i" and "get_change i s = Inr c"
    and "load_snapshot X (ch_current c) s = Inr prev"
  shows "snap_now X t1 t2 cid opts dir w kind s =
    (if sn_tree prev = th \<and> so_message opts = None \<and> \<not> so_force opts
     then (Inr (Unchanged c, kind), u)
     else snap_commit X t1 t2 opts kind th c [ch_current c] False (Some c) u)"
proof -
  have "current_change_id kind u = Some i" using assms(2,4)
    by (cases kind) (simp_all add: current_change_id_def objects_only_def head_def)
  moreover have "get_change i u = Inr c" using objects_only_change [OF assms(2)] assms(5) by simp
  ultimately show ?thesis using assms(1) load_mono(3) [OF assms(3,6)]
    by (simp add: snap_now_def eff_simps)
qed

lemma snap_now_first:
  assumes "scan X (scan_opts_for opts) dir w s = (Inr th, u)" and "objects_only s u"
    and "current_change_id kind s = None"
  shows "snap_now X t1 t2 cid opts dir w kind s =
    snap_commit X t1 t2 opts kind th
      (change_new cid (so_initial_description opts) (so_author opts) (placeholder_hash X)) [] True None u"
    and "kind = WMain"
proof -
  show k: "kind = WMain" using assms(3) by (cases kind) (simp_all add: current_change_id_def)
  have "current_change_id kind u = None" using assms(2,3) k
    by (simp add: current_change_id_def objects_only_def head_def)
  then show "snap_now X t1 t2 cid opts dir w kind s =
    snap_commit X t1 t2 opts kind th
      (change_new cid (so_initial_description opts) (so_author opts) (placeholder_hash X)) [] True None u"
    using assms(1) by (simp add: snap_now_def eff_simps)
qed

lemma capture_objects_only:
  "objects_only s u \<Longrightarrow> capture_workspace_ref k u = capture_workspace_ref k s"
  by (cases k) (simp_all add: capture_workspace_ref_def objects_only_def head_def ws_get_def)

lemma handle_ok_objects_only: "objects_only s u \<Longrightarrow> handle_ok k u = handle_ok k s"
  by (cases k) (simp_all add: handle_ok_def objects_only_def ws_get_def)

section \<open>The frame rule of a repository\<close>

text \<open>
  What a \<^verbatim>\<open>put\<close>, a restored reference and an append leave alone, snapshots and undo leave alone;
  with an unlinked object too, so does a collection.
\<close>

locale history_frame = object_frame R X for R :: "'r session_scheme \<Rightarrow> 'r session_scheme \<Rightarrow> bool" and X :: "'x ext_scheme" +
  assumes restore: "keeps R (restore_ref x)" and append: "keeps R (log_append X now p)" and open_op: "keeps R (log_open X)"
begin

lemma sets: "keeps R (put_change c)" "keeps R (set_head i)" "keeps R (ws_put m)" "keeps R (set_current_change_id k i)"
proof -
  show c: "keeps R (put_change c)" "keeps R (set_head i)" "keeps R (ws_put m)" for i m
    using restore [of "RChange (ch_id c) (Some c)"] restore [of "RHead (Some i)"] restore [of "RWorkspace (ws_id m) (Some m)"]
    by simp_all
  show "keeps R (set_current_change_id k i)"
    by (cases k) (auto simp: set_current_change_id_def Let_def intro!: steps c)
qed

lemma unregisters: "keeps R (ws_delete i)"
proof (rule keepsI)
  fix s :: "'r session_scheme"
  have "snd (ws_delete i s) = snd (restore_ref (RWorkspace i None) s)"
    by (auto split: prod.split sum.split store_error.split)
  then show "R s (snd (ws_delete i s))"
    using restore [of "RWorkspace i None"] by (simp add: keeps_def del: restore_ref.simps)
qed

lemma snapping: "keeps R (snap_now X t1 t2 cid opts dir w kind)" "keeps R (snap_change_directly X t1 t2 cid new_tree opts)"
  unfolding snap_now_def snap_commit_def snap_change_directly_def Let_def
  by (auto intro!: steps stores scan_all sets append split: option.split)

lemma undoing: "keeps R (undo_once X now actor)"
  unfolding undo_once_def
  by (auto intro!: steps keeps_forE reflp_R transp_R restore append split: option.split)

end

locale repository_frame = history_frame R X for R :: "'r session_scheme \<Rightarrow> 'r session_scheme \<Rightarrow> bool" and X :: "'x ext_scheme" +
  assumes unlink: "keeps R (obj_remove X h)"
begin

lemma collecting: "keeps R (collect_garbage X opts)"
  unfolding collect_garbage_def gc_sweep_def Let_def
  by (auto intro!: steps keeps_forE reflp_R transp_R unlink)

end

end
