(* ===== verification/Demo_Repo.thy ===== *)
theory Demo_Repo
  imports Snap Core_Theorems
begin

text \<open>
  A freshly initialised repository on the concrete packages of the theory Demo, and the facts
  that let properties be applied to it and to the states the operations lead to from it.
\<close>

definition demo_repo :: session where
  "demo_repo = \<lparr>ofiles = [], owritten = [], rchanges = [], rbookmarks = [], rhead = None,
     rworkspaces = [], rlog = Some [], slog = FileLog 0\<rparr>"

lemma demo_repo_fields [simp]:
  "ofiles demo_repo = []" "owritten demo_repo = []" "rchanges demo_repo = []" "rbookmarks demo_repo = []"
  "rhead demo_repo = None" "rworkspaces demo_repo = []" "rlog demo_repo = Some []" "slog demo_repo = FileLog 0"
  by (simp_all add: demo_repo_def)

text \<open>It is what \<^verbatim>\<open>Repo::init\<close> followed by \<^verbatim>\<open>OpLog::open\<close> leaves.\<close>

lemma demo_repo_opened:
  "log_open demo (repo.extend repo_new (session.fields (InMemory 0 []))) = (Inr (), demo_repo)"
  by (simp add: log_open_def compute_next_id_def read_all_def repo_new_def repo.defs session.defs demo_repo_def Let_def)

lemma demo_store_ok: "store_ok demo demo_repo"
  by (simp add: store_ok_def demo_hex demo_cbor objs_ok_def trees_ok_def)

lemma demo_log_ok: "log_ok demo demo_repo []"
  by (simp add: log_ok_def log_list_def read_all_def numbered_def)

lemma collision_free_distinct: "distinct (map (raw_hash X) (remdups (owritten r))) \<Longrightarrow> collision_free X r"
  by (simp add: collision_free_def distinct_map)

lemma obj_put_store_ok:
  "store_ok X s \<Longrightarrow> (case decode_tree X raw of Inr t \<Rightarrow> tree_wf t | Inl _ \<Rightarrow> True) \<Longrightarrow> store_ok X (snd (obj_put X raw s))"
  using obj_put_ok [of X s raw] by (auto simp: store_ok_def trees_ok_def)

text \<open>
  The typed writes on the concrete packages: each is one write of the encoded object, which
  can be evaluated on its own.
\<close>

definition tree_raw :: "tree \<Rightarrow> raw_object" where
  "tree_raw t = (case encode_tree demo t of Inr r \<Rightarrow> r | Inl _ \<Rightarrow> \<lparr>raw_kind = KTree, raw_bytes = []\<rparr>)"

definition blob_raw :: "bytes \<Rightarrow> raw_object" where
  "blob_raw b = (case encode_blob demo \<lparr>blob_bytes = b\<rparr> of Inr r \<Rightarrow> r | Inl _ \<Rightarrow> \<lparr>raw_kind = KBlob, raw_bytes = []\<rparr>)"

definition snapshot_raw :: "snapshot \<Rightarrow> raw_object" where
  "snapshot_raw sn = (case encode_snapshot demo sn of Inr r \<Rightarrow> r | Inl _ \<Rightarrow> \<lparr>raw_kind = KSnapshot, raw_bytes = []\<rparr>)"

lemma encode_raw:
  "encode_tree demo t = Inr (tree_raw t)" "encode_blob demo \<lparr>blob_bytes = b\<rparr> = Inr (blob_raw b)"
  "encode_snapshot demo sn = Inr (snapshot_raw sn)"
  using tree_codec.encode_total [OF demo_cbor, of t] blob_codec.encode_total [OF demo_cbor, of "\<lparr>blob_bytes = b\<rparr>"]
    snapshot_codec.encode_total [OF demo_cbor, of sn]
  by (auto simp: tree_raw_def blob_raw_def snapshot_raw_def encode_tree_def encode_blob_def encode_snapshot_def)

lemma decode_raw [simp]:
  "decode_tree demo (tree_raw t) = Inr t" "decode_blob demo (blob_raw b) = Inr \<lparr>blob_bytes = b\<rparr>"
  "decode_snapshot demo (snapshot_raw sn) = Inr sn"
  using tree_codec.decode_encode [OF demo_cbor encode_raw(1) [unfolded encode_tree_def]]
    blob_codec.decode_encode [OF demo_cbor encode_raw(2) [unfolded encode_blob_def]]
    snapshot_codec.decode_encode [OF demo_cbor encode_raw(3) [unfolded encode_snapshot_def]]
  by (simp_all add: decode_tree_def decode_blob_def decode_snapshot_def)

definition put_raw :: "raw_object \<Rightarrow> 'r objects_dir_scheme \<Rightarrow> 'r objects_dir_scheme" where
  "put_raw raw s = snd (obj_put demo raw s)"

lemma store_demo:
  "store_tree demo t s = (Inr (raw_hash demo (tree_raw t)), put_raw (tree_raw t) s)"
  "store_blob demo \<lparr>blob_bytes = b\<rparr> s = (Inr (raw_hash demo (blob_raw b)), put_raw (blob_raw b) s)"
  "store_snapshot demo sn s = (Inr (raw_hash demo (snapshot_raw sn)), put_raw (snapshot_raw sn) s)"
  by (simp_all add: store_tree_def store_blob_def store_snapshot_def store_raw_def encode_raw eff_simps
      put_raw_def obj_put_fst)

lemma put_raw_written [simp]: "owritten (put_raw raw s) = owritten s @ [raw]"
  by (simp add: put_raw_def)

lemma put_raw_fields [simp]:
  fixes s :: session
  shows "rchanges (put_raw raw s) = rchanges s" "rhead (put_raw raw s) = rhead s"
    "rbookmarks (put_raw raw s) = rbookmarks s" "rworkspaces (put_raw raw s) = rworkspaces s"
    "rlog (put_raw raw s) = rlog s" "slog (put_raw raw s) = slog s"
  by (simp_all add: put_raw_def obj_put_def Let_def)

text \<open>A state made of writes, and what can be read from it.\<close>

definition puts :: "raw_object list \<Rightarrow> session" where
  "puts raws = foldl (\<lambda>s raw. put_raw raw s) demo_repo raws"

lemma put_raw_puts: "put_raw raw (puts raws) = puts (raws @ [raw])"
  by (simp add: puts_def)

lemma puts_Nil: "demo_repo = puts []"
  by (simp add: puts_def)

lemma puts_written [simp]: "owritten (puts raws) = raws"
  by (induction raws rule: rev_induct) (simp_all add: puts_def)

lemma puts_fields [simp]:
  "rchanges (puts raws) = []" "rhead (puts raws) = None" "rbookmarks (puts raws) = []"
  "rworkspaces (puts raws) = []" "rlog (puts raws) = Some []" "slog (puts raws) = FileLog 0"
  by (induction raws rule: rev_induct) (simp_all add: puts_def)

lemma puts_objs_ok: "objs_ok demo (puts raws)"
proof (induction raws rule: rev_induct)
  case (snoc raw raws)
  then show ?case using obj_put_ok by (simp add: puts_def put_raw_def)
qed (use store_okD(3) [OF demo_store_ok] in \<open>simp add: puts_def\<close>)

lemma puts_get:
  assumes "distinct (map (raw_hash demo) (remdups (raws @ more_raws)))" and "raw \<in> set raws"
  shows "obj_get demo (raw_hash demo raw) (puts (raws @ more_raws)) = Inr raw"
proof -
  obtain pre post where raws: "raws @ more_raws = pre @ raw # post"
    using assms(2) by (metis append.assoc append_Cons split_list)
  have cf: "collision_free demo (puts (raws @ more_raws))"
    by (rule collision_free_distinct) (simp add: assms(1))
  have fold: "puts (raws @ more_raws) = foldl (\<lambda>s raw. put_raw raw s) (put_raw raw (puts pre)) post"
    by (simp add: raws puts_def)
  have "store_grows t (foldl (\<lambda>s raw. put_raw raw s) t post)" for t :: session
  proof (induction post arbitrary: t)
    case (Cons r post)
    then show ?case using store_grows_trans [OF obj_put_grows [of t demo r]] by (simp add: put_raw_def)
  qed simp
  then have "store_grows (put_raw raw (puts pre)) (puts (raws @ more_raws))" by (simp add: fold)
  moreover have "obj_put demo raw (puts pre) = (Inr (raw_hash demo raw), put_raw raw (puts pre))"
    using obj_put_fst [of demo raw "puts pre"] by (simp add: put_raw_def prod_eq_iff)
  ultimately show ?thesis
    using store.put_then_get [of demo "puts pre" raw] demo_hex puts_objs_ok cf by blast
qed

lemma puts_store_ok:
  "list_all (\<lambda>raw. raw_kind raw \<noteq> KTree \<or> (\<exists>t. raw = tree_raw t \<and> tree_wf t)) raws \<Longrightarrow> store_ok demo (puts raws)"
proof -
  assume a: "list_all (\<lambda>raw. raw_kind raw \<noteq> KTree \<or> (\<exists>t. raw = tree_raw t \<and> tree_wf t)) raws"
  have "case decode_tree demo raw of Inr t \<Rightarrow> tree_wf t | Inl _ \<Rightarrow> True" if "raw \<in> set raws" for raw
    using a that decode_tree_other by (fastforce simp: list_all_iff split: sum.splits)
  then show ?thesis
    by (simp add: store_ok_def demo_hex demo_cbor puts_objs_ok trees_ok_def)
qed

lemma raw_kinds [simp]: "raw_kind (blob_raw b) = KBlob" "raw_kind (snapshot_raw sn) = KSnapshot"
  using blob_codec.encode_kind [OF encode_raw(2) [unfolded encode_blob_def]]
    snapshot_codec.encode_kind [OF encode_raw(3) [unfolded encode_snapshot_def]] by simp_all

lemma demo_small: "length ([] :: op list) + 2 < 2 ^ 63" "length ([] :: op list) + 1 < 2 ^ 63"
  by simp_all

end
