(* ===== verification/Store_Theorems.thy ===== *)
theory Store_Theorems
  imports Demo_Repo
begin

text \<open>
  The properties of \<^verbatim>\<open>tig-store\<close>: the object store, discovery of workspaces, the operation log,
  undo and garbage collection, each with an instance on a repository of the theory Demo\_Repo.
\<close>

section \<open>Objects\<close>

text \<open>C19. Whatever sequence of objects is written into a store, each of them is read back by its hash
  afterwards, as long as no two objects written to this store collide; writing never fails and
  keeps the directory well-formed.\<close>

theorem written_objects_read_back:
  assumes "hex_laws X" and "objs_ok X s" and "foldE (\<lambda>_ raw. obj_put X raw) h0 raws s = (r, t)"
    and "collision_free X t"
  shows "(\<exists>h. r = Inr h) \<and> objs_ok X t
    \<and> list_all (\<lambda>raw. obj_get X (raw_hash X raw) t = Inr raw) raws"
  using assms(2,3)
proof (induction raws arbitrary: s h0)
  case Nil
  then have "r = Inr h0" "t = s" by simp_all
  with Nil show ?case by simp
next
  case (Cons raw raws)
  obtain u where u: "obj_put X raw s = (Inr (raw_hash X raw), u)"
    using store.put_total by blast
  with Cons.prems have fold: "foldE (\<lambda>_ raw. obj_put X raw) (raw_hash X raw) raws u = (r, t)" by simp
  have ok: "objs_ok X u" using store.put_ok [OF _ u] assms(1) Cons.prems(1) by blast
  have "keeps store_grows (foldE (\<lambda>_ raw. obj_put X raw) (raw_hash X raw) raws)"
    by (rule keeps_foldE [OF store.reflp_grows store.transp_grows store.keeps_put])
  from keepsD [OF this fold] have "store_grows u t" .
  with store.put_then_get [OF _ u this assms(4)] assms(1) Cons.prems(1) Cons.IH [OF ok fold]
  show ?case by simp
qed

definition demo_objects :: "raw_object list" where
  "demo_objects = [\<lparr>raw_kind = KBlob, raw_bytes = [1, 2]\<rparr>, \<lparr>raw_kind = KTree, raw_bytes = [1, 2]\<rparr>]"

theorem written_objects_read_back_witness:
  "\<exists>t :: session. list_all (\<lambda>raw. obj_get demo (raw_hash demo raw) t = Inr raw) demo_objects"
proof -
  define t where "t = snd (foldE (\<lambda>_ raw. obj_put demo raw) (Hash (demo_hash [])) demo_objects demo_repo)"
  have t: "owritten t = demo_objects"
    unfolding t_def demo_objects_def by (simp add: obj_put_def Let_def)
  have "distinct (map (raw_hash demo) (remdups demo_objects))"
    by code_simp
  then have "collision_free demo t" using collision_free_distinct [of demo t] by (simp only: t)
  moreover have "foldE (\<lambda>_ raw. obj_put demo raw) (Hash (demo_hash [])) demo_objects demo_repo =
      (fst (foldE (\<lambda>_ raw. obj_put demo raw) (Hash (demo_hash [])) demo_objects demo_repo), t)"
    by (simp add: t_def)
  ultimately show ?thesis
    using written_objects_read_back [OF demo_hex store_okD(3) [OF demo_store_ok]] by blast
qed

text \<open>C25. A stored file that was changed on disk, in any way, is never returned as the object it was:
  a read succeeds exactly when the bytes are the frame of an object with the requested hash.\<close>

theorem tampering_detected:
  "case obj_get X h (s\<lparr>ofiles := AList.update (path_for X h) disk (ofiles s)\<rparr>) of
     Inr raw \<Rightarrow> disk = frame raw \<and> raw_hash X raw = h
   | Inl e \<Rightarrow> (\<nexists>raw. disk = frame raw \<and> raw_hash X raw = h)"
  by (auto simp: obj_get_Inr_iff AList.update_conv' split: sum.split)
    (metis (no_types, lifting) AList.update_conv' fun_upd_same obj_get_Inr_iff objects_dir.select_convs(1)
      objects_dir.surjective objects_dir.update_convs(1) sum.distinct(1))

text \<open>C26. A hash prefix resolves only to a stored object, only when it is the one stored object whose
  hash starts with the prefix; a full hash resolves exactly when it is stored.\<close>

theorem resolve_prefix_sound:
  assumes "hex_laws X" and "objs_ok X s"
  shows "case resolve_prefix X p s of
      Inr h \<Rightarrow> obj_has X h s \<and>
        (if length p = 64 then from_hex X (ascii_lower p) = Inr h
         else prefix (ascii_lower p) (to_hex X h)
           \<and> (\<nexists>k. k \<noteq> h \<and> obj_has X k s \<and> prefix (ascii_lower p) (to_hex X k)))
    | Inl _ \<Rightarrow> (\<nexists>h. p = to_hex X h \<and> obj_has X h s)"
proof (cases "resolve_prefix X p s")
  case (Inl e)
  then show ?thesis using resolve_full [OF assms(1), of _ s] by auto
next
  case (Inr h)
  show ?thesis
  proof (cases "length p = 64")
    case True
    with Inr show ?thesis
      by (auto simp: resolve_prefix_def ascii_lower_def Let_def and_then_Inr_iff obj_has_def split: if_splits)
  next
    case False
    from resolve_short [OF assms Inr False] Inr False show ?thesis by auto
  qed
qed

theorem resolve_prefix_sound_witness:
  "\<exists>h. resolve_prefix demo (take 6 (to_hex demo (raw_hash demo (hd demo_objects))))
         (snd (obj_put demo (hd demo_objects) demo_repo)) = Inr h
     \<and> obj_has demo h (snd (obj_put demo (hd demo_objects) demo_repo))"
proof -
  let ?s = "snd (obj_put demo (hd demo_objects) demo_repo)"
  let ?p = "take 6 (to_hex demo (raw_hash demo (hd demo_objects)))"
  have ok: "objs_ok demo ?s" using obj_put_ok store_okD(3) [OF demo_store_ok] by blast
  have "(case resolve_prefix demo ?p ?s of Inr _ \<Rightarrow> True | Inl _ \<Rightarrow> False)" by code_simp
  then obtain h where "resolve_prefix demo ?p ?s = Inr h" by (auto split: sum.splits)
  with resolve_prefix_sound [OF demo_hex ok, of ?p] show ?thesis by simp
qed

section \<open>Discovery\<close>

text \<open>Discovery stops at the nearest directory above the start that has a workspace marker or a
  \<^verbatim>\<open>.tig\<close>: nothing between them is marked, a marker there wins over a \<^verbatim>\<open>.tig\<close> beside it, and a
  marker leads to a registered workspace of the repository it names.\<close>

theorem discover_nearest:
  assumes "discover start h = Inr w"
  shows "\<exists>n \<le> length start. marks h (take n start)
    \<and> (\<nexists>k. n < k \<and> k \<le> length start \<and> marks h (take k start))
    \<and> (case map_of (h_markers h) (take n start) of
         None \<Rightarrow> w = \<lparr>w_tig = take n start @ [tig_dir], w_kind = WMain\<rparr>
       | Some f \<Rightarrow> \<exists>mk m. f = Json mk \<and> w = \<lparr>w_tig = parse_path (mk_repo mk), w_kind = WSecondary m\<rparr>
           \<and> marker_leads h mk m)"
proof -
  have "discover_up start h (rev start) = Inr w"
    using assms by (simp add: discover_def split: if_splits)
  from discover_up_nearest [OF this] obtain above below where ab: "rev start = below @ above"
      "marks h (rev above)" "\<forall>b c. below = b @ c \<longrightarrow> c \<noteq> [] \<longrightarrow> \<not> marks h (rev (c @ above))"
      "case map_of (h_markers h) (rev above) of
          None \<Rightarrow> w = \<lparr>w_tig = rev above @ [tig_dir], w_kind = WMain\<rparr>
        | Some f \<Rightarrow> \<exists>mk m. f = Json mk \<and> w = \<lparr>w_tig = parse_path (mk_repo mk), w_kind = WSecondary m\<rparr>
            \<and> marker_leads h mk m" by blast
  from ab(1) have st: "start = rev above @ rev below" by (metis rev_append rev_rev_ident)
  have none: "\<not> marks h (take k start)" if k: "length above < k" "k \<le> length start" for k
  proof -
    let ?j = "k - length above"
    have j: "0 < ?j" "?j \<le> length below" using k by (simp_all add: st)
    let ?c = "drop (length below - ?j) below"
    have "below = take (length below - ?j) below @ ?c" "?c \<noteq> []" using j by auto
    with ab(3) have "\<not> marks h (rev (?c @ above))" by blast
    moreover have "take k start = rev (?c @ above)"
      using k by (simp add: st take_rev)
    ultimately show ?thesis by simp
  qed
  have tk: "take (length above) start = rev above" by (simp add: st)
  show ?thesis
  proof (intro exI [of _ "length above"] conjI)
    show "length above \<le> length start" by (simp add: st)
    show "\<nexists>k. length above < k \<and> k \<le> length start \<and> marks h (take k start)" using none by blast
  qed (simp_all only: tk ab(2,4))
qed

definition demo_host :: host where
  "demo_host = \<lparr>h_dirs = [[''home''], [''home'', ''p''], [''home'', ''p'', ''src'']],
     h_repos = [([''home'', ''p'', ''.tig''], repo_new)], h_markers = []\<rparr>"

theorem discover_nearest_witness:
  "discover [''home'', ''p'', ''src''] demo_host = Inr \<lparr>w_tig = [''home'', ''p'', ''.tig''], w_kind = WMain\<rparr>
   \<and> (\<exists>n \<le> 3. marks demo_host (take n [''home'', ''p'', ''src'']))"
proof -
  have d: "discover [''home'', ''p'', ''src''] demo_host
      = Inr \<lparr>w_tig = [''home'', ''p'', ''.tig''], w_kind = WMain\<rparr>"
    by (simp add: discover_def demo_host_def discover_up.simps tig_dir_def repo_open_def open_at_tig_dir_def)
  from discover_nearest [OF d] have "\<exists>n \<le> 3. marks demo_host (take n [''home'', ''p'', ''src''])"
    by (simp only: list.size) (auto simp: eval_nat_numeral)
  with d show ?thesis by blast
qed

section \<open>The operation log\<close>

text \<open>C18. An append to a well-formed log gives the operation a number no other operation has, and
  afterwards the log reads back as the old operations followed by it, also through a handle that
  is opened afresh; or the record exceeds the 32-bit length and nothing changes. The references
  and the objects are not touched.\<close>

theorem append_reads_back:
  assumes "cbor_laws X" and "log_ok X s ops" and "length ops + 1 < 2 ^ 63" and "slog s = FileLog n"
  shows "case log_append X now p s of
      (Inr q, t) \<Rightarrow> op_id_of q \<notin> op_id_of ` set ops \<and> log_list X t = Inr (ops @ [q]) \<and> same_refs s t
        \<and> op_before q = oip_before p \<and> op_after q = oip_after p \<and> op_kind_of q = oip_kind p
        \<and> (\<exists>u. log_open X t = (Inr (), u) \<and> log_ok X u (ops @ [q]))
    | (Inl e, t) \<Rightarrow> e = SCorrupt OplogRecordTooLarge \<and> t = s"
proof -
  have fresh: "next_id_of (slog s) \<notin> op_id_of ` set ops"
    using assms(2) numbered_fresh by (auto simp: log_ok_def)
  from log_append_cases [OF assms(1), of now p s] show ?thesis
  proof
    assume "\<exists>t. log_append X now p s = (Inr (finalize (next_id_of (slog s)) now p), t)"
    then obtain q t where a: "log_append X now p s = (Inr q, t)" by blast
    note ok = log_append_ok [OF assms(1-3) a]
    have "slog t = FileLog (next_id_of (slog t))"
      using a assms(4) by (auto simp: log_append_def Let_def split: option.splits if_splits)
    then have rd: "read_all X t = Inr (ops @ [q])" using ok(2) unfolding log_ok_def log_list_def by (metis op_log.simps(5))
    obtain u where "log_open X t = (Inr (), u)" "log_ok X u (ops @ [q])"
      using log_open_ok [OF rd, of "next_id_of (slog t)"] ok(2) by (auto simp: log_ok_def)
    with a ok fresh log_append_same_refs [OF a] show ?thesis
      by (simp add: log_ok_def finalize_def)
  qed simp
qed

definition demo_op :: op_in_progress where
  "demo_op = \<lparr>oip_actor = ''local:me'', oip_kind = OkSnap (Hash (demo_hash [])) None,
     oip_before = [RHead None], oip_after = [RHead (Some ''01A'')]\<rparr>"

lemma demo_append:
  assumes "slog s = FileLog 0"
  shows "\<exists>t. log_append demo 5 demo_op s = (Inr (finalize 0 5 demo_op), t)"
proof -
  obtain b where b: "cbor_write demo (op_value (finalize 0 5 demo_op)) = Some b"
    using cbor_write_read [OF demo_cbor op_value_fits] by blast
  have "(case cbor_write demo (op_value (finalize 0 5 demo_op)) of Some b \<Rightarrow> length b < 1000 | None \<Rightarrow> False)"
    by code_simp
  with b assms show ?thesis by (simp add: log_append_def Let_def)
qed

theorem append_reads_back_witness:
  "case log_append demo 5 demo_op demo_repo of
     (Inr q, t) \<Rightarrow> log_list demo t = Inr [q] | (Inl e, t) \<Rightarrow> t = demo_repo"
  using append_reads_back [where now = 5 and p = demo_op, OF demo_cbor demo_log_ok demo_small(2) demo_repo_fields(8)]
  by (auto split: prod.splits sum.splits)

text \<open>C24. A record cut short by a crash is never mistaken for a shorter log: whatever part of it
  reached the disk, reading the log reports corruption, and the operations before it are not
  returned either.\<close>

theorem torn_append_reported:
  assumes "cbor_laws X" and "rlog s = Some l" and "read_all X s = Inr ops"
    and "cbor_write X (op_value p) = Some b" and "length b < 2 ^ 32"
    and "0 < n" and "n < length (frame_record b)"
  shows "\<exists>e. read_all X (s\<lparr>rlog := Some (l @ take n (frame_record b))\<rparr>) = Inl (SCorrupt e)
    \<and> compute_next_id X (s\<lparr>rlog := Some (l @ take n (frame_record b))\<rparr>) = Inl (SCorrupt e)"
  using read_ops_torn [OF assms(1,4-7), of 0 l ops] assms(2,3)
  by (auto simp: read_all_def compute_next_id_def)

theorem torn_append_reported_witness:
  "\<exists>b e. cbor_write demo (op_value (finalize 0 5 demo_op)) = Some b
     \<and> read_all demo (demo_repo\<lparr>rlog := Some (take 3 (frame_record b))\<rparr>) = Inl (SCorrupt e)"
proof -
  obtain b where b: "cbor_write demo (op_value (finalize 0 5 demo_op)) = Some b"
    using cbor_write_read [OF demo_cbor op_value_fits] by blast
  have "(case cbor_write demo (op_value (finalize 0 5 demo_op)) of Some b \<Rightarrow> length b < 1000 | None \<Rightarrow> False)"
    by code_simp
  with b have small: "length b < 2 ^ 32" by simp
  have "read_all demo demo_repo = Inr []" by (simp add: read_all_def)
  from torn_append_reported [OF demo_cbor demo_repo_fields(7) this b small, of 3] b
  show ?thesis by (auto simp: frame_record_def)
qed

text \<open>The next number is cached in the handle, not read from the log: a process that opened the
  log before another one appended gives its own operation the same number, and the log then
  holds two operations with one identifier.\<close>

theorem stale_handle_repeats_id:
  assumes "cbor_laws X" and "log_ok X s ops" and "length ops + 1 < 2 ^ 63" and "slog s = FileLog n"
    and "log_append X now p s = (Inr a, s1)"
    and "log_append X now' q (s1\<lparr>slog := slog s\<rparr>) = (Inr b, s2)"
  shows "op_id_of a = op_id_of b \<and> log_list X s2 = Inr (ops @ [a, b])"
proof -
  note ok = log_append_ok [OF assms(1-3,5)]
  have "slog s1 = FileLog (n + 1)"
    using assms(4,5) by (auto simp: log_append_def Let_def split: option.splits if_splits)
  then have rd: "read_all X s1 = Inr (ops @ [a])" using ok(2) by (simp add: log_ok_def log_list_def)
  from assms(6) obtain w where w: "cbor_write X (op_value b) = Some w" "length w < 2 ^ 32"
      "s2 = s1\<lparr>rlog := Some ((case rlog s1 of None \<Rightarrow> [] | Some l \<Rightarrow> l) @ frame_record w), slog := FileLog (n + 1)\<rparr>"
    by (auto simp: log_append_def Let_def assms(4) split: option.splits if_splits)
  have "read_ops X 0 (case rlog s1 of None \<Rightarrow> [] | Some l \<Rightarrow> l) = Inr (ops @ [a])"
    using rd by (auto simp: read_all_def split: option.splits)
  from read_ops_append [OF assms(1) w(1,2) this] w(3)
  have "log_list X s2 = Inr (ops @ [a, b])" by (simp add: log_list_def read_all_def)
  with stale_handle_ids [OF assms(5,6)] show ?thesis by blast
qed

theorem stale_handle_repeats_id_witness:
  "\<exists>a s1 b s2. log_append demo 5 demo_op demo_repo = (Inr a, s1)
     \<and> log_append demo 5 demo_op (s1\<lparr>slog := slog demo_repo\<rparr>) = (Inr b, s2) \<and> op_id_of a = op_id_of b"
proof -
  obtain a s1 where a: "log_append demo 5 demo_op demo_repo = (Inr a, s1)"
    using demo_append [of demo_repo] by auto
  obtain b s2 where b: "log_append demo 5 demo_op (s1\<lparr>slog := slog demo_repo\<rparr>) = (Inr b, s2)"
    using demo_append [of "s1\<lparr>slog := slog demo_repo\<rparr>"] by auto
  from stale_handle_repeats_id [OF demo_cbor demo_log_ok demo_small(2) demo_repo_fields(8) a b] a b
  show ?thesis by blast
qed

section \<open>Undo\<close>

text \<open>Repeated undo works as a stack: the operation picked is the one an undo stack has on top
  when operations push and undo records pop, whatever operations and undos are interleaved;
  it is an operation of the log and never an undo record.\<close>

theorem undo_picks_stack_top:
  "pick_op_to_undo ops = (case undo_stack ops of [] \<Rightarrow> None | p # _ \<Rightarrow> Some p)
    \<and> (case pick_op_to_undo ops of None \<Rightarrow> True | Some p \<Rightarrow> p \<in> set ops \<and> \<not> is_undo p)"
  using pick_in [of ops] by (auto simp: pick_is_top split: option.splits list.splits)

text \<open>C4. When the recorded references are readable, undo puts back exactly those, leaves every other
  reference and all objects alone, and records itself so that the next undo picks the operation
  below; if its own record is too long for the log, the references are put back all the same.\<close>

theorem undo_restores_references:
  assumes "cbor_laws X" and "log_ok X s ops" and "length ops + 1 < 2 ^ 63"
    and "pick_op_to_undo ops = Some p"
    and "\<forall>x \<in> set (op_before p). snap_wf x"
    and "\<forall>x \<in> set (op_before p). \<exists>y. read_current x s = Inr y"
  shows "\<exists>t r. undo_once X now actor s = (r, t)
    \<and> refs_view t = view_update (op_before p) (refs_view s)
    \<and> ofiles t = ofiles s \<and> owritten t = owritten s
    \<and> ((\<exists>q. r = Inr (Some \<lparr>uo_undone = p, uo_recorded = q\<rparr>) \<and> log_ok X t (ops @ [q])
          \<and> undo_stack (ops @ [q]) = tl (undo_stack ops))
       \<or> r = Inl (SCorrupt OplogRecordTooLarge) \<and> log_ok X t ops)"
  using undo_once_spec [OF assms, of now actor] by blast

definition demo_logged :: session where
  "demo_logged = snd (log_append demo 5 demo_op (snd (set_head ''01A'' demo_repo)))"

lemma demo_logged_ok:
  "log_ok demo demo_logged [finalize 0 5 demo_op]"
proof -
  let ?s = "snd (set_head ''01A'' demo_repo)"
  have ok: "log_ok demo ?s []"
    using demo_log_ok by (simp add: log_ok_def log_list_def read_all_def set_head_def numbered_def)
  obtain q t where a: "log_append demo 5 demo_op ?s = (Inr q, t)"
    using demo_append [of ?s] by (auto simp: set_head_def)
  have "next_id_of (slog ?s) = 0" by (simp add: set_head_def)
  with log_append_ok [OF demo_cbor ok demo_small(2) a] a show ?thesis by (simp add: demo_logged_def)
qed

theorem undo_restores_references_witness:
  "\<exists>t r. undo_once demo 6 ''local:me'' demo_logged = (r, t) \<and> refs_view t KyHead = Inr (RHead None)"
proof -
  have fin: "is_undo (finalize 0 5 demo_op) = False" "op_before (finalize 0 5 demo_op) = [RHead None]"
    by (simp_all add: is_undo_def finalize_def demo_op_def)
  have pick: "pick_op_to_undo [finalize 0 5 demo_op] = Some (finalize 0 5 demo_op)"
    by (simp add: pick_op_to_undo_def fin)
  obtain t r where "undo_once demo 6 ''local:me'' demo_logged = (r, t)"
      "refs_view t = view_update [RHead None] (refs_view demo_logged)"
    using undo_restores_references [where now = 6 and actor = "''local:me''", OF demo_cbor demo_logged_ok _ pick]
    by (auto simp: fin)
  then show ?thesis by simp
qed

section \<open>Garbage collection\<close>

text \<open>C3. A collection keeps exactly the stored objects that are reachable from the roots, with their
  contents, and removes exactly the others; references and log are not touched, the directory
  stays well-formed, and the summary counts what happened.\<close>

theorem collection_exact:
  assumes "hex_laws X" and "objs_ok X s" and "collect_garbage X opts s = (Inr smry, t)" and "\<not> gc_dry_run opts"
  shows "\<exists>roots. gc_roots X opts s = Inr roots
    \<and> (\<forall>h. obj_has X h t \<longleftrightarrow> obj_has X h s \<and> reachable X s (set roots) h)
    \<and> (\<forall>h. reachable X s (set roots) h \<longrightarrow> obj_get X h t = obj_get X h s)
    \<and> objs_ok X t \<and> refs_view t = refs_view s \<and> log_list X t = log_list X s
    \<and> gs_removed smry = length (ofiles s) - length (ofiles t)"
proof -
  obtain roots where r: "gc_roots X opts s = Inr roots"
      "\<And>h. reachable X s (set roots) h \<Longrightarrow> obj_get X h t = obj_get X h s"
      "\<And>h. obj_has X h t \<longleftrightarrow> obj_has X h s \<and> reachable X s (set roots) h"
    using collect_garbage_exact [OF assms] by blast
  note kept = collect_garbage_kept [OF assms]
  show ?thesis
    by (intro exI [of _ roots] conjI allI impI r kept(1) kept(2) kept(3) kept(4)) assumption
qed

theorem collection_exact_witness:
  "\<exists>t. collect_garbage demo gc_options_default (snd (obj_put demo (hd demo_objects) demo_repo))
         = (Inr \<lparr>gs_roots = 0, gs_kept = 0, gs_removed = 1, gs_bytes_freed = 3, gs_dry_run = False\<rparr>, t)
     \<and> \<not> obj_has demo (raw_hash demo (hd demo_objects)) t"
proof -
  let ?s = "snd (obj_put demo (hd demo_objects) demo_repo)"
  have ok: "objs_ok demo ?s" using obj_put_ok store_okD(3) [OF demo_store_ok] by blast
  have "fst (collect_garbage demo gc_options_default ?s)
      = Inr \<lparr>gs_roots = 0, gs_kept = 0, gs_removed = 1, gs_bytes_freed = 3, gs_dry_run = False\<rparr>"
    by code_simp
  then obtain t where t: "collect_garbage demo gc_options_default ?s
      = (Inr \<lparr>gs_roots = 0, gs_kept = 0, gs_removed = 1, gs_bytes_freed = 3, gs_dry_run = False\<rparr>, t)"
    by (metis prod.collapse)
  obtain roots where "gc_roots demo gc_options_default ?s = Inr roots"
      "\<forall>h. obj_has demo h t \<longleftrightarrow> obj_has demo h ?s \<and> reachable demo ?s (set roots) h"
    using collection_exact [OF demo_hex ok t] by (auto simp: gc_options_default_def)
  moreover have "gc_roots demo gc_options_default ?s = Inr []" by code_simp
  moreover have "\<not> reachable demo ?s {} h" for h
  proof
    assume "reachable demo ?s {} h"
    then show False by (induction rule: reachable.induct) simp_all
  qed
  ultimately have "\<not> obj_has demo (raw_hash demo (hd demo_objects)) t" by auto
  with t show ?thesis by blast
qed

text \<open>A dry run reports what a collection of the same state would remove and changes nothing.\<close>

theorem dry_run_same_report:
  "case collect_garbage X (opts\<lparr>gc_dry_run := True\<rparr>) s of
     (Inr smry, t) \<Rightarrow> t = s \<and> fst (collect_garbage X (opts\<lparr>gc_dry_run := False\<rparr>) s) = Inr (smry\<lparr>gs_dry_run := False\<rparr>)
   | (Inl e, t) \<Rightarrow> t = s \<and> collect_garbage X (opts\<lparr>gc_dry_run := False\<rparr>) s = (Inl e, s)"
  by (auto simp: collect_garbage_def gc_roots_def bindE_def readE_def retE_def gc_sweep_dry gc_sweep_live Let_def
      split: prod.splits sum.splits)

end
