(* ===== verification/Live_Contents.thy ===== *)
theory Live_Contents
  imports Snap
begin

text \<open>
  How the components of \<^verbatim>\<open>tig-fs\<close> and the garbage collector of \<^verbatim>\<open>tig-store\<close> fit together: what a
  collection leaves readable of a tree, and what a restored working directory scans to.
\<close>

section \<open>Contents after a collection\<close>

lemma tree_get_entry: "tree_get tr n = Some e \<Longrightarrow> e \<in> set (entries tr)"
  using bs_window_bounds [of "length (entries tr)" 0 n "entries tr"]
  by (auto simp: tree_get_def binary_search_def Let_def split: sum.splits if_splits intro!: nth_mem)

fun no_links :: "wnode \<Rightarrow> bool" where
  "no_links (WFile data exec) \<longleftrightarrow> True"
| "no_links (WLink target) \<longleftrightarrow> False"
| "no_links (WSpecial k) \<longleftrightarrow> True"
| "no_links (WDir ch) \<longleftrightarrow> (\<forall>c \<in> set ch. no_links (snd c))"

text \<open>The second store reads every object reachable in the first one as the first does.\<close>

definition keeps_reachable ::
  "'x ext_scheme \<Rightarrow> hash set \<Rightarrow> 'r objects_dir_scheme \<Rightarrow> 'r objects_dir_scheme \<Rightarrow> bool" where
  "keeps_reachable X R s t \<longleftrightarrow> (\<forall>h. reachable X s R h \<longrightarrow> obj_get X h t = obj_get X h s)"

lemma keeps_loads:
  assumes "keeps_reachable X R s t" and "reachable X s R h"
  shows "load_tree X h t = load_tree X h s" "load_blob X h t = load_blob X h s"
    "load_snapshot X h t = load_snapshot X h s"
  using assms by (simp_all add: keeps_reachable_def load_tree_def load_blob_def load_snapshot_def)

lemma load_tree_edges:
  assumes "load_tree X h s = Inr tr" and "e \<in> set (entries tr)" and "pushed_kind (te_kind e)"
  shows "gc_edge X s h (te_target e)"
proof -
  obtain raw where raw: "obj_get X h s = Inr raw" "decode_tree X raw = Inr tr"
    using assms(1) by (auto simp: load_tree_def and_then_Inr_iff)
  have "raw_kind raw = KTree" using raw(2) tree_codec.decode_kind unfolding decode_tree_def by blast
  with raw assms(2,3) show ?thesis
    by (auto simp: gc_edge_def gc_children_def intro!: exI [of _ raw])
qed

lemma load_snapshot_edges:
  assumes "load_snapshot X h s = Inr sn"
  shows "gc_edge X s h (sn_tree sn)" "p \<in> set (sn_parents sn) \<Longrightarrow> gc_edge X s h p"
proof -
  obtain raw where raw: "obj_get X h s = Inr raw" "decode_snapshot X raw = Inr sn"
    using assms(1) by (auto simp: load_snapshot_def and_then_Inr_iff)
  have "raw_kind raw = KSnapshot"
    using raw(2) snapshot_codec.decode_kind unfolding decode_snapshot_def by blast
  with raw show "gc_edge X s h (sn_tree sn)" "p \<in> set (sn_parents sn) \<Longrightarrow> gc_edge X s h p"
    by (auto simp: gc_edge_def gc_children_def intro!: exI [of _ raw])
qed

lemma entry_shows_kept:
  "entry_shows X s e v \<Longrightarrow> no_links v \<Longrightarrow> keeps_reachable X R s t \<Longrightarrow> reachable X s R (te_target e) \<Longrightarrow>
   entry_shows X t e v"
proof (induction X s e v rule: entry_shows.induct)
  case (1 X s e data exec)
  then show ?case using keeps_loads(2) [OF "1.prems"(3,4)] by simp
next
  case (4 X s e ch)
  obtain tr where tr: "load_tree X (te_target e) s = Inr tr" "te_kind e = ETree"
      "list_all2 (\<lambda>e c. te_name e = fst c \<and> entry_shows X s e (snd c)) (entries tr) ch"
    using "4.prems"(1) by (auto split: sum.splits)
  have "list_all2 (\<lambda>e c. te_name e = fst c \<and> entry_shows X t e (snd c)) (entries tr) ch"
  proof (rule list.rel_mono_strong [OF tr(3)])
    fix e' c assume mem: "e' \<in> set (entries tr)" "c \<in> set ch"
      and sh: "te_name e' = fst c \<and> entry_shows X s e' (snd c)"
    have nl: "no_links (snd c)" using "4.prems"(2) mem(2) by simp
    then have "pushed_kind (te_kind e')"
      using sh by (cases "snd c") (auto simp: pushed_kind_def)
    then have "reachable X s R (te_target e')"
      using reachable.step [OF "4.prems"(4) load_tree_edges [OF tr(1) mem(1)]] by blast
    from "4.IH" [OF tr(1) mem conjunct2 [OF sh] nl "4.prems"(3) this] sh
    show "te_name e' = fst c \<and> entry_shows X t e' (snd c)" by blast
  qed
  with tr keeps_loads(1) [OF "4.prems"(3,4)] show ?case by simp
qed simp_all

lemma tree_shows_kept:
  assumes "tree_shows X s h ch" and "no_links (WDir ch)" and "keeps_reachable X R s t" and "reachable X s R h"
  shows "tree_shows X t h ch"
  using entry_shows_kept [of X s "entry_for [] ETree mode_dir h" "WDir ch" R t] assms
  by (simp add: entry_for_def entry_shows_dir del: entry_shows.simps)

lemma find_at_kept:
  "find_at X s tr parts = Some e \<Longrightarrow> load_tree X h s = Inr tr \<Longrightarrow> reachable X s R h \<Longrightarrow> keeps_reachable X R s t \<Longrightarrow>
   find_at X t tr parts = Some e \<and> (pushed_kind (te_kind e) \<longrightarrow> reachable X s R (te_target e))"
proof (induction X s tr parts arbitrary: h rule: find_at.induct)
  case (2 X s tr part)
  then have "e \<in> set (entries tr)" by (auto dest: tree_get_entry)
  with 2 show ?case using reachable.step load_tree_edges by fastforce
next
  case (3 X s tr part p ps)
  obtain e1 tr1 where e1: "tree_get tr part = Some e1" "te_kind e1 = ETree" "load_tree X (te_target e1) s = Inr tr1"
      "find_at X s tr1 (p # ps) = Some e"
    using "3.prems"(1) by (auto split: option.splits if_splits sum.splits)
  have "reachable X s R (te_target e1)"
    by (rule reachable.step [OF "3.prems"(3) load_tree_edges [OF "3.prems"(2) tree_get_entry [OF e1(1)]]])
      (simp add: e1(2) pushed_kind_def)
  from "3.IH" [OF e1(1) _ e1(3) e1(4) e1(3) this "3.prems"(4)] keeps_loads(1) [OF "3.prems"(4) this] e1
  show ?case by simp
qed simp

lemma read_blob_kept:
  assumes "read_blob_at_path X h q s = Inr data" and "keeps_reachable X R s t" and "reachable X s R h"
  shows "read_blob_at_path X h q t = Inr data"
proof -
  obtain parts where parts: "split_path q = Inr parts"
    using assms(1) by (auto simp: read_blob_at_path_def and_then_Inr_iff)
  obtain tr e where e: "load_tree X h s = Inr tr" "find_at X s tr parts = Some e" "te_kind e = EFile"
      "load_blob X (te_target e) s = Inr \<lparr>blob_bytes = data\<rparr>"
    using assms(1) by (auto simp: read_blob_find [OF parts])
  have k: "find_at X t tr parts = Some e" "reachable X s R (te_target e)"
    using find_at_kept [OF e(2,1) assms(3,2)] e(3) by (auto simp: pushed_kind_def)
  from e k keeps_loads(1) [OF assms(2,3)] keeps_loads(2) [OF assms(2) k(2)] show ?thesis
    unfolding read_blob_find [OF parts] by auto
qed

text \<open>A collection that could read its roots and mark from them succeeds.\<close>

lemma collect_garbage_total:
  assumes "gc_roots X opts s = Inr roots" and "gc_mark X s [] roots = Inr marked"
  shows "\<exists>smry t. collect_garbage X opts s = (Inr smry, t)"
  using assms
  by (cases "gc_dry_run opts") (simp_all add: collect_garbage_def eff_simps gc_sweep_dry gc_sweep_live Let_def)

lemma change_root:
  assumes "gc_roots X opts s = Inr roots" and "i \<in> set (list_changes s)" and "get_change i s = Inr c"
  shows "set (change_roots c) \<subseteq> set roots"
proof -
  obtain cs where cs: "traverse (\<lambda>i. get_change i s) (list_changes s) = Inr cs"
      "set (concat (map change_roots cs)) \<subseteq> set roots"
    using assms(1) by (auto simp: gc_roots_def and_then_Inr_iff)
  obtain n where n: "n < length (list_changes s)" "list_changes s ! n = i"
    using assms(2) by (auto simp: in_set_conv_nth)
  have "length cs = length (list_changes s)" "get_change (list_changes s ! n) s = Inr (cs ! n)"
    using cs(1) n(1) by (simp_all add: traverse_Inr_iff list_all2_conv_all_nth)
  with assms(3) n have "c \<in> set cs" by (metis nth_mem sum.inject(2))
  with cs(2) show ?thesis by auto
qed

section \<open>Scanning what was rendered\<close>

lemma norm_node_idem: "norm_node opts (norm_node opts v) = norm_node opts v"
proof (induction opts v rule: norm_node.induct)
  case (4 opts ch)
  let ?f = "\<lambda>c. (fst c, norm_node opts (snd c))"
  have fixed: "map ?f (norm_children opts ch) = norm_children opts ch"
  proof -
    have "?f c = c" if "c \<in> set (norm_children opts ch)" for c
      using that 4 by (auto simp: norm_children_def)
    then show ?thesis by (simp add: map_idI)
  qed
  have "filter (\<lambda>c. fst c \<notin> set (sc_ignore opts)) (norm_children opts ch) = norm_children opts ch"
    by (auto simp: norm_children_def filter_id_conv)
  moreover have "sorted (map fst (norm_children opts ch))"
    by (simp add: norm_children_def o_def)
  ultimately show ?case
    unfolding norm_node_dir norm_children_def [of opts "norm_children opts ch"]
    by (simp add: sorted_sort_id fixed sort_key_id_if_sorted)
qed (simp_all add: lossy_valid valid_lossy)

lemma norm_children_restored:
  assumes "\<forall>c \<in> set kept. fst c \<in> set (sc_ignore opts)"
  shows "norm_children opts (kept @ norm_children opts ch) = norm_children opts ch"
proof -
  have "filter (\<lambda>c. fst c \<notin> set (sc_ignore opts)) kept = []" using assms by (simp add: filter_empty_conv)
  then have "norm_children opts (kept @ norm_children opts ch) = norm_children opts (norm_children opts ch)"
    by (simp add: norm_children_def)
  also have "\<dots> = norm_children opts ch"
    using norm_node_idem [of opts "WDir ch"] by (simp only: norm_node_dir wnode.inject)
  finally show ?thesis .
qed

end
