(* ===== verification/Worktree_Theorems.thy ===== *)
theory Worktree_Theorems
  imports Demo_Repo Live_Contents
begin

text \<open>
  The properties of \<^verbatim>\<open>tig-fs\<close>: edits of stored trees, scanning and rendering of working
  directories, snapshots and their undo, and what garbage collection leaves of a change.
\<close>

section \<open>Tree edits\<close>

text \<open>C9. Writing a file at a path of a stored tree gives a new root in which that path reads back the
  data. Every path beside it finds the very entry it found before, and the old root still reads
  as it did: editing never changes an existing tree.\<close>

theorem write_then_read:
  assumes "store_ok X s" and "write_blob_at_path X root path data s = (Inr root', u)" and "collision_free X u"
  shows "store_ok X u \<and> read_blob_at_path X root' path u = Inr data
    \<and> (\<exists>parts t t'. split_path path = Inr parts \<and> load_tree X root u = Inr t \<and> load_tree X root' u = Inr t'
        \<and> (\<forall>q. \<not> prefix parts q \<longrightarrow> \<not> prefix q parts \<longrightarrow> find_at X u t' q = find_at X u t q))
    \<and> (\<forall>q old. read_blob_at_path X root q s = Inr old \<longrightarrow> read_blob_at_path X root q u = Inr old)"
proof -
  obtain parts h s1 where st: "split_path path = Inr parts" "store_ok X s1" "store_grows s s1"
      "rewrite_insert X parts h EFile mode_regular root s1 = (Inr root', u)"
      "\<And>f. store_grows s1 f \<Longrightarrow> collision_free X f \<Longrightarrow> load_blob X h f = Inr \<lparr>blob_bytes = data\<rparr>"
    by (rule write_blob_steps [OF assms(2,1)]) (rule that)
  note spec = rewrite_insert_spec [OF st(4,2)]
  have ok: "store_ok X u" "store_grows s1 u" using spec by simp_all
  have at: "store_grows u f \<Longrightarrow> collision_free X f \<Longrightarrow>
      \<exists>t t'. load_tree X root f = Inr t \<and> load_tree X root' f = Inr t'
        \<and> find_at X f t' parts = Some \<lparr>te_name = last parts, te_kind = EFile, te_target = h, te_mode = mode_regular, te_vis = None\<rparr>
        \<and> (\<forall>q. \<not> prefix parts q \<longrightarrow> \<not> prefix q parts \<longrightarrow> find_at X f t' q = find_at X f t q)"
    for f by (rule conjunct2 [OF conjunct2 [OF spec], rule_format])
  obtain t t' where t: "load_tree X root u = Inr t" "load_tree X root' u = Inr t'"
      "find_at X u t' parts = Some \<lparr>te_name = last parts, te_kind = EFile, te_target = h, te_mode = mode_regular, te_vis = None\<rparr>"
      "\<forall>q. \<not> prefix parts q \<longrightarrow> \<not> prefix q parts \<longrightarrow> find_at X u t' q = find_at X u t q"
    using at [OF store_grows_refl assms(3)] by blast
  have g: "store_grows s u" by (rule store_grows_trans [OF st(3) ok(2)])
  have "read_blob_at_path X root' path u = Inr data"
    using t(2,3) st(5) [OF ok(2) assms(3)] by (simp add: read_blob_find [OF st(1)])
  with ok(1) st(1) t(1,2,4) read_blob_mono [OF g] show ?thesis by blast
qed

lemma write_then_read_ok:
  assumes "store_ok X s" and "write_blob_at_path X root path data s = (Inr root', u)"
  shows "store_ok X u"
proof -
  obtain parts h s1 where st: "store_ok X s1" "rewrite_insert X parts h EFile mode_regular root s1 = (Inr root', u)"
    by (rule write_blob_steps [OF assms(2,1)]) (rule that)
  from rewrite_insert_spec [OF st(2,1)] show ?thesis by simp
qed

text \<open>The demo repository with an empty tree in it, and a file written into that tree.\<close>

definition demo_root :: hash where
  "demo_root = raw_hash demo (tree_raw tree_new)"

definition demo_file :: tree_entry where
  "demo_file = entry_for ''a.txt'' EFile mode_regular (raw_hash demo (blob_raw [1, 2]))"

definition demo_raws :: "raw_object list" where
  "demo_raws = [tree_raw tree_new, blob_raw [1, 2], tree_raw \<lparr>entries = [demo_file]\<rparr>]"

lemma demo_raws_distinct: "distinct (map (raw_hash demo) demo_raws)"
  by code_simp

lemma demo_raws_free: "remdups demo_raws = demo_raws" "collision_free demo (puts demo_raws)"
  using demo_raws_distinct collision_free_distinct [of demo "puts demo_raws"]
  by (simp_all add: distinct_map distinct_remdups_id)

lemma demo_file_wf: "tree_wf \<lparr>entries = [demo_file]\<rparr>" "validate_name (te_name demo_file) = Inr ()"
  by (simp_all add: demo_file_def entry_for_def tree_wf_def names_ok_def validate_name_def)

lemma demo_puts_ok: "store_ok demo (puts [tree_raw tree_new])" "store_ok demo (puts demo_raws)"
  by (rule puts_store_ok; use tree_new_wf demo_file_wf in \<open>auto simp: demo_raws_def\<close>)+

lemma demo_split: "split_path ''a.txt'' = Inr [''a.txt'']"
  by (simp add: split_path_def)

lemma demo_load:
  "load_tree demo demo_root (puts [tree_raw tree_new]) = Inr tree_new"
  "load_tree demo demo_root (puts [tree_raw tree_new, blob_raw [1, 2]]) = Inr tree_new"
  "load_tree demo (raw_hash demo (tree_raw \<lparr>entries = [demo_file]\<rparr>)) (puts demo_raws) = Inr \<lparr>entries = [demo_file]\<rparr>"
proof -
  have d: "distinct (map (raw_hash demo) (remdups (take n demo_raws)))" for n
    using demo_raws_distinct by (metis distinct_take distinct_map distinct_remdups_id take_map)
  show "load_tree demo demo_root (puts [tree_raw tree_new]) = Inr tree_new"
    using puts_get [of "[tree_raw tree_new]" "[]"] d [of 1]
    by (simp add: load_tree_def demo_root_def demo_raws_def)
  show "load_tree demo demo_root (puts [tree_raw tree_new, blob_raw [1, 2]]) = Inr tree_new"
    using puts_get [of "[tree_raw tree_new]" "[blob_raw [1, 2]]"] d [of 2]
    by (simp add: load_tree_def demo_root_def demo_raws_def numeral_2_eq_2)
  show "load_tree demo (raw_hash demo (tree_raw \<lparr>entries = [demo_file]\<rparr>)) (puts demo_raws) = Inr \<lparr>entries = [demo_file]\<rparr>"
    using puts_get [of demo_raws "[]" "tree_raw \<lparr>entries = [demo_file]\<rparr>"] d [of 3]
    by (simp add: load_tree_def demo_raws_def)
qed

lemma demo_write:
  "write_blob_at_path demo demo_root ''a.txt'' [1, 2] (puts [tree_raw tree_new])
     = (Inr (raw_hash demo (tree_raw \<lparr>entries = [demo_file]\<rparr>)), puts demo_raws)"
proof -
  have ins: "tree_insert tree_new demo_file = Inr \<lparr>entries = [demo_file]\<rparr>"
    using demo_file_wf(2) by (simp add: tree_insert_def tree_new_def binary_search_def)
  then show ?thesis
    by (simp add: write_blob_at_path_def eff_simps demo_split store_demo put_raw_puts demo_load
        demo_raws_def demo_file_def entry_for_def)
qed

theorem write_then_read_witness:
  "read_blob_at_path demo (raw_hash demo (tree_raw \<lparr>entries = [demo_file]\<rparr>)) ''a.txt'' (puts demo_raws) = Inr [1, 2]"
  using write_then_read [OF demo_puts_ok(1) demo_write demo_raws_free(2)] by blast

text \<open>C20. Deleting a path that exists gives a new root in which the path is gone and no directory on
  the way to it is empty; every path beside it finds the entry it found before, and the old root
  is unchanged. Deleting a path that does not exist is an error.\<close>

theorem delete_then_gone:
  assumes "store_ok X s" and "delete_at_path X root path s = (Inr root', u)" and "collision_free X u"
  shows "store_ok X u \<and> (\<exists>e. read_blob_at_path X root' path u = Inl e)
    \<and> (\<exists>parts t t'. split_path path = Inr parts \<and> load_tree X root u = Inr t \<and> load_tree X root' u = Inr t'
        \<and> find_at X u t parts \<noteq> None \<and> find_at X u t' parts = None \<and> pruned X u t' parts
        \<and> (\<forall>q. \<not> prefix parts q \<longrightarrow> \<not> prefix q parts \<longrightarrow> find_at X u t' q = find_at X u t q))"
proof -
  obtain parts where st: "split_path path = Inr parts" "rewrite_remove X parts root s = (Inr root', u)"
    using assms(2) by (auto simp: delete_at_path_def eff_iffs)
  note spec = rewrite_remove_spec [OF st(2) assms(1)]
  have ok: "store_ok X u" using spec by simp
  obtain t t' where t: "load_tree X root u = Inr t" "load_tree X root' u = Inr t'"
      "find_at X u t parts \<noteq> None" "find_at X u t' parts = None" "pruned X u t' parts"
      "\<forall>q. \<not> prefix parts q \<longrightarrow> \<not> prefix q parts \<longrightarrow> find_at X u t' q = find_at X u t q"
    using conjunct2 [OF conjunct2 [OF spec], rule_format, OF store_grows_refl assms(3)] by blast
  have "\<exists>e. read_blob_at_path X root' path u = Inl e"
  proof (cases "read_blob_at_path X root' path u")
    case (Inr d)
    with t(2,4) show ?thesis by (simp add: read_blob_find [OF st(1)])
  qed simp
  with ok st(1) t show ?thesis by blast
qed

lemma demo_delete:
  "delete_at_path demo (raw_hash demo (tree_raw \<lparr>entries = [demo_file]\<rparr>)) ''a.txt'' (puts demo_raws)
     = (Inr demo_root, puts (demo_raws @ [tree_raw tree_new]))"
  by (simp add: delete_at_path_def eff_simps demo_split demo_load store_demo put_raw_puts demo_root_def)
    (simp add: demo_file_def entry_for_def tree_new_def store_demo put_raw_puts)

theorem delete_then_gone_witness:
  "\<exists>e. read_blob_at_path demo demo_root ''a.txt'' (puts (demo_raws @ [tree_raw tree_new])) = Inl e"
proof -
  have "raw_hash demo ` set (demo_raws @ [tree_raw tree_new]) = raw_hash demo ` set demo_raws"
      "set (demo_raws @ [tree_raw tree_new]) = set demo_raws"
    by (auto simp: demo_raws_def)
  then have "collision_free demo (puts (demo_raws @ [tree_raw tree_new]))"
    using demo_raws_free(2) by (simp add: collision_free_def)
  from delete_then_gone [OF demo_puts_ok(2) demo_delete this] show ?thesis by blast
qed

section \<open>Scanning and rendering\<close>

text \<open>C2. Scanning a working directory stores its visible contents, whatever order the file system
  lists them in, and rendering the resulting tree into a fresh directory gives those contents
  back: the files with their bytes and execute bits, the links, the directories, and nothing else.
  The tree's hash is a function of those contents alone.\<close>

theorem scan_render_roundtrip:
  fixes s :: "'r session_scheme"
  assumes "store_ok X s" and "scannable opts (WDir ch)"
  shows "\<exists>u. scan X opts dir (Some (WDir ch)) s = (Inr (dir_hash X (norm_children opts ch)), u) \<and> store_ok X u
    \<and> (collision_free X u \<longrightarrow>
         render_tree_into X u mopts dst (dir_hash X (norm_children opts ch)) []
           = (Inr (tally (WDir (norm_children opts ch)) stats_zero), norm_children opts ch))"
proof -
  obtain u where u: "scan_dir X opts dir ch s = (Inr (dir_hash X (norm_children opts ch)), u)"
      "store_ok X u" "store_grows s u"
      "\<forall>f. store_grows u f \<longrightarrow> collision_free X f \<longrightarrow>
         tree_shows X f (dir_hash X (norm_children opts ch)) (norm_children opts ch)"
    using scan_dir_shows [OF assms(2,1)] by blast
  have "render_tree_into X u mopts dst (dir_hash X (norm_children opts ch)) []
      = (Inr (tally (WDir (norm_children opts ch)) stats_zero), norm_children opts ch)" if "collision_free X u"
    using render_tree_into_shows [OF u(2) u(4) [rule_format, OF store_grows_refl that], of "[]" mopts dst] by simp
  with u show ?thesis by (auto simp: scan_def)
qed

text \<open>A directory with an executable file, a link and an ignored entry.\<close>

definition demo_dir :: "(string \<times> wnode) list" where
  "demo_dir = [(''l'', WLink ''b''), (''.tig'', WDir []), (''b'', WFile [7] True)]"

definition demo_scanned :: tree where
  "demo_scanned = \<lparr>entries =
     [entry_for ''b'' EFile mode_exec (raw_hash demo (blob_raw [7])),
      entry_for ''l'' ESymlink mode_symlink (raw_hash demo (blob_raw [98]))]\<rparr>"

definition demo_scan_raws :: "raw_object list" where
  "demo_scan_raws = [blob_raw [7], blob_raw [98], tree_raw demo_scanned]"

lemma demo_scan_raws_free: "collision_free demo (puts demo_scan_raws)"
proof -
  have "distinct (map (raw_hash demo) (remdups demo_scan_raws))" by code_simp
  then show ?thesis by (intro collision_free_distinct) simp
qed

lemma demo_dir_scannable: "scannable scan_options_default (WDir demo_dir)"
  by code_simp

lemma demo_dir_norm:
  "norm_children scan_options_default demo_dir = [(''b'', WFile [7] True), (''l'', WLink ''b'')]"
  by code_simp

lemma demo_scan:
  "scan demo scan_options_default ''/w'' (Some (WDir demo_dir)) demo_repo
     = (Inr (raw_hash demo (tree_raw demo_scanned)), puts demo_scan_raws)"
proof -
  have c: "scan_children scan_options_default demo_dir = Inr [(''b'', WFile [7] True), (''l'', WLink ''b'')]"
    by code_simp
  have l: "str_bytes (lossy ''b'') = [98]" by code_simp
  have i: "tree_insert tree_new (entry_for ''b'' EFile mode_exec h) = Inr \<lparr>entries = [entry_for ''b'' EFile mode_exec h]\<rparr>" for h
    by (simp add: tree_insert_def tree_new_def binary_search_def entry_for_def validate_name_def)
  have i2: "tree_insert \<lparr>entries = [entry_for ''b'' EFile mode_exec h]\<rparr> (entry_for ''l'' ESymlink mode_symlink k)
      = Inr \<lparr>entries = [entry_for ''b'' EFile mode_exec h, entry_for ''l'' ESymlink mode_symlink k]\<rparr>" for h k
    by (simp add: tree_insert_def binary_search_def entry_for_def validate_name_def bs_window.simps less_char_def)
  show ?thesis
    by (simp add: scan_def scan_dir_eq c build_entry_def eff_simps store_demo puts_Nil put_raw_puts l i i2 unix_mode_def
        del: lossy.simps)
      (simp add: demo_scan_raws_def demo_scanned_def)
qed

theorem scan_render_roundtrip_witness:
  "snd (render_tree_into demo (puts demo_scan_raws) materialize_options_default ''/v'' (raw_hash demo (tree_raw demo_scanned)) [])
     = [(''b'', WFile [7] True), (''l'', WLink ''b'')]"
proof -
  obtain u where "scan demo scan_options_default ''/w'' (Some (WDir demo_dir)) demo_repo
        = (Inr (dir_hash demo (norm_children scan_options_default demo_dir)), u)"
      "collision_free demo u \<longrightarrow>
         render_tree_into demo u materialize_options_default ''/v'' (dir_hash demo (norm_children scan_options_default demo_dir)) []
           = (Inr (tally (WDir (norm_children scan_options_default demo_dir)) stats_zero),
              norm_children scan_options_default demo_dir)"
    using scan_render_roundtrip [OF demo_store_ok demo_dir_scannable] by blast
  with demo_scan demo_scan_raws_free show ?thesis by (auto simp: demo_dir_norm)
qed

section \<open>Snapshots\<close>

text \<open>The first snapshot of the demo directory, step by step.\<close>

definition demo_sn :: snapshot where
  "demo_sn = new_snapshot snap_options_default 7 [] (raw_hash demo (tree_raw demo_scanned))"

definition demo_change :: change where
  "demo_change =
     (change_new ''01A'' ''initial work'' (principal_local ''anonymous'') (placeholder_hash demo))
       \<lparr>ch_current := raw_hash demo (snapshot_raw demo_sn), ch_history := [raw_hash demo (snapshot_raw demo_sn)]\<rparr>"

definition demo_snap_op :: op_in_progress where
  "demo_snap_op =
     \<lparr>oip_actor = principal_local ''anonymous'', oip_kind = OkSnap (raw_hash demo (snapshot_raw demo_sn)) None,
      oip_before = [RHead None, RChange ''01A'' None],
      oip_after = [RHead (Some ''01A''), RChange ''01A'' (Some demo_change)]\<rparr>"

definition demo_snap_raws :: "raw_object list" where
  "demo_snap_raws = demo_scan_raws @ [snapshot_raw demo_sn]"

definition demo_snapped :: session where
  "demo_snapped = (puts demo_snap_raws)\<lparr>rchanges := [(''01A'', Json demo_change)], rhead := Some ''01A'',
     rlog := Some (frame_record (put_value (op_value (finalize 0 8 demo_snap_op)))), slog := FileLog 1\<rparr>"

lemma demo_snap_op_small: "length (put_value (op_value (finalize 0 8 demo_snap_op))) < 1000"
  by code_simp

lemma demo_snap_raws_distinct: "distinct (map (raw_hash demo) (remdups demo_snap_raws))"
  by code_simp

lemma demo_snap:
  "snap_now demo 7 8 ''01A'' snap_options_default ''/w'' (Some (WDir demo_dir)) WMain demo_repo
     = (Inr (Snapped (raw_hash demo (snapshot_raw demo_sn)) (raw_hash demo (tree_raw demo_scanned)) demo_change True, WMain),
        demo_snapped)"
proof -
  have o: "scan_opts_for snap_options_default = scan_options_default"
    by (simp add: scan_opts_for_def snap_options_default_def scan_options_default_def)
  have w: "cbor_write demo v = Some (put_value v)" for v by (simp add: demo_def demo_write_def)
  have d: "so_author snap_options_default = principal_local ''anonymous''" "so_message snap_options_default = None"
      "so_initial_description snap_options_default = ''initial work''"
    by (simp_all add: snap_options_default_def)
  have tr: "trim ''01A'' = ''01A''" by code_simp
  have b: "\<not> 2 ^ 32 \<le> length (put_value (op_value (finalize 0 8 demo_snap_op)))"
    using demo_snap_op_small by simp
  show ?thesis
    using b
    by (simp add: snap_now_def eff_simps o demo_scan current_change_id_def head_def snap_commit_def store_demo
        put_raw_puts Let_def set_current_change_id_def put_change_def set_head_def capture_workspace_ref_def
        log_append_def w d tr demo_sn_def [symmetric] change_new_def demo_change_def
        demo_snap_op_def demo_snapped_def demo_snap_raws_def)
qed

lemma demo_snapped_log: "log_ok demo demo_snapped [finalize 0 8 demo_snap_op]"
proof -
  have w: "cbor_write demo (op_value p) = Some (put_value (op_value p))" for p by (simp add: demo_def demo_write_def)
  have "read_ops demo 0 ([] @ frame_record (put_value (op_value (finalize 0 8 demo_snap_op)))) = Inr ([] @ [finalize 0 8 demo_snap_op])"
    by (rule read_ops_append [OF demo_cbor w]) (use demo_snap_op_small in auto)
  then show ?thesis
    by (simp add: log_ok_def log_list_def read_all_def demo_snapped_def numbered_def finalize_def)
qed

lemma demo_scanned_wf: "tree_wf demo_scanned"
  by (simp add: demo_scanned_def entry_for_def tree_wf_def names_ok_def validate_name_def less_char_def)

lemma demo_snapped_ok: "store_ok demo demo_snapped"
proof -
  have "store_ok demo (puts demo_snap_raws)"
    by (rule puts_store_ok) (use demo_scanned_wf in \<open>auto simp: demo_snap_raws_def demo_scan_raws_def\<close>)
  moreover have "ofiles demo_snapped = ofiles (puts demo_snap_raws)" "owritten demo_snapped = owritten (puts demo_snap_raws)"
    by (simp_all add: demo_snapped_def)
  ultimately show ?thesis using store_ok_same by blast
qed

lemma demo_snapped_load: "load_snapshot demo (ch_current demo_change) demo_snapped = Inr demo_sn"
proof -
  have "obj_get demo (raw_hash demo (snapshot_raw demo_sn)) (puts (demo_snap_raws @ [])) = Inr (snapshot_raw demo_sn)"
    by (rule puts_get) (use demo_snap_raws_distinct in \<open>simp_all add: demo_snap_raws_def\<close>)
  then show ?thesis
    by (simp add: load_snapshot_def demo_change_def demo_snapped_def obj_get_def)
qed

lemma demo_opts: "scan_opts_for snap_options_default = scan_options_default"
  by (simp add: scan_opts_for_def snap_options_default_def scan_options_default_def)

lemma demo_snap_scannable: "scannable (scan_opts_for snap_options_default) (WDir demo_dir)"
  unfolding demo_opts by (rule demo_dir_scannable)

text \<open>C30. A snapshot of a workspace with a current change scans it; when the tree is the one of the
  current snapshot and neither a message nor force is given, nothing but objects is written.
  Otherwise exactly the change moves: it advances to a new snapshot whose parent is the old one
  and whose tree shows the directory's visible contents, and the operation is appended to the log
  (or its record is too long, and the change has moved without being logged).\<close>

theorem snapshot_records_workspace:
  fixes s :: "'r session_scheme"
  assumes "store_ok X s" and "log_ok X s ops" and "length ops + 1 < 2 ^ 63"
    and "scannable (scan_opts_for opts) (WDir ch)"
    and "current_change_id kind s = Some i" and "get_change i s = Inr c" and "ch_id c = i"
    and "load_snapshot X (ch_current c) s = Inr prev"
    and vis: "vis_ch = norm_children (scan_opts_for opts) ch"
  shows "\<exists>r t. snap_now X t1 t2 cid opts dir (Some (WDir ch)) kind s = (r, t) \<and> store_ok X t
    \<and> (if sn_tree prev = dir_hash X vis_ch \<and> so_message opts = None \<and> \<not> so_force opts
       then r = Inr (Unchanged c, kind) \<and> refs_view t = refs_view s \<and> log_ok X t ops
       else \<exists>h. refs_view t = (refs_view s)(KyChange i := Inr (RChange i (Some (advance c h))))
         \<and> (collision_free X t \<longrightarrow> tree_shows X t (dir_hash X vis_ch) vis_ch
             \<and> load_snapshot X h t = Inr (new_snapshot opts t1 [ch_current c] (dir_hash X vis_ch)))
         \<and> ((\<exists>q. r = Inr (Snapped h (dir_hash X vis_ch) (advance c h) False, kind)
               \<and> log_ok X t (ops @ [q]) \<and> op_kind_of q = OkSnap h (so_message opts))
            \<or> r = Inl (FStore (SCorrupt OplogRecordTooLarge)) \<and> log_ok X t ops))"
proof -
  let ?th = "dir_hash X vis_ch"
  obtain u where u: "scan X (scan_opts_for opts) dir (Some (WDir ch)) s = (Inr ?th, u)"
      "store_ok X u" "store_grows s u" "objects_only s u" "log_ok X u ops"
      "\<And>f. store_grows u f \<Longrightarrow> collision_free X f \<Longrightarrow> tree_shows X f ?th vis_ch"
    using scan_workspace [OF assms(1,2,4)] unfolding vis by blast
  note step = snap_now_current [OF u(1,4,3) assms(5,6,8), of t1 t2 cid]
  have rv: "refs_view u = refs_view s" by (rule objects_only_refs [OF u(4)])
  show ?thesis
  proof (cases "sn_tree prev = ?th \<and> so_message opts = None \<and> \<not> so_force opts")
    case True
    with step u rv show ?thesis by (intro exI [of _ "Inr (Unchanged c, kind)"] exI [of _ u]) simp
  next
    case False
    have nf: "False \<longrightarrow> kind = WMain \<and> trimmed (ch_id c)" by simp
    obtain h t r where sc: "snap_commit X t1 t2 opts kind ?th c [ch_current c] False (Some c) u = (r, t)"
        "store_ok X t" "store_grows u t"
        "\<forall>f. store_grows t f \<longrightarrow> collision_free X f \<longrightarrow>
           load_snapshot X h f = Inr (new_snapshot opts t1 [ch_current c] ?th)"
        "refs_view t = view_update (snap_sets False (snapped_change False c h)) (refs_view u)"
        "(\<exists>q. r = Inr (Snapped h ?th (snapped_change False c h) False, kind)
          \<and> log_ok X t (ops @ [q]) \<and> op_kind_of q = OkSnap h (so_message opts)
          \<and> op_before q = [capture_workspace_ref kind u, RChange (ch_id c) (Some c)])
         \<or> r = Inl (FStore (SCorrupt OplogRecordTooLarge)) \<and> log_ok X t ops"
      using snap_commit_spec [where fresh = False and opts = opts and kind = kind and tree_h = ?th and c = c
          and parents = "[ch_current c]" and old = "Some c" and ?t1.0 = t1 and ?t2.0 = t2, OF u(2,5) assms(3) nf]
      by (elim exE conjE) (rule that)
    have adv: "snapped_change False c h = advance c h" by (simp add: snapped_change_def)
    have view: "refs_view t = (refs_view s)(KyChange i := Inr (RChange i (Some (advance c h))))"
      using sc(5) assms(7) by (simp add: adv snap_sets_def rv)
    have reads: "collision_free X t \<longrightarrow> tree_shows X t ?th vis_ch
        \<and> load_snapshot X h t = Inr (new_snapshot opts t1 [ch_current c] ?th)"
      using sc(4) u(6) [OF sc(3)] store_grows_refl by blast
    have "\<exists>h. refs_view t = (refs_view s)(KyChange i := Inr (RChange i (Some (advance c h))))
         \<and> (collision_free X t \<longrightarrow> tree_shows X t ?th vis_ch
             \<and> load_snapshot X h t = Inr (new_snapshot opts t1 [ch_current c] ?th))
         \<and> ((\<exists>q. r = Inr (Snapped h ?th (advance c h) False, kind)
               \<and> log_ok X t (ops @ [q]) \<and> op_kind_of q = OkSnap h (so_message opts))
            \<or> r = Inl (FStore (SCorrupt OplogRecordTooLarge)) \<and> log_ok X t ops)"
      using view reads sc(6) unfolding adv by blast
    with step False sc(1,2) show ?thesis by auto
  qed
qed

theorem snapshot_records_workspace_witness:
  "\<exists>t. snap_now demo 9 9 ''01B'' snap_options_default ''/w'' (Some (WDir demo_dir)) WMain demo_snapped
         = (Inr (Unchanged demo_change, WMain), t) \<and> refs_view t = refs_view demo_snapped"
proof -
  have t: "trim ''01A'' = ''01A''" by code_simp
  have h: "sn_tree demo_sn = dir_hash demo (norm_children scan_options_default demo_dir)"
    using demo_scan scan_workspace [OF demo_store_ok demo_log_ok demo_dir_scannable, of "''/w''"]
    by (auto simp: demo_sn_def new_snapshot_def)
  have "current_change_id WMain demo_snapped = Some ''01A''" "get_change ''01A'' demo_snapped = Inr demo_change"
      "ch_id demo_change = ''01A''"
    by (simp_all add: current_change_id_def head_def demo_snapped_def t get_change_def demo_change_def change_new_def)
  note snapshot_records_workspace [OF demo_snapped_ok demo_snapped_log _ demo_snap_scannable this demo_snapped_load HOL.refl,
      where dir = "''/w''" and ?t1.0 = 9 and ?t2.0 = 9 and cid = "''01B''"]
  moreover have "so_message snap_options_default = None" "\<not> so_force snap_options_default"
    by (simp_all add: snap_options_default_def)
  ultimately show ?thesis by (simp add: demo_opts h) blast
qed

text \<open>C27. Undo after a snapshot takes it back: every reference, of changes, workspaces, bookmarks and
  HEAD, is again what it was before the snapshot, whether the snapshot advanced a change or
  created the first one; the objects stay.\<close>

theorem undo_after_snapshot:
  fixes s :: "'r session_scheme"
  assumes "store_ok X s" and "log_ok X s ops" and "length ops + 2 < 2 ^ 63"
    and "scannable (scan_opts_for opts) (WDir ch)" and "handle_ok kind s"
    and current: "case current_change_id kind s of
        None \<Rightarrow> trimmed cid \<and> get_change cid s = Inl (SNotFound m)
      | Some i \<Rightarrow> (case get_change i s of Inl _ \<Rightarrow> False
          | Inr c \<Rightarrow> ch_id c = i \<and> (case load_snapshot X (ch_current c) s of Inl _ \<Rightarrow> False | Inr _ \<Rightarrow> True))"
    and snap: "snap_now X t1 t2 cid opts dir (Some (WDir ch)) kind s = (Inr (Snapped h th c fresh, kind'), t)"
  shows "\<exists>r t'. undo_once X now actor t = (r, t') \<and> refs_view t' = refs_view s
    \<and> ofiles t' = ofiles t \<and> owritten t' = owritten t
    \<and> ((\<exists>q p. r = Inr (Some \<lparr>uo_undone = q, uo_recorded = p\<rparr>) \<and> op_kind_of q = OkSnap h (so_message opts)
          \<and> undo_stack (ops @ [q, p]) = undo_stack ops)
       \<or> r = Inl (SCorrupt OplogRecordTooLarge))"
proof -
  have len1: "length ops + 1 < 2 ^ 63" using assms(3) by simp
  have tid: "undo_stack (ops @ [q, p]) = undo_stack ops" if "is_undo p" "\<not> is_undo q" for p q
    using that undo_stack_simps(2) [of "ops @ [q]" p] by simp
  let ?th = "dir_hash X (norm_children (scan_opts_for opts) ch)"
  obtain u where u: "scan X (scan_opts_for opts) dir (Some (WDir ch)) s = (Inr ?th, u)"
      "store_ok X u" "store_grows s u" "objects_only s u" "log_ok X u ops"
    using scan_workspace [OF assms(1,2,4)] by blast
  have rv: "refs_view u = refs_view s" by (rule objects_only_refs [OF u(4)])
  have key: "\<exists>r t'. undo_once X now actor t = (r, t') \<and> refs_view t' = refs_view s
      \<and> ofiles t' = ofiles t \<and> owritten t' = owritten t
      \<and> ((\<exists>q p. r = Inr (Some \<lparr>uo_undone = q, uo_recorded = p\<rparr>) \<and> op_kind_of q = OkSnap h (so_message opts)
            \<and> undo_stack (ops @ [q, p]) = undo_stack ops)
         \<or> r = Inl (SCorrupt OplogRecordTooLarge))"
    if com: "snap_commit X t1 t2 opts kind ?th c0 ps fr old u = (Inr (Snapped h th c fresh, kind'), t)"
      and fr: "fr \<longrightarrow> kind = WMain \<and> trimmed (ch_id c0)"
      and old: "refs_view s (KyChange (ch_id c0)) = Inr (RChange (ch_id c0) old)"
        "snap_wf (RChange (ch_id c0) old)" for c0 ps fr old
  proof -
    obtain h' where h': "refs_view t = view_update (snap_sets fr (snapped_change fr c0 h')) (refs_view u)"
        "\<exists>q. log_ok X t (ops @ [q]) \<and> op_kind_of q = OkSnap h (so_message opts)
           \<and> op_before q = [capture_workspace_ref kind u, RChange (ch_id c0) old]"
      using snap_commit_spec [where fresh = fr and opts = opts and kind = kind and tree_h = ?th and c = c0
          and parents = ps and old = old and ?t1.0 = t1 and ?t2.0 = t2, OF u(2,5) len1 fr] com by auto
    then obtain q where q: "log_ok X t (ops @ [q])" "op_kind_of q = OkSnap h (so_message opts)"
        "op_before q = [capture_workspace_ref kind s, RChange (ch_id c0) old]"
      using capture_objects_only [OF u(4)] by auto
    have nu: "\<not> is_undo q" using q(2) by (simp add: is_undo_def)
    have was: "\<forall>x \<in> set (op_before q). snap_wf x \<and> refs_view s (key_of_ref x) = Inr x"
      using q(3) old capture_as_is [OF assms(5)] by simp
    have head: "key_of_ref (capture_workspace_ref WMain s) = KyHead"
      by (simp add: capture_workspace_ref_def)
    have keys: "key_of_ref ` set (snap_sets fr (snapped_change fr c0 h')) \<subseteq> key_of_ref ` set (op_before q)"
      using fr by (auto simp: snap_sets_def q(3) head)
    obtain t' r where t': "undo_once X now actor t = (r, t')" "refs_view t' = refs_view s"
        "ofiles t' = ofiles t" "owritten t' = owritten t"
        "(\<exists>p. r = Inr (Some \<lparr>uo_undone = q, uo_recorded = p\<rparr>) \<and> log_ok X t' (ops @ [q, p])
           \<and> undo_stack (ops @ [q, p]) = undo_stack ops) \<or> r = Inl (SCorrupt OplogRecordTooLarge)"
      using undo_takes_back [OF store_okD(2) [OF assms(1)] q(1) assms(3) nu was h'(1) [unfolded rv] keys] by blast
    with q(2) show ?thesis by blast
  qed
  show ?thesis
  proof (cases "current_change_id kind s")
    case None
    note first = snap_now_first(1) [OF u(1,4) None, of t1 t2 cid] snap_now_first(2) [OF u(1,4) None]
    let ?c = "change_new cid (so_initial_description opts) (so_author opts) (placeholder_hash X)"
    have i: "ch_id ?c = cid" by (simp add: change_new_def)
    show ?thesis
      by (rule key [of ?c "[]" True None])
        (use first snap current None change_view(2) [of cid s m] i in auto)
  next
    case (Some i)
    with current obtain c1 prev where c1: "get_change i s = Inr c1" "ch_id c1 = i"
        "load_snapshot X (ch_current c1) s = Inr prev"
      by (auto split: sum.splits)
    note step = snap_now_current [OF u(1,4,3) Some c1(1,3), of t1 t2 cid]
    have com: "snap_commit X t1 t2 opts kind ?th c1 [ch_current c1] False (Some c1) u = (Inr (Snapped h th c fresh, kind'), t)"
      using step snap by (auto split: if_splits)
    show ?thesis
      by (rule key [OF com]) (use c1 change_view(1) [OF c1(1)] in auto)
  qed
qed

theorem undo_after_snapshot_witness:
  "\<exists>r t. undo_once demo 9 ''local:me'' demo_snapped = (r, t) \<and> refs_view t = refs_view demo_repo"
proof -
  have "case current_change_id WMain demo_repo of
        None \<Rightarrow> trimmed ''01A'' \<and> get_change ''01A'' demo_repo = Inl (SNotFound ''change 01A'')
      | Some i \<Rightarrow> (case get_change i demo_repo of Inl _ \<Rightarrow> False
          | Inr c \<Rightarrow> ch_id c = i \<and> (case load_snapshot demo (ch_current c) demo_repo of Inl _ \<Rightarrow> False | Inr _ \<Rightarrow> True))"
  proof -
    have "trimmed ''01A''" by code_simp
    then show ?thesis by (simp add: current_change_id_def head_def get_change_def)
  qed
  moreover have "handle_ok WMain demo_repo" by (simp add: handle_ok_def)
  ultimately show ?thesis
    using undo_after_snapshot [OF demo_store_ok demo_log_ok demo_small(1) demo_snap_scannable _ _ demo_snap,
        where now = 9 and actor = "''local:me''" and m = "''change 01A''"] by blast
qed

section \<open>What a collection leaves of a change\<close>

text \<open>C28. After a collection, every snapshot in the history of every live change still loads, every file
  in its tree still reads the same bytes, and a tree without symbolic links still shows exactly
  the directory it showed before.\<close>

theorem live_contents_survive:
  assumes "hex_laws X" and "objs_ok X s" and "collect_garbage X opts s = (Inr smry, t)"
    and "i \<in> set (list_changes s)" and "get_change i s = Inr c" and "h \<in> set (change_roots c)"
    and "load_snapshot X h s = Inr sn"
  shows "load_snapshot X h t = Inr sn
    \<and> (\<forall>path data. read_blob_at_path X (sn_tree sn) path s = Inr data \<longrightarrow>
         read_blob_at_path X (sn_tree sn) path t = Inr data)
    \<and> (\<forall>ch. tree_shows X s (sn_tree sn) ch \<longrightarrow> no_links (WDir ch) \<longrightarrow> tree_shows X t (sn_tree sn) ch)"
proof (cases "gc_dry_run opts")
  case True
  with collect_garbage_dry [OF assms(3)] assms(7) show ?thesis by simp
next
  case False
  obtain roots where r: "gc_roots X opts s = Inr roots"
      "\<And>h. reachable X s (set roots) h \<Longrightarrow> obj_get X h t = obj_get X h s"
    by (rule collect_garbage_exact [OF assms(1-3) False]) (rule that)
  have kr: "keeps_reachable X (set roots) s t" using r(2) by (simp add: keeps_reachable_def)
  have root: "reachable X s (set roots) h"
    using change_root [OF r(1) assms(4,5)] assms(6) by (auto intro: reachable.root)
  have tree: "reachable X s (set roots) (sn_tree sn)"
    by (rule reachable.step [OF root load_snapshot_edges(1) [OF assms(7)]])
  from keeps_loads(3) [OF kr root] assms(7) read_blob_kept [OF _ kr tree] tree_shows_kept [OF _ _ kr tree]
  show ?thesis by (simp del: no_links.simps)
qed

lemma demo_gc_edges:
  "obj_get demo (raw_hash demo (snapshot_raw demo_sn)) demo_snapped = Inr (snapshot_raw demo_sn)"
  "obj_get demo (raw_hash demo (tree_raw demo_scanned)) demo_snapped = Inr (tree_raw demo_scanned)"
  "obj_get demo (raw_hash demo (blob_raw [7])) demo_snapped = Inr (blob_raw [7])"
  "obj_get demo (raw_hash demo (blob_raw [98])) demo_snapped = Inr (blob_raw [98])"
proof -
  have "obj_get demo (raw_hash demo raw) demo_snapped = Inr raw" if "raw \<in> set demo_snap_raws" for raw
    using puts_get [of demo_snap_raws "[]" raw] demo_snap_raws_distinct that
    by (simp add: demo_snapped_def obj_get_def)
  then show "obj_get demo (raw_hash demo (snapshot_raw demo_sn)) demo_snapped = Inr (snapshot_raw demo_sn)"
    "obj_get demo (raw_hash demo (tree_raw demo_scanned)) demo_snapped = Inr (tree_raw demo_scanned)"
    "obj_get demo (raw_hash demo (blob_raw [7])) demo_snapped = Inr (blob_raw [7])"
    "obj_get demo (raw_hash demo (blob_raw [98])) demo_snapped = Inr (blob_raw [98])"
    by (simp_all add: demo_snap_raws_def demo_scan_raws_def)
qed

lemma demo_hashes_distinct:
  "distinct [raw_hash demo (blob_raw [7]), raw_hash demo (blob_raw [98]), raw_hash demo (tree_raw demo_scanned),
     raw_hash demo (snapshot_raw demo_sn)]"
  by code_simp

lemma demo_gc_roots: "gc_roots demo gc_options_default demo_snapped = Inr [raw_hash demo (snapshot_raw demo_sn)]"
proof -
  have "log_list demo demo_snapped = Inr [finalize 0 8 demo_snap_op]" using demo_snapped_log by (simp add: log_ok_def)
  moreover have "list_changes demo_snapped = [''01A'']"
    by (simp add: list_changes_def demo_snapped_def starts_with_def)
  moreover have "get_change ''01A'' demo_snapped = Inr demo_change"
    by (simp add: get_change_def demo_snapped_def)
  moreover have "op_roots (finalize 0 8 demo_snap_op) = replicate 3 (raw_hash demo (snapshot_raw demo_sn))"
    by (simp add: op_roots_def finalize_def demo_snap_op_def change_roots_def demo_change_def numeral_3_eq_3)
  moreover have "change_roots demo_change = replicate 2 (raw_hash demo (snapshot_raw demo_sn))"
    by (simp add: change_roots_def demo_change_def numeral_2_eq_2)
  ultimately show ?thesis by (simp add: gc_roots_def gc_options_default_def numeral_3_eq_3 numeral_2_eq_2)
qed

lemma demo_tree_kind: "raw_kind (tree_raw t) = KTree"
  using tree_codec.encode_kind [OF encode_raw(1) [unfolded encode_tree_def]] .

lemma demo_children:
  "gc_children demo (snapshot_raw demo_sn) = Inr [raw_hash demo (tree_raw demo_scanned)]"
  "gc_children demo (tree_raw demo_scanned) = Inr [raw_hash demo (blob_raw [7])]"
  "gc_children demo (blob_raw [7]) = Inr []"
  by (simp_all add: gc_children_def demo_tree_kind, simp_all add: demo_sn_def new_snapshot_def
      demo_scanned_def entry_for_def pushed_kind_def)

lemma demo_gc_mark:
  "gc_mark demo demo_snapped [] [raw_hash demo (snapshot_raw demo_sn)] = Inr
     [raw_hash demo (blob_raw [7]), raw_hash demo (tree_raw demo_scanned), raw_hash demo (snapshot_raw demo_sn)]"
  using demo_hashes_distinct by (auto simp: demo_gc_edges demo_children)

lemma demo_collected:
  obtains smry t where "collect_garbage demo gc_options_default demo_snapped = (Inr smry, t)"
    "\<And>h. obj_has demo h t \<longleftrightarrow> obj_has demo h demo_snapped \<and>
       h \<in> {raw_hash demo (blob_raw [7]), raw_hash demo (tree_raw demo_scanned), raw_hash demo (snapshot_raw demo_sn)}"
    "\<And>h. h \<in> {raw_hash demo (blob_raw [7]), raw_hash demo (tree_raw demo_scanned), raw_hash demo (snapshot_raw demo_sn)}
       \<Longrightarrow> obj_get demo h t = obj_get demo h demo_snapped"
proof -
  obtain smry t where c: "collect_garbage demo gc_options_default demo_snapped = (Inr smry, t)"
    using collect_garbage_total [OF demo_gc_roots demo_gc_mark] by blast
  note mark = gc_mark_exact [OF demo_gc_mark]
  have nd: "\<not> gc_dry_run gc_options_default" by (simp add: gc_options_default_def)
  obtain roots where r: "gc_roots demo gc_options_default demo_snapped = Inr roots"
      "\<And>h. reachable demo demo_snapped (set roots) h \<Longrightarrow> obj_get demo h t = obj_get demo h demo_snapped"
      "\<And>h. obj_has demo h t \<longleftrightarrow> obj_has demo h demo_snapped \<and> reachable demo demo_snapped (set roots) h"
    by (rule collect_garbage_exact [OF demo_hex store_okD(3) [OF demo_snapped_ok] c nd]) (rule that)
  have "roots = [raw_hash demo (snapshot_raw demo_sn)]" using r(1) demo_gc_roots by simp
  with that [OF c] r(2,3) mark show ?thesis by auto
qed

theorem live_contents_survive_witness:
  "\<exists>smry t. collect_garbage demo gc_options_default demo_snapped = (Inr smry, t)
     \<and> read_blob_at_path demo (sn_tree demo_sn) ''b'' t = Inr [7]"
proof -
  obtain smry t where c: "collect_garbage demo gc_options_default demo_snapped = (Inr smry, t)"
    by (rule demo_collected) (rule that)
  have i: "''01A'' \<in> set (list_changes demo_snapped)" "get_change ''01A'' demo_snapped = Inr demo_change"
    by (simp_all add: list_changes_def demo_snapped_def starts_with_def get_change_def)
  have h: "ch_current demo_change \<in> set (change_roots demo_change)" by (simp add: change_roots_def)
  have e: "tree_get demo_scanned ''b'' = Some (entry_for ''b'' EFile mode_exec (raw_hash demo (blob_raw [7])))"
    by (simp add: tree_get_map [OF demo_scanned_wf] tree_map_def) (simp add: demo_scanned_def entry_for_def)
  have "read_blob_at_path demo (sn_tree demo_sn) ''b'' demo_snapped = Inr [7]"
    by (simp add: read_blob_at_path_def split_path_def lookup_entry_def load_tree_def load_blob_def
        demo_sn_def new_snapshot_def demo_gc_edges e) (simp add: entry_for_def demo_gc_edges)
  with c live_contents_survive [OF demo_hex store_okD(3) [OF demo_snapped_ok] c i h demo_snapped_load]
  show ?thesis by blast
qed

lemma demo_render:
  assumes "load_tree demo (raw_hash demo (tree_raw demo_scanned)) s = Inr demo_scanned"
    and "load_blob demo (raw_hash demo (blob_raw [7])) s = Inr \<lparr>blob_bytes = [7]\<rparr>"
  shows "load_blob demo (raw_hash demo (blob_raw [98])) s = Inr \<lparr>blob_bytes = [98]\<rparr> \<Longrightarrow>
      render_tree_into demo s materialize_options_default ''/v'' (raw_hash demo (tree_raw demo_scanned)) []
        = (Inr (tally (WDir [(''b'', WFile [7] True), (''l'', WLink ''b'')]) stats_zero), [(''b'', WFile [7] True), (''l'', WLink ''b'')])"
proof -
  have es: "entries demo_scanned = [entry_for ''b'' EFile mode_exec (raw_hash demo (blob_raw [7])),
      entry_for ''l'' ESymlink mode_symlink (raw_hash demo (blob_raw [98]))]"
    by (simp add: demo_scanned_def)
  have u: "bytes_str [98] = ''b''" "valid_utf8 ''b''" by code_simp+
  have x: "is_executable mode_exec" by code_simp
  show "load_blob demo (raw_hash demo (blob_raw [98])) s = Inr \<lparr>blob_bytes = [98]\<rparr> \<Longrightarrow>
      render_tree_into demo s materialize_options_default ''/v'' (raw_hash demo (tree_raw demo_scanned)) []
        = (Inr (tally (WDir [(''b'', WFile [7] True), (''l'', WLink ''b'')]) stats_zero), [(''b'', WFile [7] True), (''l'', WLink ''b'')])"
    using assms
    by (simp add: render_tree_into_def tree_fuel_def es entry_for_def render_file_def render_symlink_def write_file_def
        make_symlink_def count_def eff_simps x u tally_def stats_zero_def
        del: valid_utf8.simps)
qed

lemma forE_all: "forE f xs s = (Inr (), t) \<Longrightarrow> x \<in> set xs \<Longrightarrow> \<exists>u v. f x u = (Inr (), v)"
proof (induction xs arbitrary: s)
  case (Cons y ys)
  obtain u where "f y s = (Inr (), u)" "forE f ys u = (Inr (), t)"
    using Cons.prems(1) unfolding forE_Cons_Inr by blast
  with Cons show ?case by auto
qed simp

text \<open>A tree renders only if the target of every link in it loads.\<close>

lemma render_needs_links:
  assumes "load_tree X h s = Inr tr" and "e \<in> set (entries tr)" and "te_kind e = ESymlink"
    and "load_blob X (te_target e) s = Inl err"
  shows "\<exists>err'. fst (render_tree_into X s opts dst h ch) = Inl err'"
proof -
  obtain r u where r: "render_tree X s opts (tree_fuel s) dst [] h (ch, stats_zero) = (r, u)" by (rule prod.exhaust)
  have "r \<noteq> Inr ()"
  proof
    assume "r = Inr ()"
    then obtain x y where "render_symlink X s e x = (Inr (), y)"
      using forE_all [OF _ assms(2)] r assms(1,3) by (fastforce simp: tree_fuel_def eff_simps Let_def)
    then show False using assms(4) by (simp add: render_symlink_def eff_simps)
  qed
  with r show ?thesis by (cases r) (auto simp: render_tree_into_def split: prod.split)
qed

text \<open>C32. The exception is real. A symbolic link's target is stored as a blob, but marking does not follow
  link entries: whenever a collection comes across a live tree with a link whose target nothing
  else that is live refers to, the tree itself is kept, the target is removed, and the tree can
  no longer be rendered, with any options and into any directory.\<close>

theorem symlink_target_collected:
  assumes "hex_laws X" and "objs_ok X s" and "collect_garbage X opts s = (Inr smry, t)" and "\<not> gc_dry_run opts"
    and "gc_roots X opts s = Inr roots" and "reachable X s (set roots) h" and "load_tree X h s = Inr tr"
    and "e \<in> set (entries tr)" and "te_kind e = ESymlink" and "\<not> reachable X s (set roots) (te_target e)"
  shows "load_tree X h t = Inr tr \<and> load_blob X (te_target e) t = Inl (FStore (SNotFound (to_hex X (te_target e))))
    \<and> (\<forall>mopts dst ch. \<exists>err. fst (render_tree_into X t mopts dst h ch) = Inl err)"
proof -
  obtain roots' where r: "gc_roots X opts s = Inr roots'"
      "\<And>h. reachable X s (set roots') h \<Longrightarrow> obj_get X h t = obj_get X h s"
      "\<And>h. obj_has X h t \<longleftrightarrow> obj_has X h s \<and> reachable X s (set roots') h"
    by (rule collect_garbage_exact [OF assms(1-4)]) (rule that)
  have eq: "roots' = roots" using r(1) assms(5) by simp
  have tree: "load_tree X h t = Inr tr" using r(2) [of h] assms(6,7) eq by (simp add: load_tree_def)
  have "\<not> obj_has X (te_target e) t" using r(3) assms(10) eq by simp
  then have blob: "load_blob X (te_target e) t = Inl (FStore (SNotFound (to_hex X (te_target e))))"
    by (simp add: load_blob_def obj_get_def obj_has_def)
  from render_needs_links [OF tree assms(8,9) blob] tree blob show ?thesis by blast
qed

text \<open>A live change of the demo repository renders before the collection and fails after it.\<close>

theorem symlink_target_collected_witness:
  "\<exists>smry t. collect_garbage demo gc_options_default demo_snapped = (Inr smry, t)
     \<and> head demo_snapped = Some ''01A'' \<and> get_change ''01A'' t = Inr demo_change
     \<and> load_snapshot demo (ch_current demo_change) t = Inr demo_sn
     \<and> fst (render_tree_into demo demo_snapped materialize_options_default ''/v'' (sn_tree demo_sn) [])
         = Inr (tally (WDir [(''b'', WFile [7] True), (''l'', WLink ''b'')]) stats_zero)
     \<and> (\<exists>err. fst (render_tree_into demo t materialize_options_default ''/v'' (sn_tree demo_sn) []) = Inl err)"
proof -
  obtain smry t where c: "collect_garbage demo gc_options_default demo_snapped = (Inr smry, t)"
    and has: "\<And>h. obj_has demo h t \<longleftrightarrow> obj_has demo h demo_snapped \<and>
       h \<in> {raw_hash demo (blob_raw [7]), raw_hash demo (tree_raw demo_scanned), raw_hash demo (snapshot_raw demo_sn)}"
    and get: "\<And>h. h \<in> {raw_hash demo (blob_raw [7]), raw_hash demo (tree_raw demo_scanned), raw_hash demo (snapshot_raw demo_sn)}
       \<Longrightarrow> obj_get demo h t = obj_get demo h demo_snapped"
    by (rule demo_collected) (rule that)
  have "refs_view t (KyChange ''01A'') = Inr (RChange ''01A'' (Some demo_change))"
    using collect_garbage_kept(2) [OF demo_hex store_okD(3) [OF demo_snapped_ok] c]
    by (simp add: gc_options_default_def refs_view_simps get_change_def demo_snapped_def)
  then have ch: "get_change ''01A'' t = Inr demo_change"
    by (auto simp: refs_view_simps split: sum.splits store_error.splits)
  have hd: "head demo_snapped = Some ''01A''"
  proof -
    have "trim ''01A'' = ''01A''" by code_simp
    then show ?thesis by (simp add: head_def demo_snapped_def)
  qed
  have th: "sn_tree demo_sn = raw_hash demo (tree_raw demo_scanned)" by (simp add: demo_sn_def new_snapshot_def)
  have "render_tree_into demo demo_snapped materialize_options_default ''/v'' (sn_tree demo_sn) []
      = (Inr (tally (WDir [(''b'', WFile [7] True), (''l'', WLink ''b'')]) stats_zero), [(''b'', WFile [7] True), (''l'', WLink ''b'')])"
    unfolding th
    by (rule demo_render(1)) (simp_all add: load_tree_def load_blob_def demo_gc_edges)
  moreover have "\<exists>err. fst (render_tree_into demo t materialize_options_default ''/v'' (sn_tree demo_sn) []) = Inl err"
  proof -
    let ?e = "entry_for ''l'' ESymlink mode_symlink (raw_hash demo (blob_raw [98]))"
    note mark = gc_mark_exact [OF demo_gc_mark]
    have nd: "\<not> gc_dry_run gc_options_default" by (simp add: gc_options_default_def)
    have "reachable demo demo_snapped (set [raw_hash demo (snapshot_raw demo_sn)]) (sn_tree demo_sn)"
      using mark [of "sn_tree demo_sn"] by (simp add: th)
    moreover have "\<not> reachable demo demo_snapped (set [raw_hash demo (snapshot_raw demo_sn)]) (te_target ?e)"
      using mark [of "te_target ?e"] demo_hashes_distinct by (auto simp: entry_for_def)
    moreover have "load_tree demo (sn_tree demo_sn) demo_snapped = Inr demo_scanned" by (simp add: th load_tree_def demo_gc_edges)
    moreover have "?e \<in> set (entries demo_scanned)" "te_kind ?e = ESymlink" by (simp_all add: demo_scanned_def entry_for_def)
    ultimately show ?thesis
      using symlink_target_collected [OF demo_hex store_okD(3) [OF demo_snapped_ok] c nd demo_gc_roots] by blast
  qed
  moreover have "load_snapshot demo (ch_current demo_change) t = Inr demo_sn"
    by (simp add: load_snapshot_def demo_change_def get demo_gc_edges)
  ultimately show ?thesis using c ch hd by auto
qed

section \<open>Restoring\<close>

lemma internal_disjoint:
  "list_all (\<lambda>c. \<not> is_workspace_internal (lossy (fst c))) tch \<Longrightarrow>
   fst ` set (fst (clear_workdir ch)) \<inter> fst ` set tch = {}"
  by (auto simp: clear_workdir_def Let_def list_all_iff)

text \<open>C29. A forced restore leaves the working directory with the workspace's own entries and exactly
  the target snapshot's contents; if the target came from a scan and only ignored entries were
  kept, scanning afterwards gives the target's tree hash, so the directory is clean.\<close>

theorem restore_exact:
  fixes s :: "'r session_scheme"
  assumes "store_ok X s" and "load_snapshot X target s = Inr sn" and "ro_force opts"
    and "sn_tree sn = dir_hash X (norm_children sopts tch)"
    and shown: "tree_shows X s (sn_tree sn) (norm_children sopts tch)"
    and "list_all (\<lambda>c. \<not> is_workspace_internal (lossy (fst c))) (norm_children sopts tch)"
  shows "\<exists>kept. kept = filter (\<lambda>c. is_workspace_internal (lossy (fst c))) ch
    \<and> restore_tree_into X opts dir target current (s, ch)
        = (Inr \<lparr>rt_tree = sn_tree sn, rt_render = tally (WDir (norm_children sopts tch)) stats_zero,
                rt_top_level_removed = length ch - length kept\<rparr>, (s, kept @ norm_children sopts tch))
    \<and> (fst ` set kept \<subseteq> set (sc_ignore sopts) \<longrightarrow>
        dir_hash X (norm_children sopts (kept @ norm_children sopts tch)) = sn_tree sn)"
proof -
  let ?kept = "filter (\<lambda>c. is_workspace_internal (lossy (fst c))) ch"
  let ?t = "norm_children sopts tch"
  have cl: "clear_workdir ch = (?kept, length ch - length ?kept)" by (simp add: clear_workdir_def Let_def)
  have dj: "fst ` set ?kept \<inter> fst ` set ?t = {}" using internal_disjoint [OF assms(6), of ch] by (simp add: cl)
  have sealed: "collect_sealed_paths X (sn_tree sn) s = Inr []"
    by (rule collect_sealed_shows [OF store_okD(1) [OF assms(1)] shown])
  have "restore_tree_into X opts dir target current (s, ch)
      = (Inr \<lparr>rt_tree = sn_tree sn, rt_render = tally (WDir ?t) stats_zero,
              rt_top_level_removed = length ch - length ?kept\<rparr>, (s, ?kept @ ?t))"
    using render_tree_into_shows [OF assms(1) shown dj]
    by (simp add: restore_tree_into_def eff_simps assms(2,3) sealed cl split_beta)
  moreover have "dir_hash X (norm_children sopts (?kept @ ?t)) = sn_tree sn"
    if "fst ` set ?kept \<subseteq> set (sc_ignore sopts)"
  proof -
    have k: "\<forall>c \<in> set ?kept. fst c \<in> set (sc_ignore sopts)" using that by blast
    show ?thesis using norm_children_restored [OF k] assms(4) by simp
  qed
  ultimately show ?thesis by blast
qed

definition demo_force :: restore_options where
  "demo_force = \<lparr>ro_force = True, ro_materialize = materialize_options_default\<rparr>"

lemma demo_snapped_shows:
  "sn_tree demo_sn = dir_hash demo (norm_children scan_options_default demo_dir)"
  "tree_shows demo demo_snapped (sn_tree demo_sn) (norm_children scan_options_default demo_dir)"
proof -
  note sc = scan_workspace [OF demo_store_ok demo_log_ok demo_dir_scannable, of "''/w''"]
  show h: "sn_tree demo_sn = dir_hash demo (norm_children scan_options_default demo_dir)"
    using demo_scan sc by (auto simp: demo_sn_def new_snapshot_def)
  have "store_grows (puts demo_scan_raws) (puts demo_snap_raws)"
    using obj_put_grows [of "puts demo_scan_raws" demo "snapshot_raw demo_sn"]
    by (simp add: demo_snap_raws_def put_raw_puts [symmetric] put_raw_def)
  then have "store_grows (puts demo_scan_raws) demo_snapped"
    by (simp add: demo_snapped_def store_grows_def)
  moreover have "collision_free demo demo_snapped"
    by (rule collision_free_distinct) (use demo_snap_raws_distinct in \<open>simp add: demo_snapped_def\<close>)
  ultimately show "tree_shows demo demo_snapped (sn_tree demo_sn) (norm_children scan_options_default demo_dir)"
    unfolding h using sc demo_scan by auto
qed

theorem restore_exact_witness:
  "snd (snd (restore_tree_into demo demo_force ''/w'' (ch_current demo_change) (ch_current demo_change)
        (demo_snapped, [(''.tig'', WDir []), (''junk'', WFile [0] False)])))
     = [(''.tig'', WDir []), (''b'', WFile [7] True), (''l'', WLink ''b'')]"
proof -
  have n: "list_all (\<lambda>c. \<not> is_workspace_internal (lossy (fst c))) (norm_children scan_options_default demo_dir)"
    by code_simp
  have k: "filter (\<lambda>c. is_workspace_internal (lossy (fst c))) [(''.tig'', WDir []), (''junk'', WFile [0] False)]
      = [(''.tig'', WDir [])]" by code_simp
  show ?thesis
    using restore_exact [OF demo_snapped_ok demo_snapped_load _ demo_snapped_shows n, where opts = demo_force
        and ch = "[(''.tig'', WDir []), (''junk'', WFile [0] False)]" and dir = "''/w''" and current = "ch_current demo_change"]
    unfolding k by (auto simp: demo_dir_norm demo_force_def)
qed

text \<open>C31. Without force, a working directory that differs from the current snapshot is not touched:
  the restore is refused before anything is removed.\<close>

theorem restore_refuses_dirty:
  fixes s :: "'r session_scheme"
  assumes "store_ok X s" and "\<not> ro_force opts" and "load_snapshot X target s = Inr tsn"
    and "load_snapshot X current s = Inr csn"
    and "scannable scan_options_default (WDir ch)"
    and "dir_hash X (norm_children scan_options_default ch) \<noteq> sn_tree csn"
  shows "\<exists>e u. restore_tree_into X opts dir target current (s, ch) = (Inl e, (u, ch)) \<and> refs_view u = refs_view s
    \<and> store_grows s u"
proof -
  obtain u where u: "scan_dir X scan_options_default dir ch s
        = (Inr (dir_hash X (norm_children scan_options_default ch)), u)" "store_grows s u"
    using scan_dir_shows [OF assms(5,1)] by blast
  have "objects_only s u" by (rule keepsD [OF objs.scan_below u(1)])
  then have rv: "refs_view u = refs_view s" by (rule objects_only_refs)
  have cu: "load_snapshot X current u = Inr csn" by (rule load_mono(3) [OF u(2) assms(4)])
  show ?thesis
  proof (cases "mo_unsealer (ro_materialize opts) \<noteq> None \<or> collect_sealed_paths X (sn_tree tsn) s = Inr []")
    case True
    then have "restore_tree_into X opts dir target current (s, ch) = (Inl (FCore (CDecode DirtyWorkdir)), (u, ch))"
      using assms(2,3,6) cu by (auto simp: restore_tree_into_def eff_simps scan_def u(1) split: option.splits)
    with rv u(2) show ?thesis by blast
  next
    case False
    then obtain e where "restore_tree_into X opts dir target current (s, ch) = (Inl e, (s, ch))"
      using assms(3) by (cases "collect_sealed_paths X (sn_tree tsn) s")
        (auto simp: restore_tree_into_def eff_simps)
    then show ?thesis using store_grows_refl by blast
  qed
qed

theorem restore_refuses_dirty_witness:
  "\<exists>e u. restore_tree_into demo (demo_force\<lparr>ro_force := False\<rparr>) ''/w'' (ch_current demo_change) (ch_current demo_change)
      (demo_snapped, []) = (Inl e, (u, []))"
proof -
  have "dir_hash demo (norm_children scan_options_default []) = raw_hash demo (tree_raw tree_new)"
    using scan_dir_shows [OF _ demo_store_ok, of scan_options_default "[]" "''/w''"]
    by (auto simp: scan_dir_eq scan_children_def eff_simps store_demo)
  moreover have "raw_hash demo (tree_raw tree_new) \<noteq> raw_hash demo (tree_raw demo_scanned)" by code_simp
  ultimately have "dir_hash demo (norm_children scan_options_default []) \<noteq> sn_tree demo_sn"
    by (simp add: demo_sn_def new_snapshot_def)
  from restore_refuses_dirty [OF demo_snapped_ok _ demo_snapped_load demo_snapped_load _ this,
      where opts = "demo_force\<lparr>ro_force := False\<rparr>" and dir = "''/w''"]
  show ?thesis by auto
qed

text \<open>The default ignore list does not name the marker file of a secondary workspace: scanning
  such a workspace stores a tree that contains the marker as a file, so its snapshots carry it.
  And a directory that holds both a marker and a repository is discovered as the workspace of the
  marker, not as the repository.\<close>

theorem marker_is_captured:
  fixes s :: "'r session_scheme"
  assumes "(marker_file, WFile data exec) \<in> set ch" and "store_ok X s"
    and "scannable scan_options_default (WDir ch)"
  shows "(\<exists>h u vis. scan X scan_options_default dir (Some (WDir ch)) s = (Inr h, u)
      \<and> (marker_file, WFile data exec) \<in> set vis \<and> (collision_free X u \<longrightarrow> tree_shows X u h vis))
    \<and> (map_of (h_markers H) d = Some f \<longrightarrow> map_of (h_repos H) (d @ [tig_dir]) = Some r \<longrightarrow>
        (\<forall>w. discover_up start H (rev d) = Inr w \<longrightarrow> w_kind w \<noteq> WMain))"
proof -
  let ?vis = "norm_children scan_options_default ch"
  have "(marker_file, WFile data exec) \<in> set ?vis"
    using assms(1) by (auto simp: norm_children_def scan_options_default_def marker_file_def
      intro!: image_eqI [of _ _ "(''.tig-workspace'', WFile data exec)"])
  moreover obtain u where "scan X scan_options_default dir (Some (WDir ch)) s = (Inr (dir_hash X ?vis), u)"
      "collision_free X u \<longrightarrow> tree_shows X u (dir_hash X ?vis) ?vis"
    using scan_dir_shows [OF assms(3,2), of dir] store_grows_refl by (auto simp: scan_def)
  ultimately have "\<exists>h u vis. scan X scan_options_default dir (Some (WDir ch)) s = (Inr h, u)
      \<and> (marker_file, WFile data exec) \<in> set vis \<and> (collision_free X u \<longrightarrow> tree_shows X u h vis)"
    by blast
  moreover have "w_kind w \<noteq> WMain" if "map_of (h_markers H) d = Some f" "discover_up start H (rev d) = Inr w" for w
    using that by (auto simp: discover_up.simps and_then_Inr_iff)
  ultimately show ?thesis by blast
qed

theorem marker_is_captured_witness:
  "\<exists>h u. scan demo scan_options_default ''/w'' (Some (WDir [(marker_file, WFile [123, 125] False)])) demo_repo = (Inr h, u)"
proof -
  have "scannable scan_options_default (WDir [(marker_file, WFile [123, 125] False)])" by code_simp
  then show ?thesis
    using marker_is_captured [OF _ demo_store_ok, of "[123, 125]" False "[(marker_file, WFile [123, 125] False)]" "''/w''"]
    by (metis list.set_intros(1))
qed

end
