(* ===== verification/Stored_Tree.thy ===== *)
theory Stored_Tree
  imports Materialize_Props
begin

text \<open>
  Trees that are stored in full: every tree below a hash loads and is sorted, every regular file
  in it has its blob. The queries over stored trees (diff, grep, blame) are total on them, and
  their recursion, which follows hashes, never exhausts the fuel of \<open>tree_fuel\<close>.
\<close>

definition has_blob :: "'x ext_scheme \<Rightarrow> 'r objects_dir_scheme \<Rightarrow> hash \<Rightarrow> bool" where
  "has_blob X s h \<longleftrightarrow> (case load_blob X h s of Inl _ \<Rightarrow> False | Inr _ \<Rightarrow> True)"

lemma has_blobD: "has_blob X s h \<Longrightarrow> \<exists>b. load_blob X h s = Inr b"
  by (cases "load_blob X h s") (simp_all add: has_blob_def)

fun complete_to :: "'x ext_scheme \<Rightarrow> 'r objects_dir_scheme \<Rightarrow> nat \<Rightarrow> hash \<Rightarrow> bool" where
  "complete_to X s 0 h = False"
| "complete_to X s (Suc n) h =
     (case load_tree X h s of
        Inl _ \<Rightarrow> False
      | Inr t \<Rightarrow> tree_wf t \<and>
          list_all (\<lambda>e. (te_kind e = ETree \<longrightarrow> complete_to X s n (te_target e)) \<and>
                        (te_kind e = EFile \<longrightarrow> has_blob X s (te_target e))) (entries t))"

definition complete :: "'x ext_scheme \<Rightarrow> 'r objects_dir_scheme \<Rightarrow> hash \<Rightarrow> bool" where
  "complete X s h \<longleftrightarrow> complete_to X s (tree_fuel s) h"

lemma complete_to_Suc:
  "complete_to X s (Suc n) h \<longleftrightarrow>
   (\<exists>t. load_tree X h s = Inr t \<and> tree_wf t \<and>
      (\<forall>e \<in> set (entries t). (te_kind e = ETree \<longrightarrow> complete_to X s n (te_target e)) \<and>
         (te_kind e = EFile \<longrightarrow> has_blob X s (te_target e))))"
  by (auto simp: list_all_iff split: sum.splits)

declare complete_to.simps(2) [simp del]

lemma complete_to_mono: "complete_to X s m h \<Longrightarrow> m \<le> n \<Longrightarrow> complete_to X s n h"
proof (induction m arbitrary: n h)
  case (Suc m)
  from Suc.prems(2) obtain k where k: "n = Suc k" "m \<le> k" by (cases n) auto
  have "complete_to X s k (te_target e)" if "complete_to X s m (te_target e)" for e
    by (rule Suc.IH [OF that k(2)])
  with Suc.prems(1) show ?case unfolding k(1) complete_to_Suc by blast
qed simp

lemma complete_below: "below X s h k \<Longrightarrow> complete_to X s n h \<Longrightarrow> complete_to X s n k"
proof (induction arbitrary: n rule: below.induct)
  case (step h t e k)
  obtain m where n: "n = Suc m" using step.prems by (cases n) auto
  have "complete_to X s m (te_target e)"
    using step.prems step.hyps(1-3) unfolding n complete_to_Suc by auto
  then have "complete_to X s m k" by (rule step.IH)
  then show ?case by (rule complete_to_mono) (simp add: n)
qed simp

lemma complete_stored: "complete_to X s n h \<Longrightarrow> obj_has X h s"
  by (cases n) (auto simp: complete_to_Suc load_tree_def and_then_Inr_iff obj_has_def obj_get_Inr_iff)

text \<open>A complete tree is no deeper than there are trees below it.\<close>

lemma complete_card:
  assumes X: "hex_laws X"
  shows "complete_to X s n h \<Longrightarrow> complete_to X s (card {k. below X s h k}) h"
proof (induction n arbitrary: h rule: less_induct)
  case (less n)
  show ?case
  proof (cases "\<exists>m < n. complete_to X s m h")
    case True
    then show ?thesis using less.IH by blast
  next
    case minimal: False
    obtain m where n: "n = Suc m" using less.prems by (cases n) auto
    obtain t where t: "load_tree X h s = Inr t" "tree_wf t"
        "\<And>e. e \<in> set (entries t) \<Longrightarrow> te_kind e = ETree \<Longrightarrow> complete_to X s m (te_target e)"
        "\<And>e. e \<in> set (entries t) \<Longrightarrow> te_kind e = EFile \<Longrightarrow> has_blob X s (te_target e)"
      using less.prems unfolding n complete_to_Suc by blast
    have fin: "finite {k. below X s h k}"
      by (rule finite_subset [OF _ stored_set_finite [OF X, of s]])
        (use complete_below complete_stored less.prems in blast)
    then have "card {k. below X s h k} \<noteq> 0" using below.refl by auto
    then obtain c where c: "card {k. below X s h k} = Suc c" by (cases "card {k. below X s h k}") auto
    have "complete_to X s c (te_target e)" if e: "e \<in> set (entries t)" "te_kind e = ETree" for e
    proof -
      have "\<not> below X s (te_target e) h"
        using complete_below t(3) [OF e] minimal n by blast
      then have "{k. below X s (te_target e) k} \<subseteq> {k. below X s h k} - {h}"
        using below.step [OF t(1) e] by auto
      then have "card {k. below X s (te_target e) k} \<le> card ({k. below X s h k} - {h})"
        using fin by (intro card_mono) auto
      also have "\<dots> = card {k. below X s h k} - 1"
        by (rule card_Diff_singleton) (simp add: below.refl)
      finally have "card {k. below X s (te_target e) k} \<le> c" by (simp add: c)
      with less.IH [OF _ t(3) [OF e]] n show ?thesis by (blast intro: complete_to_mono)
    qed
    with t show ?thesis unfolding c complete_to_Suc by blast
  qed
qed

text \<open>Completeness to any depth is completeness to the depth of the fuel.\<close>

lemma complete_fuel:
  assumes X: "hex_laws X" and "complete_to X s n h"
  shows "complete X s h"
proof -
  have "{k. below X s h k} \<subseteq> {k. obj_has X k s}"
    using complete_below complete_stored assms(2) by blast
  then have "card {k. below X s h k} \<le> length (ofiles s)"
    by (rule order.trans [OF card_mono [OF stored_set_finite [OF X]] stored_finite [OF X]])
  then show ?thesis
    using complete_to_mono [OF complete_card [OF assms]] by (simp add: complete_def tree_fuel_def)
qed

text \<open>What a working directory was recorded as is complete.\<close>

lemma tree_shows_complete:
  assumes "store_ok X s"
  shows "tree_shows X s h ch \<Longrightarrow> complete X s h"
proof -
  have "complete_to X s n h" if "depth (WDir ch) \<le> n" "tree_shows X s h ch" for n
    using that
  proof (induction n arbitrary: h ch)
    case (Suc n)
    obtain t where t: "load_tree X h s = Inr t"
        "list_all2 (\<lambda>e c. te_name e = fst c \<and> entry_shows X s e (snd c)) (entries t) ch"
      using Suc.prems(2) by (auto simp: tree_shows_def)
    have "(te_kind e = ETree \<longrightarrow> complete_to X s n (te_target e)) \<and> (te_kind e = EFile \<longrightarrow> has_blob X s (te_target e))"
      if e: "e \<in> set (entries t)" for e
    proof -
      obtain c where c: "c \<in> set ch" "entry_shows X s e (snd c)" using list_all2_in1 [OF t(2) e] by blast
      have d: "depth (snd c) \<le> n" using Suc.prems(1) c(1) by (metis depth_dir_le)
      show ?thesis
      proof (cases "snd c")
        case (WDir ch1)
        then have "te_kind e = ETree" "tree_shows X s (te_target e) ch1"
          using c(2) by (simp_all add: entry_shows_dir del: entry_shows.simps(4))
        with Suc.IH d WDir show ?thesis by auto
      qed (use c(2) in \<open>auto simp: has_blob_def\<close>)
    qed
    with t(1) load_tree_wf [OF assms t(1)] show ?case unfolding complete_to_Suc by blast
  qed simp
  then show "tree_shows X s h ch \<Longrightarrow> complete X s h"
    using complete_fuel [OF store_okD(1) [OF assms]] by blast
qed

section \<open>Looking up from a hash that may be absent\<close>

definition tree_at :: "'x ext_scheme \<Rightarrow> 'r objects_dir_scheme \<Rightarrow> hash option \<Rightarrow> tree" where
  "tree_at X s h =
     (case h of None \<Rightarrow> tree_new | Some k \<Rightarrow> (case load_tree X k s of Inl _ \<Rightarrow> tree_new | Inr t \<Rightarrow> t))"

definition path_entry :: "'x ext_scheme \<Rightarrow> 'r objects_dir_scheme \<Rightarrow> hash option \<Rightarrow> string list \<Rightarrow> tree_entry option" where
  "path_entry X s h parts = find_at X s (tree_at X s h) parts"

definition sub_tree :: "tree_entry option \<Rightarrow> hash option" where
  "sub_tree e = (case e of None \<Rightarrow> None | Some x \<Rightarrow> if te_kind x = ETree then Some (te_target x) else None)"

lemma path_entry_none [simp]: "path_entry X s None parts = None"
  by (simp add: path_entry_def tree_at_def)

lemma path_entry_Nil [simp]: "path_entry X s h [] = None"
  by (simp add: path_entry_def)

lemma path_entry_single: "path_entry X s h [n] = tree_get (tree_at X s h) n"
  by (simp add: path_entry_def)

lemma path_entry_step:
  "parts \<noteq> [] \<Longrightarrow> path_entry X s h (n # parts) = path_entry X s (sub_tree (tree_get (tree_at X s h) n)) parts"
  by (cases parts) (auto simp: path_entry_def tree_at_def sub_tree_def split: option.splits sum.splits)

end
