(* ===== verification/Text_Lines.thy ===== *)
theory Text_Lines
  imports Utf8 External
begin

text \<open>
  Text as lines: the standard library's \<^verbatim>\<open>str::lines\<close> and \<^verbatim>\<open>str::contains\<close>, the packages the
  queries over text call (\<^verbatim>\<open>similar\<close> for line diffs, \<^verbatim>\<open>regex\<close> for patterns) as a record of
  parameters, and the documented behaviour of the line diff that results rely on.
\<close>

lemma traverse_Inr_all:
  "(\<And>x. x \<in> set xs \<Longrightarrow> \<exists>y. f x = Inr y \<and> P x y) \<Longrightarrow> \<exists>ys. traverse f xs = Inr ys \<and> list_all2 P xs ys"
proof (induction xs)
  case (Cons x xs)
  obtain y where "f x = Inr y" "P x y" using Cons.prems by auto
  moreover obtain ys where "traverse f xs = Inr ys" "list_all2 P xs ys" using Cons by auto
  ultimately show ?case by auto
qed simp

section \<open>Lines\<close>

definition newline :: char where
  "newline = CHR 0x0A"

definition carriage :: char where
  "carriage = CHR 0x0D"

text \<open>\<^verbatim>\<open>split_inclusive('\n')\<close>: every piece but the last ends in a newline.\<close>

fun split_inclusive :: "string \<Rightarrow> string list" where
  "split_inclusive [] = []"
| "split_inclusive (x # xs) =
     (if x = newline then [x] # split_inclusive xs
      else case split_inclusive xs of [] \<Rightarrow> [[x]] | p # ps \<Rightarrow> (x # p) # ps)"

definition strip_line_end :: "string \<Rightarrow> string" where
  "strip_line_end l =
     (if l \<noteq> [] \<and> last l = newline
      then (let m = butlast l in if m \<noteq> [] \<and> last m = carriage then butlast m else m)
      else l)"

definition str_lines :: "string \<Rightarrow> string list" where
  "str_lines s = map strip_line_end (split_inclusive s)"

text \<open>\<^verbatim>\<open>strip_eol\<close> of \<^verbatim>\<open>blame.rs\<close>, which \<^verbatim>\<open>blob_diff_hunks\<close> has inline: two independent pops.\<close>

definition pop_if :: "char \<Rightarrow> string \<Rightarrow> string" where
  "pop_if c l = (if l \<noteq> [] \<and> last l = c then butlast l else l)"

definition strip_eol :: "string \<Rightarrow> string" where
  "strip_eol l = pop_if carriage (pop_if newline l)"

fun contains :: "string \<Rightarrow> string \<Rightarrow> bool" where
  "contains [] needle \<longleftrightarrow> needle = []"
| "contains (x # xs) needle \<longleftrightarrow> starts_with (x # xs) needle \<or> contains xs needle"

lemma contains_iff: "contains hay needle \<longleftrightarrow> (\<exists>a b. hay = a @ needle @ b)"
proof (induction hay needle rule: contains.induct)
  case (2 x xs needle)
  show ?case
  proof
    assume "contains (x # xs) needle"
    then consider "starts_with (x # xs) needle" | "contains xs needle" by auto
    then show "\<exists>a b. x # xs = a @ needle @ b"
    proof cases
      case 1
      then show ?thesis unfolding starts_with_iff_prefix prefix_def by (metis append_Nil)
    next
      case 2
      then show ?thesis using "2.IH" by (metis append_Cons)
    qed
  next
    assume "\<exists>a b. x # xs = a @ needle @ b"
    then obtain a b where ab: "x # xs = a @ needle @ b" by blast
    show "contains (x # xs) needle"
    proof (cases a)
      case Nil
      with ab have "starts_with (x # xs) needle" by simp
      then show ?thesis by simp
    next
      case (Cons y ys)
      with ab have "xs = ys @ needle @ b" by simp
      with "2.IH" show ?thesis by auto
    qed
  qed
qed simp

lemma concat_split_inclusive [simp]: "concat (split_inclusive s) = s"
  by (induction s) (auto split: list.splits)

lemma split_inclusive_chars: "l \<in> set (split_inclusive s) \<Longrightarrow> set l \<subseteq> set s"
  by (metis UN_upper concat_split_inclusive set_concat)

text \<open>Without carriage returns the two ways of stripping a line agree.\<close>

lemma strip_eol_line:
  assumes "carriage \<notin> set l"
  shows "strip_eol l = strip_line_end l"
proof -
  have "pop_if carriage m = m" if "set m \<subseteq> set l" for m
    using assms that last_in_set [of m] by (metis pop_if_def subsetD)
  moreover have "set (butlast l) \<subseteq> set l" by (auto dest: in_set_butlastD)
  moreover have "\<not> (butlast l \<noteq> [] \<and> last (butlast l) = carriage)"
    using assms last_in_set [of "butlast l"] by (metis in_set_butlastD)
  ultimately show ?thesis
    by (auto simp: strip_eol_def strip_line_end_def pop_if_def Let_def)
qed

section \<open>Line diffs and patterns\<close>

datatype change_tag = TagEqual | TagDelete | TagInsert

record text_change =
  tc_tag :: change_tag
  tc_old :: "nat option"
  tc_new :: "nat option"
  tc_value :: string

text \<open>
  \<^verbatim>\<open>TextDiff::from_lines(a, b).iter_all_changes()\<close>, the changes of each hunk of
  \<^verbatim>\<open>unified_diff().context_radius(n).iter_hunks()\<close>, \<^verbatim>\<open>RegexBuilder\<close> with its case flag, and
  \<^verbatim>\<open>str::to_lowercase\<close>, whose Unicode tables are not modelled.
\<close>

record tools =
  line_changes :: "string \<Rightarrow> string \<Rightarrow> text_change list"
  hunk_changes :: "string \<Rightarrow> string \<Rightarrow> nat \<Rightarrow> text_change list list"
  regex_build :: "string \<Rightarrow> bool \<Rightarrow> string + (string \<Rightarrow> bool)"
  lowercase :: "string \<Rightarrow> string"

text \<open>
  What \<^verbatim>\<open>similar\<close> documents of a line diff: the changes other than insertions are the old
  lines in order, with their indices; the changes other than deletions are the new lines in
  order; each change carries the index of every side it belongs to. \<^verbatim>\<open>similar\<close> also ends a line
  at a lone carriage return, so this is stated for texts without carriage returns.
\<close>

definition diff_laws :: "tools \<Rightarrow> bool" where
  "diff_laws T \<longleftrightarrow>
     (\<forall>a b. carriage \<notin> set a \<longrightarrow> carriage \<notin> set b \<longrightarrow>
        (let cs = line_changes T a b;
             old = filter (\<lambda>c. tc_tag c \<noteq> TagInsert) cs;
             new = filter (\<lambda>c. tc_tag c \<noteq> TagDelete) cs in
         map tc_value old = split_inclusive a \<and> map tc_old old = map Some [0..<length old] \<and>
         map tc_value new = split_inclusive b \<and> map tc_new new = map Some [0..<length new]))"

text \<open>A change of a hunk has an old index unless it is an insertion, a new one unless a deletion.\<close>

definition hunk_laws :: "tools \<Rightarrow> bool" where
  "hunk_laws T \<longleftrightarrow>
     (\<forall>a b n. \<forall>cs \<in> set (hunk_changes T a b n). \<forall>c \<in> set cs.
        (tc_old c = None \<longleftrightarrow> tc_tag c = TagInsert) \<and> (tc_new c = None \<longleftrightarrow> tc_tag c = TagDelete))"

lemma diff_lawsD:
  assumes "diff_laws T" and "carriage \<notin> set a" and "carriage \<notin> set b"
  shows "map tc_value (filter (\<lambda>c. tc_tag c \<noteq> TagInsert) (line_changes T a b)) = split_inclusive a"
    "map tc_old (filter (\<lambda>c. tc_tag c \<noteq> TagInsert) (line_changes T a b)) = map Some [0..<length (split_inclusive a)]"
    "map tc_value (filter (\<lambda>c. tc_tag c \<noteq> TagDelete) (line_changes T a b)) = split_inclusive b"
proof -
  let ?old = "filter (\<lambda>c. tc_tag c \<noteq> TagInsert) (line_changes T a b)"
  have l: "map tc_value ?old = split_inclusive a \<and> map tc_old ?old = map Some [0..<length ?old] \<and>
      map tc_value (filter (\<lambda>c. tc_tag c \<noteq> TagDelete) (line_changes T a b)) = split_inclusive b"
    using assms by (simp add: diff_laws_def Let_def)
  then have "length ?old = length (split_inclusive a)" by (metis length_map)
  with l show "map tc_value ?old = split_inclusive a"
    "map tc_old ?old = map Some [0..<length (split_inclusive a)]"
    "map tc_value (filter (\<lambda>c. tc_tag c \<noteq> TagDelete) (line_changes T a b)) = split_inclusive b"
    by simp_all
qed

end
