(* ===== verification/Diff.thy ===== *)
theory Diff
  imports Stored_Tree Text_Lines
begin

text \<open>
  \<^verbatim>\<open>tig-fs/src/diff.rs\<close>: two stored trees walked in lockstep. Subtrees with equal hashes are
  skipped; every other path that differs gives one \<open>file_diff\<close>, with hunks for text files.
  \<open>out.push\<close> is list concatenation here: on an error the caller drops the accumulator.
\<close>

datatype change_kind = Added | Removed | Modified | TypeChanged entry_kind entry_kind

datatype hunk_line = HContext string | HAdd string | HRemove string

record hunk =
  hk_from_start :: nat
  hk_from_len :: nat
  hk_to_start :: nat
  hk_to_len :: nat
  hk_lines :: "hunk_line list"

record file_diff =
  fd_path :: string
  fd_kind :: change_kind
  fd_entry_kind :: entry_kind
  fd_from_target :: "hash option"
  fd_to_target :: "hash option"
  fd_binary :: bool
  fd_hunks :: "hunk list option"

record diff_options =
  do_no_hunks :: bool
  do_paths :: "string list"
  do_context_lines :: nat

definition is_binary :: "bytes \<Rightarrow> bool" where
  "is_binary b \<longleftrightarrow> 0 \<in> set (take 8192 b)"

section \<open>Hunks\<close>

definition hunk_line_of :: "text_change \<Rightarrow> hunk_line" where
  "hunk_line_of c =
     (let s = strip_eol (tc_value c) in
      case tc_tag c of TagEqual \<Rightarrow> HContext s | TagInsert \<Rightarrow> HAdd s | TagDelete \<Rightarrow> HRemove s)"

text \<open>The loop over the changes of one hunk, with its four counters and the lines so far.\<close>

fun hunk_loop ::
  "nat option \<Rightarrow> nat \<Rightarrow> nat option \<Rightarrow> nat \<Rightarrow> hunk_line list \<Rightarrow> text_change list \<Rightarrow> hunk" where
  "hunk_loop fs flen ts tlen ls [] =
     \<lparr>hk_from_start = (case fs of Some i \<Rightarrow> i + 1 | None \<Rightarrow> 0), hk_from_len = flen,
      hk_to_start = (case ts of Some i \<Rightarrow> i + 1 | None \<Rightarrow> 0), hk_to_len = tlen, hk_lines = ls\<rparr>"
| "hunk_loop fs flen ts tlen ls (c # cs) =
     hunk_loop
       (if tc_old c \<noteq> None \<and> fs = None then tc_old c else fs) (if tc_old c \<noteq> None then flen + 1 else flen)
       (if tc_new c \<noteq> None \<and> ts = None then tc_new c else ts) (if tc_new c \<noteq> None then tlen + 1 else tlen)
       (ls @ [hunk_line_of c]) cs"

definition blob_diff_hunks :: "tools \<Rightarrow> string \<Rightarrow> string \<Rightarrow> nat \<Rightarrow> hunk list" where
  "blob_diff_hunks T from_text to_text context_lines =
     map (hunk_loop None 0 None 0 []) (hunk_changes T from_text to_text (max context_lines 1))"

section \<open>One differing path\<close>

definition changed_entry_kind :: "change_kind \<Rightarrow> tree_entry option \<Rightarrow> tree_entry option \<Rightarrow> entry_kind" where
  "changed_entry_kind k f t =
     (case (k, f, t) of
        (Removed, Some f, _) \<Rightarrow> te_kind f
      | (Added, _, Some t) \<Rightarrow> te_kind t
      | (_, _, Some t) \<Rightarrow> te_kind t
      | (_, Some f, _) \<Rightarrow> te_kind f
      | _ \<Rightarrow> EFile)"

definition side_bytes :: "'x ext_scheme \<Rightarrow> 'r objects_dir_scheme \<Rightarrow> hash option \<Rightarrow> fs_error + bytes" where
  "side_bytes X s h =
     (case h of None \<Rightarrow> Inr [] | Some k \<Rightarrow> and_then (load_blob X k s) (\<lambda>b. Inr (blob_bytes b)))"

definition is_file_diffable :: "change_kind \<Rightarrow> entry_kind \<Rightarrow> bool" where
  "is_file_diffable k e \<longleftrightarrow> k \<in> {Added, Removed, Modified} \<and> e = EFile"

definition emit_change ::
  "'x ext_scheme \<Rightarrow> tools \<Rightarrow> 'r objects_dir_scheme \<Rightarrow> diff_options \<Rightarrow> string \<Rightarrow> change_kind \<Rightarrow>
     tree_entry option \<Rightarrow> tree_entry option \<Rightarrow> fs_error + file_diff" where
  "emit_change X T s opts path k f t =
     (let e = changed_entry_kind k f t;
          ft = map_option te_target f;
          tt = map_option te_target t;
          report = (\<lambda>bin hunks. \<lparr>fd_path = path, fd_kind = k, fd_entry_kind = e, fd_from_target = ft,
                      fd_to_target = tt, fd_binary = bin, fd_hunks = hunks\<rparr>) in
      if is_file_diffable k e \<and> \<not> do_no_hunks opts
      then and_then (side_bytes X s ft) (\<lambda>fb.
             and_then (side_bytes X s tt) (\<lambda>tb.
               if is_binary fb \<or> is_binary tb then Inr (report True None)
               else Inr (report False (Some (blob_diff_hunks T (lossy (bytes_str fb)) (lossy (bytes_str tb))
                      (max (do_context_lines opts) 1))))))
      else Inr (report False None))"

section \<open>The walk\<close>

definition passes_filter :: "string list \<Rightarrow> string \<Rightarrow> bool" where
  "passes_filter paths path \<longleftrightarrow> paths = [] \<or> (\<exists>p \<in> set paths. starts_with path p \<or> starts_with p path)"

text \<open>A side's entries by name, as \<^verbatim>\<open>collect\<close> puts them into a \<^verbatim>\<open>BTreeMap\<close>: the last of a name wins.\<close>

definition side_entries ::
  "'x ext_scheme \<Rightarrow> 'r objects_dir_scheme \<Rightarrow> hash option \<Rightarrow> fs_error + (string \<times> tree_entry) list" where
  "side_entries X s h =
     (case h of
        None \<Rightarrow> Inr []
      | Some k \<Rightarrow> and_then (load_tree X k s) (\<lambda>t. Inr (rev (map (\<lambda>e. (te_name e, e)) (entries t)))))"

fun diff_subtree ::
  "'x ext_scheme \<Rightarrow> tools \<Rightarrow> 'r objects_dir_scheme \<Rightarrow> diff_options \<Rightarrow> nat \<Rightarrow> hash option \<Rightarrow> hash option \<Rightarrow>
     string \<Rightarrow> fs_error + file_diff list" where
  "diff_subtree X T s opts 0 f t pfx = Inl FCrash"
| "diff_subtree X T s opts (Suc fuel) f t pfx =
     (if f \<noteq> None \<and> f = t then Inr []
      else and_then (side_entries X s f) (\<lambda>fes.
        and_then (side_entries X s t) (\<lambda>tes.
          and_then (traverse (\<lambda>name.
              let path = child_path pfx name in
              if \<not> passes_filter (do_paths opts) path then Inr []
              else case (map_of fes name, map_of tes name) of
                (Some f, Some t) \<Rightarrow>
                  if te_target f = te_target t \<and> te_kind f = te_kind t then Inr []
                  else if te_kind f = ETree \<and> te_kind t = ETree
                  then diff_subtree X T s opts fuel (Some (te_target f)) (Some (te_target t)) path
                  else if te_kind f \<noteq> te_kind t
                  then and_then (emit_change X T s opts path (TypeChanged (te_kind f) (te_kind t)) (Some f) (Some t))
                         (\<lambda>d. Inr [d])
                  else and_then (emit_change X T s opts path Modified (Some f) (Some t)) (\<lambda>d. Inr [d])
              | (Some f, None) \<Rightarrow>
                  if te_kind f = ETree then diff_subtree X T s opts fuel (Some (te_target f)) None path
                  else and_then (emit_change X T s opts path Removed (Some f) None) (\<lambda>d. Inr [d])
              | (None, Some t) \<Rightarrow>
                  if te_kind t = ETree then diff_subtree X T s opts fuel None (Some (te_target t)) path
                  else and_then (emit_change X T s opts path Added None (Some t)) (\<lambda>d. Inr [d])
              | (None, None) \<Rightarrow> Inl FCrash)
            (remdups_adj (sort (map fst fes @ map fst tes))))
            (\<lambda>ds. Inr (concat ds)))))"

definition diff_trees ::
  "'x ext_scheme \<Rightarrow> tools \<Rightarrow> hash \<Rightarrow> hash \<Rightarrow> diff_options \<Rightarrow> 'r objects_dir_scheme \<Rightarrow> fs_error + file_diff list" where
  "diff_trees X T f t opts s =
     (if f = t then Inr [] else diff_subtree X T s opts (tree_fuel s) (Some f) (Some t) [])"

end
