(* ===== verification/Diff_Props.thy ===== *)
theory Diff_Props
  imports Diff
begin

text \<open>
  What a diff lists: exactly the paths at which the two trees differ by kind or target, each once,
  down to the first change of kind. Paths are compared through lookups in the two trees, so the
  statement does not mention the walk.
\<close>

section \<open>Hunk headers count the lines below them\<close>

fun old_side :: "hunk_line \<Rightarrow> bool" where
  "old_side (HAdd s) = False"
| "old_side _ = True"

fun new_side :: "hunk_line \<Rightarrow> bool" where
  "new_side (HRemove s) = False"
| "new_side _ = True"

lemma hunk_loop_lines: "hk_lines (hunk_loop fs flen ts tlen ls cs) = ls @ map hunk_line_of cs"
  by (induction cs arbitrary: fs flen ts tlen ls) simp_all

lemma hunk_line_sides:
  "old_side (hunk_line_of c) \<longleftrightarrow> tc_tag c \<noteq> TagInsert" "new_side (hunk_line_of c) \<longleftrightarrow> tc_tag c \<noteq> TagDelete"
  by (simp_all add: hunk_line_of_def Let_def split: change_tag.splits)

lemma hunk_loop_counts:
  assumes "\<forall>c \<in> set cs. (tc_old c = None \<longleftrightarrow> tc_tag c = TagInsert) \<and> (tc_new c = None \<longleftrightarrow> tc_tag c = TagDelete)"
  shows "hk_from_len (hunk_loop fs flen ts tlen ls cs) = flen + length (filter old_side (map hunk_line_of cs))
    \<and> hk_to_len (hunk_loop fs flen ts tlen ls cs) = tlen + length (filter new_side (map hunk_line_of cs))"
  using assms
proof (induction cs arbitrary: fs flen ts tlen ls)
  case (Cons c cs)
  from Cons.prems have c: "tc_old c = None \<longleftrightarrow> tc_tag c = TagInsert" "tc_new c = None \<longleftrightarrow> tc_tag c = TagDelete" by simp_all
  have "\<forall>c \<in> set cs. (tc_old c = None \<longleftrightarrow> tc_tag c = TagInsert) \<and> (tc_new c = None \<longleftrightarrow> tc_tag c = TagDelete)"
    using Cons.prems by simp
  note ih = Cons.IH [OF this]
  show ?case using c by (simp add: ih hunk_line_sides)
qed simp

section \<open>Paths\<close>

definition full_path :: "string \<Rightarrow> string list \<Rightarrow> string" where
  "full_path pfx parts = foldl child_path pfx parts"

lemma full_path_simps [simp]:
  "full_path pfx [] = pfx" "full_path pfx (n # ps) = full_path (child_path pfx n) ps"
  by (simp_all add: full_path_def)

lemma full_path_append: "full_path pfx (ps @ qs) = full_path (full_path pfx ps) qs"
  by (simp add: full_path_def)

lemma prefix_child: "prefix p (child_path p n)"
  by (simp add: child_path_def)

lemma prefix_full_path: "prefix p (full_path p ps)"
proof (induction ps arbitrary: p)
  case (Cons n ps)
  then show ?case using prefix_child prefix_order.trans by (simp, blast)
qed simp

lemma full_path_join: "p \<noteq> [] \<Longrightarrow> [] \<notin> set ps \<Longrightarrow> full_path p ps = join ''/'' (p # ps)"
proof (induction ps arbitrary: p)
  case (Cons n ps)
  then have "full_path p (n # ps) = join ''/'' (child_path p n # ps)"
    by (simp add: child_path_def)
  also have "\<dots> = join ''/'' (p # n # ps)" using Cons.prems by (cases ps) (simp_all add: child_path_def)
  finally show ?case .
qed simp

lemma full_path_root: "[] \<notin> set ps \<Longrightarrow> full_path [] ps = join ''/'' ps"
proof (cases ps)
  case (Cons n qs)
  moreover assume "[] \<notin> set ps"
  ultimately have "n \<noteq> []" "[] \<notin> set qs" by auto
  then show ?thesis using full_path_join [of n qs] Cons by (simp add: child_path_def)
qed simp

definition valid_parts :: "string list \<Rightarrow> bool" where
  "valid_parts ps \<longleftrightarrow> (\<forall>p \<in> set ps. validate_name p = Inr ())"

lemma valid_name: "validate_name p = Inr () \<Longrightarrow> p \<noteq> [] \<and> CHR ''/'' \<notin> set p"
  by (auto simp: validate_name_def split: if_splits)

lemma full_path_inject:
  assumes "valid_parts ps" and "valid_parts qs" and "full_path [] ps = full_path [] qs"
  shows "ps = qs"
proof -
  have j: "join ''/'' ps = join ''/'' qs"
    using assms valid_name by (metis full_path_root valid_parts_def)
  have split: "split_char CHR ''/'' (join ''/'' rs) = rs" if "rs \<noteq> []" "valid_parts rs" for rs
    using split_char_join [of rs "CHR ''/''"] that valid_name by (simp add: valid_parts_def)
  have ne: "join ''/'' rs \<noteq> []" if "rs \<noteq> []" "valid_parts rs" for rs
  proof
    assume "join ''/'' rs = []"
    then have "rs = [[]]" using split [OF that] by simp
    with that(2) valid_name [of "[]"] show False by (simp add: valid_parts_def)
  qed
  show ?thesis
  proof (cases "ps = [] \<or> qs = []")
    case True
    then show ?thesis using j ne assms(1,2) by (metis join.simps(1))
  next
    case False
    then show ?thesis using j split assms(1,2) by metis
  qed
qed

text \<open>The filter of a path is passed by all its ancestors.\<close>

lemma passes_filter_prefix: "prefix p q \<Longrightarrow> passes_filter fs q \<Longrightarrow> passes_filter fs p"
  unfolding passes_filter_def starts_with_iff_prefix
  by (meson prefix_order.trans prefix_same_cases)

section \<open>Differences as lookups\<close>

text \<open>
  The difference of two entries as the code decides it: by kind and target. The mode plays no part,
  and a directory on one side only is not a difference itself; what is in it is.
\<close>

definition change_between :: "tree_entry option \<Rightarrow> tree_entry option \<Rightarrow> change_kind option" where
  "change_between f t =
     (case (f, t) of
        (Some f, Some t) \<Rightarrow>
          if te_kind f \<noteq> te_kind t then Some (TypeChanged (te_kind f) (te_kind t))
          else if te_kind f = ETree \<or> te_target f = te_target t then None else Some Modified
      | (Some f, None) \<Rightarrow> if te_kind f = ETree then None else Some Removed
      | (None, Some t) \<Rightarrow> if te_kind t = ETree then None else Some Added
      | (None, None) \<Rightarrow> None)"

definition kinds_differ :: "tree_entry option \<Rightarrow> tree_entry option \<Rightarrow> bool" where
  "kinds_differ f t \<longleftrightarrow> f \<noteq> None \<and> t \<noteq> None \<and> map_option te_kind f \<noteq> map_option te_kind t"

text \<open>
  An ancestor of the path is of different kinds on the two sides: the difference is reported
  there.
\<close>

definition diverged :: "'x ext_scheme \<Rightarrow> 'r objects_dir_scheme \<Rightarrow> hash option \<Rightarrow> hash option \<Rightarrow> string list \<Rightarrow> bool" where
  "diverged X s f t parts \<longleftrightarrow>
     (\<exists>q. strict_prefix q parts \<and> kinds_differ (path_entry X s f q) (path_entry X s t q))"

definition differs ::
  "'x ext_scheme \<Rightarrow> 'r objects_dir_scheme \<Rightarrow> hash option \<Rightarrow> hash option \<Rightarrow> string list \<Rightarrow> change_kind \<Rightarrow> bool" where
  "differs X s f t parts k \<longleftrightarrow>
     change_between (path_entry X s f parts) (path_entry X s t parts) = Some k \<and> \<not> diverged X s f t parts"

lemma change_between_same [simp]: "change_between e e = None"
  by (simp add: change_between_def split: option.splits)

lemma change_between_some: "change_between f t = Some k \<Longrightarrow> f \<noteq> None \<or> t \<noteq> None"
  by (cases f; cases t) (simp_all add: change_between_def)

lemma kinds_differ_change: "kinds_differ f t \<Longrightarrow> \<exists>k. change_between f t = Some k"
  by (cases f; cases t) (simp_all add: change_between_def kinds_differ_def)

lemma differs_Nil [simp]: "\<not> differs X s f t [] k"
  by (simp add: differs_def change_between_def)

lemma differs_same [simp]: "\<not> differs X s f f parts k"
  by (simp add: differs_def)

lemma diverged_single: "\<not> diverged X s f t [n]"
  by (auto simp: diverged_def kinds_differ_def strict_prefix_def prefix_Cons)

lemma diverged_step:
  assumes "parts \<noteq> []"
  shows "diverged X s f t (n # parts) \<longleftrightarrow>
    kinds_differ (path_entry X s f [n]) (path_entry X s t [n])
    \<or> diverged X s (sub_tree (path_entry X s f [n])) (sub_tree (path_entry X s t [n])) parts"
proof
  assume "diverged X s f t (n # parts)"
  then obtain q where q: "strict_prefix q (n # parts)" "kinds_differ (path_entry X s f q) (path_entry X s t q)"
    by (auto simp: diverged_def)
  then obtain q' where q': "q = n # q'" "strict_prefix q' parts"
    by (cases q) (auto simp: kinds_differ_def strict_prefix_def prefix_Cons)
  show "kinds_differ (path_entry X s f [n]) (path_entry X s t [n])
    \<or> diverged X s (sub_tree (path_entry X s f [n])) (sub_tree (path_entry X s t [n])) parts"
  proof (cases "q' = []")
    case True
    with q q' show ?thesis by simp
  next
    case False
    with q(2) q' show ?thesis by (auto simp: diverged_def path_entry_step path_entry_single)
  qed
next
  assume "kinds_differ (path_entry X s f [n]) (path_entry X s t [n])
    \<or> diverged X s (sub_tree (path_entry X s f [n])) (sub_tree (path_entry X s t [n])) parts"
  then show "diverged X s f t (n # parts)"
  proof
    assume "kinds_differ (path_entry X s f [n]) (path_entry X s t [n])"
    moreover have "strict_prefix [n] (n # parts)" using assms by (simp add: strict_prefix_def)
    ultimately show ?thesis unfolding diverged_def by blast
  next
    assume "diverged X s (sub_tree (path_entry X s f [n])) (sub_tree (path_entry X s t [n])) parts"
    then obtain q where q: "strict_prefix q parts"
        "kinds_differ (path_entry X s (sub_tree (path_entry X s f [n])) q) (path_entry X s (sub_tree (path_entry X s t [n])) q)"
      by (auto simp: diverged_def)
    then have "q \<noteq> []" by (auto simp: kinds_differ_def)
    with q have "strict_prefix (n # q) (n # parts)" "kinds_differ (path_entry X s f (n # q)) (path_entry X s t (n # q))"
      by (simp_all add: path_entry_step path_entry_single)
    then show ?thesis unfolding diverged_def by blast
  qed
qed

lemma differs_single: "differs X s f t [n] k \<longleftrightarrow> change_between (path_entry X s f [n]) (path_entry X s t [n]) = Some k"
  by (simp add: differs_def diverged_single)

lemma differs_step:
  "parts \<noteq> [] \<Longrightarrow> differs X s f t (n # parts) k \<longleftrightarrow>
     \<not> kinds_differ (path_entry X s f [n]) (path_entry X s t [n])
     \<and> differs X s (sub_tree (path_entry X s f [n])) (sub_tree (path_entry X s t [n])) parts k"
  by (simp add: differs_def diverged_step path_entry_step path_entry_single) blast

section \<open>The walk lists the differences\<close>

text \<open>What the walk does for one name.\<close>

definition diff_name ::
  "'x ext_scheme \<Rightarrow> tools \<Rightarrow> 'r objects_dir_scheme \<Rightarrow> diff_options \<Rightarrow> nat \<Rightarrow> (string \<times> tree_entry) list \<Rightarrow>
     (string \<times> tree_entry) list \<Rightarrow> string \<Rightarrow> string \<Rightarrow> fs_error + file_diff list" where
  "diff_name X T s opts fuel fes tes pfx name =
     (let path = child_path pfx name in
      if \<not> passes_filter (do_paths opts) path then Inr []
      else case (map_of fes name, map_of tes name) of
        (Some f, Some t) \<Rightarrow>
          if te_target f = te_target t \<and> te_kind f = te_kind t then Inr []
          else if te_kind f = ETree \<and> te_kind t = ETree
          then diff_subtree X T s opts fuel (Some (te_target f)) (Some (te_target t)) path
          else if te_kind f \<noteq> te_kind t
          then and_then (emit_change X T s opts path (TypeChanged (te_kind f) (te_kind t)) (Some f) (Some t))
                 (\<lambda>d. Inr [d])
          else and_then (emit_change X T s opts path Modified (Some f) (Some t)) (\<lambda>d. Inr [d])
      | (Some f, None) \<Rightarrow>
          if te_kind f = ETree then diff_subtree X T s opts fuel (Some (te_target f)) None path
          else and_then (emit_change X T s opts path Removed (Some f) None) (\<lambda>d. Inr [d])
      | (None, Some t) \<Rightarrow>
          if te_kind t = ETree then diff_subtree X T s opts fuel None (Some (te_target t)) path
          else and_then (emit_change X T s opts path Added None (Some t)) (\<lambda>d. Inr [d])
      | (None, None) \<Rightarrow> Inl FCrash)"

lemma diff_subtree_Suc:
  "diff_subtree X T s opts (Suc n) f t pfx =
     (if f \<noteq> None \<and> f = t then Inr []
      else and_then (side_entries X s f) (\<lambda>fes. and_then (side_entries X s t) (\<lambda>tes.
        and_then (traverse (diff_name X T s opts n fes tes pfx) (remdups_adj (sort (map fst fes @ map fst tes))))
          (\<lambda>ds. Inr (concat ds)))))"
  unfolding diff_subtree.simps(2) diff_name_def [abs_def] by (rule HOL.refl)

declare diff_subtree.simps(2) [simp del]

definition ok_side :: "'x ext_scheme \<Rightarrow> 'r objects_dir_scheme \<Rightarrow> nat \<Rightarrow> hash option \<Rightarrow> bool" where
  "ok_side X s n h \<longleftrightarrow> (case h of None \<Rightarrow> True | Some k \<Rightarrow> complete_to X s n k)"

lemma ok_side_tree: "ok_side X s n h \<Longrightarrow> tree_wf (tree_at X s h)"
  by (cases n) (auto simp: ok_side_def tree_at_def complete_to_Suc tree_wf_def names_ok_def tree_new_def split: option.splits)

lemma ok_side_entry:
  assumes "ok_side X s (Suc n) h" and "path_entry X s h [name] = Some e"
  shows "validate_name name = Inr ()" "te_kind e = EFile \<longrightarrow> has_blob X s (te_target e)"
    "ok_side X s n (sub_tree (Some e))"
proof -
  obtain k t where h: "h = Some k" "load_tree X k s = Inr t" "tree_wf t"
      "\<forall>e \<in> set (entries t). (te_kind e = ETree \<longrightarrow> complete_to X s n (te_target e)) \<and>
         (te_kind e = EFile \<longrightarrow> has_blob X s (te_target e))"
    using assms by (cases h) (auto simp: ok_side_def complete_to_Suc)
  then have g: "tree_map t name = Some e" using assms(2) by (simp add: path_entry_single tree_at_def tree_get_map)
  with h(3) have e: "e \<in> set (entries t)" "te_name e = name" by (auto simp: tree_map_Some)
  then show "validate_name name = Inr ()" using h(3) by (auto simp: tree_wf_def names_ok_def)
  from e h(4) show "te_kind e = EFile \<longrightarrow> has_blob X s (te_target e)" "ok_side X s n (sub_tree (Some e))"
    by (auto simp: ok_side_def sub_tree_def)
qed

lemma ok_side_sub:
  "ok_side X s (Suc n) h \<Longrightarrow> ok_side X s n (sub_tree (path_entry X s h [name]))"
  by (cases "path_entry X s h [name]") (simp add: ok_side_def sub_tree_def, metis ok_side_entry(3))

lemma path_entry_valid:
  "ok_side X s n h \<Longrightarrow> path_entry X s h parts = Some e \<Longrightarrow> valid_parts parts"
proof (induction parts arbitrary: n h)
  case Nil
  then show ?case by simp
next
  case (Cons p ps)
  obtain m where n: "n = Suc m"
    using Cons.prems by (cases n; cases h) (auto simp: ok_side_def)
  have head: "path_entry X s h [p] \<noteq> None"
    using Cons.prems(2) by (cases ps) (auto simp: path_entry_step path_entry_single sub_tree_def split: option.splits)
  then have v: "validate_name p = Inr ()" using ok_side_entry(1) Cons.prems(1) unfolding n by blast
  show ?case
  proof (cases "ps = []")
    case True
    with v show ?thesis by (simp add: valid_parts_def)
  next
    case False
    have "path_entry X s (sub_tree (path_entry X s h [p])) ps = Some e"
      using Cons.prems(2) False by (simp add: path_entry_step path_entry_single)
    then have "valid_parts ps" using Cons.IH ok_side_sub Cons.prems(1) unfolding n by blast
    with v show ?thesis by (simp add: valid_parts_def)
  qed
qed

lemma ok_side_blob:
  "ok_side X s n h \<Longrightarrow> path_entry X s h parts = Some e \<Longrightarrow> te_kind e = EFile \<Longrightarrow> has_blob X s (te_target e)"
proof (induction parts arbitrary: n h)
  case (Cons p ps)
  obtain m where n: "n = Suc m"
    using Cons.prems by (cases n; cases h) (auto simp: ok_side_def)
  show ?case
  proof (cases "ps = []")
    case True
    with Cons.prems ok_side_entry(2) show ?thesis unfolding n by blast
  next
    case False
    have "path_entry X s (sub_tree (path_entry X s h [p])) ps = Some e"
      using Cons.prems(2) False by (simp add: path_entry_step path_entry_single)
    then show ?thesis using Cons.IH ok_side_sub Cons.prems(1,3) unfolding n by blast
  qed
qed simp

lemma complete_blob:
  "complete X s h \<Longrightarrow> path_entry X s (Some h) parts = Some e \<Longrightarrow> te_kind e = EFile \<longrightarrow> has_blob X s (te_target e)"
  using ok_side_blob [of X s "tree_fuel s" "Some h" parts e] by (simp add: ok_side_def complete_def)

lemma map_of_rev_distinct:
  assumes "distinct (map fst xs)"
  shows "map_of (rev xs) = map_of xs"
proof (rule ext)
  fix k
  have "distinct (map fst (rev xs))" using assms by (simp add: rev_map [symmetric])
  then have "map_of (rev xs) k = Some v \<longleftrightarrow> map_of xs k = Some v" for v
    using assms by (simp add: map_of_eq_Some_iff)
  then show "map_of (rev xs) k = map_of xs k" by (metis not_None_eq)
qed

lemma side_entries_ok:
  assumes "ok_side X s (Suc n) h"
  shows "\<exists>es. side_entries X s h = Inr es \<and> (\<forall>name. map_of es name = path_entry X s h [name])"
proof (cases h)
  case None
  then show ?thesis by (simp add: side_entries_def)
next
  case (Some k)
  with assms obtain t where t: "load_tree X k s = Inr t" "tree_wf t"
    by (auto simp: ok_side_def complete_to_Suc)
  let ?es = "map (\<lambda>e. (te_name e, e)) (entries t)"
  have "distinct (map fst ?es)"
    using t(2) sorted_names_distinct [of "entries t"] by (simp add: tree_wf_def names_ok_def o_def)
  then have "map_of (rev ?es) = map_of ?es" by (rule map_of_rev_distinct)
  with t Some show ?thesis
    by (simp add: side_entries_def path_entry_single tree_at_def tree_get_map tree_map_def rev_map)
qed

text \<open>What a diff below the path \<open>pre\<close> reports for the path \<open>parts\<close> under it.\<close>

definition reports ::
  "'x ext_scheme \<Rightarrow> tools \<Rightarrow> 'r objects_dir_scheme \<Rightarrow> diff_options \<Rightarrow> string list \<Rightarrow> hash option \<Rightarrow> hash option \<Rightarrow>
     string list \<Rightarrow> file_diff \<Rightarrow> bool" where
  "reports X T s opts pre f t parts d \<longleftrightarrow>
     passes_filter (do_paths opts) (full_path [] (pre @ parts)) \<and>
     (\<exists>k. differs X s f t parts k \<and>
        emit_change X T s opts (full_path [] (pre @ parts)) k (path_entry X s f parts) (path_entry X s t parts) = Inr d)"

definition exact ::
  "'x ext_scheme \<Rightarrow> tools \<Rightarrow> 'r objects_dir_scheme \<Rightarrow> diff_options \<Rightarrow> string list \<Rightarrow> hash option \<Rightarrow> hash option \<Rightarrow>
     (string list \<Rightarrow> bool) \<Rightarrow> fs_error + file_diff list \<Rightarrow> bool" where
  "exact X T s opts pre f t P r \<longleftrightarrow>
     (\<exists>ds. r = Inr ds \<and> distinct (map fd_path ds) \<and>
        (\<forall>d. d \<in> set ds \<longleftrightarrow> (\<exists>parts. P parts \<and> reports X T s opts pre f t parts d)))"

lemma reports_step:
  "parts \<noteq> [] \<Longrightarrow> reports X T s opts pre f t (n # parts) d \<longleftrightarrow>
     \<not> kinds_differ (path_entry X s f [n]) (path_entry X s t [n])
     \<and> reports X T s opts (pre @ [n]) (sub_tree (path_entry X s f [n])) (sub_tree (path_entry X s t [n])) parts d"
  by (auto simp: reports_def differs_step path_entry_step path_entry_single)

lemma exact_all:
  assumes "exact X T s opts pre f t P r" and "\<And>parts d. reports X T s opts pre f t parts d \<Longrightarrow> P parts"
  shows "exact X T s opts pre f t (\<lambda>_. True) r"
proof -
  have "(\<exists>parts. P parts \<and> reports X T s opts pre f t parts d) \<longleftrightarrow> (\<exists>parts. reports X T s opts pre f t parts d)" for d
    using assms(2) by blast
  with assms(1) show ?thesis by (simp add: exact_def)
qed

lemma emit_change_path: "emit_change X T s opts path k f t = Inr d \<Longrightarrow> fd_path d = path"
  by (auto simp: emit_change_def Let_def and_then_Inr_iff split: if_splits)

lemma emit_change_ok:
  assumes "change_between f t = Some k"
    and "\<And>e. f = Some e \<or> t = Some e \<Longrightarrow> te_kind e = EFile \<longrightarrow> has_blob X s (te_target e)"
  shows "\<exists>d. emit_change X T s opts path k f t = Inr d"
proof (cases "is_file_diffable k (changed_entry_kind k f t)")
  case False
  then show ?thesis by (simp add: emit_change_def Let_def)
next
  case True
  have "\<exists>b. side_bytes X s (map_option te_target e) = Inr b" if "e = f \<or> e = t" for e
  proof (cases e)
    case None
    then show ?thesis by (simp add: side_bytes_def)
  next
    case (Some x)
    then have "te_kind x = EFile"
      using True assms(1) that
      by (auto simp: change_between_def is_file_diffable_def changed_entry_kind_def split: option.splits if_splits)
    then have "has_blob X s (te_target x)" using assms(2) Some that by blast
    from has_blobD [OF this] Some show ?thesis by (auto simp: side_bytes_def)
  qed
  from this [of f] this [of t] show ?thesis by (auto simp: emit_change_def Let_def)
qed

text \<open>A single differing entry.\<close>

lemma exact_emit:
  assumes "change_between (path_entry X s f [n]) (path_entry X s t [n]) = Some k"
    and "\<And>e. path_entry X s f [n] = Some e \<or> path_entry X s t [n] = Some e \<Longrightarrow> te_kind e = EFile \<longrightarrow> has_blob X s (te_target e)"
    and "passes_filter (do_paths opts) (full_path [] (pre @ [n]))"
    and deeper: "\<And>parts d. parts \<noteq> [] \<Longrightarrow> \<not> reports X T s opts pre f t (n # parts) d"
  shows "exact X T s opts pre f t (\<lambda>ps. \<exists>qs. ps = n # qs)
    (and_then (emit_change X T s opts (full_path [] (pre @ [n])) k (path_entry X s f [n]) (path_entry X s t [n])) (\<lambda>d. Inr [d]))"
proof -
  obtain d where d: "emit_change X T s opts (full_path [] (pre @ [n])) k (path_entry X s f [n]) (path_entry X s t [n]) = Inr d"
    using emit_change_ok [OF assms(1,2)] by blast
  have "(\<exists>parts. (\<exists>qs. parts = n # qs) \<and> reports X T s opts pre f t parts d') \<longleftrightarrow> reports X T s opts pre f t [n] d'" for d'
    using deeper by (metis list.exhaust)
  moreover have "reports X T s opts pre f t [n] d' \<longleftrightarrow> d' = d" for d'
    using assms(1,3) d by (auto simp: reports_def differs_single)
  ultimately show ?thesis using d by (simp add: exact_def)
qed

text \<open>A differing subtree: the walk below it is the walk of the name.\<close>

lemma exact_sub:
  assumes "exact X T s opts (pre @ [n]) (sub_tree (path_entry X s f [n])) (sub_tree (path_entry X s t [n])) (\<lambda>_. True) r"
    and "\<not> kinds_differ (path_entry X s f [n]) (path_entry X s t [n])"
    and "change_between (path_entry X s f [n]) (path_entry X s t [n]) = None"
  shows "exact X T s opts pre f t (\<lambda>ps. \<exists>qs. ps = n # qs) r"
proof -
  have "(\<exists>parts. (\<exists>qs. parts = n # qs) \<and> reports X T s opts pre f t parts d) \<longleftrightarrow>
      (\<exists>parts. reports X T s opts (pre @ [n]) (sub_tree (path_entry X s f [n])) (sub_tree (path_entry X s t [n])) parts d)"
    (is "?l \<longleftrightarrow> ?r") for d
  proof
    assume ?l
    then obtain qs where q: "reports X T s opts pre f t (n # qs) d" by blast
    moreover have "qs \<noteq> []" using q assms(3) by (auto simp: reports_def differs_single)
    ultimately show ?r by (auto simp: reports_step)
  next
    assume ?r
    then obtain parts where p: "reports X T s opts (pre @ [n]) (sub_tree (path_entry X s f [n])) (sub_tree (path_entry X s t [n])) parts d"
      by blast
    moreover have "parts \<noteq> []" using p by (auto simp: reports_def)
    ultimately have "reports X T s opts pre f t (n # parts) d" using assms(2) by (simp add: reports_step)
    then show ?l by blast
  qed
  with assms(1) show ?thesis by (simp add: exact_def)
qed

lemma diff_name_exact_at:
  assumes ih: "\<And>f t. ok_side X s m f \<Longrightarrow> ok_side X s m t \<Longrightarrow> f \<noteq> None \<or> t \<noteq> None \<Longrightarrow>
      exact X T s opts (pre @ [n]) f t (\<lambda>_. True) (diff_subtree X T s opts m f t (full_path [] (pre @ [n])))"
    and ok: "ok_side X s (Suc m) f" "ok_side X s (Suc m) t"
    and maps: "map_of fes n = path_entry X s f [n]" "map_of tes n = path_entry X s t [n]"
    and some: "path_entry X s f [n] \<noteq> None \<or> path_entry X s t [n] \<noteq> None"
  shows "exact X T s opts pre f t (\<lambda>ps. \<exists>qs. ps = n # qs) (diff_name X T s opts m fes tes (full_path [] pre) n)"
proof -
  have path: "child_path (full_path [] pre) n = full_path [] (pre @ [n])" by (simp add: full_path_append)
  show ?thesis
  proof (cases "passes_filter (do_paths opts) (full_path [] (pre @ [n]))")
    case False
    have "\<not> reports X T s opts pre f t (n # qs) d" for qs d
    proof
      assume "reports X T s opts pre f t (n # qs) d"
      then have "passes_filter (do_paths opts) (full_path (full_path [] (pre @ [n])) qs)"
        by (simp add: reports_def full_path_append)
      then show False using False passes_filter_prefix prefix_full_path by blast
    qed
    then have "exact X T s opts pre f t (\<lambda>ps. \<exists>qs. ps = n # qs) (Inr [])" by (auto simp: exact_def)
    with False show ?thesis by (simp add: diff_name_def path)
  next
    case pass: True
    note blobs = ok_side_entry(2) [OF ok(1)] ok_side_entry(2) [OF ok(2)]
    note subs = ok_side_sub [OF ok(1), of n] ok_side_sub [OF ok(2), of n]
    let ?f = "path_entry X s f [n]" and ?t = "path_entry X s t [n]"
    have leaf: "exact X T s opts pre f t (\<lambda>ps. \<exists>qs. ps = n # qs)
        (and_then (emit_change X T s opts (full_path [] (pre @ [n])) k ?f ?t) (\<lambda>d. Inr [d]))"
      if "change_between ?f ?t = Some k" for k
    proof (rule exact_emit [OF that _ pass])
      show "te_kind e = EFile \<longrightarrow> has_blob X s (te_target e)" if "?f = Some e \<or> ?t = Some e" for e
        using that blobs by blast
      show "\<not> reports X T s opts pre f t (n # parts) d" if "parts \<noteq> []" for parts d
      proof -
        have "kinds_differ ?f ?t \<or> sub_tree ?f = None \<and> sub_tree ?t = None"
          using \<open>change_between ?f ?t = Some k\<close>
          by (auto simp: change_between_def kinds_differ_def sub_tree_def split: option.splits if_splits)
        then show ?thesis unfolding reports_step [OF that] by (auto simp: reports_def)
      qed
    qed
    have sub: "exact X T s opts pre f t (\<lambda>ps. \<exists>qs. ps = n # qs)
        (diff_subtree X T s opts m (sub_tree ?f) (sub_tree ?t) (full_path [] (pre @ [n])))"
      if "change_between ?f ?t = None" "\<not> kinds_differ ?f ?t" "sub_tree ?f \<noteq> None \<or> sub_tree ?t \<noteq> None"
      by (rule exact_sub [OF ih [OF subs that(3)] that(2,1)])
    have same: "exact X T s opts pre f t (\<lambda>ps. \<exists>qs. ps = n # qs) (Inr [])"
      if "change_between ?f ?t = None" "\<not> kinds_differ ?f ?t" "sub_tree ?f = sub_tree ?t"
    proof -
      have "\<not> reports X T s opts pre f t (n # qs) d" for qs d
      proof (cases "qs = []")
        case True
        with that(1) show ?thesis by (simp add: reports_def differs_single)
      next
        case False
        then show ?thesis unfolding reports_step [OF False] using that(3) by (simp add: reports_def)
      qed
      then show ?thesis by (auto simp: exact_def)
    qed
    show ?thesis
    proof (cases ?f)
      case None
      with some obtain b where b: "?t = Some b" by auto
      show ?thesis
        using leaf [of Added] sub None b pass
        by (cases "te_kind b = ETree")
          (simp_all add: diff_name_def path maps change_between_def kinds_differ_def sub_tree_def Let_def)
    next
      case f: (Some a)
      show ?thesis
      proof (cases ?t)
        case None
        then show ?thesis
          using leaf [of Removed] sub f pass
          by (cases "te_kind a = ETree")
            (simp_all add: diff_name_def path maps change_between_def kinds_differ_def sub_tree_def Let_def)
      next
        case t: (Some b)
        show ?thesis
          using leaf [of Modified] leaf [of "TypeChanged (te_kind a) (te_kind b)"] sub same f t pass
          by (cases "te_target a = te_target b"; cases "te_kind a = te_kind b"; cases "te_kind a = ETree")
            (simp_all add: diff_name_def path maps change_between_def kinds_differ_def sub_tree_def Let_def)
      qed
    qed
  qed
qed

lemma distinct_names: "sorted xs \<Longrightarrow> distinct (remdups_adj xs)"
  by (induction xs rule: remdups_adj.induct) auto

text \<open>The walks of distinct names put together.\<close>

lemma exact_concat:
  assumes each: "list_all2 (\<lambda>n ds. exact X T s opts pre f t (\<lambda>ps. \<exists>qs. ps = n # qs) (Inr ds)) ns dss"
    and "distinct ns" and "valid_parts pre"
    and valid: "\<And>parts d. reports X T s opts pre f t parts d \<Longrightarrow> valid_parts parts"
  shows "exact X T s opts pre f t (\<lambda>ps. \<exists>n \<in> set ns. \<exists>qs. ps = n # qs) (Inr (concat dss))"
  using each \<open>distinct ns\<close>
proof (induction ns dss rule: list_all2_induct)
  case Nil
  then show ?case by (simp add: exact_def)
next
  case (Cons n ns ds dss)
  let ?R = "reports X T s opts pre f t"
  have a: "distinct (map fd_path ds)" "\<And>d. d \<in> set ds \<longleftrightarrow> (\<exists>qs. ?R (n # qs) d)"
    using Cons.hyps(1) by (auto simp: exact_def)
  have b: "distinct (map fd_path (concat dss))"
      "\<And>d. d \<in> set (concat dss) \<longleftrightarrow> (\<exists>parts. (\<exists>m \<in> set ns. \<exists>qs. parts = m # qs) \<and> ?R parts d)"
    using Cons.IH Cons.prems by (auto simp: exact_def)
  have "fd_path d \<noteq> fd_path d'" if "d \<in> set ds" "d' \<in> set (concat dss)" for d d'
  proof
    assume eq: "fd_path d = fd_path d'"
    from a(2) [THEN iffD1, OF that(1)] obtain qs where q: "?R (n # qs) d" by blast
    from b(2) [THEN iffD1, OF that(2)] obtain m qs' where m: "m \<in> set ns" "?R (m # qs') d'" by blast
    have "valid_parts (pre @ n # qs)" "valid_parts (pre @ m # qs')"
      using valid [OF q] valid [OF m(2)] \<open>valid_parts pre\<close> by (auto simp: valid_parts_def)
    moreover have "fd_path d = full_path [] (pre @ n # qs)" "fd_path d' = full_path [] (pre @ m # qs')"
      using q m(2) by (auto simp: reports_def dest: emit_change_path)
    ultimately have "pre @ n # qs = pre @ m # qs'" using full_path_inject eq by metis
    with m(1) Cons.prems show False by auto
  qed
  then have "distinct (map fd_path (concat (ds # dss)))" using a(1) b(1) by auto
  moreover have "d \<in> set (concat (ds # dss)) \<longleftrightarrow> (\<exists>parts. (\<exists>m \<in> set (n # ns). \<exists>qs. parts = m # qs) \<and> ?R parts d)" for d
  proof -
    have "d \<in> set (concat (ds # dss)) \<longleftrightarrow> d \<in> set ds \<or> d \<in> set (concat dss)" by simp
    also have "\<dots> \<longleftrightarrow> (\<exists>qs. ?R (n # qs) d) \<or> (\<exists>parts. (\<exists>m \<in> set ns. \<exists>qs. parts = m # qs) \<and> ?R parts d)"
      by (simp only: a(2) b(2))
    finally show ?thesis by fastforce
  qed
  ultimately show ?case unfolding exact_def by blast
qed

lemma reports_valid:
  assumes "ok_side X s n f" and "ok_side X s n t" and "reports X T s opts pre f t parts d"
  shows "valid_parts parts"
proof -
  have "path_entry X s f parts \<noteq> None \<or> path_entry X s t parts \<noteq> None"
    using assms(3) change_between_some by (auto simp: reports_def differs_def)
  then show ?thesis using path_entry_valid assms(1,2) by blast
qed

lemma diff_subtree_exact:
  "ok_side X s n f \<Longrightarrow> ok_side X s n t \<Longrightarrow> f \<noteq> None \<or> t \<noteq> None \<Longrightarrow> valid_parts pre \<Longrightarrow>
   exact X T s opts pre f t (\<lambda>_. True) (diff_subtree X T s opts n f t (full_path [] pre))"
proof (induction n arbitrary: f t pre)
  case 0
  then show ?case by (auto simp: ok_side_def split: option.splits)
next
  case (Suc m)
  show ?case
  proof (cases "f = t")
    case True
    then show ?thesis using Suc.prems(3) by (auto simp: diff_subtree_Suc exact_def reports_def)
  next
    case False
    obtain fes where fes: "side_entries X s f = Inr fes" "\<And>name. map_of fes name = path_entry X s f [name]"
      using side_entries_ok [OF Suc.prems(1)] by blast
    obtain tes where tes: "side_entries X s t = Inr tes" "\<And>name. map_of tes name = path_entry X s t [name]"
      using side_entries_ok [OF Suc.prems(2)] by blast
    let ?ns = "remdups_adj (sort (map fst fes @ map fst tes))"
    have names: "n \<in> set ?ns \<longleftrightarrow> path_entry X s f [n] \<noteq> None \<or> path_entry X s t [n] \<noteq> None" for n
    proof -
      have "n \<in> set ?ns \<longleftrightarrow> map_of fes n \<noteq> None \<or> map_of tes n \<noteq> None"
        by (auto simp: map_of_eq_None_iff)
      then show ?thesis by (simp add: fes(2) tes(2))
    qed
    have each: "\<exists>y. diff_name X T s opts m fes tes (full_path [] pre) n = Inr y \<and>
        exact X T s opts pre f t (\<lambda>ps. \<exists>qs. ps = n # qs) (Inr y)" if n: "n \<in> set ?ns" for n
    proof -
      have "validate_name n = Inr ()"
        using n ok_side_entry(1) Suc.prems(1,2) unfolding names by blast
      then have v: "valid_parts (pre @ [n])" using Suc.prems(4) by (auto simp: valid_parts_def)
      have "exact X T s opts pre f t (\<lambda>ps. \<exists>qs. ps = n # qs) (diff_name X T s opts m fes tes (full_path [] pre) n)"
      proof (rule diff_name_exact_at [OF _ Suc.prems(1,2) fes(2) tes(2)])
        show "path_entry X s f [n] \<noteq> None \<or> path_entry X s t [n] \<noteq> None" using n names by blast
        show "exact X T s opts (pre @ [n]) f' t' (\<lambda>_. True) (diff_subtree X T s opts m f' t' (full_path [] (pre @ [n])))"
          if "ok_side X s m f'" "ok_side X s m t'" "f' \<noteq> None \<or> t' \<noteq> None" for f' t'
          by (rule Suc.IH [OF that v])
      qed
      then show ?thesis by (auto simp: exact_def)
    qed
    obtain dss where dss: "traverse (diff_name X T s opts m fes tes (full_path [] pre)) ?ns = Inr dss"
        "list_all2 (\<lambda>n ds. exact X T s opts pre f t (\<lambda>ps. \<exists>qs. ps = n # qs) (Inr ds)) ?ns dss"
      using traverse_Inr_all [of ?ns "diff_name X T s opts m fes tes (full_path [] pre)"
          "\<lambda>n ds. exact X T s opts pre f t (\<lambda>ps. \<exists>qs. ps = n # qs) (Inr ds)", OF each] by blast
    have "exact X T s opts pre f t (\<lambda>ps. \<exists>n \<in> set ?ns. \<exists>qs. ps = n # qs) (Inr (concat dss))"
      by (rule exact_concat [OF dss(2) _ Suc.prems(4)])
        (use reports_valid [OF Suc.prems(1,2)] in \<open>simp_all add: distinct_names del: map_append\<close>)
    moreover have "\<exists>n \<in> set ?ns. \<exists>qs. parts = n # qs" if r: "reports X T s opts pre f t parts d" for parts d
    proof -
      obtain n qs where p: "parts = n # qs" using r by (cases parts) (auto simp: reports_def)
      have "path_entry X s f parts \<noteq> None \<or> path_entry X s t parts \<noteq> None"
        using r change_between_some by (auto simp: reports_def differs_def)
      then have "path_entry X s f [n] \<noteq> None \<or> path_entry X s t [n] \<noteq> None"
        unfolding p by (cases qs) (auto simp: path_entry_step path_entry_single sub_tree_def split: option.splits)
      with names p show ?thesis by blast
    qed
    ultimately have "exact X T s opts pre f t (\<lambda>_. True) (Inr (concat dss))" by (rule exact_all)
    then show ?thesis using False fes(1) tes(1) dss(1) by (simp add: diff_subtree_Suc)
  qed
qed

lemma diff_trees_exact:
  assumes "complete X s a" and "complete X s b"
  shows "exact X T s opts [] (Some a) (Some b) (\<lambda>_. True) (diff_trees X T a b opts s)"
proof (cases "a = b")
  case True
  then show ?thesis by (auto simp: diff_trees_def exact_def reports_def)
next
  case False
  have "exact X T s opts [] (Some a) (Some b) (\<lambda>_. True) (diff_subtree X T s opts (tree_fuel s) (Some a) (Some b) (full_path [] []))"
    by (rule diff_subtree_exact) (use assms in \<open>simp_all add: ok_side_def complete_def valid_parts_def\<close>)
  with False show ?thesis by (simp add: diff_trees_def)
qed

lemma reports_root:
  assumes "complete X s a" and "complete X s b"
  shows "reports X T s opts [] (Some a) (Some b) parts d \<longleftrightarrow>
    passes_filter (do_paths opts) (join ''/'' parts) \<and>
    (\<exists>k. differs X s (Some a) (Some b) parts k \<and>
      emit_change X T s opts (join ''/'' parts) k (path_entry X s (Some a) parts) (path_entry X s (Some b) parts) = Inr d)"
proof -
  have "full_path [] parts = join ''/'' parts" if "differs X s (Some a) (Some b) parts k" for k
  proof (rule full_path_root)
    have "path_entry X s (Some a) parts \<noteq> None \<or> path_entry X s (Some b) parts \<noteq> None"
      using that change_between_some by (auto simp: differs_def)
    then have "valid_parts parts"
      using path_entry_valid [of X s "tree_fuel s" "Some a" parts] path_entry_valid [of X s "tree_fuel s" "Some b" parts] assms
      by (auto simp: ok_side_def complete_def)
    then show "[] \<notin> set parts" using valid_name by (auto simp: valid_parts_def)
  qed
  then show ?thesis by (auto simp: reports_def)
qed

section \<open>Nothing to report\<close>

definition leaf :: "tree_entry option \<Rightarrow> (entry_kind \<times> hash) option" where
  "leaf e = (case e of None \<Rightarrow> None | Some x \<Rightarrow> if te_kind x = ETree then None else Some (te_kind x, te_target x))"

text \<open>Where no path differs, both sides have the same leaves.\<close>

lemma same_leaves:
  assumes none: "\<And>parts k. \<not> differs X s f t parts k"
  shows "leaf (path_entry X s f parts) = leaf (path_entry X s t parts)"
proof -
  have kinds: "\<not> kinds_differ (path_entry X s f q) (path_entry X s t q)" for q
  proof (induction "length q" arbitrary: q rule: less_induct)
    case less
    then have "\<not> diverged X s f t q" by (auto simp: diverged_def dest: prefix_length_less)
    with none [of q] show ?case
      using kinds_differ_change [of "path_entry X s f q" "path_entry X s t q"] by (auto simp: differs_def)
  qed
  then have "\<not> diverged X s f t parts" by (simp add: diverged_def)
  with none [of parts] have "change_between (path_entry X s f parts) (path_entry X s t parts) = None"
    by (cases "change_between (path_entry X s f parts) (path_entry X s t parts)") (auto simp: differs_def)
  with kinds [of parts] show ?thesis
    by (auto simp: change_between_def kinds_differ_def leaf_def split: option.splits if_splits)
qed

lemma read_blob_leaf:
  assumes "load_tree X a s = Inr t" and "split_path path = Inr parts"
  shows "read_blob_at_path X a path s = Inr data \<longleftrightarrow>
    (\<exists>h. leaf (path_entry X s (Some a) parts) = Some (EFile, h) \<and> load_blob X h s = Inr \<lparr>blob_bytes = data\<rparr>)"
  using assms
  by (auto simp: read_blob_find path_entry_def tree_at_def leaf_def split: option.splits)

lemma map_of_by_name:
  "map_option g (map_of (map (\<lambda>e. (f e, e)) es) n) = map_of (map (\<lambda>e. (f e, g e)) es) n"
  by (induction es) auto

lemma same_targets_no_diff:
  assumes "complete X s a" and "complete X s b" and "load_tree X a s = Inr ta" and "load_tree X b s = Inr tb"
    and same: "map (\<lambda>e. (te_name e, te_kind e, te_target e)) (entries ta) = map (\<lambda>e. (te_name e, te_kind e, te_target e)) (entries tb)"
  shows "diff_trees X T a b opts s = Inr []"
proof -
  let ?v = "map_option (\<lambda>e. (te_kind e, te_target e))"
  have tm: "?v (tree_map t n) = map_of (map (\<lambda>e. (te_name e, te_kind e, te_target e)) (entries t)) n" for t n
    unfolding tree_map_def by (rule map_of_by_name)
  have wf: "tree_wf ta" "tree_wf tb"
    using assms(1-4) by (auto simp: complete_def tree_fuel_def complete_to_Suc)
  have v: "?v (path_entry X s (Some a) [n]) = ?v (path_entry X s (Some b) [n])" for n
    using tm [of ta n] tm [of tb n] same wf assms(3,4) by (simp add: path_entry_single tree_at_def tree_get_map)
  have "\<not> differs X s (Some a) (Some b) parts k" for parts k
  proof (cases parts)
    case (Cons n ps)
    have sub: "sub_tree (path_entry X s (Some a) [n]) = sub_tree (path_entry X s (Some b) [n])"
      and none: "change_between (path_entry X s (Some a) [n]) (path_entry X s (Some b) [n]) = None"
      using v [of n]
      by (cases "path_entry X s (Some a) [n]"; cases "path_entry X s (Some b) [n]"; simp add: sub_tree_def change_between_def)+
    show ?thesis
      using none differs_step [of ps X s "Some a" "Some b" n k] by (cases "ps = []") (auto simp: Cons differs_single sub)
  qed simp
  then have "\<not> reports X T s opts [] (Some a) (Some b) parts d" for parts d by (simp add: reports_def)
  then show ?thesis using diff_trees_exact [OF assms(1,2), of T opts] by (auto simp: exact_def)
qed

end
