(* ===== verification/Grep.thy ===== *)
theory Grep
  imports Diff
begin

text \<open>
  \<^verbatim>\<open>tig-fs/src/grep.rs\<close>: every line of every regular file of a stored tree that matches a
  pattern. The accumulator is threaded through the walk because the global cap reads it; the
  early returns at the cap are no-ops of the remaining iterations.
\<close>

record grep_match =
  gm_path :: string
  gm_line_number :: nat
  gm_line :: string

record grep_options =
  go_regex :: bool
  go_ignore_case :: bool
  go_paths :: "string list"
  go_max_matches_per_file :: "nat option"
  go_max_total_matches :: "nat option"

datatype matcher = Literal string bool | Regex "string \<Rightarrow> bool"

definition matcher_compile :: "tools \<Rightarrow> string \<Rightarrow> grep_options \<Rightarrow> fs_error + matcher" where
  "matcher_compile T pattern opts =
     (if go_regex opts
      then case regex_build T pattern (go_ignore_case opts) of
             Inl e \<Rightarrow> Inl (FCore (CDecode (InvalidRegex pattern)))
           | Inr re \<Rightarrow> Inr (Regex re)
      else Inr (Literal (if go_ignore_case opts then lowercase T pattern else pattern) (go_ignore_case opts)))"

fun matcher_matches :: "tools \<Rightarrow> matcher \<Rightarrow> string \<Rightarrow> bool" where
  "matcher_matches T (Literal needle ignore_case) line =
     contains (if ignore_case then lowercase T line else line) needle"
| "matcher_matches T (Regex re) line = re line"

definition path_passes_filter :: "string \<Rightarrow> string list \<Rightarrow> bool" where
  "path_passes_filter path paths \<longleftrightarrow> paths = [] \<or> (\<exists>p \<in> set paths. starts_with path p)"

definition at_global_cap :: "grep_options \<Rightarrow> grep_match list \<Rightarrow> bool" where
  "at_global_cap opts out = (case go_max_total_matches opts of None \<Rightarrow> False | Some cap \<Rightarrow> cap \<le> length out)"

text \<open>The loop over the lines of one file; \<open>i\<close> is the line's index, \<open>n\<close> the matches in this file.\<close>

fun grep_lines ::
  "tools \<Rightarrow> grep_options \<Rightarrow> matcher \<Rightarrow> string \<Rightarrow> nat \<Rightarrow> nat \<Rightarrow> string list \<Rightarrow>
     grep_match list \<Rightarrow> grep_match list" where
  "grep_lines T opts m path i n [] out = out"
| "grep_lines T opts m path i n (l # ls) out =
     (if matcher_matches T m l
      then let out' = out @ [\<lparr>gm_path = path, gm_line_number = i + 1, gm_line = l\<rparr>] in
           if (case go_max_matches_per_file opts of None \<Rightarrow> False | Some cap \<Rightarrow> cap \<le> n + 1) then out'
           else if at_global_cap opts out' then out'
           else grep_lines T opts m path (i + 1) (n + 1) ls out'
      else grep_lines T opts m path (i + 1) n ls out)"

text \<open>A fallible loop with an accumulator.\<close>

fun fold_err :: "('b \<Rightarrow> 'a \<Rightarrow> 'e + 'b) \<Rightarrow> 'b \<Rightarrow> 'a list \<Rightarrow> 'e + 'b" where
  "fold_err f b [] = Inr b"
| "fold_err f b (x # xs) = (case f b x of Inl e \<Rightarrow> Inl e | Inr b' \<Rightarrow> fold_err f b' xs)"

lemma fold_err_cong [fundef_cong]:
  "xs = ys \<Longrightarrow> b = c \<Longrightarrow> (\<And>b x. x \<in> set ys \<Longrightarrow> f b x = g b x) \<Longrightarrow> fold_err f b xs = fold_err g c ys"
  by (induction ys arbitrary: xs b c) (auto split: sum.splits)

fun grep_walk ::
  "'x ext_scheme \<Rightarrow> tools \<Rightarrow> 'r objects_dir_scheme \<Rightarrow> grep_options \<Rightarrow> matcher \<Rightarrow> nat \<Rightarrow> string \<Rightarrow> hash \<Rightarrow>
     grep_match list \<Rightarrow> fs_error + grep_match list" where
  "grep_walk X T s opts m 0 pfx h out = Inl FCrash"
| "grep_walk X T s opts m (Suc fuel) pfx h out =
     and_then (load_tree X h s) (\<lambda>t.
       fold_err (\<lambda>out e.
         if at_global_cap opts out then Inr out
         else let path = child_path pfx (te_name e) in
           case te_kind e of
             EFile \<Rightarrow>
               if \<not> path_passes_filter path (go_paths opts) then Inr out
               else and_then (load_blob X (te_target e) s) (\<lambda>b.
                 if is_binary (blob_bytes b) then Inr out
                 else Inr (grep_lines T opts m path 0 0 (str_lines (lossy (bytes_str (blob_bytes b)))) out))
           | ETree \<Rightarrow> grep_walk X T s opts m fuel path (te_target e) out
           | _ \<Rightarrow> Inr out)
         out (entries t))"

definition grep_tree ::
  "'x ext_scheme \<Rightarrow> tools \<Rightarrow> hash \<Rightarrow> string \<Rightarrow> grep_options \<Rightarrow> 'r objects_dir_scheme \<Rightarrow> fs_error + grep_match list" where
  "grep_tree X T h pattern opts s =
     (if pattern = [] then Inl (FCore (CDecode EmptyPattern))
      else and_then (matcher_compile T pattern opts) (\<lambda>m. grep_walk X T s opts m (tree_fuel s) [] h []))"

section \<open>The uncapped search\<close>

text \<open>The matches of one text, the way a reader would number them.\<close>

definition file_matches :: "tools \<Rightarrow> matcher \<Rightarrow> string \<Rightarrow> nat \<Rightarrow> string list \<Rightarrow> grep_match list" where
  "file_matches T m path first ls =
     map (\<lambda>(i, l). \<lparr>gm_path = path, gm_line_number = i, gm_line = l\<rparr>)
       (filter (\<lambda>(i, l). matcher_matches T m l) (enumerate first ls))"

text \<open>\<open>Some 0\<close> as the cap of a file still lets one match through: the check follows the push.\<close>

definition file_cap :: "grep_options \<Rightarrow> 'a list \<Rightarrow> 'a list" where
  "file_cap opts xs = (case go_max_matches_per_file opts of None \<Rightarrow> xs | Some k \<Rightarrow> take (max k 1) xs)"

definition total_cap :: "grep_options \<Rightarrow> 'a list \<Rightarrow> 'a list" where
  "total_cap opts xs = (case go_max_total_matches opts of None \<Rightarrow> xs | Some k \<Rightarrow> take k xs)"

fun all_matches ::
  "'x ext_scheme \<Rightarrow> tools \<Rightarrow> 'r objects_dir_scheme \<Rightarrow> grep_options \<Rightarrow> matcher \<Rightarrow> nat \<Rightarrow> string \<Rightarrow> hash \<Rightarrow> grep_match list" where
  "all_matches X T s opts m 0 pfx h = []"
| "all_matches X T s opts m (Suc n) pfx h =
     (case load_tree X h s of
        Inl _ \<Rightarrow> []
      | Inr t \<Rightarrow> concat (map (\<lambda>e. let path = child_path pfx (te_name e) in
          case te_kind e of
            EFile \<Rightarrow>
              (case load_blob X (te_target e) s of
                 Inl _ \<Rightarrow> []
               | Inr b \<Rightarrow>
                   if path_passes_filter path (go_paths opts) \<and> \<not> is_binary (blob_bytes b)
                   then file_cap opts (file_matches T m path 1 (str_lines (lossy (bytes_str (blob_bytes b)))))
                   else [])
          | ETree \<Rightarrow> all_matches X T s opts m n path (te_target e)
          | _ \<Rightarrow> []) (entries t)))"

end
