(* ===== verification/Grep_Props.thy ===== *)
theory Grep_Props
  imports Grep Diff_Props
begin

text \<open>The search finds exactly the matching lines, cut off at the caps.\<close>

section \<open>The caps\<close>

lemma total_cap_twice: "total_cap opts (total_cap opts (xs @ ys) @ zs) = total_cap opts (xs @ ys @ zs)"
  by (cases "go_max_total_matches opts") (simp_all add: total_cap_def min_def)

lemma total_cap_under: "\<not> at_global_cap opts xs \<Longrightarrow> total_cap opts (xs @ [y]) = xs @ [y]"
  by (auto simp: total_cap_def at_global_cap_def split: option.splits)

lemma total_cap_full: "at_global_cap opts xs \<Longrightarrow> total_cap opts xs = xs \<Longrightarrow> total_cap opts (xs @ ys) = xs"
  by (auto simp: total_cap_def at_global_cap_def split: option.splits)

definition room :: "grep_options \<Rightarrow> nat \<Rightarrow> 'a list \<Rightarrow> 'a list" where
  "room opts n xs = (case go_max_matches_per_file opts of None \<Rightarrow> xs | Some k \<Rightarrow> take (max k 1 - n) xs)"

lemma room_first: "room opts 0 xs = file_cap opts xs"
  by (cases "go_max_matches_per_file opts") (simp_all add: room_def file_cap_def)

lemma file_matches_simps [simp]:
  "file_matches T m path i [] = []"
  "file_matches T m path i (l # ls) =
     (if matcher_matches T m l then \<lparr>gm_path = path, gm_line_number = i, gm_line = l\<rparr> # file_matches T m path (i + 1) ls
      else file_matches T m path (i + 1) ls)"
  by (simp_all add: file_matches_def)

lemma grep_lines_caps:
  "\<not> at_global_cap opts out \<Longrightarrow> (case go_max_matches_per_file opts of None \<Rightarrow> True | Some k \<Rightarrow> n < max k 1) \<Longrightarrow>
   grep_lines T opts m path i n ls out = total_cap opts (out @ room opts n (file_matches T m path (i + 1) ls))"
proof (induction ls arbitrary: i n out)
  case Nil
  then show ?case
    by (auto simp: room_def total_cap_def at_global_cap_def split: option.splits)
next
  case (Cons l ls)
  let ?g = "\<lparr>gm_path = path, gm_line_number = i + 1, gm_line = l\<rparr>"
  show ?case
  proof (cases "matcher_matches T m l")
    case False
    with Cons.IH [OF Cons.prems, of "i + 1"] show ?thesis by simp
  next
    case match: True
    let ?rest = "file_matches T m path (i + 2) ls"
    have room: "room opts n (?g # ?rest) = ?g # room opts (n + 1) ?rest"
      using Cons.prems(2) by (cases "go_max_matches_per_file opts") (auto simp: room_def take_Cons' Suc_diff_Suc)
    have single: "total_cap opts (out @ [?g]) = out @ [?g]" using total_cap_under [OF Cons.prems(1)] .
    show ?thesis
    proof (cases "case go_max_matches_per_file opts of None \<Rightarrow> False | Some cap \<Rightarrow> cap \<le> n + 1")
      case capped: True
      then have "room opts (n + 1) ?rest = []" by (auto simp: room_def split: option.splits)
      with capped match room single show ?thesis by simp
    next
      case open_file: False
      show ?thesis
      proof (cases "at_global_cap opts (out @ [?g])")
        case total: True
        have "total_cap opts ((out @ [?g]) @ room opts (n + 1) ?rest) = out @ [?g]"
          by (rule total_cap_full [OF total single])
        with open_file total match room show ?thesis by simp
      next
        case neither: False
        have "case go_max_matches_per_file opts of None \<Rightarrow> True | Some k \<Rightarrow> n + 1 < max k 1"
          using open_file by (auto simp: less_max_iff_disj not_le split: option.splits)
        from Cons.IH [OF neither this, of "i + 1"]
        have "grep_lines T opts m path (i + 1) (n + 1) ls (out @ [?g])
            = total_cap opts ((out @ [?g]) @ room opts (n + 1) ?rest)" by simp
        with open_file neither match room show ?thesis by simp
      qed
    qed
  qed
qed

section \<open>The walk\<close>

lemma fold_err_caps:
  assumes "\<And>out e. e \<in> set es \<Longrightarrow> total_cap opts out = out \<Longrightarrow> f out e = Inr (total_cap opts (out @ g e))"
  shows "total_cap opts out = out \<Longrightarrow> fold_err f out es = Inr (total_cap opts (out @ concat (map g es)))"
  using assms
proof (induction es arbitrary: out)
  case (Cons e es)
  have "fold_err f (total_cap opts (out @ g e)) es = Inr (total_cap opts (total_cap opts (out @ g e) @ concat (map g es)))"
    by (rule Cons.IH) (use Cons.prems total_cap_twice [of opts "out @ g e" "[]" "[]"] in \<open>simp_all add: total_cap_twice [of opts out "g e" "[]", simplified]\<close>)
  with Cons.prems show ?case by (simp add: total_cap_twice)
qed simp

lemma grep_walk_all:
  "complete_to X s n h \<Longrightarrow> total_cap opts out = out \<Longrightarrow>
   grep_walk X T s opts m n pfx h out = Inr (total_cap opts (out @ all_matches X T s opts m n pfx h))"
proof (induction n arbitrary: pfx h out)
  case (Suc n)
  then obtain t where t: "load_tree X h s = Inr t"
      "\<And>e. e \<in> set (entries t) \<Longrightarrow> te_kind e = ETree \<Longrightarrow> complete_to X s n (te_target e)"
      "\<And>e. e \<in> set (entries t) \<Longrightarrow> te_kind e = EFile \<Longrightarrow> has_blob X s (te_target e)"
    by (auto simp: complete_to_Suc)
  show ?case
    unfolding grep_walk.simps(2) all_matches.simps(2) t(1) and_then_simps sum.case
  proof (rule fold_err_caps [OF _ Suc.prems(2)])
    fix out :: "grep_match list" and e assume e: "e \<in> set (entries t)" and cap: "total_cap opts out = out"
    let ?path = "child_path pfx (te_name e)"
    show "(if at_global_cap opts out then Inr out
         else let path = ?path in
           case te_kind e of
             EFile \<Rightarrow>
               if \<not> path_passes_filter path (go_paths opts) then Inr out
               else and_then (load_blob X (te_target e) s) (\<lambda>b.
                 if is_binary (blob_bytes b) then Inr out
                 else Inr (grep_lines T opts m path 0 0 (str_lines (lossy (bytes_str (blob_bytes b)))) out))
           | ETree \<Rightarrow> grep_walk X T s opts m n path (te_target e) out
           | _ \<Rightarrow> Inr out)
      = Inr (total_cap opts (out @ (let path = ?path in
          case te_kind e of
            EFile \<Rightarrow>
              (case load_blob X (te_target e) s of
                 Inl _ \<Rightarrow> []
               | Inr b \<Rightarrow>
                   if path_passes_filter path (go_paths opts) \<and> \<not> is_binary (blob_bytes b)
                   then file_cap opts (file_matches T m path 1 (str_lines (lossy (bytes_str (blob_bytes b)))))
                   else [])
          | ETree \<Rightarrow> all_matches X T s opts m n path (te_target e)
          | _ \<Rightarrow> [])))" (is "?l = Inr (total_cap opts (out @ ?new))")
    proof (cases "at_global_cap opts out")
      case True
      with total_cap_full [OF True cap, of ?new] show ?thesis by simp
    next
      case under: False
      show ?thesis
      proof (cases "te_kind e")
        case EFile
        obtain b where b: "load_blob X (te_target e) s = Inr b" using has_blobD [OF t(3) [OF e EFile]] by blast
        have "grep_lines T opts m ?path 0 0 ls out = total_cap opts (out @ file_cap opts (file_matches T m ?path 1 ls))" for ls
          using grep_lines_caps [OF under, of 0 T m ?path 0 ls]
          by (cases "go_max_matches_per_file opts") (simp_all add: room_first less_max_iff_disj)
        with EFile b under cap show ?thesis by (simp add: Let_def)
      next
        case ETree
        with under Suc.IH [OF t(2) [OF e ETree] cap] show ?thesis by (simp add: Let_def)
      qed (use under cap in \<open>simp_all add: Let_def\<close>)
    qed
  qed
qed simp

section \<open>What is found\<close>

definition is_match ::
  "'x ext_scheme \<Rightarrow> tools \<Rightarrow> 'r objects_dir_scheme \<Rightarrow> grep_options \<Rightarrow> matcher \<Rightarrow> string \<Rightarrow> tree_entry option \<Rightarrow> grep_match \<Rightarrow> bool" where
  "is_match X T s opts m path e g \<longleftrightarrow>
     (\<exists>x b i. e = Some x \<and> te_kind x = EFile \<and> load_blob X (te_target x) s = Inr b \<and>
        path_passes_filter path (go_paths opts) \<and> \<not> is_binary (blob_bytes b) \<and>
        i < length (str_lines (lossy (bytes_str (blob_bytes b)))) \<and>
        matcher_matches T m (str_lines (lossy (bytes_str (blob_bytes b))) ! i) \<and>
        g = \<lparr>gm_path = path, gm_line_number = i + 1, gm_line = str_lines (lossy (bytes_str (blob_bytes b))) ! i\<rparr>)"

lemma file_matches_set:
  "g \<in> set (file_matches T m path 1 ls) \<longleftrightarrow>
   (\<exists>i < length ls. matcher_matches T m (ls ! i) \<and> g = \<lparr>gm_path = path, gm_line_number = i + 1, gm_line = ls ! i\<rparr>)"
proof -
  have "g \<in> set (file_matches T m path 1 ls) \<longleftrightarrow>
      (\<exists>p \<in> set (enumerate 1 ls). matcher_matches T m (snd p) \<and> g = \<lparr>gm_path = path, gm_line_number = fst p, gm_line = snd p\<rparr>)"
    by (force simp: file_matches_def)
  also have "set (enumerate 1 ls) = (\<lambda>i. (i + 1, ls ! i)) ` {..<length ls}"
  proof (rule set_eqI)
    fix p :: "nat \<times> string"
    show "p \<in> set (enumerate 1 ls) \<longleftrightarrow> p \<in> (\<lambda>i. (i + 1, ls ! i)) ` {..<length ls}"
      unfolding in_set_enumerate_eq image_iff
      by (cases p) (auto intro!: bexI [of _ "fst p - 1"])
  qed
  finally show ?thesis by auto
qed

lemma all_matches_set:
  assumes nocap: "go_max_matches_per_file opts = None"
  shows "complete_to X s n h \<Longrightarrow>
    g \<in> set (all_matches X T s opts m n pfx h) \<longleftrightarrow>
    (\<exists>parts. is_match X T s opts m (full_path pfx parts) (path_entry X s (Some h) parts) g)"
proof (induction n arbitrary: pfx h)
  case (Suc n)
  then obtain t where t: "load_tree X h s = Inr t" "tree_wf t"
      "\<And>e. e \<in> set (entries t) \<Longrightarrow> te_kind e = ETree \<Longrightarrow> complete_to X s n (te_target e)"
      "\<And>e. e \<in> set (entries t) \<Longrightarrow> te_kind e = EFile \<Longrightarrow> has_blob X s (te_target e)"
    by (auto simp: complete_to_Suc)
  have cap: "file_cap opts xs = xs" for xs :: "grep_match list" by (simp add: file_cap_def nocap)
  have head: "path_entry X s (Some h) [n] = Some e \<longleftrightarrow> e \<in> set (entries t) \<and> te_name e = n" for n e
    using t(1,2) by (simp add: path_entry_single tree_at_def tree_get_map tree_map_Some)
  let ?at = "\<lambda>parts. is_match X T s opts m (full_path pfx parts) (path_entry X s (Some h) parts) g"
  have one: "g \<in> set (let path = child_path pfx (te_name e) in
          case te_kind e of
            EFile \<Rightarrow>
              (case load_blob X (te_target e) s of
                 Inl _ \<Rightarrow> []
               | Inr b \<Rightarrow>
                   if path_passes_filter path (go_paths opts) \<and> \<not> is_binary (blob_bytes b)
                   then file_cap opts (file_matches T m path 1 (str_lines (lossy (bytes_str (blob_bytes b)))))
                   else [])
          | ETree \<Rightarrow> all_matches X T s opts m n path (te_target e)
          | _ \<Rightarrow> []) \<longleftrightarrow> (\<exists>ps. ?at (te_name e # ps))" (is "g \<in> set ?new \<longleftrightarrow> _") if e: "e \<in> set (entries t)" for e
  proof -
    have pe: "path_entry X s (Some h) [te_name e] = Some e" using head e by blast
    have deeper: "?at (te_name e # ps) \<longleftrightarrow>
        is_match X T s opts m (full_path (child_path pfx (te_name e)) ps) (path_entry X s (sub_tree (Some e)) ps) g"
      if "ps \<noteq> []" for ps
      using that pe by (simp add: path_entry_step path_entry_single)
    have not_below: "\<not> ?at (te_name e # ps)" if "te_kind e \<noteq> ETree" "ps \<noteq> []" for ps
      unfolding deeper [OF that(2)] using that(1) by (simp add: sub_tree_def is_match_def)
    have not_here: "\<not> ?at [te_name e]" if "te_kind e \<noteq> EFile"
      using that by (simp add: pe is_match_def)
    have other: "\<not> ?at (te_name e # ps)" if "te_kind e \<noteq> ETree" "te_kind e \<noteq> EFile" for ps
      using not_below [OF that(1)] not_here [OF that(2)] by (cases "ps = []") simp_all
    show ?thesis
    proof (cases "te_kind e")
      case EFile
      obtain b where b: "load_blob X (te_target e) s = Inr b" using has_blobD [OF t(4) [OF e EFile]] by blast
      have "?at [te_name e] \<longleftrightarrow> path_passes_filter (child_path pfx (te_name e)) (go_paths opts)
          \<and> \<not> is_binary (blob_bytes b)
          \<and> g \<in> set (file_matches T m (child_path pfx (te_name e)) 1 (str_lines (lossy (bytes_str (blob_bytes b)))))"
        unfolding is_match_def file_matches_set pe using EFile b by auto
      moreover have "(\<exists>ps. ?at (te_name e # ps)) \<longleftrightarrow> ?at [te_name e]"
        using not_below EFile by (metis entry_kind.distinct(1))
      ultimately show ?thesis using EFile b by (simp add: Let_def cap)
    next
      case ETree
      have "(\<exists>ps. ?at (te_name e # ps)) \<longleftrightarrow> (\<exists>ps. ps \<noteq> [] \<and> ?at (te_name e # ps))"
        using not_here ETree by (metis entry_kind.distinct(1))
      also have "\<dots> \<longleftrightarrow> (\<exists>ps. ps \<noteq> [] \<and>
          is_match X T s opts m (full_path (child_path pfx (te_name e)) ps) (path_entry X s (Some (te_target e)) ps) g)"
        using deeper ETree by (auto simp: sub_tree_def)
      also have "\<dots> \<longleftrightarrow>
          (\<exists>ps. is_match X T s opts m (full_path (child_path pfx (te_name e)) ps) (path_entry X s (Some (te_target e)) ps) g)"
        by (metis is_match_def option.distinct(1) path_entry_Nil)
      finally show ?thesis using Suc.IH [OF t(3) [OF e ETree]] ETree by (simp add: Let_def)
    qed (simp_all add: other [unfolded full_path_simps] Let_def)
  qed
  have "g \<in> set (all_matches X T s opts m (Suc n) pfx h) \<longleftrightarrow> (\<exists>e \<in> set (entries t). \<exists>ps. ?at (te_name e # ps))"
    using one by (simp add: t(1))
  also have "\<dots> \<longleftrightarrow> (\<exists>parts. ?at parts)"
  proof
    assume "\<exists>parts. ?at parts"
    then obtain parts where a: "?at parts" by blast
    then obtain p ps where p: "parts = p # ps" by (cases parts) (auto simp: is_match_def)
    have "path_entry X s (Some h) [p] \<noteq> None"
      using a unfolding p by (cases "ps = []") (auto simp: is_match_def path_entry_step path_entry_single sub_tree_def split: option.splits)
    then obtain e where "path_entry X s (Some h) [p] = Some e" by blast
    then have e: "e \<in> set (entries t)" "te_name e = p" unfolding head by simp_all
    have "?at (te_name e # ps)" using a unfolding p e(2) .
    with e(1) show "\<exists>e \<in> set (entries t). \<exists>ps. ?at (te_name e # ps)" by (intro bexI exI)
  qed blast
  finally show ?case .
qed simp

end
