(* ===== verification/Blame.thy ===== *)
theory Blame
  imports Diff
begin

text \<open>
  \<^verbatim>\<open>tig-fs/src/blame.rs\<close>: which snapshot each line of a file comes from, by walking first parents
  and carrying attributions through line diffs. The recursion follows snapshot hashes, so it
  carries fuel; a finite history never exhausts it (below).
\<close>

record blame_line =
  bl_line :: string
  bl_snap :: hash
  bl_author :: principal_id
  bl_timestamp_ns :: u64
  bl_message :: "string option"

definition synthesize_line :: "string \<Rightarrow> hash \<Rightarrow> snapshot \<Rightarrow> blame_line" where
  "synthesize_line l h sn =
     \<lparr>bl_line = l, bl_snap = h, bl_author = sn_author sn, bl_timestamp_ns = sn_timestamp_ns sn,
      bl_message = sn_message sn\<rparr>"

definition make_lines_from :: "string list \<Rightarrow> hash \<Rightarrow> snapshot \<Rightarrow> blame_line list" where
  "make_lines_from ls h sn = map (\<lambda>l. synthesize_line l h sn) ls"

text \<open>What one change of the diff against the parent contributes; \<^verbatim>\<open>expect\<close> is a crash.\<close>

definition blame_change ::
  "blame_line list \<Rightarrow> hash \<Rightarrow> snapshot \<Rightarrow> text_change \<Rightarrow> fs_error + blame_line list" where
  "blame_change parent_attrs h sn c =
     (case tc_tag c of
        TagEqual \<Rightarrow>
          (case tc_old c of
             None \<Rightarrow> Inl FCrash
           | Some i \<Rightarrow> Inr [if i < length parent_attrs then parent_attrs ! i
                           else synthesize_line (strip_eol (tc_value c)) h sn])
      | TagInsert \<Rightarrow> Inr [synthesize_line (strip_eol (tc_value c)) h sn]
      | TagDelete \<Rightarrow> Inr [])"

fun blame_at ::
  "'x ext_scheme \<Rightarrow> tools \<Rightarrow> 'r objects_dir_scheme \<Rightarrow> nat \<Rightarrow> string \<Rightarrow> hash \<Rightarrow> fs_error + blame_line list" where
  "blame_at X T s 0 path h = Inl FCrash"
| "blame_at X T s (Suc fuel) path h =
     and_then (load_snapshot X h s) (\<lambda>sn.
       and_then (try_read_blob_at_path X (sn_tree sn) path s) (\<lambda>current.
         case current of
           None \<Rightarrow> Inl (FCore (CDecode (NotAFileAtSnapshot path)))
         | Some current_bytes \<Rightarrow>
             if is_binary current_bytes then Inl (FCore (CDecode (BinaryFile path)))
             else let current_text = lossy (bytes_str current_bytes);
                      all_here = make_lines_from (str_lines current_text) h sn in
               case sn_parents sn of
                 [] \<Rightarrow> Inr all_here
               | parent # _ \<Rightarrow>
                   and_then (load_snapshot X parent s) (\<lambda>psn.
                     and_then (try_read_blob_at_path X (sn_tree psn) path s) (\<lambda>before_bytes.
                       case before_bytes of
                         None \<Rightarrow> Inr all_here
                       | Some parent_bytes \<Rightarrow>
                           if is_binary parent_bytes then Inr all_here
                           else and_then (blame_at X T s fuel path parent) (\<lambda>parent_attrs.
                             and_then (traverse (blame_change parent_attrs h sn)
                                 (line_changes T (lossy (bytes_str parent_bytes)) current_text))
                               (\<lambda>ls. Inr (concat ls)))))))"

section \<open>Histories\<close>

text \<open>The first parents of a snapshot, itself first, down to a snapshot without parents.\<close>

inductive first_parents :: "'x ext_scheme \<Rightarrow> 'r objects_dir_scheme \<Rightarrow> hash \<Rightarrow> hash list \<Rightarrow> bool" for X s where
  root: "load_snapshot X h s = Inr sn \<Longrightarrow> sn_parents sn = [] \<Longrightarrow> first_parents X s h [h]"
| step: "load_snapshot X h s = Inr sn \<Longrightarrow> sn_parents sn = p # ps \<Longrightarrow> first_parents X s p hs \<Longrightarrow>
     first_parents X s h (h # hs)"

inductive_cases first_parents_Cons: "first_parents X s h (q # hs)"

lemma first_parents_unique:
  "first_parents X s h hs \<Longrightarrow> first_parents X s h hs' \<Longrightarrow> hs = hs'"
proof (induction arbitrary: hs' rule: first_parents.induct)
  case (root h sn)
  from root.prems show ?case
    by (cases rule: first_parents.cases) (use root.hyps in simp_all)
next
  case (step h sn p ps hs)
  from step.prems show ?case
  proof (cases rule: first_parents.cases)
    case (root sn')
    with step.hyps show ?thesis by simp
  next
    case (step sn' p' ps' hs'')
    then have "p' = p" using step(2,3) \<open>load_snapshot X h s = Inr sn\<close> \<open>sn_parents sn = p # ps\<close> by simp
    with step(4) have "hs = hs''" using \<open>\<And>hs'. first_parents X s p hs' \<Longrightarrow> hs = hs'\<close> by blast
    with step(1) show ?thesis by simp
  qed
qed

lemma first_parents_suffix:
  "first_parents X s h hs \<Longrightarrow> q \<in> set hs \<Longrightarrow> \<exists>qs. first_parents X s q qs \<and> length qs \<le> length hs"
proof (induction rule: first_parents.induct)
  case (root h sn)
  then have "q = h" by simp
  then show ?case using first_parents.root [OF root.hyps] by blast
next
  case (step h sn p ps hs)
  show ?case
  proof (cases "q = h")
    case True
    then show ?thesis using first_parents.step [OF step.hyps] by blast
  next
    case False
    then have "q \<in> set hs" using step.prems by simp
    from step.IH [OF this] show ?thesis by auto
  qed
qed

lemma first_parents_distinct: "first_parents X s h hs \<Longrightarrow> distinct hs"
proof (induction rule: first_parents.induct)
  case (step h sn p ps hs)
  have "h \<notin> set hs"
  proof
    assume "h \<in> set hs"
    from first_parents_suffix [OF step.hyps(3) this] obtain qs where
      q: "first_parents X s h qs" "length qs \<le> length hs" by blast
    with first_parents_unique [OF q(1) first_parents.step [OF step.hyps]] show False by simp
  qed
  with step.IH show ?case by simp
qed simp

lemma first_parents_stored: "first_parents X s h hs \<Longrightarrow> set hs \<subseteq> {h. obj_has X h s}"
  by (induction rule: first_parents.induct)
    (auto simp: load_snapshot_def and_then_Inr_iff obj_has_def obj_get_Inr_iff)

text \<open>A finite history is no longer than there are stored objects.\<close>

lemma first_parents_fuel:
  assumes "hex_laws X" and "first_parents X s h hs"
  shows "length hs < tree_fuel s"
proof -
  have "length hs = card (set hs)" using first_parents_distinct [OF assms(2)] by (simp add: distinct_card)
  also have "\<dots> \<le> card {h. obj_has X h s}"
    by (rule card_mono [OF stored_set_finite [OF assms(1)] first_parents_stored [OF assms(2)]])
  also have "\<dots> \<le> length (ofiles s)" by (rule stored_finite [OF assms(1)])
  finally show ?thesis by (simp add: tree_fuel_def)
qed

section \<open>Attributions\<close>

definition file_text :: "'x ext_scheme \<Rightarrow> 'r objects_dir_scheme \<Rightarrow> string \<Rightarrow> hash \<Rightarrow> string option" where
  "file_text X s path h =
     (case load_snapshot X h s of
        Inl _ \<Rightarrow> None
      | Inr sn \<Rightarrow>
          (case try_read_blob_at_path X (sn_tree sn) path s of
             Inr (Some b) \<Rightarrow> if is_binary b then None else Some (lossy (bytes_str b))
           | _ \<Rightarrow> None))"

text \<open>The file can be looked up at a snapshot, and if it is text it has no carriage returns.\<close>

definition readable_at :: "'x ext_scheme \<Rightarrow> 'r objects_dir_scheme \<Rightarrow> string \<Rightarrow> hash \<Rightarrow> bool" where
  "readable_at X s path h \<longleftrightarrow>
     (\<exists>sn r. load_snapshot X h s = Inr sn \<and> try_read_blob_at_path X (sn_tree sn) path s = Inr r) \<and>
     (\<forall>t. file_text X s path h = Some t \<longrightarrow> carriage \<notin> set t)"

text \<open>A line attributed to a snapshot of the history that has that very line in its file.\<close>

definition attributed ::
  "'x ext_scheme \<Rightarrow> 'r objects_dir_scheme \<Rightarrow> string \<Rightarrow> hash list \<Rightarrow> blame_line \<Rightarrow> bool" where
  "attributed X s path hs l \<longleftrightarrow>
     (\<exists>sn t. bl_snap l \<in> set hs \<and> load_snapshot X (bl_snap l) s = Inr sn \<and>
        l = synthesize_line (bl_line l) (bl_snap l) sn \<and>
        file_text X s path (bl_snap l) = Some t \<and> bl_line l \<in> set (str_lines t))"

lemma make_lines_from_lines [simp]: "map bl_line (make_lines_from ls h sn) = ls"
  by (simp add: make_lines_from_def synthesize_line_def o_def)

lemma make_lines_attributed:
  assumes "load_snapshot X h s = Inr sn" and "file_text X s path h = Some t" and "h \<in> set hs"
  shows "\<forall>l \<in> set (make_lines_from (str_lines t) h sn). attributed X s path hs l"
  using assms by (auto simp: make_lines_from_def attributed_def synthesize_line_def)

lemma attributed_Cons: "attributed X s path hs l \<Longrightarrow> attributed X s path (h # hs) l"
  by (auto simp: attributed_def)

text \<open>A change that is not an insertion stands for the old line its index names.\<close>

lemma old_line:
  assumes "diff_laws T" and "carriage \<notin> set a" and "carriage \<notin> set b"
    and "c \<in> set (line_changes T a b)" and "tc_tag c \<noteq> TagInsert"
  shows "\<exists>i < length (split_inclusive a). tc_old c = Some i \<and> tc_value c = split_inclusive a ! i"
proof -
  let ?old = "filter (\<lambda>c. tc_tag c \<noteq> TagInsert) (line_changes T a b)"
  note d = diff_lawsD(1,2) [OF assms(1-3)]
  have len: "length ?old = length (split_inclusive a)" using d(1) by (metis length_map)
  obtain i where i: "i < length ?old" "?old ! i = c"
  proof -
    have "c \<in> set ?old" using assms(4,5) by simp
    with that show thesis unfolding in_set_conv_nth by blast
  qed
  have "tc_value c = split_inclusive a ! i" using d(1) i by (metis nth_map)
  moreover have "tc_old c = Some i"
    using arg_cong [OF d(2), of "\<lambda>xs. xs ! i"] i len by simp
  ultimately show ?thesis using i(1) len by auto
qed

lemma blame_changes:
  assumes laws: "diff_laws T" "carriage \<notin> set a" "carriage \<notin> set b"
    and attrs: "map bl_line attrs = str_lines a" "\<forall>l \<in> set attrs. attributed X s path hs l"
    and here: "load_snapshot X h s = Inr sn" "file_text X s path h = Some b"
  shows "\<exists>lss. traverse (blame_change attrs h sn) (line_changes T a b) = Inr lss
    \<and> map bl_line (concat lss) = str_lines b \<and> (\<forall>l \<in> set (concat lss). attributed X s path (h # hs) l)"
proof -
  let ?kept = "\<lambda>c. tc_tag c \<noteq> TagDelete"
  have new: "map tc_value (filter ?kept (line_changes T a b)) = split_inclusive b"
    by (rule diff_lawsD(3) [OF laws])
  have one: "\<exists>ls. blame_change attrs h sn c = Inr ls
      \<and> map bl_line ls = (if ?kept c then [strip_line_end (tc_value c)] else [])
      \<and> (\<forall>l \<in> set ls. attributed X s path (h # hs) l)" if c: "c \<in> set (line_changes T a b)" for c
  proof (cases "tc_tag c")
    case TagEqual
    then obtain i where i: "i < length (split_inclusive a)" "tc_old c = Some i" "tc_value c = split_inclusive a ! i"
      using old_line [OF laws c] by auto
    have len: "length attrs = length (split_inclusive a)"
      using arg_cong [OF attrs(1), of length] by (simp add: str_lines_def)
    have "bl_line (attrs ! i) = strip_line_end (tc_value c)"
      using arg_cong [OF attrs(1), of "\<lambda>xs. xs ! i"] i len by (simp add: str_lines_def)
    moreover have "attributed X s path (h # hs) (attrs ! i)"
      using attrs(2) i(1) len by (simp add: attributed_Cons)
    ultimately show ?thesis using TagEqual i len by (simp add: blame_change_def)
  next
    case TagInsert
    then have v: "tc_value c \<in> set (split_inclusive b)"
    proof -
      have "c \<in> set (filter ?kept (line_changes T a b))" using c TagInsert by simp
      then have "tc_value c \<in> set (map tc_value (filter ?kept (line_changes T a b)))" unfolding set_map by (rule imageI)
      then show ?thesis by (simp only: new)
    qed
    then have "carriage \<notin> set (tc_value c)" using laws(3) split_inclusive_chars by blast
    then have "strip_eol (tc_value c) = strip_line_end (tc_value c)" by (rule strip_eol_line)
    moreover have "strip_line_end (tc_value c) \<in> set (str_lines b)" using v by (simp add: str_lines_def)
    ultimately show ?thesis using TagInsert here
      by (auto simp: blame_change_def attributed_def synthesize_line_def)
  next
    case TagDelete
    then show ?thesis by (simp add: blame_change_def)
  qed
  then obtain lss where lss: "traverse (blame_change attrs h sn) (line_changes T a b) = Inr lss"
      "list_all2 (\<lambda>c ls. map bl_line ls = (if ?kept c then [strip_line_end (tc_value c)] else [])
         \<and> (\<forall>l \<in> set ls. attributed X s path (h # hs) l)) (line_changes T a b) lss"
    using traverse_Inr_all [of "line_changes T a b" "blame_change attrs h sn"
      "\<lambda>c ls. map bl_line ls = (if ?kept c then [strip_line_end (tc_value c)] else [])
         \<and> (\<forall>l \<in> set ls. attributed X s path (h # hs) l)"] by blast
  have "map bl_line (concat lss) = map strip_line_end (map tc_value (filter ?kept cs))
      \<and> (\<forall>l \<in> set (concat lss). attributed X s path (h # hs) l)"
    if "list_all2 (\<lambda>c ls. map bl_line ls = (if ?kept c then [strip_line_end (tc_value c)] else [])
         \<and> (\<forall>l \<in> set ls. attributed X s path (h # hs) l)) cs lss" for cs lss
    using that by (induction rule: list_all2_induct) auto
  from this [OF lss(2)] lss(1) new show ?thesis by (simp add: str_lines_def)
qed

lemma blame_at_history:
  assumes laws: "diff_laws T"
  shows "first_parents X s h hs \<Longrightarrow> \<forall>q \<in> set hs. readable_at X s path q \<Longrightarrow> file_text X s path h = Some t \<Longrightarrow>
    length hs \<le> fuel \<Longrightarrow>
    \<exists>ls. blame_at X T s fuel path h = Inr ls \<and> map bl_line ls = str_lines t \<and> (\<forall>l \<in> set ls. attributed X s path hs l)"
proof (induction arbitrary: t fuel rule: first_parents.induct)
  case (root h sn)
  then obtain n where n: "fuel = Suc n" by (cases fuel) auto
  obtain b where b: "try_read_blob_at_path X (sn_tree sn) path s = Inr (Some b)" "\<not> is_binary b" "t = lossy (bytes_str b)"
    using root by (auto simp: file_text_def split: sum.splits option.splits if_splits)
  show ?case using root b make_lines_attributed [OF root.hyps(1) root.prems(2), of "[h]"]
    by (simp add: n Let_def)
next
  case (step h sn p ps hs)
  then obtain n where n: "fuel = Suc n" "length hs \<le> n" by (cases fuel) auto
  obtain b where b: "try_read_blob_at_path X (sn_tree sn) path s = Inr (Some b)" "\<not> is_binary b" "t = lossy (bytes_str b)"
    using step by (auto simp: file_text_def split: sum.splits option.splits if_splits)
  have p: "p \<in> set hs" using step.hyps(3) by (cases rule: first_parents.cases) auto
  then obtain psn r where psn: "load_snapshot X p s = Inr psn" "try_read_blob_at_path X (sn_tree psn) path s = Inr r"
    using step.prems(1) by (auto simp: readable_at_def)
  have here: "\<forall>l \<in> set (make_lines_from (str_lines t) h sn). attributed X s path (h # hs) l"
    by (rule make_lines_attributed [OF step.hyps(1) step.prems(2)]) simp
  show ?case
  proof (cases "file_text X s path p")
    case None
    then show ?thesis using step.hyps(1,2) b here psn
      by (auto simp: n(1) Let_def file_text_def split: option.splits if_splits)
  next
    case (Some a)
    then obtain pb where pb: "r = Some pb" "\<not> is_binary pb" "a = lossy (bytes_str pb)"
      using psn by (auto simp: file_text_def split: option.splits if_splits)
    obtain attrs where attrs: "blame_at X T s n path p = Inr attrs" "map bl_line attrs = str_lines a"
        "\<forall>l \<in> set attrs. attributed X s path hs l"
      using step.IH [OF _ Some n(2)] step.prems(1) by auto
    have "carriage \<notin> set a" "carriage \<notin> set t"
      using step.prems(1,2) Some p by (auto simp: readable_at_def)
    from blame_changes [OF laws this attrs(2,3) step.hyps(1) step.prems(2)] obtain lss where
      "traverse (blame_change attrs h sn) (line_changes T a t) = Inr lss"
      "map bl_line (concat lss) = str_lines t" "\<forall>l \<in> set (concat lss). attributed X s path (h # hs) l" by blast
    then show ?thesis using step.hyps(1,2) b psn pb attrs(1) by (simp add: n(1) Let_def)
  qed
qed

end
