(* ===== verification/Blame_Props.thy ===== *)
theory Blame_Props
  imports Blame
begin

text \<open>
  What blame is for: the snapshot that last changed a line. \<open>last_modified\<close> says it of one line of
  one version by following the line back through the diffs, without attributions; blame computes
  exactly that.
\<close>

section \<open>Following a line back\<close>

definition parent_text :: "'x ext_scheme \<Rightarrow> 'r objects_dir_scheme \<Rightarrow> string \<Rightarrow> snapshot \<Rightarrow> string option" where
  "parent_text X s path sn = (case sn_parents sn of [] \<Rightarrow> None | p # _ \<Rightarrow> file_text X s path p)"

text \<open>Line \<open>j\<close> (counted from zero) of the file at snapshot \<open>h\<close> was last modified by the third snapshot: by
  \<open>h\<close> when there is no earlier text, or when the diff from the parent's text inserts it; else by the
  one that last modified the parent's line that the diff matches it with.\<close>

inductive last_modified ::
  "'x ext_scheme \<Rightarrow> tools \<Rightarrow> 'r objects_dir_scheme \<Rightarrow> string \<Rightarrow> hash \<Rightarrow> nat \<Rightarrow> hash \<Rightarrow> bool" for X T s path where
  created: "load_snapshot X h s = Inr sn \<Longrightarrow> file_text X s path h = Some b \<Longrightarrow> parent_text X s path sn = None \<Longrightarrow>
    j < length (str_lines b) \<Longrightarrow> last_modified X T s path h j h"
| inserted: "load_snapshot X h s = Inr sn \<Longrightarrow> file_text X s path h = Some b \<Longrightarrow> parent_text X s path sn = Some a \<Longrightarrow>
    c \<in> set (line_changes T a b) \<Longrightarrow> tc_tag c = TagInsert \<Longrightarrow> tc_new c = Some j \<Longrightarrow> last_modified X T s path h j h"
| kept: "load_snapshot X h s = Inr sn \<Longrightarrow> file_text X s path h = Some b \<Longrightarrow> parent_text X s path sn = Some a \<Longrightarrow>
    c \<in> set (line_changes T a b) \<Longrightarrow> tc_tag c = TagEqual \<Longrightarrow> tc_old c = Some i \<Longrightarrow> tc_new c = Some j \<Longrightarrow>
    last_modified X T s path (List.hd (sn_parents sn)) i q \<Longrightarrow> last_modified X T s path h j q"

inductive_cases last_modifiedE: "last_modified X T s path h j q"

lemma last_modified_from:
  assumes "last_modified X T s path h j q" and "load_snapshot X h s = Inr sn" and "file_text X s path h = Some b"
    and "parent_text X s path sn = Some a"
  shows "(\<exists>c \<in> set (line_changes T a b). tc_tag c = TagInsert \<and> tc_new c = Some j \<and> q = h)
    \<or> (\<exists>c \<in> set (line_changes T a b). \<exists>i. tc_tag c = TagEqual \<and> tc_old c = Some i \<and> tc_new c = Some j
         \<and> last_modified X T s path (List.hd (sn_parents sn)) i q)"
  using assms(1) by (rule last_modifiedE) (use assms(2-4) in auto)

text \<open>The changes that are in the new text, one for each of its lines.\<close>

definition new_lines :: "text_change list \<Rightarrow> text_change list" where
  "new_lines cs = filter (\<lambda>c. tc_tag c \<noteq> TagDelete) cs"

lemma new_lines_at:
  assumes "diff_laws T" and "carriage \<notin> set a" and "carriage \<notin> set b"
  shows "length (new_lines (line_changes T a b)) = length (str_lines b)"
    and "j < length (str_lines b) \<Longrightarrow> tc_new (new_lines (line_changes T a b) ! j) = Some j"
proof -
  let ?new = "new_lines (line_changes T a b)"
  have l: "map tc_value ?new = split_inclusive b" "map tc_new ?new = map Some [0..<length ?new]"
    using assms by (simp_all add: diff_laws_def Let_def new_lines_def)
  show len: "length ?new = length (str_lines b)" using arg_cong [OF l(1), of length] by (simp add: str_lines_def)
  show "j < length (str_lines b) \<Longrightarrow> tc_new (?new ! j) = Some j"
    using arg_cong [OF l(2), of "\<lambda>xs. xs ! j"] len by simp
qed

lemma new_line_unique:
  assumes "diff_laws T" and "carriage \<notin> set a" and "carriage \<notin> set b"
    and "c \<in> set (line_changes T a b)" and "tc_tag c \<noteq> TagDelete" and "tc_new c = Some j"
  shows "j < length (str_lines b) \<and> c = new_lines (line_changes T a b) ! j"
proof -
  note at = new_lines_at [OF assms(1-3)]
  have "c \<in> set (new_lines (line_changes T a b))" using assms(4,5) by (simp add: new_lines_def)
  then obtain k where "k < length (str_lines b)" "new_lines (line_changes T a b) ! k = c"
    using at(1) by (auto simp: in_set_conv_nth)
  with at(2) [of k] assms(6) show ?thesis by auto
qed

section \<open>One diff\<close>

lemma traverse_kept:
  assumes "traverse f cs = Inr lss" and "\<And>c ls. c \<in> set cs \<Longrightarrow> f c = Inr ls \<Longrightarrow> ls = (if P c then [g c] else [])"
  shows "concat lss = map g (filter P cs)"
proof -
  have "list_all2 (\<lambda>c ls. f c = Inr ls) cs lss" using assms(1) by (simp add: traverse_Inr_iff)
  then show ?thesis using assms(2)
  proof (induction rule: list_all2_induct)
    case (Cons x xs y ys)
    have "y = (if P x then [g x] else [])" using Cons.prems [of x y] Cons.hyps(1) by simp
    moreover have "concat ys = map g (filter P xs)" using Cons.IH Cons.prems by simp
    ultimately show ?case by simp
  qed simp
qed

definition blamed :: "blame_line list \<Rightarrow> hash \<Rightarrow> snapshot \<Rightarrow> text_change \<Rightarrow> blame_line" where
  "blamed attrs h sn c =
     (if tc_tag c = TagEqual then attrs ! the (tc_old c) else synthesize_line (strip_eol (tc_value c)) h sn)"

lemma blame_change_blamed:
  assumes "diff_laws T" and "carriage \<notin> set a" and "carriage \<notin> set b" and "length attrs = length (str_lines a)"
    and "c \<in> set (line_changes T a b)" and "blame_change attrs h sn c = Inr ls"
  shows "ls = (if tc_tag c \<noteq> TagDelete then [blamed attrs h sn c] else [])"
proof (cases "tc_tag c")
  case TagEqual
  then obtain i where "tc_old c = Some i" "i < length attrs"
    using old_line [OF assms(1-3,5)] assms(4) by (auto simp: str_lines_def)
  with TagEqual assms(6) show ?thesis by (simp add: blame_change_def blamed_def)
qed (use assms(6) in \<open>simp_all add: blame_change_def blamed_def\<close>)

lemma blame_changes_at:
  assumes "diff_laws T" and "carriage \<notin> set a" and "carriage \<notin> set b" and "length attrs = length (str_lines a)"
    and "traverse (blame_change attrs h sn) (line_changes T a b) = Inr lss"
  shows "concat lss = map (blamed attrs h sn) (new_lines (line_changes T a b))"
  unfolding new_lines_def
  by (rule traverse_kept [OF assms(5)]) (rule blame_change_blamed [OF assms(1-4)])

section \<open>Blame\<close>

lemma first_parents_parent:
  assumes "first_parents X s h hs" and "load_snapshot X h s = Inr sn" and "sn_parents sn = p # ps"
  obtains hs' where "first_parents X s p hs'" "hs = h # hs'"
  using assms(1) by (cases rule: first_parents.cases) (use assms(2,3) that in auto)

lemma texts_clean:
  assumes "first_parents X s h hs" and "\<forall>g \<in> set hs. readable_at X s path g"
    and "load_snapshot X h s = Inr sn" and "file_text X s path h = Some b" and "parent_text X s path sn = Some a"
  shows "carriage \<notin> set a \<and> carriage \<notin> set b"
proof -
  obtain p ps where p: "sn_parents sn = p # ps" "file_text X s path p = Some a"
    using assms(5) by (auto simp: parent_text_def split: list.splits)
  obtain hs' where "first_parents X s p hs'" "hs = h # hs'"
    by (rule first_parents_parent [OF assms(1,3) p(1)])
  moreover from this(1) have "p \<in> set hs'" by (cases rule: first_parents.cases) auto
  ultimately show ?thesis using assms(2,4) p(2) by (auto simp: readable_at_def)
qed

text \<open>A line has one last modification.\<close>

lemma last_modified_unique:
  assumes "diff_laws T"
  shows "last_modified X T s path h j q \<Longrightarrow> first_parents X s h hs \<Longrightarrow> \<forall>g \<in> set hs. readable_at X s path g \<Longrightarrow>
    last_modified X T s path h j q' \<Longrightarrow> q' = q"
proof (induction arbitrary: hs q' rule: last_modified.induct)
  case (created h sn b j)
  from created.prems(3) show ?case by (cases rule: last_modifiedE) (use created.hyps in auto)
next
  case (inserted h sn b a c j)
  have cr: "carriage \<notin> set a" "carriage \<notin> set b"
    using texts_clean [OF inserted.prems(1,2) inserted.hyps(1-3)] by simp_all
  note u = new_line_unique [OF assms cr]
  from inserted.prems(3) show ?case
    by (cases rule: last_modifiedE) (use inserted.hyps u [of c j] u [of _ j] in force)+
next
  case (kept h sn b a c i j q)
  have cr: "carriage \<notin> set a" "carriage \<notin> set b"
    using texts_clean [OF kept.prems(1,2) kept.hyps(1-3)] by simp_all
  note u = new_line_unique [OF assms cr]
  obtain p ps where p: "sn_parents sn = p # ps" using kept.hyps(3) by (auto simp: parent_text_def split: list.splits)
  obtain hs' where hs': "first_parents X s p hs'" "hs = h # hs'"
    by (rule first_parents_parent [OF kept.prems(1) kept.hyps(1) p])
  note outer = kept.hyps
  have IH: "last_modified X T s path p i q'' \<Longrightarrow> q'' = q" for q''
    using kept.IH [of hs' q''] hs' kept.prems(2) by (simp add: p)
  from last_modified_from [OF kept.prems(3) kept.hyps(1-3)] show ?case
  proof (elim disjE bexE exE conjE)
    fix c' assume "c' \<in> set (line_changes T a b)" "tc_tag c' = TagInsert" "tc_new c' = Some j"
    with u [of c j] u [of c' j] outer show ?thesis by simp
  next
    fix c' i' assume c': "c' \<in> set (line_changes T a b)" "tc_tag c' = TagEqual" "tc_old c' = Some i'" "tc_new c' = Some j"
      "last_modified X T s path (List.hd (sn_parents sn)) i' q'"
    then have "c' = c" using u [of c j] u [of c' j] outer by simp
    with c' outer IH show ?thesis by (simp add: p)
  qed
qed

section \<open>Blame finds it\<close>

lemma blame_at_modified:
  assumes laws: "diff_laws T"
  shows "first_parents X s h hs \<Longrightarrow> \<forall>q \<in> set hs. readable_at X s path q \<Longrightarrow> file_text X s path h = Some t \<Longrightarrow>
    blame_at X T s fuel path h = Inr ls \<Longrightarrow> length ls = length (str_lines t) \<Longrightarrow> length hs \<le> fuel \<Longrightarrow>
    \<forall>j < length ls. last_modified X T s path h j (bl_snap (ls ! j))"
proof (induction arbitrary: t fuel ls rule: first_parents.induct)
  case (root h sn)
  then obtain n where n: "fuel = Suc n" by (cases fuel) auto
  have ls: "ls = make_lines_from (str_lines t) h sn"
    using root by (auto simp: n Let_def file_text_def split: sum.splits option.splits if_splits)
  have "last_modified X T s path h j h" if "j < length (str_lines t)" for j
    by (rule created [OF root.hyps(1) root.prems(2)]) (use root.hyps(2) that in \<open>simp_all add: parent_text_def\<close>)
  then show ?case by (simp add: ls make_lines_from_def synthesize_line_def)
next
  case (step h sn p ps hs)
  then obtain n where n: "fuel = Suc n" "length hs \<le> n" by (cases fuel) auto
  have fp: "first_parents X s h (h # hs)" by (rule first_parents.step [OF step.hyps])
  have p: "p \<in> set hs" using step.hyps(3) by (cases rule: first_parents.cases) auto
  obtain psn r where psn: "load_snapshot X p s = Inr psn" "try_read_blob_at_path X (sn_tree psn) path s = Inr r"
    using step.prems(1) p by (auto simp: readable_at_def)
  obtain b where b: "try_read_blob_at_path X (sn_tree sn) path s = Inr (Some b)" "\<not> is_binary b" "t = lossy (bytes_str b)"
    using step by (auto simp: file_text_def split: sum.splits option.splits if_splits)
  show ?case
  proof (cases "file_text X s path p")
    case None
    have "ls = make_lines_from (str_lines t) h sn"
      using step.prems(3) step.hyps(1,2) b psn None by (auto simp: n(1) Let_def file_text_def split: option.splits if_splits)
    moreover have "last_modified X T s path h j h" if "j < length (str_lines t)" for j
      by (rule created [OF step.hyps(1) step.prems(2)]) (use step.hyps(2) None that in \<open>simp_all add: parent_text_def\<close>)
    ultimately show ?thesis by (simp add: make_lines_from_def synthesize_line_def)
  next
    case (Some a)
    have par: "parent_text X s path sn = Some a" using Some step.hyps(2) by (simp add: parent_text_def)
    have cr: "carriage \<notin> set a" "carriage \<notin> set t"
      using texts_clean [OF fp step.prems(1) step.hyps(1) step.prems(2) par] by simp_all
    obtain pb where pb: "r = Some pb" "\<not> is_binary pb" "a = lossy (bytes_str pb)"
      using psn Some by (auto simp: file_text_def split: option.splits if_splits)
    obtain attrs where attrs: "blame_at X T s n path p = Inr attrs" "map bl_line attrs = str_lines a"
      using blame_at_history [OF laws step.hyps(3) _ Some n(2)] step.prems(1) by auto
    have len: "length attrs = length (str_lines a)" using arg_cong [OF attrs(2), of length] by simp
    obtain lss where lss: "traverse (blame_change attrs h sn) (line_changes T a t) = Inr lss" "ls = concat lss"
      using step.prems(3) step.hyps(1,2) b psn pb attrs(1) by (auto simp: n(1) Let_def and_then_Inr_iff)
    have eq: "ls = map (blamed attrs h sn) (new_lines (line_changes T a t))"
      using blame_changes_at [OF laws cr len lss(1)] lss(2) by simp
    have IH: "\<forall>i < length attrs. last_modified X T s path p i (bl_snap (attrs ! i))"
      by (rule step.IH [OF _ Some attrs(1) len n(2)]) (use step.prems(1) in simp)
    show ?thesis
    proof (intro allI impI)
      fix j assume j: "j < length ls"
      let ?c = "new_lines (line_changes T a t) ! j"
      have jt: "j < length (str_lines t)" using j step.prems(4) by simp
      have new: "tc_new ?c = Some j" by (rule new_lines_at(2) [OF laws cr jt])
      have "?c \<in> set (new_lines (line_changes T a t))" using j eq by simp
      then have c: "?c \<in> set (line_changes T a t)" "tc_tag ?c \<noteq> TagDelete" by (simp_all add: new_lines_def)
      have lj: "ls ! j = blamed attrs h sn ?c" using j eq by simp
      show "last_modified X T s path h j (bl_snap (ls ! j))"
      proof (cases "tc_tag ?c")
        case TagEqual
        then obtain i where i: "tc_old ?c = Some i" "i < length attrs"
          using old_line [OF laws cr c(1)] len by (auto simp: str_lines_def)
        have "last_modified X T s path (List.hd (sn_parents sn)) i (bl_snap (attrs ! i))"
          using IH i(2) step.hyps(2) by simp
        from kept [OF step.hyps(1) step.prems(2) par c(1) TagEqual i(1) new this] show ?thesis
          using TagEqual i by (simp add: lj blamed_def)
      next
        case TagInsert
        from inserted [OF step.hyps(1) step.prems(2) par c(1) TagInsert new] show ?thesis
          using TagInsert by (simp add: lj blamed_def synthesize_line_def)
      qed (use c(2) in simp)
    qed
  qed
qed

end
