(* ===== verification/Query_Theorems.thy ===== *)
theory Query_Theorems
  imports Diff_Props Grep_Props Blame_Props Demo_Repo
begin

text \<open>The properties of the queries over stored trees: diff, grep and blame.\<close>

section \<open>A concrete line diff and a concrete store\<close>

fun common_len :: "'a list \<Rightarrow> 'a list \<Rightarrow> nat" where
  "common_len (x # xs) (y # ys) = (if x = y then Suc (common_len xs ys) else 0)"
| "common_len _ _ = 0"

lemma common_len_bounds: "common_len xs ys \<le> length xs" "common_len xs ys \<le> length ys"
  by (induction xs ys rule: common_len.induct) auto

lemma common_len_take: "i < common_len xs ys \<Longrightarrow> xs ! i = ys ! i"
  by (induction xs ys arbitrary: i rule: common_len.induct) (auto simp: nth_Cons split: if_splits nat.splits)

text \<open>Keep the common prefix, delete the rest of the old lines, insert the rest of the new ones.\<close>

definition prefix_changes :: "string \<Rightarrow> string \<Rightarrow> text_change list" where
  "prefix_changes a b =
     (let xs = split_inclusive a; ys = split_inclusive b; k = common_len xs ys in
      map (\<lambda>i. \<lparr>tc_tag = TagEqual, tc_old = Some i, tc_new = Some i, tc_value = xs ! i\<rparr>) [0..<k]
      @ map (\<lambda>i. \<lparr>tc_tag = TagDelete, tc_old = Some i, tc_new = None, tc_value = xs ! i\<rparr>) [k..<length xs]
      @ map (\<lambda>i. \<lparr>tc_tag = TagInsert, tc_old = None, tc_new = Some i, tc_value = ys ! i\<rparr>) [k..<length ys])"

definition demo_tools :: tools where
  "demo_tools = \<lparr>line_changes = prefix_changes, hunk_changes = (\<lambda>a b n. [prefix_changes a b]),
     regex_build = (\<lambda>p ignore_case. Inr (\<lambda>l. contains l p)), lowercase = (\<lambda>s. s)\<rparr>"

lemma demo_diff_laws: "diff_laws demo_tools"
proof -
  have "let cs = prefix_changes a b; old = filter (\<lambda>c. tc_tag c \<noteq> TagInsert) cs; new = filter (\<lambda>c. tc_tag c \<noteq> TagDelete) cs in
      map tc_value old = split_inclusive a \<and> map tc_old old = map Some [0..<length old] \<and>
      map tc_value new = split_inclusive b \<and> map tc_new new = map Some [0..<length new]" for a b
  proof -
    let ?xs = "split_inclusive a" and ?ys = "split_inclusive b"
    let ?k = "common_len ?xs ?ys"
    have old: "map f [0..<?k] @ map f [?k..<length ?xs] = map f [0..<length ?xs]" for f :: "nat \<Rightarrow> 'z"
      using upt_add_eq_append [of 0 ?k "length ?xs - ?k"] common_len_bounds(1) [of ?xs ?ys] by (simp flip: map_append)
    have new: "map f [0..<?k] @ map f [?k..<length ?ys] = map f [0..<length ?ys]" for f :: "nat \<Rightarrow> 'z"
      using upt_add_eq_append [of 0 ?k "length ?ys - ?k"] common_len_bounds(2) [of ?xs ?ys] by (simp flip: map_append)
    have same: "map ((!) ?xs) [0..<?k] = map ((!) ?ys) [0..<?k]" by (auto intro: common_len_take)
    have "map ((!) ?xs) [0..<?k] @ map ((!) ?xs) [?k..<length ?xs] = ?xs"
      by (simp only: old map_nth)
    moreover have "map ((!) ?xs) [0..<?k] @ map ((!) ?ys) [?k..<length ?ys] = ?ys"
      by (simp only: same new map_nth)
    ultimately show ?thesis
      by (simp add: prefix_changes_def Let_def filter_map o_def old new common_len_bounds)
  qed
  then show ?thesis by (simp add: diff_laws_def demo_tools_def)
qed

definition one_file :: "file_mode \<Rightarrow> bytes \<Rightarrow> tree" where
  "one_file m b = \<lparr>entries = [entry_for ''f'' EFile m (raw_hash demo (blob_raw b))]\<rparr>"

definition old_bytes :: bytes where "old_bytes = [120, 10]"

definition new_bytes :: bytes where "new_bytes = [120, 10, 121, 10]"

definition snap_of :: "hash list \<Rightarrow> tree \<Rightarrow> snapshot" where
  "snap_of ps t = \<lparr>sn_parents = ps, sn_tree = raw_hash demo (tree_raw t), sn_author = principal_local ''a'',
     sn_timestamp_ns = 1, sn_message = None, sn_op_id = None\<rparr>"

definition old_snap :: snapshot where "old_snap = snap_of [] (one_file mode_regular old_bytes)"

definition new_snap :: snapshot where
  "new_snap = snap_of [raw_hash demo (snapshot_raw old_snap)] (one_file mode_regular new_bytes)"

definition query_raws :: "raw_object list" where
  "query_raws = [blob_raw old_bytes, blob_raw new_bytes, tree_raw (one_file mode_regular old_bytes),
     tree_raw (one_file mode_exec old_bytes), tree_raw (one_file mode_regular new_bytes),
     snapshot_raw old_snap, snapshot_raw new_snap]"

lemma query_raws_distinct: "distinct (map (raw_hash demo) (remdups query_raws))"
  by code_simp

lemma query_get: "raw \<in> set query_raws \<Longrightarrow> obj_get demo (raw_hash demo raw) (puts query_raws) = Inr raw"
  using puts_get [of query_raws "[]" raw] query_raws_distinct by simp

lemma query_loads:
  "b \<in> {old_bytes, new_bytes} \<Longrightarrow> load_blob demo (raw_hash demo (blob_raw b)) (puts query_raws) = Inr \<lparr>blob_bytes = b\<rparr>"
  "(m, b) \<in> {(mode_regular, old_bytes), (mode_exec, old_bytes), (mode_regular, new_bytes)} \<Longrightarrow>
     load_tree demo (raw_hash demo (tree_raw (one_file m b))) (puts query_raws) = Inr (one_file m b)"
  "sn \<in> {old_snap, new_snap} \<Longrightarrow> load_snapshot demo (raw_hash demo (snapshot_raw sn)) (puts query_raws) = Inr sn"
proof -
  have blobs: "b \<in> {old_bytes, new_bytes} \<Longrightarrow> blob_raw b \<in> set query_raws"
    and trees: "(m, b) \<in> {(mode_regular, old_bytes), (mode_exec, old_bytes), (mode_regular, new_bytes)} \<Longrightarrow>
      tree_raw (one_file m b) \<in> set query_raws"
    and snaps: "sn \<in> {old_snap, new_snap} \<Longrightarrow> snapshot_raw sn \<in> set query_raws"
    by (elim insertE emptyE; simp add: query_raws_def)+
  show "b \<in> {old_bytes, new_bytes} \<Longrightarrow> load_blob demo (raw_hash demo (blob_raw b)) (puts query_raws) = Inr \<lparr>blob_bytes = b\<rparr>"
    "(m, b) \<in> {(mode_regular, old_bytes), (mode_exec, old_bytes), (mode_regular, new_bytes)} \<Longrightarrow>
       load_tree demo (raw_hash demo (tree_raw (one_file m b))) (puts query_raws) = Inr (one_file m b)"
    "sn \<in> {old_snap, new_snap} \<Longrightarrow> load_snapshot demo (raw_hash demo (snapshot_raw sn)) (puts query_raws) = Inr sn"
    using query_get blobs trees snaps by (simp_all add: load_blob_def load_tree_def load_snapshot_def)
qed

lemma query_complete:
  assumes "(m, b) \<in> {(mode_regular, old_bytes), (mode_exec, old_bytes), (mode_regular, new_bytes)}"
  shows "complete demo (puts query_raws) (raw_hash demo (tree_raw (one_file m b)))"
proof (rule complete_fuel [OF demo_hex])
  have wf: "tree_wf (one_file m b)"
    by (simp add: tree_wf_def names_ok_def one_file_def entry_for_def validate_name_def)
  have "has_blob demo (puts query_raws) (raw_hash demo (blob_raw b))"
    using assms query_loads(1) by (auto simp: has_blob_def)
  with query_loads(2) [OF assms] wf show "complete_to demo (puts query_raws) 1 (raw_hash demo (tree_raw (one_file m b)))"
    by (simp add: complete_to_Suc One_nat_def one_file_def entry_for_def)
qed

lemma query_entry:
  assumes "(m, b) \<in> {(mode_regular, old_bytes), (mode_exec, old_bytes), (mode_regular, new_bytes)}"
  shows "path_entry demo (puts query_raws) (Some (raw_hash demo (tree_raw (one_file m b)))) [''f'']
      = Some (entry_for ''f'' EFile m (raw_hash demo (blob_raw b)))"
proof -
  have "tree_wf (one_file m b)"
    by (simp add: tree_wf_def names_ok_def one_file_def entry_for_def validate_name_def)
  then show ?thesis using query_loads(2) [OF assms]
    by (simp add: path_entry_single tree_at_def tree_get_map tree_map_def one_file_def entry_for_def)
qed

section \<open>Diff\<close>

text \<open>C33. A diff of two completely stored trees succeeds and lists, each once, exactly the paths in the
  filter at which they differ by kind or target. Modes are not compared, directories are not listed
  themselves, and below a path whose kind changes nothing is: at a listed path the two lookups give entries of different kinds, or the same
  non-directory kind with different contents, or one side has a non-directory entry and the other
  nothing; no ancestor of it already differs in kind; and it passes the path filter. The report at
  the path is the one \<open>emit_change\<close> computes from the two entries.\<close>

theorem diff_exact:
  assumes "complete X s a" and "complete X s b"
  shows "\<exists>ds. diff_trees X T a b opts s = Inr ds \<and> distinct (map fd_path ds) \<and>
    (\<forall>d. d \<in> set ds \<longleftrightarrow>
      (\<exists>parts k. passes_filter (do_paths opts) (join ''/'' parts) \<and> differs X s (Some a) (Some b) parts k \<and>
         emit_change X T s opts (join ''/'' parts) k (path_entry X s (Some a) parts) (path_entry X s (Some b) parts) = Inr d))"
  using diff_trees_exact [OF assms, of T opts] unfolding exact_def reports_root [OF assms] by blast

lemma query_trees_distinct:
  "raw_hash demo (blob_raw old_bytes) \<noteq> raw_hash demo (blob_raw new_bytes)"
  by code_simp

definition no_hunks :: diff_options where
  "no_hunks = \<lparr>do_no_hunks = True, do_paths = [], do_context_lines = 3\<rparr>"

theorem diff_exact_witness:
  "\<exists>ds. diff_trees demo demo_tools (raw_hash demo (tree_raw (one_file mode_regular old_bytes)))
      (raw_hash demo (tree_raw (one_file mode_regular new_bytes))) no_hunks (puts query_raws) = Inr ds
    \<and> (\<exists>d \<in> set ds. fd_path d = ''f'' \<and> fd_kind d = Modified)"
proof -
  let ?a = "raw_hash demo (tree_raw (one_file mode_regular old_bytes))"
  let ?b = "raw_hash demo (tree_raw (one_file mode_regular new_bytes))"
  have c: "complete demo (puts query_raws) ?a" "complete demo (puts query_raws) ?b"
    by (rule query_complete; simp)+
  note e = query_entry [of mode_regular old_bytes] query_entry [of mode_regular new_bytes]
  have "differs demo (puts query_raws) (Some ?a) (Some ?b) [''f''] Modified"
    using e query_trees_distinct by (simp add: differs_single change_between_def entry_for_def)
  moreover obtain d where "emit_change demo demo_tools (puts query_raws) no_hunks (join ''/'' [''f'']) Modified
      (path_entry demo (puts query_raws) (Some ?a) [''f'']) (path_entry demo (puts query_raws) (Some ?b) [''f'']) = Inr d"
      "fd_path d = ''f''" "fd_kind d = Modified"
    by (simp add: emit_change_def no_hunks_def Let_def)
  moreover have "passes_filter (do_paths no_hunks) (join ''/'' [''f''])" by (simp add: passes_filter_def no_hunks_def)
  ultimately show ?thesis using diff_exact [OF c, of demo_tools no_hunks] by blast
qed

text \<open>If a diff without a path filter lists nothing, no reader can tell the two trees apart:
  every path reads the same bytes, or none, from both.\<close>

theorem empty_diff_same_contents:
  assumes "complete X s a" and "complete X s b" and "do_paths opts = []"
    and "diff_trees X T a b opts s = Inr []"
  shows "read_blob_at_path X a path s = Inr data \<longleftrightarrow> read_blob_at_path X b path s = Inr data"
proof -
  have none: "\<not> differs X s (Some a) (Some b) parts k" for parts k
  proof
    assume d: "differs X s (Some a) (Some b) parts k"
    have "te_kind e = EFile \<longrightarrow> has_blob X s (te_target e)"
      if "path_entry X s (Some a) parts = Some e \<or> path_entry X s (Some b) parts = Some e" for e
      using that complete_blob assms(1,2) by blast
    then obtain r where "emit_change X T s opts (join ''/'' parts) k (path_entry X s (Some a) parts) (path_entry X s (Some b) parts) = Inr r"
      using emit_change_ok d unfolding differs_def by blast
    then have "reports X T s opts [] (Some a) (Some b) parts r"
      using d assms(3) by (auto simp: reports_root [OF assms(1,2)] passes_filter_def)
    with diff_trees_exact [OF assms(1,2), of T opts] assms(4) show False by (auto simp: exact_def)
  qed
  note same = same_leaves [OF none]
  obtain ta tb where t: "load_tree X a s = Inr ta" "load_tree X b s = Inr tb"
    using assms(1,2) by (auto simp: complete_def tree_fuel_def complete_to_Suc)
  show ?thesis
  proof (cases "split_path path")
    case (Inl e)
    then show ?thesis by (simp add: read_blob_at_path_def)
  next
    case (Inr parts)
    then show ?thesis by (simp add: read_blob_leaf [OF t(1)] read_blob_leaf [OF t(2)] same)
  qed
qed

text \<open>Permission bits are invisible to a diff: if two trees have the same names, kinds and
  targets, the diff is empty, whatever their entries' modes.\<close>

theorem mode_change_unreported:
  assumes "complete X s a" and "complete X s b" and "load_tree X a s = Inr ta" and "load_tree X b s = Inr tb"
    and same: "map (\<lambda>e. (te_name e, te_kind e, te_target e)) (entries ta) = map (\<lambda>e. (te_name e, te_kind e, te_target e)) (entries tb)"
  shows "diff_trees X T a b opts s = Inr []"
  by (rule same_targets_no_diff [OF assms])

lemma chmod_no_diff:
  "diff_trees demo demo_tools (raw_hash demo (tree_raw (one_file mode_regular old_bytes)))
     (raw_hash demo (tree_raw (one_file mode_exec old_bytes))) no_hunks (puts query_raws) = Inr []"
  by (rule same_targets_no_diff [OF query_complete query_complete query_loads(2) query_loads(2)])
    (simp_all add: one_file_def entry_for_def)

theorem empty_diff_same_contents_witness:
  "read_blob_at_path demo (raw_hash demo (tree_raw (one_file mode_regular old_bytes))) ''f'' (puts query_raws) = Inr old_bytes
   \<longleftrightarrow> read_blob_at_path demo (raw_hash demo (tree_raw (one_file mode_exec old_bytes))) ''f'' (puts query_raws) = Inr old_bytes"
  by (rule empty_diff_same_contents [OF query_complete query_complete _ chmod_no_diff]) (simp_all add: no_hunks_def)

theorem mode_change_unreported_witness:
  "diff_trees demo demo_tools (raw_hash demo (tree_raw (one_file mode_regular old_bytes)))
     (raw_hash demo (tree_raw (one_file mode_exec old_bytes))) no_hunks (puts query_raws) = Inr []
   \<and> raw_hash demo (tree_raw (one_file mode_regular old_bytes)) \<noteq> raw_hash demo (tree_raw (one_file mode_exec old_bytes))"
proof
  show "diff_trees demo demo_tools (raw_hash demo (tree_raw (one_file mode_regular old_bytes)))
     (raw_hash demo (tree_raw (one_file mode_exec old_bytes))) no_hunks (puts query_raws) = Inr []"
    by (rule mode_change_unreported [OF query_complete query_complete query_loads(2) query_loads(2)])
      (simp_all add: one_file_def entry_for_def)
  show "raw_hash demo (tree_raw (one_file mode_regular old_bytes)) \<noteq> raw_hash demo (tree_raw (one_file mode_exec old_bytes))"
    by code_simp
qed

section \<open>Search\<close>

lemma grep_tree_all:
  assumes "complete X s h" and "pattern \<noteq> []" and "matcher_compile T pattern opts = Inr m"
  shows "grep_tree X T h pattern opts s = Inr (total_cap opts (all_matches X T s opts m (tree_fuel s) [] h))"
proof -
  have "total_cap opts [] = []" by (cases "go_max_total_matches opts") (simp_all add: total_cap_def)
  with grep_walk_all [of X s "tree_fuel s" h opts "[]"] assms show ?thesis by (simp add: grep_tree_def complete_def)
qed

text \<open>C35. A search of a completely stored tree with a pattern that compiles succeeds. Without caps it
  finds exactly the matching lines of the regular, non-binary files that pass the filter, each
  with its path, its one-based number and its text; a cap on the total cuts that list off after so
  many matches.\<close>

theorem grep_exact:
  assumes "complete X s h" and "pattern \<noteq> []" and "matcher_compile T pattern opts = Inr m"
    and "go_max_matches_per_file opts = None"
  shows "\<exists>found. grep_tree X T h pattern opts s = Inr (total_cap opts found) \<and>
    (\<forall>g. g \<in> set found \<longleftrightarrow> (\<exists>parts. is_match X T s opts m (join ''/'' parts) (path_entry X s (Some h) parts) g))"
proof -
  have "full_path [] parts = join ''/'' parts" if "path_entry X s (Some h) parts = Some e" for parts e
    using path_entry_valid [of X s "tree_fuel s" "Some h"] that assms(1) valid_name
    by (intro full_path_root) (auto simp: ok_side_def complete_def valid_parts_def)
  then have m: "is_match X T s opts m (full_path [] parts) (path_entry X s (Some h) parts) g
      \<longleftrightarrow> is_match X T s opts m (join ''/'' parts) (path_entry X s (Some h) parts) g" for parts g
    by (cases "path_entry X s (Some h) parts") (simp_all add: is_match_def)
  have "\<forall>g. g \<in> set (all_matches X T s opts m (tree_fuel s) [] h) \<longleftrightarrow>
      (\<exists>parts. is_match X T s opts m (join ''/'' parts) (path_entry X s (Some h) parts) g)"
    using all_matches_set [OF assms(4) assms(1) [unfolded complete_def], where pfx = "[]"] by (simp add: m)
  then show ?thesis using grep_tree_all [OF assms(1-3)] by blast
qed

definition grep_plain :: grep_options where
  "grep_plain = \<lparr>go_regex = False, go_ignore_case = False, go_paths = [], go_max_matches_per_file = None,
     go_max_total_matches = None\<rparr>"

theorem grep_exact_witness:
  "\<exists>found. grep_tree demo demo_tools (raw_hash demo (tree_raw (one_file mode_regular new_bytes))) ''y'' grep_plain (puts query_raws)
      = Inr found \<and> \<lparr>gm_path = ''f'', gm_line_number = 2, gm_line = ''y''\<rparr> \<in> set found"
proof -
  let ?h = "raw_hash demo (tree_raw (one_file mode_regular new_bytes))" and ?s = "puts query_raws"
  have c: "complete demo (puts query_raws) ?h" by (rule query_complete) simp
  have m: "matcher_compile demo_tools ''y'' grep_plain = Inr (Literal ''y'' False)"
    by (simp add: matcher_compile_def grep_plain_def)
  have ls: "str_lines (lossy (bytes_str new_bytes)) = [''x'', ''y'']" "\<not> is_binary new_bytes" by code_simp+
  have "is_match demo demo_tools (puts query_raws) grep_plain (Literal ''y'' False) (join ''/'' [''f''])
      (path_entry demo (puts query_raws) (Some ?h) [''f'']) \<lparr>gm_path = ''f'', gm_line_number = 2, gm_line = ''y''\<rparr>"
    using query_entry [of mode_regular new_bytes] query_loads(1) [of new_bytes] ls
    by (auto simp: is_match_def entry_for_def path_passes_filter_def grep_plain_def starts_with_def
        intro!: exI [of _ 1])
  moreover have "go_max_matches_per_file grep_plain = None" "total_cap grep_plain xs = xs" for xs :: "grep_match list"
    by (simp_all add: grep_plain_def total_cap_def)
  moreover obtain found where "grep_tree demo demo_tools ?h ''y'' grep_plain ?s = Inr (total_cap grep_plain found)"
      "\<forall>g. g \<in> set found \<longleftrightarrow> (\<exists>parts. is_match demo demo_tools ?s grep_plain (Literal ''y'' False) (join ''/'' parts)
         (path_entry demo ?s (Some ?h) parts) g)"
    using grep_exact [OF c _ m] \<open>go_max_matches_per_file grep_plain = None\<close> by blast
  ultimately show ?thesis by metis
qed

section \<open>Blame\<close>

text \<open>C34. Over a finite history of first parents in which the file can be looked up and its texts have no
  carriage returns, blame returns: its lines are exactly the file's lines, in order, and each is
  attributed, with author, time and message, to the one snapshot that last modified it. That is
  the snapshot found by following the line back through the diffs between a version and its
  parent's for as long as they match it with a line of the parent; it has that very line in its
  version of the file. The fuel is enough: no finite history is longer than the number of stored
  objects.\<close>

theorem blame_exact:
  assumes "hex_laws X" and "diff_laws T" and "first_parents X s h hs"
    and "\<forall>q \<in> set hs. readable_at X s path q" and "file_text X s path h = Some text"
  shows "\<exists>ls. blame_at X T s (tree_fuel s) path h = Inr ls \<and> map bl_line ls = str_lines text
    \<and> (\<forall>l \<in> set ls. attributed X s path hs l)
    \<and> (\<forall>j < length ls. \<forall>q. last_modified X T s path h j q \<longleftrightarrow> q = bl_snap (ls ! j))"
proof -
  have fuel: "length hs \<le> tree_fuel s" using first_parents_fuel [OF assms(1,3)] by simp
  obtain ls where ls: "blame_at X T s (tree_fuel s) path h = Inr ls" "map bl_line ls = str_lines text"
      "\<forall>l \<in> set ls. attributed X s path hs l"
    using blame_at_history [OF assms(2-5) fuel] by blast
  have "length ls = length (str_lines text)" using arg_cong [OF ls(2), of length] by simp
  note found = blame_at_modified [OF assms(2-5) ls(1) this fuel]
  with last_modified_unique [OF assms(2) _ assms(3,4)] have
    "\<forall>j < length ls. \<forall>q. last_modified X T s path h j q \<longleftrightarrow> q = bl_snap (ls ! j)" by blast
  with ls show ?thesis by blast
qed

theorem blame_exact_witness:
  "\<exists>ls. blame_at demo demo_tools (puts query_raws) (tree_fuel (puts query_raws)) ''f'' (raw_hash demo (snapshot_raw new_snap)) = Inr ls
     \<and> map bl_line ls = [''x'', ''y'']
     \<and> map bl_snap ls = [raw_hash demo (snapshot_raw old_snap), raw_hash demo (snapshot_raw new_snap)]"
proof -
  let ?s = "puts query_raws"
  let ?o = "raw_hash demo (snapshot_raw old_snap)" and ?n = "raw_hash demo (snapshot_raw new_snap)"
  have fields: "sn_parents old_snap = []" "sn_parents new_snap = [?o]"
      "sn_tree old_snap = raw_hash demo (tree_raw (one_file mode_regular old_bytes))"
      "sn_tree new_snap = raw_hash demo (tree_raw (one_file mode_regular new_bytes))"
    by (simp_all add: old_snap_def new_snap_def snap_of_def)
  have l: "load_snapshot demo ?o ?s = Inr old_snap" "load_snapshot demo ?n ?s = Inr new_snap"
    using query_loads(3) by simp_all
  have h: "first_parents demo ?s ?n [?n, ?o]"
    using first_parents.step [OF l(2) fields(2) first_parents.root [OF l(1) fields(1)]] .
  have p: "split_path ''f'' = Inr [''f'']" by code_simp
  have r: "try_read_blob_at_path demo (raw_hash demo (tree_raw (one_file mode_regular b))) ''f'' ?s = Inr (Some b)"
    if "b \<in> {old_bytes, new_bytes}" for b
  proof -
    have "(mode_regular, b) \<in> {(mode_regular, old_bytes), (mode_exec, old_bytes), (mode_regular, new_bytes)}" using that by auto
    note t = query_loads(2) [OF this] query_entry [OF this]
    from t have "tree_get (one_file mode_regular b) ''f'' = Some (entry_for ''f'' EFile mode_regular (raw_hash demo (blob_raw b)))"
      by (simp add: path_entry_single tree_at_def)
    with t(1) query_loads(1) [OF that] show ?thesis by (simp add: try_read_blob_at_path_def p entry_for_def)
  qed
  have texts: "\<not> is_binary old_bytes" "\<not> is_binary new_bytes" "carriage \<notin> set (lossy (bytes_str old_bytes))"
      "carriage \<notin> set (lossy (bytes_str new_bytes))" "str_lines (lossy (bytes_str new_bytes)) = [''x'', ''y'']" by code_simp+
  have ft: "file_text demo ?s ''f'' ?o = Some (lossy (bytes_str old_bytes))"
      "file_text demo ?s ''f'' ?n = Some (lossy (bytes_str new_bytes))"
    using l r [of old_bytes] r [of new_bytes] texts(1,2) by (simp_all add: file_text_def fields del: lossy.simps)
  have "\<forall>q \<in> set [?n, ?o]. readable_at demo ?s ''f'' q"
    using l r [of old_bytes] r [of new_bytes] ft texts(3,4) by (auto simp: readable_at_def fields simp del: lossy.simps)
  from blame_exact [OF demo_hex demo_diff_laws h this ft(2)] texts(5) obtain ls where ls:
      "blame_at demo demo_tools ?s (tree_fuel ?s) ''f'' ?n = Inr ls" "map bl_line ls = [''x'', ''y'']"
      "\<forall>j < length ls. \<forall>q. last_modified demo demo_tools ?s ''f'' ?n j q \<longleftrightarrow> q = bl_snap (ls ! j)"
    by auto
  have len: "length ls = 2" using arg_cong [OF ls(2), of length] by simp
  have none: "parent_text demo ?s ''f'' old_snap = None" and some: "parent_text demo ?s ''f'' new_snap = Some (lossy (bytes_str old_bytes))"
    using ft(1) by (simp_all add: parent_text_def fields del: lossy.simps)
  let ?a = "lossy (bytes_str old_bytes)" and ?b = "lossy (bytes_str new_bytes)"
  have cs: "\<lparr>tc_tag = TagEqual, tc_old = Some 0, tc_new = Some 0, tc_value = [CHR ''x'', newline]\<rparr> \<in> set (line_changes demo_tools ?a ?b)"
      "\<lparr>tc_tag = TagInsert, tc_old = None, tc_new = Some 1, tc_value = [CHR ''y'', newline]\<rparr> \<in> set (line_changes demo_tools ?a ?b)"
      "0 < length (str_lines ?a)" by code_simp+
  have "last_modified demo demo_tools ?s ''f'' ?o 0 ?o" by (rule created [OF l(1) ft(1) none cs(3)])
  then have "last_modified demo demo_tools ?s ''f'' ?n 0 ?o"
    by (intro kept [OF l(2) ft(2) some cs(1)]) (simp_all add: fields)
  moreover have "last_modified demo demo_tools ?s ''f'' ?n 1 ?n"
    by (rule inserted [OF l(2) ft(2) some cs(2)]) simp_all
  ultimately have "bl_snap (ls ! 0) = ?o" "bl_snap (ls ! 1) = ?n" using ls(3) len by auto
  moreover have "ls = [ls ! 0, ls ! 1]" using len by (auto simp: length_Suc_conv numeral_2_eq_2)
  ultimately have m: "map bl_snap ls = [?o, ?n]" by (metis list.map)
  show ?thesis by (rule exI [of _ ls]) (intro conjI ls(1,2) m)
qed

end
