(* ===== verification/Protocol.thy ===== *)
theory Protocol
  imports Grep Blame Snap
begin

text \<open>
  \<^verbatim>\<open>tig-protocol\<close>: the values that go over the wire. Hashes and byte strings travel as
  hexadecimal text; the JSON text itself, which serde derives from these types, is not modelled.
\<close>

section \<open>Changes\<close>

record change_view =
  cv_id :: string
  cv_bookmark :: "string option"
  cv_description :: string
  cv_state :: string
  cv_current :: string
  cv_history :: "string list"
  cv_author :: string
  cv_visibility :: string

definition change_view_of :: "'x ext_scheme \<Rightarrow> change \<Rightarrow> change_view" where
  "change_view_of X c =
     \<lparr>cv_id = ch_id c, cv_bookmark = ch_bookmark c, cv_description = ch_description c,
      cv_state = change_state_name (ch_state c), cv_current = to_hex X (ch_current c),
      cv_history = map (to_hex X) (ch_history c), cv_author = ch_author c,
      cv_visibility = vis_name (ch_visibility c)\<rparr>"

record create_change_req =
  cc_description :: string
  cc_from_change :: "string option"
  cc_visibility :: "string option"
  cc_state :: "string option"

record transition_req =
  tr_state :: "string option"
  tr_visibility :: "string option"

section \<open>Snapshots and trees\<close>

record snapshot_view =
  sv_hash :: string
  sv_parents :: "string list"
  sv_tree :: string
  sv_author :: string
  sv_timestamp_ns :: u64
  sv_message :: "string option"

definition snapshot_view_of :: "'x ext_scheme \<Rightarrow> hash \<Rightarrow> snapshot \<Rightarrow> snapshot_view" where
  "snapshot_view_of X h sn =
     \<lparr>sv_hash = to_hex X h, sv_parents = map (to_hex X) (sn_parents sn), sv_tree = to_hex X (sn_tree sn),
      sv_author = sn_author sn, sv_timestamp_ns = sn_timestamp_ns sn, sv_message = sn_message sn\<rparr>"

record tree_entry_view =
  ev_name :: string
  ev_kind :: string
  ev_target :: string
  ev_mode :: u32
  ev_vis :: "string option"

definition tree_entry_view_of :: "'x ext_scheme \<Rightarrow> tree_entry \<Rightarrow> tree_entry_view" where
  "tree_entry_view_of X e =
     \<lparr>ev_name = te_name e, ev_kind = entry_kind_name (te_kind e), ev_target = to_hex X (te_target e),
      ev_mode = te_mode e, ev_vis = te_vis e\<rparr>"

record tree_view =
  tv_hash :: "string option"
  tv_entries :: "tree_entry_view list"

definition tree_view_of :: "'x ext_scheme \<Rightarrow> hash option \<Rightarrow> tree \<Rightarrow> tree_view" where
  "tree_view_of X h t =
     \<lparr>tv_hash = map_option (to_hex X) h, tv_entries = map (tree_entry_view_of X) (entries t)\<rparr>"

record snap_req =
  sq_message :: "string option"
  sq_author :: "string option"
  sq_force :: "bool option"

record snap_resp =
  sr_outcome :: string
  sr_change :: change_view
  sr_snapshot :: "snapshot_view option"

record undo_resp =
  ur_undone_op_id :: "u64 option"
  ur_undone_kind :: "string option"
  ur_recorded_op_id :: "u64 option"
  ur_message :: string

section \<open>The operation log\<close>

record op_view =
  ov_id :: u64
  ov_ts_ns :: u64
  ov_actor :: string
  ov_kind :: string
  ov_one_line :: string

fun kind_discriminator :: "op_kind \<Rightarrow> string" where
  "kind_discriminator (OkSnap _ _) = ''Snap''"
| "kind_discriminator (OkChangeNew _ _) = ''ChangeNew''"
| "kind_discriminator (OkWtMake _ _) = ''WtMake''"
| "kind_discriminator (OkWtDrop _ _) = ''WtDrop''"
| "kind_discriminator (OkChangeTransition _ _ _ _ _) = ''ChangeTransition''"
| "kind_discriminator (OkUndo _) = ''Undo''"

definition op_view_of :: "'x ext_scheme \<Rightarrow> op \<Rightarrow> op_view" where
  "op_view_of X p =
     \<lparr>ov_id = op_id_of p, ov_ts_ns = op_ts_ns p, ov_actor = op_actor p,
      ov_kind = kind_discriminator (op_kind_of p), ov_one_line = one_line X (op_kind_of p)\<rparr>"

section \<open>Sealed values\<close>

record recipient_view =
  rv_recipient_pk :: string
  rv_wrapped_key :: string
  rv_wrap_nonce :: string

record sealed_view =
  zv_algo :: u8
  zv_ephemeral_pk :: string
  zv_recipients :: "recipient_view list"
  zv_ciphertext :: string
  zv_nonce :: string
  zv_aad :: string

definition recipient_view_of :: "'x ext_scheme \<Rightarrow> recipient_wrap \<Rightarrow> recipient_view" where
  "recipient_view_of X r =
     \<lparr>rv_recipient_pk = hex_encode X (recipient_pk r), rv_wrapped_key = hex_encode X (wrapped_key r),
      rv_wrap_nonce = hex_encode X (wrap_nonce r)\<rparr>"

definition sealed_view_of :: "'x ext_scheme \<Rightarrow> sealed \<Rightarrow> sealed_view" where
  "sealed_view_of X sl =
     \<lparr>zv_algo = (case sl_algo sl of X25519XChaCha20Poly1305 \<Rightarrow> 1), zv_ephemeral_pk = hex_encode X (sl_ephemeral_pk sl),
      zv_recipients = map (recipient_view_of X) (sl_recipients sl), zv_ciphertext = hex_encode X (sl_ciphertext sl),
      zv_nonce = hex_encode X (sl_nonce sl), zv_aad = hex_encode X (sl_aad sl)\<rparr>"

text \<open>The error is a message; here it says which step failed.\<close>

definition hex_field :: "'x ext_scheme \<Rightarrow> string \<Rightarrow> string + bytes" where
  "hex_field X s = ok_or ''hex'' (hex_decode X s)"

definition recipient_into_core :: "'x ext_scheme \<Rightarrow> recipient_view \<Rightarrow> string + recipient_wrap" where
  "recipient_into_core X v =
     and_then (hex_field X (rv_recipient_pk v)) (\<lambda>pk.
       and_then (hex_field X (rv_wrapped_key v)) (\<lambda>wk.
         and_then (hex_field X (rv_wrap_nonce v)) (\<lambda>n.
           Inr \<lparr>recipient_pk = pk, wrapped_key = wk, wrap_nonce = n\<rparr>)))"

definition sealed_into_core :: "'x ext_scheme \<Rightarrow> sealed_view \<Rightarrow> string + sealed" where
  "sealed_into_core X v =
     (if zv_algo v \<noteq> 1 then Inl ''unknown seal algo''
      else
        (let recipients = traverse (recipient_into_core X) (zv_recipients v) in
         and_then (hex_field X (zv_ephemeral_pk v)) (\<lambda>e.
           and_then recipients (\<lambda>rs.
             and_then (hex_field X (zv_ciphertext v)) (\<lambda>c.
               and_then (hex_field X (zv_nonce v)) (\<lambda>n.
                 and_then (hex_field X (zv_aad v)) (\<lambda>a.
                   Inr \<lparr>sl_algo = X25519XChaCha20Poly1305, sl_ephemeral_pk = e, sl_recipients = rs,
                        sl_ciphertext = c, sl_nonce = n, sl_aad = a\<rparr>)))))))"

lemma recipient_roundtrip: "hex_laws X \<Longrightarrow> recipient_into_core X (recipient_view_of X r) = Inr r"
  by (simp add: recipient_into_core_def recipient_view_of_def hex_field_def hex_decode_encode)

lemma sealed_view_roundtrip: "hex_laws X \<Longrightarrow> sealed_into_core X (sealed_view_of X sl) = Inr sl"
proof -
  assume X: "hex_laws X"
  have "traverse (recipient_into_core X) (map (recipient_view_of X) rs) = Inr rs" for rs
    by (induction rs) (simp_all add: recipient_roundtrip [OF X])
  then show ?thesis
    by (cases "sl_algo sl") (simp add: sealed_into_core_def sealed_view_of_def hex_field_def hex_decode_encode [OF X])
qed

section \<open>Queries\<close>

datatype hunk_line_view = VContext string | VAdd string | VRemove string

record hunk_view =
  hv_from_start :: nat
  hv_from_len :: nat
  hv_to_start :: nat
  hv_to_len :: nat
  hv_lines :: "hunk_line_view list"

record file_diff_view =
  fv_path :: string
  fv_kind :: string
  fv_type_changed_from :: string
  fv_type_changed_to :: string
  fv_entry_kind :: string
  fv_from_target :: "string option"
  fv_to_target :: "string option"
  fv_binary :: bool
  fv_hunks :: "hunk_view list option"

record diff_view =
  dv_from :: string
  dv_to :: string
  dv_files :: "file_diff_view list"

record diff_query =
  dq_from :: "string option"
  dq_to :: "string option"
  dq_no_hunks :: bool
  dq_paths :: "string list"

record blame_line_view =
  lv_line :: string
  lv_snap :: string
  lv_author :: string
  lv_timestamp_ns :: u64
  lv_message :: "string option"

record blame_view =
  bv_path :: string
  bv_at :: string
  bv_lines :: "blame_line_view list"

record grep_query =
  gq_q :: string
  gq_regex :: bool
  gq_ignore_case :: bool
  gq_snap :: "string option"
  gq_paths :: "string option"
  gq_max_per_file :: "nat option"
  gq_max_total :: "nat option"

definition parsed_paths :: "grep_query \<Rightarrow> string list" where
  "parsed_paths q =
     (case gq_paths q of
        None \<Rightarrow> []
      | Some s \<Rightarrow> filter (\<lambda>p. p \<noteq> []) (map trim (split_char CHR '','' s)))"

record grep_match_view =
  mv_path :: string
  mv_line_number :: nat
  mv_line :: string

record grep_view =
  gv_at :: string
  gv_matches :: "grep_match_view list"

record gc_req =
  gr_dry_run :: bool
  gr_ignore_oplog :: bool

record gc_view =
  gw_roots :: nat
  gw_kept :: nat
  gw_removed :: nat
  gw_bytes_freed :: nat
  gw_dry_run :: bool

end
