(* ===== verification/Vis_Keys.thy ===== *)
theory Vis_Keys
  imports Ref_Store
begin

text \<open>
  \<^verbatim>\<open>tig-vis\<close>: key types (\<^verbatim>\<open>keys.rs\<close>), principal records and their store (\<^verbatim>\<open>principal.rs\<close>) and
  signed bearer tokens (\<^verbatim>\<open>tokens.rs\<close>). The cryptographic packages, base64 and the JSON text of
  a token's payload are fields of a record of parameters, with the laws results rely on.
\<close>

section \<open>The packages\<close>

record claims =
  cl_sub :: string
  cl_exp :: u64

record vault =
  x_public :: "b32 \<Rightarrow> b32"
  x_dh :: "b32 \<Rightarrow> b32 \<Rightarrow> b32"
  hkdf_expand :: "b32 \<Rightarrow> bytes \<Rightarrow> b32 option"
  aead_encrypt :: "b32 \<Rightarrow> bytes \<Rightarrow> bytes \<Rightarrow> bytes \<Rightarrow> bytes option"
  aead_decrypt :: "b32 \<Rightarrow> bytes \<Rightarrow> bytes \<Rightarrow> bytes \<Rightarrow> bytes option"
  ed_public :: "b32 \<Rightarrow> b32"
  ed_sign :: "b32 \<Rightarrow> bytes \<Rightarrow> bytes"
  ed_verify :: "b32 \<Rightarrow> bytes \<Rightarrow> bytes \<Rightarrow> bool"
  b64_encode :: "bytes \<Rightarrow> string"
  b64_decode :: "string \<Rightarrow> bytes option"
  claims_write :: "claims \<Rightarrow> bytes"
  claims_read :: "bytes \<Rightarrow> claims option"

text \<open>
  X25519 agreement is symmetric; HKDF gives 32 bytes; the AEAD decrypts what it encrypted under
  the same key, nonce and associated data.
\<close>

definition seal_laws :: "vault \<Rightarrow> bool" where
  "seal_laws V \<longleftrightarrow>
     (\<forall>a b. x_dh V a (x_public V b) = x_dh V b (x_public V a)) \<and>
     (\<forall>k i. hkdf_expand V k i \<noteq> None) \<and>
     (\<forall>k n a m. \<exists>c. aead_encrypt V k n a m = Some c \<and> aead_decrypt V k n a c = Some m)"

text \<open>
  Ed25519 signatures have 64 bytes and verify under the signer's public key; unpadded URL-safe
  base64 reads back what it wrote, is empty only for no bytes and contains no dot; the payload's
  JSON is not empty and reads back.
\<close>

definition token_laws :: "vault \<Rightarrow> bool" where
  "token_laws V \<longleftrightarrow>
     (\<forall>k m. length (ed_sign V k m) = 64 \<and> ed_verify V (ed_public V k) m (ed_sign V k m)) \<and>
     (\<forall>b. b64_decode V (b64_encode V b) = Some b \<and> CHR ''.'' \<notin> set (b64_encode V b)
        \<and> (b64_encode V b = [] \<longleftrightarrow> b = [])) \<and>
     (\<forall>c. claims_write V c \<noteq> [] \<and> claims_read V (claims_write V c) = Some c)"

section \<open>Errors\<close>

datatype crypto_reason =
    KeyLength string nat
  | InvalidPrincipalId string
  | NoRecipients
  | WrapEncryption
  | PayloadEncryption
  | HkdfFailed
  | SignatureLength nat
  | TokenExpired u64 u64
  | MalformedToken
  | NotBase64

datatype vis_error =
    VIo
  | VJson
  | VHex
  | VCrypto crypto_reason
  | VCore core_error
  | VIdentityNotFound string
  | VIdentityAlreadyExists string
  | VSecretMissing string
  | VNotARecipient
  | VAuthFailure
  | VUnsupportedAlgo
  | VMalformedSealed string

section \<open>Keys\<close>

datatype public_key = PublicKey (pk_bytes: b32)
datatype secret_key = SecretKey (sk_bytes: b32)
datatype sign_public_key = SignPublicKey (spk_bytes: b32)
datatype sign_secret_key = SignSecretKey (ssk_bytes: b32)
datatype signature = Signature (sig_bytes: bytes)

definition key_from_hex :: "'x ext_scheme \<Rightarrow> string \<Rightarrow> string \<Rightarrow> vis_error + b32" where
  "key_from_hex X what s =
     (case hex_decode X s of
        None \<Rightarrow> Inl VHex
      | Some b \<Rightarrow> if length b \<noteq> 32 then Inl (VCrypto (KeyLength what (length b))) else Inr (b32_of b))"

definition public_key_to_hex :: "'x ext_scheme \<Rightarrow> public_key \<Rightarrow> string" where
  "public_key_to_hex X k = hex_encode X (b32_bytes (pk_bytes k))"

definition public_key_from_hex :: "'x ext_scheme \<Rightarrow> string \<Rightarrow> vis_error + public_key" where
  "public_key_from_hex X s = and_then (key_from_hex X ''X25519 key'' s) (\<lambda>b. Inr (PublicKey b))"

definition secret_public :: "vault \<Rightarrow> secret_key \<Rightarrow> public_key" where
  "secret_public V k = PublicKey (x_public V (sk_bytes k))"

definition secret_key_to_hex :: "'x ext_scheme \<Rightarrow> secret_key \<Rightarrow> string" where
  "secret_key_to_hex X k = hex_encode X (b32_bytes (sk_bytes k))"

definition secret_key_from_hex :: "'x ext_scheme \<Rightarrow> string \<Rightarrow> vis_error + secret_key" where
  "secret_key_from_hex X s = and_then (key_from_hex X ''secret'' s) (\<lambda>b. Inr (SecretKey b))"

definition secret_dh :: "vault \<Rightarrow> secret_key \<Rightarrow> public_key \<Rightarrow> b32" where
  "secret_dh V k peer = x_dh V (sk_bytes k) (pk_bytes peer)"

text \<open>The random bytes of a generator are its argument.\<close>

definition keypair_generate :: "vault \<Rightarrow> b32 \<Rightarrow> secret_key \<times> public_key" where
  "keypair_generate V seed = (SecretKey seed, secret_public V (SecretKey seed))"

definition sign_public_to_hex :: "'x ext_scheme \<Rightarrow> sign_public_key \<Rightarrow> string" where
  "sign_public_to_hex X k = hex_encode X (b32_bytes (spk_bytes k))"

definition sign_public_from_hex :: "'x ext_scheme \<Rightarrow> string \<Rightarrow> vis_error + sign_public_key" where
  "sign_public_from_hex X s = and_then (key_from_hex X ''Ed25519 public key'' s) (\<lambda>b. Inr (SignPublicKey b))"

definition verify_sig :: "vault \<Rightarrow> sign_public_key \<Rightarrow> bytes \<Rightarrow> signature \<Rightarrow> bool" where
  "verify_sig V k msg sig = ed_verify V (spk_bytes k) msg (sig_bytes sig)"

definition sign_secret_public :: "vault \<Rightarrow> sign_secret_key \<Rightarrow> sign_public_key" where
  "sign_secret_public V k = SignPublicKey (ed_public V (ssk_bytes k))"

definition sign_secret_to_hex :: "'x ext_scheme \<Rightarrow> sign_secret_key \<Rightarrow> string" where
  "sign_secret_to_hex X k = hex_encode X (b32_bytes (ssk_bytes k))"

definition sign_secret_from_hex :: "'x ext_scheme \<Rightarrow> string \<Rightarrow> vis_error + sign_secret_key" where
  "sign_secret_from_hex X s = and_then (key_from_hex X ''Ed25519 secret seed'' s) (\<lambda>b. Inr (SignSecretKey b))"

definition sign_msg :: "vault \<Rightarrow> sign_secret_key \<Rightarrow> bytes \<Rightarrow> signature" where
  "sign_msg V k msg = Signature (ed_sign V (ssk_bytes k) msg)"

definition sign_keypair_generate :: "vault \<Rightarrow> b32 \<Rightarrow> sign_secret_key \<times> sign_public_key" where
  "sign_keypair_generate V seed = (SignSecretKey seed, sign_secret_public V (SignSecretKey seed))"

lemma key_hex: "hex_laws X \<Longrightarrow> key_from_hex X what (hex_encode X (b32_bytes b)) = Inr b"
  by (simp add: key_from_hex_def hex_decode_encode)

section \<open>Principals\<close>

datatype principal_kind = PkUser | PkAgent | PkBot | PkSystem

record principal =
  pr_id :: string
  pr_kind :: principal_kind
  pr_pubkey :: public_key
  pr_secret_hex :: "string option"
  pr_sign_pubkey_hex :: "string option"
  pr_sign_secret_hex :: "string option"

definition new_local_full ::
  "'x ext_scheme \<Rightarrow> string \<Rightarrow> principal_kind \<Rightarrow> secret_key \<times> public_key \<Rightarrow> sign_secret_key \<times> sign_public_key \<Rightarrow> principal" where
  "new_local_full X i kind seal_kp sign_kp =
     \<lparr>pr_id = i, pr_kind = kind, pr_pubkey = snd seal_kp,
      pr_secret_hex = Some (secret_key_to_hex X (fst seal_kp)),
      pr_sign_pubkey_hex = Some (sign_public_to_hex X (snd sign_kp)),
      pr_sign_secret_hex = Some (sign_secret_to_hex X (fst sign_kp))\<rparr>"

definition new_local :: "'x ext_scheme \<Rightarrow> string \<Rightarrow> principal_kind \<Rightarrow> secret_key \<times> public_key \<Rightarrow> principal" where
  "new_local X i kind kp =
     \<lparr>pr_id = i, pr_kind = kind, pr_pubkey = snd kp, pr_secret_hex = Some (secret_key_to_hex X (fst kp)),
      pr_sign_pubkey_hex = None, pr_sign_secret_hex = None\<rparr>"

definition new_remote :: "string \<Rightarrow> principal_kind \<Rightarrow> public_key \<Rightarrow> principal" where
  "new_remote i kind pk =
     \<lparr>pr_id = i, pr_kind = kind, pr_pubkey = pk, pr_secret_hex = None, pr_sign_pubkey_hex = None,
      pr_sign_secret_hex = None\<rparr>"

definition principal_secret :: "'x ext_scheme \<Rightarrow> principal \<Rightarrow> vis_error + secret_key" where
  "principal_secret X p =
     and_then (ok_or (VSecretMissing (pr_id p)) (pr_secret_hex p)) (secret_key_from_hex X)"

definition principal_sign_pubkey :: "'x ext_scheme \<Rightarrow> principal \<Rightarrow> vis_error + sign_public_key" where
  "principal_sign_pubkey X p =
     and_then (ok_or (VSecretMissing (pr_id p @ '' (no sign pubkey)'')) (pr_sign_pubkey_hex p)) (sign_public_from_hex X)"

definition principal_sign_secret :: "'x ext_scheme \<Rightarrow> principal \<Rightarrow> vis_error + sign_secret_key" where
  "principal_sign_secret X p =
     and_then (ok_or (VSecretMissing (pr_id p @ '' (no sign secret)'')) (pr_sign_secret_hex p)) (sign_secret_from_hex X)"

text \<open>
  The files of the keys directory, by name. Reading joins the identifier to the directory
  unchecked; identifiers are single path components here.
\<close>

type_synonym keys_dir = "(string \<times> principal json_file) list"

definition validate_id :: "string \<Rightarrow> vis_error + unit" where
  "validate_id i =
     (if i = [] \<or> CHR ''/'' \<in> set i \<or> CHR 0x5C \<in> set i \<or> CHR 0x00 \<in> set i \<or> i = ''.'' \<or> i = ''..''
      then Inl (VCrypto (InvalidPrincipalId i)) else Inr ())"

definition key_file :: "string \<Rightarrow> string" where
  "key_file i = i @ ''.json''"

definition principal_put :: "principal \<Rightarrow> (keys_dir, vis_error, unit) eff" where
  "principal_put p =
     bindE (liftE (validate_id (pr_id p))) (\<lambda>_. updE (AList.update (key_file (pr_id p)) (Json p)))"

definition principal_put_new :: "principal \<Rightarrow> (keys_dir, vis_error, unit) eff" where
  "principal_put_new p = (\<lambda>d.
     if map_of d (key_file (pr_id p)) \<noteq> None then (Inl (VIdentityAlreadyExists (pr_id p)), d)
     else principal_put p d)"

definition principal_get :: "string \<Rightarrow> keys_dir \<Rightarrow> vis_error + principal" where
  "principal_get i d =
     (case map_of d (key_file i) of
        None \<Rightarrow> Inl (VIdentityNotFound i)
      | Some (Json p) \<Rightarrow> Inr p
      | Some NotJson \<Rightarrow> Inl VJson)"

definition principal_list :: "keys_dir \<Rightarrow> vis_error + principal list" where
  "principal_list d =
     and_then (traverse (\<lambda>(n, f). case f of Json p \<Rightarrow> Inr p | NotJson \<Rightarrow> Inl VJson)
                (filter (\<lambda>(n, f). ends_with n ''.json'' \<and> \<not> starts_with n ''.'') d))
       (\<lambda>ps. Inr (sort_key pr_id ps))"

definition principal_delete :: "string \<Rightarrow> (keys_dir, vis_error, unit) eff" where
  "principal_delete i d =
     (if map_of d (key_file i) = None then (Inl (VIdentityNotFound i), d)
      else (Inr (), AList.delete (key_file i) d))"

lemma key_file_inject [simp]: "key_file i = key_file j \<longleftrightarrow> i = j"
  by (simp add: key_file_def)

lemma principal_put_get:
  "principal_put p d = (Inr (), d') \<Longrightarrow>
   principal_get i d' = (if i = pr_id p then Inr p else principal_get i d)"
  by (auto simp: principal_put_def eff_iffs principal_get_def update_conv')

lemma principal_put_new_keeps:
  "principal_put_new p d = (r, d') \<Longrightarrow> principal_get i d = Inr q \<Longrightarrow> principal_get i d' = Inr q"
proof -
  assume a: "principal_put_new p d = (r, d')" "principal_get i d = Inr q"
  then have "i = pr_id p \<Longrightarrow> d' = d" by (auto simp: principal_put_new_def principal_get_def split: option.splits)
  moreover have "i \<noteq> pr_id p \<Longrightarrow> principal_get i d' = principal_get i d"
    using a(1) by (auto simp: principal_put_new_def principal_put_def eff_simps principal_get_def update_conv'
        split: if_splits sum.splits)
  ultimately show ?thesis using a(2) by auto
qed

section \<open>Tokens\<close>

definition is_expired :: "claims \<Rightarrow> u64 \<Rightarrow> bool" where
  "is_expired c now \<longleftrightarrow> cl_exp c \<le> now"

definition sign_token :: "vault \<Rightarrow> claims \<Rightarrow> sign_secret_key \<Rightarrow> string" where
  "sign_token V c k =
     (let payload = b64_encode V (claims_write V c) in
      payload @ ''.'' @ b64_encode V (sig_bytes (sign_msg V k (str_bytes payload))))"

text \<open>\<^verbatim>\<open>splitn(2, '.')\<close>: cut at the first dot.\<close>

definition split_once_dot :: "string \<Rightarrow> vis_error + string \<times> string" where
  "split_once_dot token =
     (let payload = takeWhile (\<lambda>c. c \<noteq> CHR ''.'') token;
          rest = dropWhile (\<lambda>c. c \<noteq> CHR ''.'') token in
      if rest = [] \<or> payload = [] \<or> tl rest = [] then Inl (VCrypto MalformedToken) else Inr (payload, tl rest))"

definition b64url_decode :: "vault \<Rightarrow> string \<Rightarrow> vis_error + bytes" where
  "b64url_decode V s = ok_or (VCrypto NotBase64) (b64_decode V s)"

definition peek_claims :: "vault \<Rightarrow> string \<Rightarrow> vis_error + claims" where
  "peek_claims V token =
     and_then (split_once_dot token) (\<lambda>(payload, _).
       and_then (b64url_decode V payload) (\<lambda>b. ok_or VJson (claims_read V b)))"

definition verify_token :: "vault \<Rightarrow> string \<Rightarrow> sign_public_key \<Rightarrow> u64 \<Rightarrow> vis_error + claims" where
  "verify_token V token k now =
     and_then (split_once_dot token) (\<lambda>(payload, sig_text).
       and_then (b64url_decode V sig_text) (\<lambda>sig.
         if length sig \<noteq> 64 then Inl (VCrypto (SignatureLength (length sig)))
         else if \<not> verify_sig V k (str_bytes payload) (Signature sig) then Inl VAuthFailure
         else and_then (b64url_decode V payload) (\<lambda>b.
           and_then (ok_or VJson (claims_read V b)) (\<lambda>c.
             if is_expired c now then Inl (VCrypto (TokenExpired (cl_exp c) now)) else Inr c))))"

lemma split_once_dot_join:
  "CHR ''.'' \<notin> set p \<Longrightarrow> p \<noteq> [] \<Longrightarrow> q \<noteq> [] \<Longrightarrow> split_once_dot (p @ ''.'' @ q) = Inr (p, q)"
proof -
  assume p: "CHR ''.'' \<notin> set p" "p \<noteq> []" "q \<noteq> []"
  have "takeWhile (\<lambda>c. c \<noteq> CHR ''.'') (p @ ''.'' @ q) = p" "dropWhile (\<lambda>c. c \<noteq> CHR ''.'') (p @ ''.'' @ q) = ''.'' @ q"
    using p(1) by (induction p) auto
  with p show ?thesis by (simp add: split_once_dot_def Let_def)
qed

lemma verify_signed:
  assumes "token_laws V"
  shows "peek_claims V (sign_token V c k) = Inr c"
    "verify_token V (sign_token V c k) (sign_secret_public V k) now =
       (if is_expired c now then Inl (VCrypto (TokenExpired (cl_exp c) now)) else Inr c)"
proof -
  let ?p = "b64_encode V (claims_write V c)"
  let ?s = "ed_sign V (ssk_bytes k) (str_bytes ?p)"
  have laws: "CHR ''.'' \<notin> set ?p" "?p \<noteq> []" "b64_encode V ?s \<noteq> []" "length ?s = 64"
      "ed_verify V (ed_public V (ssk_bytes k)) (str_bytes ?p) ?s" "claims_read V (claims_write V c) = Some c"
      "\<And>b. b64_decode V (b64_encode V b) = Some b"
    using assms by (auto simp: token_laws_def) (metis list.size(3) zero_neq_numeral)
  have split: "split_once_dot (sign_token V c k) = Inr (?p, b64_encode V ?s)"
    unfolding sign_token_def Let_def sign_msg_def signature.sel by (rule split_once_dot_join [OF laws(1-3)])
  show "peek_claims V (sign_token V c k) = Inr c"
    by (simp add: peek_claims_def split b64url_decode_def laws(6,7))
  show "verify_token V (sign_token V c k) (sign_secret_public V k) now =
       (if is_expired c now then Inl (VCrypto (TokenExpired (cl_exp c) now)) else Inr c)"
    by (simp add: verify_token_def split b64url_decode_def laws(4-7) verify_sig_def sign_secret_public_def)
qed

end
