(* ===== verification/Daemon.thy ===== *)
theory Daemon
  imports Protocol Vis_Keys
begin

text \<open>
  \<^verbatim>\<open>tigd\<close>: the HTTP daemon's handlers (\<^verbatim>\<open>handlers.rs\<close>), its error envelope (\<^verbatim>\<open>error.rs\<close>) and its
  state (\<^verbatim>\<open>state.rs\<close>). A handler that mutates holds the repository's write lock to its end, so
  each request is one step. The clocks and the fresh change identifier a handler draws are its
  environment; axum's routing and the JSON text of bodies are not modelled.
\<close>

section \<open>State, headers and errors\<close>

text \<open>The open repository and log, and the keys directory beside them.\<close>

record daemon = session +
  dkeys :: keys_dir

record environment =
  en_seconds :: u64
  en_t1 :: u64
  en_t2 :: u64
  en_cid :: change_id

text \<open>Raw header values; \<^verbatim>\<open>HeaderValue::to_str\<close> succeeds on visible ASCII and tabs only.\<close>

record headers =
  hd_authorization :: "string option"
  hd_principal :: "string option"

definition header_str :: "string \<Rightarrow> string option" where
  "header_str v = (if list_all (\<lambda>c. c = CHR 0x09 \<or> in_range 32 126 c) v then Some v else None)"

datatype api_text =
    TText string
  | TChange string
  | TOwned string string
  | TSnapshot string
  | TVis vis_error
  | TCore core_error
  | TStore store_error

datatype api_error =
    ApiNotFound api_text
  | ApiBadRequest api_text
  | ApiConflict api_text
  | ApiUnauthorized api_text
  | ApiInternal api_text

fun status_and_code :: "api_error \<Rightarrow> nat \<times> string" where
  "status_and_code (ApiNotFound _) = (404, ''not_found'')"
| "status_and_code (ApiBadRequest _) = (400, ''bad_request'')"
| "status_and_code (ApiConflict _) = (409, ''conflict'')"
| "status_and_code (ApiUnauthorized _) = (401, ''unauthorized'')"
| "status_and_code (ApiInternal _) = (500, ''internal'')"

fun api_of_store :: "store_error \<Rightarrow> api_error" where
  "api_of_store (SNotFound m) = ApiNotFound (TText m)"
| "api_of_store (SAlreadyExists m) = ApiConflict (TText m)"
| "api_of_store (SCore c) = ApiBadRequest (TCore c)"
| "api_of_store e = ApiInternal (TStore e)"

definition api_of_core :: "core_error \<Rightarrow> api_error" where
  "api_of_core c = ApiBadRequest (TCore c)"

fun api_of_fs :: "fs_error \<Rightarrow> api_error" where
  "api_of_fs (FCore c) = ApiBadRequest (TCore c)"
| "api_of_fs (FStore e) = api_of_store e"
| "api_of_fs FIo = ApiInternal (TText ''io'')"
| "api_of_fs (FUnsupportedKind path kind) = ApiBadRequest (TText (''unsupported file kind '' @ kind @ '' at '' @ path))"
| "api_of_fs FCrash = ApiInternal (TText ''panic'')"

section \<open>Who is calling, and what may they see\<close>

definition default_actor :: principal_id where
  "default_actor = principal_local ''tigd''"

definition strip_prefix :: "string \<Rightarrow> string \<Rightarrow> string option" where
  "strip_prefix p s = (if starts_with s p then Some (drop (length p) s) else None)"

definition bearer_token :: "string \<Rightarrow> string option" where
  "bearer_token auth =
     (case strip_prefix ''Bearer '' auth of Some t \<Rightarrow> Some t | None \<Rightarrow> strip_prefix ''bearer '' auth)"

definition caller_from ::
  "'x ext_scheme \<Rightarrow> vault \<Rightarrow> u64 \<Rightarrow> headers \<Rightarrow> 'r daemon_scheme \<Rightarrow> api_error + principal_id" where
  "caller_from X V now hdrs s =
     (case Option.bind (hd_authorization hdrs) header_str of
        Some auth \<Rightarrow>
          (case bearer_token auth of
             None \<Rightarrow> Inl (ApiBadRequest (TText ''authorization header must be `Bearer <token>`''))
           | Some token \<Rightarrow>
               and_then (map_err (\<lambda>e. ApiBadRequest (TVis e)) (peek_claims V token)) (\<lambda>c.
                 and_then (map_err (\<lambda>_. ApiUnauthorized (TText (''unknown principal: '' @ cl_sub c)))
                             (principal_get (cl_sub c) (dkeys s))) (\<lambda>p.
                   and_then (map_err (\<lambda>_. ApiUnauthorized (TText (cl_sub c @ '' has no signing pubkey on file'')))
                               (principal_sign_pubkey X p)) (\<lambda>k.
                     and_then (map_err (\<lambda>e. ApiUnauthorized (TVis e)) (verify_token V token k now))
                       (\<lambda>c'. Inr (cl_sub c'))))))
      | None \<Rightarrow>
          Inr (case Option.bind (hd_principal hdrs) header_str of
                 Some n \<Rightarrow> if n \<noteq> [] then n else default_actor
               | None \<Rightarrow> default_actor))"

definition load_visible_change ::
  "change_id \<Rightarrow> principal_id \<Rightarrow> 'r daemon_scheme \<Rightarrow> api_error + change" where
  "load_visible_change i caller s =
     and_then (map_err (\<lambda>_. ApiNotFound (TChange i)) (get_change i s)) (\<lambda>c.
       if \<not> can_see (ch_visibility c) (ch_author c) (Some caller) then Inl (ApiNotFound (TChange i))
       else Inr c)"

definition load_mutable_change ::
  "change_id \<Rightarrow> principal_id \<Rightarrow> 'r daemon_scheme \<Rightarrow> api_error + change" where
  "load_mutable_change i caller s =
     and_then (load_visible_change i caller s) (\<lambda>c.
       if \<not> can_mutate (ch_author c) (Some caller) then Inl (ApiConflict (TOwned i (ch_author c)))
       else Inr c)"

text \<open>The changes the caller can see, in listing order.\<close>

definition visible_changes :: "principal_id \<Rightarrow> 'r daemon_scheme \<Rightarrow> api_error + change list" where
  "visible_changes caller s =
     and_then (traverse (\<lambda>i. map_err api_of_store (get_change i s)) (list_changes s)) (\<lambda>cs.
       Inr (filter (\<lambda>c. can_see (ch_visibility c) (ch_author c) (Some caller)) cs))"

definition visible_snapshot_set :: "principal_id \<Rightarrow> 'r daemon_scheme \<Rightarrow> api_error + hash list" where
  "visible_snapshot_set caller s =
     and_then (visible_changes caller s) (\<lambda>cs. Inr (concat (map ch_history cs)))"

fun snapshot_change_ids :: "ref_snapshot \<Rightarrow> change_id list" where
  "snapshot_change_ids (RChange i _) = [i]"
| "snapshot_change_ids (RHead (Some i)) = [i]"
| "snapshot_change_ids (RWorkspace _ (Some m)) = [ws_change_id m]"
| "snapshot_change_ids _ = []"

definition referenced_change_ids :: "op \<Rightarrow> change_id list" where
  "referenced_change_ids p = remdups_adj (sort (concat (map snapshot_change_ids (op_before p @ op_after p))))"

fun all_visible :: "principal_id \<Rightarrow> 'r daemon_scheme \<Rightarrow> change_id list \<Rightarrow> api_error + bool" where
  "all_visible caller s [] = Inr True"
| "all_visible caller s (i # is) =
     (case get_change i s of
        Inr c \<Rightarrow> if can_see (ch_visibility c) (ch_author c) (Some caller) then all_visible caller s is else Inr False
      | Inl (SNotFound _) \<Rightarrow> Inr False
      | Inl e \<Rightarrow> Inl (api_of_store e))"

definition is_op_visible :: "principal_id \<Rightarrow> 'r daemon_scheme \<Rightarrow> op \<Rightarrow> api_error + bool" where
  "is_op_visible caller s p = all_visible caller s (referenced_change_ids p)"

definition redacted_op_view :: "op \<Rightarrow> op_view" where
  "redacted_op_view p =
     \<lparr>ov_id = op_id_of p, ov_ts_ns = op_ts_ns p, ov_actor = ''<redacted>'', ov_kind = ''Redacted'',
      ov_one_line = ''<redacted>''\<rparr>"

section \<open>Parsing\<close>

definition parse_change_id :: "string \<Rightarrow> api_error + change_id" where
  "parse_change_id s = (if s = [] then Inl (ApiBadRequest (TText ''empty change id'')) else Inr s)"

definition parse_hash :: "'x ext_scheme \<Rightarrow> string \<Rightarrow> api_error + hash" where
  "parse_hash X s = map_err (\<lambda>e. ApiBadRequest (TCore e)) (from_hex X s)"

definition parse_vis_label :: "string \<Rightarrow> api_error + vis_label" where
  "parse_vis_label s =
     (if s = ''public'' then Inr VPublic
      else if s = ''private'' then Inr VPrivate
      else Inl (ApiBadRequest (TText (''unknown visibility '' @ s))))"

definition parse_change_state :: "tools \<Rightarrow> string \<Rightarrow> api_error + change_state" where
  "parse_change_state T s =
     (let l = lowercase T s in
      if l = ''working'' then Inr SWorking
      else if l = ''draft'' then Inr SDraft
      else if l = ''review'' then Inr SReview
      else if l = ''landed'' then Inr SLanded
      else if l = ''abandoned'' then Inr SAbandoned
      else Inl (ApiBadRequest (TText (''unknown state '' @ l))))"

definition path_parts :: "string \<Rightarrow> api_error + string list" where
  "path_parts path =
     (let parts = filter (\<lambda>p. p \<noteq> []) (split_char CHR ''/'' path) in
      if parts = [] then Inl (ApiBadRequest (TText ''empty path''))
      else case List.find (\<lambda>p. p = ''.'' \<or> p = ''..'' \<or> CHR 0x00 \<in> set p) parts of
             Some p \<Rightarrow> Inl (ApiBadRequest (TText (''invalid path component: '' @ p)))
           | None \<Rightarrow> Inr parts)"

text \<open>An optional field, parsed when it is there.\<close>

definition parse_or :: "('a \<Rightarrow> api_error + 'b) \<Rightarrow> 'b \<Rightarrow> 'a option \<Rightarrow> api_error + 'b" where
  "parse_or f d a = (case a of None \<Rightarrow> Inr d | Some x \<Rightarrow> f x)"

end
