(* ===== verification/Handlers.thy ===== *)
theory Handlers
  imports Daemon
begin

text \<open>
  The handlers of \<^verbatim>\<open>tigd/src/handlers.rs\<close>, one definition each, as effects on the daemon's state.
  The raw path segments and decoded bodies are the arguments; an answer is the value that is
  serialised into the response. A panic inside a handler drops the connection; it is the answer
  \<open>ApiInternal\<close> here.
\<close>

section \<open>Views\<close>

definition hunk_line_view_of :: "hunk_line \<Rightarrow> hunk_line_view" where
  "hunk_line_view_of l = (case l of HContext s \<Rightarrow> VContext s | HAdd s \<Rightarrow> VAdd s | HRemove s \<Rightarrow> VRemove s)"

definition hunk_view_of :: "hunk \<Rightarrow> hunk_view" where
  "hunk_view_of h =
     \<lparr>hv_from_start = hk_from_start h, hv_from_len = hk_from_len h, hv_to_start = hk_to_start h,
      hv_to_len = hk_to_len h, hv_lines = map hunk_line_view_of (hk_lines h)\<rparr>"

definition file_diff_view_of :: "'x ext_scheme \<Rightarrow> file_diff \<Rightarrow> file_diff_view" where
  "file_diff_view_of X d =
     (let (kind_name, type_changed_from, type_changed_to) =
            (case fd_kind d of
               Added \<Rightarrow> (''Added'', '''', '''')
             | Removed \<Rightarrow> (''Removed'', '''', '''')
             | Modified \<Rightarrow> (''Modified'', '''', '''')
             | TypeChanged f t \<Rightarrow> (''TypeChanged'', entry_kind_name f, entry_kind_name t)) in
      \<lparr>fv_path = fd_path d, fv_kind = kind_name, fv_type_changed_from = type_changed_from,
       fv_type_changed_to = type_changed_to, fv_entry_kind = entry_kind_name (fd_entry_kind d),
       fv_from_target = map_option (to_hex X) (fd_from_target d),
       fv_to_target = map_option (to_hex X) (fd_to_target d), fv_binary = fd_binary d,
       fv_hunks = map_option (map hunk_view_of) (fd_hunks d)\<rparr>)"

definition blame_line_view_of :: "'x ext_scheme \<Rightarrow> blame_line \<Rightarrow> blame_line_view" where
  "blame_line_view_of X b =
     \<lparr>lv_line = bl_line b, lv_snap = to_hex X (bl_snap b), lv_author = bl_author b,
      lv_timestamp_ns = bl_timestamp_ns b, lv_message = bl_message b\<rparr>"

definition grep_match_view_of :: "grep_match \<Rightarrow> grep_match_view" where
  "grep_match_view_of m =
     \<lparr>mv_path = gm_path m, mv_line_number = gm_line_number m, mv_line = gm_line m\<rparr>"

section \<open>Reading objects\<close>

definition repo_get :: "'x ext_scheme \<Rightarrow> hash \<Rightarrow> 'r objects_dir_scheme \<Rightarrow> api_error + raw_object" where
  "repo_get X h s = map_err api_of_store (obj_get X h s)"

definition snapshot_at_hash :: "'x ext_scheme \<Rightarrow> hash \<Rightarrow> 'r objects_dir_scheme \<Rightarrow> api_error + snapshot" where
  "snapshot_at_hash X h s = and_then (repo_get X h s) (\<lambda>raw. map_err api_of_core (decode_snapshot X raw))"

text \<open>\<^verbatim>\<open>state.repo.put(&x.encode()?)?\<close>\<close>

definition repo_put :: "'x ext_scheme \<Rightarrow> core_error + raw_object \<Rightarrow> ('r objects_dir_scheme, api_error, hash) eff" where
  "repo_put X enc = bindE (liftE (map_err api_of_core enc)) (\<lambda>raw. mapE api_of_store (obj_put X raw))"

lemma snapshot_at_hash_load: "snapshot_at_hash X h s = map_err api_of_fs (load_snapshot X h s)"
  by (cases "obj_get X h s") (auto simp: snapshot_at_hash_def load_snapshot_def repo_get_def api_of_core_def map_err_def
      split: sum.splits)

section \<open>Changes\<close>

definition handle_list_changes ::
  "'x ext_scheme \<Rightarrow> vault \<Rightarrow> environment \<Rightarrow> headers \<Rightarrow> ('r daemon_scheme, api_error, change_view list) eff" where
  "handle_list_changes X V env hdrs =
     bindE (readE (caller_from X V (en_seconds env) hdrs)) (\<lambda>caller.
       bindE (readE (visible_changes caller)) (\<lambda>cs. retE (map (change_view_of X) cs)))"

definition handle_get_change ::
  "'x ext_scheme \<Rightarrow> vault \<Rightarrow> environment \<Rightarrow> headers \<Rightarrow> string \<Rightarrow> ('r daemon_scheme, api_error, change_view) eff" where
  "handle_get_change X V env hdrs ident =
     bindE (liftE (parse_change_id ident)) (\<lambda>i.
       bindE (readE (caller_from X V (en_seconds env) hdrs)) (\<lambda>caller.
         bindE (readE (load_visible_change i caller)) (\<lambda>c. retE (change_view_of X c))))"

definition bootstrap_snapshot :: "principal_id \<Rightarrow> u64 \<Rightarrow> hash \<Rightarrow> snapshot" where
  "bootstrap_snapshot caller t1 tree_h =
     \<lparr>sn_parents = [], sn_tree = tree_h, sn_author = caller, sn_timestamp_ns = t1, sn_message = Some ''(empty)'',
      sn_op_id = None\<rparr>"

definition handle_create_change ::
  "'x ext_scheme \<Rightarrow> tools \<Rightarrow> vault \<Rightarrow> environment \<Rightarrow> headers \<Rightarrow> create_change_req \<Rightarrow>
     ('r daemon_scheme, api_error, change_view) eff" where
  "handle_create_change X T V env hdrs req =
     bindE (readE (caller_from X V (en_seconds env) hdrs)) (\<lambda>caller.
       bindE (case cc_from_change req of
                Some from_str \<Rightarrow>
                  bindE (liftE (parse_change_id from_str)) (\<lambda>p.
                    bindE (readE (load_visible_change p caller)) (\<lambda>parent. retE (ch_current parent)))
              | None \<Rightarrow>
                  bindE (repo_put X (encode_tree X tree_new)) (\<lambda>tree_h.
                    repo_put X (encode_snapshot X (bootstrap_snapshot caller (en_t1 env) tree_h)))) (\<lambda>parent_snap.
         let c0 = change_new (en_cid env) (cc_description req) caller parent_snap in
         bindE (liftE (parse_or parse_vis_label (ch_visibility c0) (cc_visibility req))) (\<lambda>v.
           bindE (liftE (parse_or (parse_change_state T) (ch_state c0) (cc_state req))) (\<lambda>st.
             let c = c0\<lparr>ch_visibility := v, ch_state := st\<rparr> in
             bindE (mapE api_of_store (put_change c)) (\<lambda>_.
               bindE (mapE api_of_store (log_append X (en_t2 env)
                        \<lparr>oip_actor = caller, oip_kind = OkChangeNew (ch_id c) (cc_description req),
                         oip_before = [RChange (ch_id c) None], oip_after = [RChange (ch_id c) (Some c)]\<rparr>)) (\<lambda>_.
                 retE (change_view_of X c)))))))"

definition handle_transition_change ::
  "'x ext_scheme \<Rightarrow> tools \<Rightarrow> vault \<Rightarrow> environment \<Rightarrow> headers \<Rightarrow> string \<Rightarrow> transition_req \<Rightarrow>
     ('r daemon_scheme, api_error, change_view) eff" where
  "handle_transition_change X T V env hdrs ident req =
     bindE (liftE (parse_change_id ident)) (\<lambda>i.
       bindE (readE (caller_from X V (en_seconds env) hdrs)) (\<lambda>caller.
         bindE (readE (load_mutable_change i caller)) (\<lambda>c0.
           bindE (liftE (parse_or (parse_change_state T) (ch_state c0) (tr_state req))) (\<lambda>st.
             bindE (liftE (parse_or parse_vis_label (ch_visibility c0) (tr_visibility req))) (\<lambda>v.
               let c = c0\<lparr>ch_state := st, ch_visibility := v\<rparr> in
               bindE (mapE api_of_store (put_change c)) (\<lambda>_.
                 bindE (mapE api_of_store (log_append X (en_t2 env)
                          \<lparr>oip_actor = caller,
                           oip_kind = OkChangeTransition (ch_id c) (ch_state c0) (ch_state c) (ch_visibility c0) (ch_visibility c),
                           oip_before = [RChange (ch_id c) (Some c0)], oip_after = [RChange (ch_id c) (Some c)]\<rparr>)) (\<lambda>_.
                   retE (change_view_of X c))))))))"

section \<open>Trees\<close>

definition handle_get_tree_root ::
  "'x ext_scheme \<Rightarrow> vault \<Rightarrow> environment \<Rightarrow> headers \<Rightarrow> string \<Rightarrow> ('r daemon_scheme, api_error, tree_view) eff" where
  "handle_get_tree_root X V env hdrs ident =
     bindE (liftE (parse_change_id ident)) (\<lambda>i.
       bindE (readE (caller_from X V (en_seconds env) hdrs)) (\<lambda>caller.
         bindE (readE (load_visible_change i caller)) (\<lambda>c.
           bindE (readE (snapshot_at_hash X (ch_current c))) (\<lambda>sn.
             bindE (readE (repo_get X (sn_tree sn))) (\<lambda>raw.
               bindE (liftE (map_err api_of_core (decode_tree X raw))) (\<lambda>t.
                 retE (tree_view_of X (Some (sn_tree sn)) t)))))))"

datatype tree_reply = RawBytes string bytes | Listing tree_view | SealedBody sealed_view

text \<open>Reading under a tree; the entity tag is the target's hash.\<close>

definition read_tree_path ::
  "'x ext_scheme \<Rightarrow> hash \<Rightarrow> string \<Rightarrow> 'r objects_dir_scheme \<Rightarrow> api_error + tree_reply" where
  "read_tree_path X root path s =
     and_then (path_parts path) (\<lambda>parts.
       and_then (map_err api_of_fs (lookup_entry X root parts s)) (\<lambda>e.
         case te_kind e of
           EFile \<Rightarrow>
             and_then (map_err api_of_fs (read_blob_at_path X root path s)) (\<lambda>data.
               Inr (RawBytes (to_hex X (te_target e)) data))
         | ETree \<Rightarrow>
             and_then (map_err api_of_fs (list_tree X root path s)) (\<lambda>t.
               Inr (Listing (tree_view_of X (Some (te_target e)) t)))
         | ESealed \<Rightarrow>
             and_then (repo_get X (te_target e) s) (\<lambda>raw.
               and_then (map_err api_of_core (decode_sealed X raw)) (\<lambda>sl. Inr (SealedBody (sealed_view_of X sl))))
         | other \<Rightarrow> Inl (ApiBadRequest (TText (path @ '' is a '' @ entry_kind_name other)))))"

definition handle_get_tree_path ::
  "'x ext_scheme \<Rightarrow> vault \<Rightarrow> environment \<Rightarrow> headers \<Rightarrow> string \<Rightarrow> string \<Rightarrow> ('r daemon_scheme, api_error, tree_reply) eff" where
  "handle_get_tree_path X V env hdrs ident path =
     bindE (liftE (parse_change_id ident)) (\<lambda>i.
       bindE (readE (caller_from X V (en_seconds env) hdrs)) (\<lambda>caller.
         bindE (readE (load_visible_change i caller)) (\<lambda>c.
           bindE (readE (snapshot_at_hash X (ch_current c))) (\<lambda>sn.
             readE (read_tree_path X (sn_tree sn) path)))))"

text \<open>What PATCH and DELETE share: edit the current tree, then advance the change to the result.\<close>

definition edit_and_snap ::
  "'x ext_scheme \<Rightarrow> vault \<Rightarrow> environment \<Rightarrow> headers \<Rightarrow> string \<Rightarrow>
     (hash \<Rightarrow> ('r daemon_scheme, fs_error, hash) eff) \<Rightarrow> ('r daemon_scheme, api_error, change_view) eff" where
  "edit_and_snap X V env hdrs ident edit =
     bindE (liftE (parse_change_id ident)) (\<lambda>i.
       bindE (readE (caller_from X V (en_seconds env) hdrs)) (\<lambda>caller.
         bindE (readE (load_mutable_change i caller)) (\<lambda>c.
           bindE (readE (snapshot_at_hash X (ch_current c))) (\<lambda>sn.
             bindE (mapE api_of_fs (edit (sn_tree sn))) (\<lambda>new_tree.
               bindE (mapE api_of_fs (snap_change_directly X (en_t1 env) (en_t2 env) i new_tree
                        (snap_options_default\<lparr>so_author := caller, so_message := None\<rparr>))) (\<lambda>outcome.
                 retE (change_view_of X (outcome_change outcome))))))))"

definition handle_patch_tree_path ::
  "'x ext_scheme \<Rightarrow> vault \<Rightarrow> environment \<Rightarrow> headers \<Rightarrow> string \<Rightarrow> string \<Rightarrow> bytes \<Rightarrow>
     ('r daemon_scheme, api_error, change_view) eff" where
  "handle_patch_tree_path X V env hdrs ident path body =
     edit_and_snap X V env hdrs ident (\<lambda>root. write_blob_at_path X root path body)"

definition handle_delete_tree_path ::
  "'x ext_scheme \<Rightarrow> vault \<Rightarrow> environment \<Rightarrow> headers \<Rightarrow> string \<Rightarrow> string \<Rightarrow> ('r daemon_scheme, api_error, change_view) eff" where
  "handle_delete_tree_path X V env hdrs ident path =
     edit_and_snap X V env hdrs ident (\<lambda>root. delete_at_path X root path)"

section \<open>Snapshots\<close>

text \<open>A snapshot of the unchanged tree; the reply reads the snapshot back.\<close>

definition handle_snap_change ::
  "'x ext_scheme \<Rightarrow> vault \<Rightarrow> environment \<Rightarrow> headers \<Rightarrow> string \<Rightarrow> snap_req \<Rightarrow> ('r daemon_scheme, api_error, snap_resp) eff" where
  "handle_snap_change X V env hdrs ident req =
     bindE (liftE (parse_change_id ident)) (\<lambda>i.
       bindE (readE (caller_from X V (en_seconds env) hdrs)) (\<lambda>caller.
         bindE (readE (load_mutable_change i caller)) (\<lambda>c.
           bindE (readE (snapshot_at_hash X (ch_current c))) (\<lambda>sn.
             let author = (case sq_author req of Some a \<Rightarrow> a | None \<Rightarrow> caller) in
             bindE (mapE api_of_fs (snap_change_directly X (en_t1 env) (en_t2 env) i (sn_tree sn)
                      (snap_options_default\<lparr>so_author := author, so_message := sq_message req,
                         so_force := (case sq_force req of Some b \<Rightarrow> b | None \<Rightarrow> False)\<rparr>))) (\<lambda>outcome.
               case outcome of
                 Snapped h _ c' _ \<Rightarrow>
                   bindE (mapE (\<lambda>_. ApiInternal (TText ''panic'')) (readE (load_snapshot X h))) (\<lambda>sn'.
                     retE \<lparr>sr_outcome = ''snapped'', sr_change = change_view_of X c', sr_snapshot = Some (snapshot_view_of X h sn')\<rparr>)
               | Unchanged c' \<Rightarrow>
                   retE \<lparr>sr_outcome = ''unchanged'', sr_change = change_view_of X c', sr_snapshot = None\<rparr>)))))"

definition handle_get_snapshot ::
  "'x ext_scheme \<Rightarrow> vault \<Rightarrow> environment \<Rightarrow> headers \<Rightarrow> string \<Rightarrow> ('r daemon_scheme, api_error, snapshot_view) eff" where
  "handle_get_snapshot X V env hdrs hex =
     bindE (liftE (parse_hash X hex)) (\<lambda>h.
       bindE (readE (caller_from X V (en_seconds env) hdrs)) (\<lambda>caller.
         bindE (readE (visible_snapshot_set caller)) (\<lambda>visible.
           if h \<notin> set visible then throwE (ApiNotFound (TSnapshot hex))
           else
             bindE (readE (repo_get X h)) (\<lambda>raw.
               if raw_kind raw \<noteq> KSnapshot
               then throwE (ApiBadRequest (TText (''object '' @ hex @ '' is not a snapshot'')))
               else
                 bindE (liftE (map_err api_of_core (decode_snapshot X raw))) (\<lambda>sn.
                   retE (snapshot_view_of X h sn))))))"

section \<open>Queries\<close>

text \<open>The \<open>to\<close> and \<open>from\<close> snapshots are read, and decoded, before the caller's right to see them is
  checked. The tree of the implied \<open>from\<close> of a snapshot without parents is stored, by a GET.\<close>

definition diff_from_tree ::
  "'x ext_scheme \<Rightarrow> diff_query \<Rightarrow> snapshot \<Rightarrow> ('r daemon_scheme, api_error, hash) eff" where
  "diff_from_tree X q to_snap =
     (case dq_from q of
        Some f \<Rightarrow>
          bindE (liftE (parse_hash X f)) (\<lambda>h.
            bindE (readE (snapshot_at_hash X h)) (\<lambda>sn. retE (sn_tree sn)))
      | None \<Rightarrow>
          (case sn_parents to_snap of
             p # _ \<Rightarrow> bindE (readE (snapshot_at_hash X p)) (\<lambda>sn. retE (sn_tree sn))
           | [] \<Rightarrow> repo_put X (encode_tree X tree_new)))"

definition handle_diff_change ::
  "'x ext_scheme \<Rightarrow> tools \<Rightarrow> vault \<Rightarrow> environment \<Rightarrow> headers \<Rightarrow> string \<Rightarrow> diff_query \<Rightarrow>
     ('r daemon_scheme, api_error, diff_view) eff" where
  "handle_diff_change X T V env hdrs ident q =
     bindE (liftE (parse_change_id ident)) (\<lambda>i.
       bindE (readE (caller_from X V (en_seconds env) hdrs)) (\<lambda>caller.
         bindE (readE (load_visible_change i caller)) (\<lambda>c.
           bindE (liftE (parse_or (parse_hash X) (ch_current c) (dq_to q))) (\<lambda>to_snap_hash.
             bindE (readE (snapshot_at_hash X to_snap_hash)) (\<lambda>to_snap.
               bindE (diff_from_tree X q to_snap) (\<lambda>from_tree.
                 bindE (readE (visible_snapshot_set caller)) (\<lambda>visible.
                   bindE (liftE (parse_or (\<lambda>f. and_then (parse_hash X f) (\<lambda>h. Inr (h \<in> set visible))) True (dq_from q)))
                     (\<lambda>from_snap_visible.
                       if to_snap_hash \<notin> set visible \<or> \<not> from_snap_visible then throwE (ApiNotFound (TChange i))
                       else
                         bindE (mapE api_of_fs (readE (diff_trees X T from_tree (sn_tree to_snap)
                                  \<lparr>do_no_hunks = dq_no_hunks q, do_paths = dq_paths q, do_context_lines = 3\<rparr>))) (\<lambda>diffs.
                           retE \<lparr>dv_from = to_hex X from_tree, dv_to = to_hex X (sn_tree to_snap),
                                 dv_files = map (file_diff_view_of X) diffs\<rparr>)))))))))"

text \<open>What blame and grep share: the snapshot to look at, refused unless a visible change reaches it.\<close>

definition gated_snapshot ::
  "'x ext_scheme \<Rightarrow> vault \<Rightarrow> environment \<Rightarrow> headers \<Rightarrow> string \<Rightarrow> string option \<Rightarrow> 'r daemon_scheme \<Rightarrow> api_error + hash" where
  "gated_snapshot X V env hdrs ident snap_arg s =
     and_then (parse_change_id ident) (\<lambda>i.
       and_then (caller_from X V (en_seconds env) hdrs s) (\<lambda>caller.
         and_then (load_visible_change i caller s) (\<lambda>c.
           and_then (parse_or (parse_hash X) (ch_current c) snap_arg) (\<lambda>h.
             and_then (visible_snapshot_set caller s) (\<lambda>visible.
               if h \<notin> set visible then Inl (ApiNotFound (TSnapshot (take 12 (to_hex X h)))) else Inr h)))))"

definition handle_blame_path ::
  "'x ext_scheme \<Rightarrow> tools \<Rightarrow> vault \<Rightarrow> environment \<Rightarrow> headers \<Rightarrow> string \<Rightarrow> string \<Rightarrow> string option \<Rightarrow>
     ('r daemon_scheme, api_error, blame_view) eff" where
  "handle_blame_path X T V env hdrs ident path snap_arg =
     bindE (readE (gated_snapshot X V env hdrs ident snap_arg)) (\<lambda>h.
       bindE (mapE api_of_fs (readE (\<lambda>s. blame_at X T s (tree_fuel s) path h))) (\<lambda>ls.
         retE \<lparr>bv_path = path, bv_at = to_hex X h, bv_lines = map (blame_line_view_of X) ls\<rparr>))"

definition handle_grep_change ::
  "'x ext_scheme \<Rightarrow> tools \<Rightarrow> vault \<Rightarrow> environment \<Rightarrow> headers \<Rightarrow> string \<Rightarrow> grep_query \<Rightarrow>
     ('r daemon_scheme, api_error, grep_view) eff" where
  "handle_grep_change X T V env hdrs ident q =
     bindE (readE (gated_snapshot X V env hdrs ident (gq_snap q))) (\<lambda>h.
       bindE (readE (snapshot_at_hash X h)) (\<lambda>sn.
         bindE (mapE api_of_fs (readE (grep_tree X T (sn_tree sn) (gq_q q)
                  \<lparr>go_regex = gq_regex q, go_ignore_case = gq_ignore_case q, go_paths = parsed_paths q,
                   go_max_matches_per_file = gq_max_per_file q, go_max_total_matches = gq_max_total q\<rparr>))) (\<lambda>matches.
           retE \<lparr>gv_at = to_hex X h, gv_matches = map grep_match_view_of matches\<rparr>)))"

section \<open>The operation log and garbage\<close>

definition most_recent :: "nat option \<Rightarrow> 'a list \<Rightarrow> 'a list" where
  "most_recent limit ops =
     (case limit of Some n \<Rightarrow> if length ops > n then drop (length ops - n) ops else ops | None \<Rightarrow> ops)"

definition shown_op :: "'x ext_scheme \<Rightarrow> principal_id \<Rightarrow> 'r daemon_scheme \<Rightarrow> op \<Rightarrow> api_error + op_view" where
  "shown_op X caller s p =
     and_then (is_op_visible caller s p) (\<lambda>b. Inr (if b then op_view_of X p else redacted_op_view p))"

definition handle_list_oplog ::
  "'x ext_scheme \<Rightarrow> vault \<Rightarrow> environment \<Rightarrow> headers \<Rightarrow> nat option \<Rightarrow> ('r daemon_scheme, api_error, op_view list) eff" where
  "handle_list_oplog X V env hdrs limit =
     bindE (readE (caller_from X V (en_seconds env) hdrs)) (\<lambda>caller.
       bindE (mapE api_of_store (readE (log_list X))) (\<lambda>ops.
         readE (\<lambda>s. traverse (shown_op X caller s) (most_recent limit ops))))"

text \<open>The one mutating handler that takes no headers: the actor is whatever the body says.\<close>

definition handle_undo ::
  "'x ext_scheme \<Rightarrow> environment \<Rightarrow> string option \<Rightarrow> ('r daemon_scheme, api_error, undo_resp) eff" where
  "handle_undo X env author =
     (let actor = (case author of Some a \<Rightarrow> a | None \<Rightarrow> default_actor) in
      bindE (mapE api_of_store (undo_once X (en_t2 env) actor)) (\<lambda>outcome.
        retE (case outcome of
                Some out \<Rightarrow>
                  \<lparr>ur_undone_op_id = Some (op_id_of (uo_undone out)),
                   ur_undone_kind = Some (one_line X (op_kind_of (uo_undone out))),
                   ur_recorded_op_id = Some (op_id_of (uo_recorded out)), ur_message = ''undid '' @ show_op_id (op_id_of (uo_undone out))\<rparr>
              | None \<Rightarrow>
                  \<lparr>ur_undone_op_id = None, ur_undone_kind = None, ur_recorded_op_id = None,
                   ur_message = ''nothing to undo''\<rparr>)))"

definition gc_req_default :: gc_req where
  "gc_req_default = \<lparr>gr_dry_run = False, gr_ignore_oplog = False\<rparr>"

definition handle_gc ::
  "'x ext_scheme \<Rightarrow> vault \<Rightarrow> environment \<Rightarrow> headers \<Rightarrow> gc_req option \<Rightarrow> ('r daemon_scheme, api_error, gc_view) eff" where
  "handle_gc X V env hdrs body =
     (if hd_authorization hdrs = None
      then throwE (ApiUnauthorized (TText ''POST /v1/gc requires a signed Bearer token''))
      else
        bindE (readE (caller_from X V (en_seconds env) hdrs)) (\<lambda>_.
          let req = (case body of Some r \<Rightarrow> r | None \<Rightarrow> gc_req_default) in
          bindE (mapE (\<lambda>e. ApiInternal (TStore e))
                   (collect_garbage X \<lparr>gc_dry_run = gr_dry_run req, include_oplog_snapshots = \<not> gr_ignore_oplog req\<rparr>)) (\<lambda>m.
            retE \<lparr>gw_roots = gs_roots m, gw_kept = gs_kept m, gw_removed = gs_removed m,
                  gw_bytes_freed = gs_bytes_freed m, gw_dry_run = gs_dry_run m\<rparr>)))"

end
