(* ===== verification/Service.thy ===== *)
theory Service
  imports Handlers
begin

text \<open>
  The daemon as a whole: the requests its router accepts (\<^verbatim>\<open>build_app\<close> of \<^verbatim>\<open>tigd/src/lib.rs\<close>), each
  dispatched to its handler, and sequences of requests. A handler that writes holds the write
  lock to its end, so requests that write do not interleave.
\<close>

datatype request =
    ReqListChanges
  | ReqCreateChange create_change_req
  | ReqGetChange string
  | ReqGetTreeRoot string
  | ReqGetTreePath string string
  | ReqPatchTreePath string string bytes
  | ReqDeleteTreePath string string
  | ReqSnapChange string snap_req
  | ReqDiffChange string diff_query
  | ReqBlamePath string string "string option"
  | ReqGrepChange string grep_query
  | ReqTransitionChange string transition_req
  | ReqGetSnapshot string
  | ReqListOplog "nat option"
  | ReqUndo "string option"
  | ReqGc "gc_req option"

datatype reply =
    RepChanges "change_view list"
  | RepChange change_view
  | RepTree tree_view
  | RepPath tree_reply
  | RepSnap snap_resp
  | RepDiff diff_view
  | RepBlame blame_view
  | RepGrep grep_view
  | RepSnapshot snapshot_view
  | RepOplog "op_view list"
  | RepUndo undo_resp
  | RepGc gc_view

definition answer :: "('a \<Rightarrow> reply) \<Rightarrow> ('s, 'e, 'a) eff \<Rightarrow> ('s, 'e, reply) eff" where
  "answer f m = bindE m (\<lambda>a. retE (f a))"

fun serve ::
  "'x ext_scheme \<Rightarrow> tools \<Rightarrow> vault \<Rightarrow> environment \<Rightarrow> headers \<Rightarrow> request \<Rightarrow> ('r daemon_scheme, api_error, reply) eff" where
  "serve X T V env hdrs ReqListChanges = answer RepChanges (handle_list_changes X V env hdrs)"
| "serve X T V env hdrs (ReqCreateChange req) = answer RepChange (handle_create_change X T V env hdrs req)"
| "serve X T V env hdrs (ReqGetChange i) = answer RepChange (handle_get_change X V env hdrs i)"
| "serve X T V env hdrs (ReqGetTreeRoot i) = answer RepTree (handle_get_tree_root X V env hdrs i)"
| "serve X T V env hdrs (ReqGetTreePath i p) = answer RepPath (handle_get_tree_path X V env hdrs i p)"
| "serve X T V env hdrs (ReqPatchTreePath i p body) = answer RepChange (handle_patch_tree_path X V env hdrs i p body)"
| "serve X T V env hdrs (ReqDeleteTreePath i p) = answer RepChange (handle_delete_tree_path X V env hdrs i p)"
| "serve X T V env hdrs (ReqSnapChange i req) = answer RepSnap (handle_snap_change X V env hdrs i req)"
| "serve X T V env hdrs (ReqDiffChange i q) = answer RepDiff (handle_diff_change X T V env hdrs i q)"
| "serve X T V env hdrs (ReqBlamePath i p q) = answer RepBlame (handle_blame_path X T V env hdrs i p q)"
| "serve X T V env hdrs (ReqGrepChange i q) = answer RepGrep (handle_grep_change X T V env hdrs i q)"
| "serve X T V env hdrs (ReqTransitionChange i req) = answer RepChange (handle_transition_change X T V env hdrs i req)"
| "serve X T V env hdrs (ReqGetSnapshot h) = answer RepSnapshot (handle_get_snapshot X V env hdrs h)"
| "serve X T V env hdrs (ReqListOplog limit) = answer RepOplog (handle_list_oplog X V env hdrs limit)"
| "serve X T V env hdrs (ReqUndo author) = answer RepUndo (handle_undo X env author)"
| "serve X T V env hdrs (ReqGc body) = answer RepGc (handle_gc X V env hdrs body)"

record event =
  ev_env :: environment
  ev_hdrs :: headers
  ev_req :: request

text \<open>The answers to a sequence of requests, and the state they leave.\<close>

fun serve_all ::
  "'x ext_scheme \<Rightarrow> tools \<Rightarrow> vault \<Rightarrow> event list \<Rightarrow> 'r daemon_scheme \<Rightarrow> (api_error + reply) list \<times> 'r daemon_scheme" where
  "serve_all X T V [] s = ([], s)"
| "serve_all X T V (e # es) s =
     (let (r, t) = serve X T V (ev_env e) (ev_hdrs e) (ev_req e) s; (rs, u) = serve_all X T V es t in (r # rs, u))"

text \<open>The requests that reach across changes: undo takes no caller at all, and a collection reports counts.\<close>

fun crosses_changes :: "request \<Rightarrow> bool" where
  "crosses_changes (ReqUndo _) \<longleftrightarrow> True"
| "crosses_changes (ReqGc _) \<longleftrightarrow> True"
| "crosses_changes _ \<longleftrightarrow> False"

section \<open>Unwinding\<close>

text \<open>
  \<open>unwinds H g m\<close>: from a state where \<open>H\<close> holds, \<open>m\<close> cannot tell the state from its image under
  \<open>g\<close>: it gives the same result, on images it leaves images, and \<open>H\<close> holds afterwards.
\<close>

named_theorems unwind \<open>effects that unwind\<close>

definition unwinds :: "('s \<Rightarrow> bool) \<Rightarrow> ('s \<Rightarrow> 's) \<Rightarrow> ('s, 'e, 'a) eff \<Rightarrow> bool" where
  "unwinds H g m \<longleftrightarrow> (\<forall>s. H s \<longrightarrow> m (g s) = (fst (m s), g (snd (m s))) \<and> H (snd (m s)))"

lemma unwindsI:
  "(\<And>s. H s \<Longrightarrow> m (g s) = (fst (m s), g (snd (m s)))) \<Longrightarrow> (\<And>s. H s \<Longrightarrow> H (snd (m s))) \<Longrightarrow> unwinds H g m"
  by (simp add: unwinds_def)

lemma unwindsD:
  assumes "unwinds H g m" and "H s" and "m s = (r, t)"
  shows "m (g s) = (r, g t)" and "H t"
  using assms by (auto simp: unwinds_def)

lemma unwinds_const [unwind]: "unwinds H g (retE a)" "unwinds H g (throwE e)" "unwinds H g (liftE r)"
  by (simp_all add: unwinds_def eff_simps)

lemma unwinds_readE: "(\<And>s. H s \<Longrightarrow> f (g s) = f s) \<Longrightarrow> unwinds H g (readE f)"
  by (simp add: unwinds_def readE_def)

lemma unwinds_mapE [unwind]: "unwinds H g m \<Longrightarrow> unwinds H g (mapE f m)"
  by (simp add: unwinds_def mapE_def)

lemma unwinds_bindE [unwind]: "unwinds H g m \<Longrightarrow> (\<And>a. unwinds H g (f a)) \<Longrightarrow> unwinds H g (bindE m f)"
proof (unfold unwinds_def, intro allI impI)
  fix s
  assume m: "\<forall>s. H s \<longrightarrow> m (g s) = (fst (m s), g (snd (m s))) \<and> H (snd (m s))"
    and f: "\<And>a. \<forall>s. H s \<longrightarrow> f a (g s) = (fst (f a s), g (snd (f a s))) \<and> H (snd (f a s))"
    and "H s"
  then have m': "m (g s) = (fst (m s), g (snd (m s)))" "H (snd (m s))" by simp_all
  show "bindE m f (g s) = (fst (bindE m f s), g (snd (bindE m f s))) \<and> H (snd (bindE m f s))"
    using m' f [rule_format, OF m'(2)] by (simp add: bindE_def split_beta split: sum.split)
qed

text \<open>A value read from the state may be used as such in what follows.\<close>

lemma unwinds_read_bind:
  assumes "\<And>s. H s \<Longrightarrow> f (g s) = f s" and "\<And>a s. H s \<Longrightarrow> f s = Inr a \<Longrightarrow> unwinds H g (k a)"
  shows "unwinds H g (bindE (readE f) k)"
  unfolding unwinds_def
proof (intro allI impI)
  fix s assume H: "H s"
  show "bindE (readE f) k (g s) = (fst (bindE (readE f) k s), g (snd (bindE (readE f) k s))) \<and> H (snd (bindE (readE f) k s))"
  proof (cases "f s")
    case (Inr a)
    with assms(1) [OF H] assms(2) [OF H Inr] H show ?thesis by (simp add: bindE_def readE_def unwinds_def)
  qed (use assms(1) [OF H] H in \<open>simp add: bindE_def readE_def\<close>)
qed

lemma unwinds_answer [unwind]: "unwinds H g m \<Longrightarrow> unwinds H g (answer f m)"
  by (simp add: answer_def unwind)

end
