(* ===== verification/Outsiders.thy ===== *)
theory Outsiders
  imports Service
begin

text \<open>
  What a request can tell about, and do to, a change its caller may not touch. The reads of the
  engine depend on the object files alone; the locale \<open>blind_spot\<close> states what a handler needs
  from a part of the state to be unable to see it, and is interpreted twice: the part is a hidden
  change's record, or nothing at all (then it says that a change of someone else stays as it is).
  Undo and collection reach across changes and are left out.
\<close>

section \<open>The engine's reads depend on the object files alone\<close>

lemma loads_same:
  assumes "ofiles u = ofiles s"
  shows "obj_get X h u = obj_get X h s" "load_tree X h u = load_tree X h s" "load_blob X h u = load_blob X h s"
    "load_snapshot X h u = load_snapshot X h s" "tree_fuel u = tree_fuel s" "repo_get X h u = repo_get X h s"
    "snapshot_at_hash X h u = snapshot_at_hash X h s"
  using assms
  by (simp_all add: obj_get_def load_tree_def load_blob_def load_snapshot_def tree_fuel_def repo_get_def snapshot_at_hash_def)

lemma lookups_same:
  assumes "ofiles u = ofiles s"
  shows "lookup_parts X u pre t parts = lookup_parts X s pre t parts"
    "lookup_entry X root parts u = lookup_entry X root parts s"
    "read_blob_at_path X root path u = read_blob_at_path X root path s"
    "list_tree X root path u = list_tree X root path s"
    "try_read_parts X u t parts = try_read_parts X s t parts"
    "try_read_blob_at_path X root path u = try_read_blob_at_path X root path s"
proof -
  note same = loads_same [OF assms]
  show lp: "lookup_parts X u pre t parts = lookup_parts X s pre t parts" for pre t parts
    by (induction parts arbitrary: pre t) (simp_all add: same cong: option.case_cong if_cong)
  show le: "lookup_entry X root parts u = lookup_entry X root parts s" for parts
    by (simp add: lookup_entry_def same lp)
  show "read_blob_at_path X root path u = read_blob_at_path X root path s"
    by (simp add: read_blob_at_path_def same le cong: if_cong)
  show "list_tree X root path u = list_tree X root path s" by (simp add: list_tree_def same le cong: if_cong)
  show tp: "try_read_parts X u t parts = try_read_parts X s t parts" for t parts
    by (induction parts arbitrary: t) (simp_all add: same cong: option.case_cong if_cong)
  show "try_read_blob_at_path X root path u = try_read_blob_at_path X root path s"
    by (simp add: try_read_blob_at_path_def same tp)
qed

lemma queries_same:
  assumes "ofiles u = ofiles s"
  shows "blame_at X T u fuel path h = blame_at X T s fuel path h"
    "grep_tree X T h pattern gopts u = grep_tree X T h pattern gopts s"
    "diff_trees X T a b opts u = diff_trees X T a b opts s"
proof -
  note same = loads_same [OF assms] lookups_same [OF assms]
  show "blame_at X T u fuel path h = blame_at X T s fuel path h"
    by (induction fuel arbitrary: h) (simp_all add: same Let_def del: lossy.simps cong: option.case_cong list.case_cong if_cong)
  have "grep_walk X T u gopts m fuel pfx h out = grep_walk X T s gopts m fuel pfx h out" for m fuel pfx h out
    by (induction fuel arbitrary: pfx h out) (simp_all add: same del: lossy.simps cong: entry_kind.case_cong if_cong)
  then show "grep_tree X T h pattern gopts u = grep_tree X T h pattern gopts s"
    by (simp add: grep_tree_def same cong: if_cong)
  have "emit_change X T u opts path k f t = emit_change X T s opts path k f t" for path k f t
    by (simp add: emit_change_def side_bytes_def same del: lossy.simps cong: option.case_cong if_cong)
  moreover have "side_entries X u h = side_entries X s h" for h
    by (simp add: side_entries_def same cong: option.case_cong)
  ultimately have "diff_subtree X T u opts fuel f t pfx = diff_subtree X T s opts fuel f t pfx" for fuel f t pfx
    by (induction fuel arbitrary: f t pfx) (simp_all del: lossy.simps cong: option.case_cong if_cong)
  then show "diff_trees X T a b opts u = diff_trees X T a b opts s" by (simp add: diff_trees_def same cong: if_cong)
qed

lemma read_tree_path_same: "ofiles u = ofiles s \<Longrightarrow> read_tree_path X root path u = read_tree_path X root path s"
  by (simp add: read_tree_path_def loads_same [of u s] lookups_same [of u s] cong: entry_kind.case_cong if_cong)

section \<open>A blind spot\<close>

text \<open>
  \<open>g\<close> changes a part of the state that guests cannot see; \<open>spot\<close> are the changes in it; \<open>H\<close> says
  that the part is as it should be and that the caller of the request is a guest.
\<close>

locale blind_spot =
  fixes X :: "'x ext_scheme" and V :: vault and hdrs :: headers and env :: environment
    and H :: "'r daemon_scheme \<Rightarrow> bool" and g :: "'r daemon_scheme \<Rightarrow> 'r daemon_scheme"
    and guest :: "principal_id \<Rightarrow> bool" and spot :: "change_id \<Rightarrow> bool"
  assumes files: "ofiles (g s) = ofiles s"
    and who: "H s \<Longrightarrow> caller_from X V (en_seconds env) hdrs (g s) = caller_from X V (en_seconds env) hdrs s"
    and guest: "H s \<Longrightarrow> caller_from X V (en_seconds env) hdrs s = Inr p \<Longrightarrow> guest p"
    and visible: "H s \<Longrightarrow> guest p \<Longrightarrow> load_visible_change j p (g s) = load_visible_change j p s"
    and listed: "H s \<Longrightarrow> guest p \<Longrightarrow> visible_changes p (g s) = visible_changes p s"
    and op_shown: "H s \<Longrightarrow> guest p \<Longrightarrow> all_visible p (g s) js = all_visible p s js"
    and mutable: "H s \<Longrightarrow> guest p \<Longrightarrow> load_mutable_change j p s = Inr c \<Longrightarrow> \<not> spot j"
    and found: "H s \<Longrightarrow> \<not> spot j \<Longrightarrow> get_change j (g s) = get_change j s"
    and named: "H s \<Longrightarrow> get_change j s = Inr c \<Longrightarrow> ch_id c = j"
    and fresh: "H s \<Longrightarrow> \<not> spot (en_cid env)"
    and logged: "H s \<Longrightarrow> log_list X (g s) = log_list X s"
    and put_object: "unwinds H g (obj_put X raw)"
    and put_spared: "\<not> spot (ch_id c) \<Longrightarrow> unwinds H g (put_change c)"
    and append: "unwinds H g (log_append X now q)"
begin

lemmas engine_same = loads_same [OF files] lookups_same [OF files] queries_same [OF files] read_tree_path_same [OF files]

lemma mutable_same: "H s \<Longrightarrow> guest p \<Longrightarrow> load_mutable_change j p (g s) = load_mutable_change j p s"
  by (simp add: load_mutable_change_def visible)

lemma mutable_named: "H s \<Longrightarrow> load_mutable_change j p s = Inr c \<Longrightarrow> ch_id c = j"
  using named by (auto simp: load_mutable_change_def load_visible_change_def and_then_Inr_iff split: if_splits)

lemma reachable_same: "H s \<Longrightarrow> guest p \<Longrightarrow> visible_snapshot_set p (g s) = visible_snapshot_set p s"
  by (simp add: visible_snapshot_set_def listed)

lemma shown_same: "H s \<Longrightarrow> guest p \<Longrightarrow> shown_op X p (g s) = shown_op X p s"
  by (rule ext) (simp add: shown_op_def is_op_visible_def op_shown)

text \<open>Every handler starts by asking who is calling; from there on the caller is a guest.\<close>

lemma unwinds_caller:
  "(\<And>p. guest p \<Longrightarrow> unwinds H g (k p)) \<Longrightarrow> unwinds H g (bindE (readE (caller_from X V (en_seconds env) hdrs)) k)"
  by (rule unwinds_read_bind) (auto simp: who intro: guest)

lemma unwinds_repo_put: "unwinds H g (repo_put X enc)"
  unfolding repo_put_def by (intro unwind put_object)

lemma unwinds_store: "unwinds H g (store_raw X enc)"
  unfolding store_raw_def by (intro unwind put_object)

lemma unwinds_insert: "unwinds H g (rewrite_insert X parts target kind mode h)"
proof (induction parts arbitrary: h rule: induct_list012)
  case (3 n p ps)
  show ?case unfolding rewrite_insert.simps
    by (intro unwind unwinds_readE unwinds_store 3)
      (auto simp: engine_same store_tree_def intro!: unwind unwinds_store 3 split: option.split)
qed (auto simp: engine_same store_tree_def intro!: unwind unwinds_readE unwinds_store)

lemma unwinds_remove: "unwinds H g (rewrite_remove X parts h)"
proof (induction parts arbitrary: h rule: induct_list012)
  case (3 n p ps)
  show ?case unfolding rewrite_remove.simps
    by (auto simp: engine_same store_tree_def intro!: unwind unwinds_readE unwinds_store 3 split: option.split)
qed (auto simp: engine_same store_tree_def intro!: unwind unwinds_readE unwinds_store)

lemma unwinds_edits: "unwinds H g (write_blob_at_path X root path data)" "unwinds H g (delete_at_path X root path)"
  unfolding write_blob_at_path_def delete_at_path_def store_blob_def
  by (intro unwind unwinds_store unwinds_insert unwinds_remove)+

lemma unwinds_snap: "\<not> spot i \<Longrightarrow> unwinds H g (snap_change_directly X t1 t2 i tree_h opts)"
  unfolding snap_change_directly_def
proof (rule unwinds_read_bind)
  fix c s assume i: "\<not> spot i" and s: "H s" "map_err FStore (get_change i s) = Inr c"
  then have "ch_id c = i" using named by simp
  with i show "unwinds H g (bindE (readE (load_snapshot X (ch_current c))) (\<lambda>prev.
      if sn_tree prev = tree_h \<and> so_message opts = None \<and> \<not> so_force opts then retE (Unchanged c)
      else bindE (store_snapshot X (new_snapshot opts t1 [ch_current c] tree_h)) (\<lambda>h.
        let c' = advance c h in
        bindE (mapE FStore (put_change c')) (\<lambda>_.
          bindE (mapE FStore (log_append X t2
            \<lparr>oip_actor = so_author opts, oip_kind = OkSnap h (so_message opts),
             oip_before = [RChange i (Some c)], oip_after = [RChange i (Some c')]\<rparr>)) (\<lambda>_.
            retE (Snapped h tree_h c' False))))))"
    by (auto simp: engine_same store_snapshot_def Let_def intro!: unwind unwinds_readE unwinds_store put_spared append)
qed (simp add: found)

text \<open>The handlers that look at one change.\<close>

lemma unwinds_visible:
  "guest p \<Longrightarrow> (\<And>c. unwinds H g (k c)) \<Longrightarrow> unwinds H g (bindE (readE (load_visible_change i p)) k)"
  by (rule unwinds_read_bind) (auto simp: visible)

lemma unwinds_mutable:
  "guest p \<Longrightarrow> (\<And>c. \<not> spot i \<Longrightarrow> ch_id c = i \<Longrightarrow> unwinds H g (k c)) \<Longrightarrow>
   unwinds H g (bindE (readE (load_mutable_change i p)) k)"
  by (rule unwinds_read_bind) (auto simp: mutable_same dest: mutable mutable_named)

lemmas reads = unwind unwinds_readE unwinds_caller unwinds_visible

lemma unwinds_looks:
  "unwinds H g (handle_list_changes X V env hdrs)" "unwinds H g (handle_get_change X V env hdrs i)"
  "unwinds H g (handle_get_tree_root X V env hdrs i)" "unwinds H g (handle_get_tree_path X V env hdrs i path)"
  "unwinds H g (handle_get_snapshot X V env hdrs i)" "unwinds H g (handle_list_oplog X V env hdrs limit)"
  unfolding handle_list_changes_def handle_get_change_def handle_get_tree_root_def handle_get_tree_path_def
    handle_get_snapshot_def handle_list_oplog_def
  by (auto simp: engine_same listed reachable_same logged shown_same intro!: reads)

lemma gated_same: "H s \<Longrightarrow> gated_snapshot X V env hdrs i a (g s) = gated_snapshot X V env hdrs i a s"
proof -
  assume H: "H s"
  show ?thesis
  proof (cases "caller_from X V (en_seconds env) hdrs s")
    case (Inr p)
    with guest [OF H Inr] H show ?thesis by (simp add: gated_snapshot_def who visible reachable_same)
  qed (simp add: gated_snapshot_def who H)
qed

lemma unwinds_queries:
  "unwinds H g (handle_diff_change X T V env hdrs i q)" "unwinds H g (handle_blame_path X T V env hdrs i path a)"
  "unwinds H g (handle_grep_change X T V env hdrs i gq)"
proof -
  have "unwinds H g (diff_from_tree X q sn)" for q sn
    by (auto simp: diff_from_tree_def engine_same intro!: reads unwinds_repo_put split: option.split list.split)
  then show "unwinds H g (handle_diff_change X T V env hdrs i q)"
    unfolding handle_diff_change_def by (auto simp: engine_same reachable_same intro!: reads)
  show "unwinds H g (handle_blame_path X T V env hdrs i path a)" "unwinds H g (handle_grep_change X T V env hdrs i gq)"
    unfolding handle_blame_path_def handle_grep_change_def by (auto simp: engine_same gated_same intro!: reads)
qed

lemma unwinds_edit:
  "(\<And>h. unwinds H g (edit h)) \<Longrightarrow> unwinds H g (edit_and_snap X V env hdrs i edit)"
  unfolding edit_and_snap_def
  by (auto simp: engine_same intro!: reads unwinds_mutable unwinds_snap)

lemma unwinds_moves:
  "unwinds H g (handle_transition_change X T V env hdrs i treq)" "unwinds H g (handle_snap_change X V env hdrs i sreq)"
  "unwinds H g (handle_patch_tree_path X V env hdrs i path body)" "unwinds H g (handle_delete_tree_path X V env hdrs i path)"
proof -
  show "unwinds H g (handle_transition_change X T V env hdrs i treq)"
    unfolding handle_transition_change_def
    by (auto simp: Let_def intro!: reads unwinds_mutable put_spared append)
  show "unwinds H g (handle_snap_change X V env hdrs i sreq)"
    unfolding handle_snap_change_def
    by (auto simp: engine_same Let_def intro!: reads unwinds_mutable unwinds_snap split: snap_outcome.split)
  show "unwinds H g (handle_patch_tree_path X V env hdrs i path body)"
      "unwinds H g (handle_delete_tree_path X V env hdrs i path)"
    unfolding handle_patch_tree_path_def handle_delete_tree_path_def by (intro unwinds_edit unwinds_edits)+
qed

lemma unwinds_create: "unwinds H g (handle_create_change X T V env hdrs req)"
proof (cases "spot (en_cid env)")
  case True
  then show ?thesis using fresh by (auto simp: unwinds_def)
next
  case False
  show ?thesis unfolding handle_create_change_def
    by (auto simp: Let_def change_new_def False intro!: reads put_spared append unwinds_repo_put split: option.split)
qed

theorem serve_unwinds: "\<not> crosses_changes req \<Longrightarrow> unwinds H g (serve X T V env hdrs req)"
  by (cases req) (auto intro!: unwind unwinds_looks unwinds_queries unwinds_moves unwinds_create)

end

section \<open>Hidden changes, and changes of someone else\<close>

text \<open>\<open>forget\<close> takes away the record of a change, the file in the references; objects and log stay.\<close>

definition forget :: "change_id \<Rightarrow> 'r daemon_scheme \<Rightarrow> 'r daemon_scheme" where
  "forget i s = s\<lparr>rchanges := AList.delete i (rchanges s)\<rparr>"

definition ids_ok :: "'r daemon_scheme \<Rightarrow> bool" where
  "ids_ok s \<longleftrightarrow> (\<forall>j c. get_change j s = Inr c \<longrightarrow> ch_id c = j)"

text \<open>The change \<open>c\<close> is there, the known keys are \<open>K\<close>, and whoever makes the request satisfies \<open>guest\<close>.\<close>

definition visited_by ::
  "'x ext_scheme \<Rightarrow> vault \<Rightarrow> headers \<Rightarrow> environment \<Rightarrow> keys_dir \<Rightarrow> change \<Rightarrow> (principal_id \<Rightarrow> bool) \<Rightarrow>
     'r daemon_scheme \<Rightarrow> bool" where
  "visited_by X V hdrs env K c guest s \<longleftrightarrow>
     ids_ok s \<and> dkeys s = K \<and> get_change (ch_id c) s = Inr c \<and> en_cid env \<noteq> ch_id c \<and>
     (\<forall>p. caller_from X V (en_seconds env) hdrs s = Inr p \<longrightarrow> guest p)"

definition cannot_see :: "change \<Rightarrow> principal_id \<Rightarrow> bool" where
  "cannot_see c p \<longleftrightarrow> \<not> can_see (ch_visibility c) (ch_author c) (Some p)"

definition not_author :: "change \<Rightarrow> principal_id \<Rightarrow> bool" where
  "not_author c p \<longleftrightarrow> p \<noteq> ch_author c"

lemma ids_ok_put: "ids_ok s \<Longrightarrow> ids_ok (snd (put_change c s))"
  by (simp add: ids_ok_def get_put_change)

lemma forget_fields [simp]:
  "ofiles (forget i s) = ofiles s" "owritten (forget i s) = owritten s" "rlog (forget i s) = rlog s"
  "slog (forget i s) = slog s" "dkeys (forget i s) = dkeys s" "rchanges (forget i s) = AList.delete i (rchanges s)"
  by (simp_all add: forget_def)

lemma get_forget: "get_change j (forget i s) = (if j = i then Inl (SNotFound (''change '' @ j)) else get_change j s)"
  by (simp add: get_change_def AList.delete_conv')

lemma caller_keys: "dkeys t = dkeys s \<Longrightarrow> caller_from X V now hdrs t = caller_from X V now hdrs s"
  by (simp add: caller_from_def cong: option.case_cong)

lemma put_forget:
  "ch_id c \<noteq> i \<Longrightarrow> put_change c (forget i s) = (fst (put_change c s), forget i (snd (put_change c s)))"
proof -
  assume "ch_id c \<noteq> i"
  then have "AList.delete i (AList.update (ch_id c) (Json c) xs) = AList.update (ch_id c) (Json c) (AList.delete i xs)" for xs
    by (induction xs) auto
  then show ?thesis by (simp add: put_change_def forget_def)
qed

lemma obj_put_forget: "obj_put X raw (forget i s) = (fst (obj_put X raw s), forget i (snd (obj_put X raw s)))"
  by (simp add: obj_put_def forget_def Let_def)

lemma append_forget: "log_append X now q (forget i s) = (fst (log_append X now q s), forget i (snd (log_append X now q s)))"
  by (simp add: log_append_def forget_def Let_def split: op_log.split option.split)

lemma list_forget: "log_list X (forget i s) = log_list X s"
  by (simp add: log_list_def read_all_def cong: op_log.case_cong)

text \<open>What an effect other than \<open>put_change\<close> leaves alone.\<close>

lemma effects_keep:
  "rchanges (snd (obj_put X raw s)) = rchanges s" "dkeys (snd (obj_put X raw s)) = dkeys s"
  "rchanges (snd (log_append X now q s)) = rchanges s" "dkeys (snd (log_append X now q s)) = dkeys s"
  "dkeys (snd (put_change c s)) = dkeys s"
  by (simp_all add: obj_put_def log_append_def put_change_def Let_def split: op_log.split option.split)

lemma get_change_same: "rchanges t = rchanges s \<Longrightarrow> get_change j t = get_change j s"
  by (simp add: get_change_def)

lemma visited_by_keep:
  assumes "visited_by X V hdrs env K c guest s"
  shows "rchanges t = rchanges s \<Longrightarrow> dkeys t = dkeys s \<Longrightarrow> visited_by X V hdrs env K c guest t"
    "ch_id d \<noteq> ch_id c \<Longrightarrow> visited_by X V hdrs env K c guest (snd (put_change d s))"
proof -
  show "visited_by X V hdrs env K c guest t" if "rchanges t = rchanges s" "dkeys t = dkeys s"
    using assms get_change_same [OF that(1)] caller_keys [OF that(2), of X V "en_seconds env" hdrs] that(2)
    by (simp add: visited_by_def ids_ok_def)
  show "visited_by X V hdrs env K c guest (snd (put_change d s))" if "ch_id d \<noteq> ch_id c"
    using assms that ids_ok_put [of s d] caller_keys [OF effects_keep(5) [of d s], of X V "en_seconds env" hdrs]
    by (simp add: visited_by_def get_put_change effects_keep)
qed

lemma visited_by_unwinds:
  assumes g: "\<And>s. m (g s) = (fst (m s), g (snd (m s)))"
    and keep: "\<And>s. rchanges (snd (m s)) = rchanges s" "\<And>s. dkeys (snd (m s)) = dkeys s"
  shows "unwinds (visited_by X V hdrs env K c guest) g m"
  by (rule unwindsI) (simp_all add: g visited_by_keep(1) keep)

text \<open>A change that the caller may not see could as well not be there.\<close>

lemma load_visible_forget:
  assumes "get_change (ch_id c) s = Inr c" and "cannot_see c p"
  shows "load_visible_change j p (forget (ch_id c) s) = load_visible_change j p s"
  using assms by (cases "j = ch_id c") (simp_all add: load_visible_change_def get_forget cannot_see_def)

lemma all_visible_forget:
  assumes "get_change (ch_id c) s = Inr c" and "cannot_see c p"
  shows "all_visible p (forget (ch_id c) s) js = all_visible p s js"
proof (induction js)
  case (Cons j js)
  with assms show ?case by (cases "j = ch_id c") (simp_all add: get_forget cannot_see_def cong: sum.case_cong if_cong)
qed simp

lemma visible_changes_forget:
  assumes "get_change (ch_id c) s = Inr c" and "cannot_see c p"
  shows "visible_changes p (forget (ch_id c) s) = visible_changes p s"
proof -
  let ?i = "ch_id c" and ?see = "\<lambda>d. can_see (ch_visibility d) (ch_author d) (Some p)"
  let ?get = "\<lambda>s j. map_err api_of_store (get_change j s)"
  let ?shown = "\<lambda>cs. Inr (filter ?see cs)"
  have "filter P (filter Q (map fst (rchanges s))) = filter Q (filter P (map fst (rchanges s)))" for P Q
    by (simp add: conj_commute)
  then have ids: "list_changes (forget ?i s) = filter (\<lambda>j. j \<noteq> ?i) (list_changes s)"
    by (simp only: list_changes_def forget_fields AList.delete_keys removeAll_filter_not_eq filter_sort not_sym)
      (metis (mono_tags, lifting) filter_cong)
  have "and_then (traverse (?get (forget ?i s)) (filter (\<lambda>j. j \<noteq> ?i) js)) ?shown = and_then (traverse (?get s) js) ?shown" for js
  proof (induction js)
    case (Cons j js)
    show ?case
    proof (cases "j = ?i")
      case True
      with Cons assms show ?thesis by (simp add: cannot_see_def split: sum.splits)
    next
      case False
      with Cons show ?thesis
        by (cases "get_change j s"; cases "traverse (?get s) js";
            cases "traverse (?get (forget ?i s)) (filter (\<lambda>j. j \<noteq> ?i) js)") (simp_all add: get_forget)
    qed
  qed simp
  then show ?thesis by (simp only: visible_changes_def ids)
qed

lemma mutable_by:
  assumes "load_mutable_change j p s = Inr d"
  shows "get_change j s = Inr d" "ch_author d = p" "can_see (ch_visibility d) (ch_author d) (Some p)"
  using assms by (auto simp: load_mutable_change_def load_visible_change_def can_mutate_def and_then_Inr_iff split: if_splits)

interpretation hidden: blind_spot X V hdrs env "visited_by X V hdrs env K c (cannot_see c)" "forget (ch_id c)"
    "cannot_see c" "\<lambda>j. j = ch_id c" for X V hdrs env K c
proof unfold_locales
  fix s :: "'b daemon_scheme" and p j js d
  assume H: "visited_by X V hdrs env K c (cannot_see c) s"
  note h = H [unfolded visited_by_def]
  show "caller_from X V (en_seconds env) hdrs (forget (ch_id c) s) = caller_from X V (en_seconds env) hdrs s"
    by (rule caller_keys) simp
  show "cannot_see c p" if "caller_from X V (en_seconds env) hdrs s = Inr p" using h that by blast
  show "en_cid env \<noteq> ch_id c" using h by blast
  show "ch_id d = j" if "get_change j s = Inr d" using h that by (auto simp: ids_ok_def)
  show "get_change j (forget (ch_id c) s) = get_change j s" if "j \<noteq> ch_id c" using that by (simp add: get_forget)
  assume p: "cannot_see c p"
  show "load_visible_change j p (forget (ch_id c) s) = load_visible_change j p s"
    "visible_changes p (forget (ch_id c) s) = visible_changes p s"
    "all_visible p (forget (ch_id c) s) js = all_visible p s js"
    using h p by (simp_all add: load_visible_forget visible_changes_forget all_visible_forget)
  show "j \<noteq> ch_id c" if "load_mutable_change j p s = Inr d"
    using mutable_by [OF that] h p by (auto simp: cannot_see_def)
next
  show "ofiles (forget (ch_id c) s) = ofiles s" for s :: "'b daemon_scheme" by simp
  show "log_list X (forget (ch_id c) s) = log_list X s" for s :: "'b daemon_scheme" by (rule list_forget)
  show "unwinds (visited_by X V hdrs env K c (cannot_see c)) (forget (ch_id c)) (obj_put X raw)" for raw
    by (rule visited_by_unwinds) (simp_all add: obj_put_forget effects_keep)
  show "unwinds (visited_by X V hdrs env K c (cannot_see c)) (forget (ch_id c)) (log_append X now q)" for now q
    by (rule visited_by_unwinds) (simp_all add: append_forget effects_keep)
  show "unwinds (visited_by X V hdrs env K c (cannot_see c)) (forget (ch_id c)) (put_change d)" if "ch_id d \<noteq> ch_id c" for d
    using that by (intro unwindsI) (simp_all add: put_forget visited_by_keep(2))
qed

interpretation others: blind_spot X V hdrs env "visited_by X V hdrs env K c (not_author c)" "\<lambda>s. s"
    "not_author c" "\<lambda>j. j = ch_id c" for X V hdrs env K c
proof unfold_locales
  fix s :: "'b daemon_scheme" and p j d
  assume H: "visited_by X V hdrs env K c (not_author c) s"
  note h = H [unfolded visited_by_def]
  show "not_author c p" if "caller_from X V (en_seconds env) hdrs s = Inr p" using h that by blast
  show "en_cid env \<noteq> ch_id c" using h by blast
  show "ch_id d = j" if "get_change j s = Inr d" using h that by (auto simp: ids_ok_def)
  show "j \<noteq> ch_id c" if "not_author c p" "load_mutable_change j p s = Inr d"
    using mutable_by [OF that(2)] h that(1) by (auto simp: not_author_def)
next
  show "unwinds (visited_by X V hdrs env K c (not_author c)) (\<lambda>s. s) (obj_put X raw)" for raw
    by (rule visited_by_unwinds) (simp_all add: effects_keep)
  show "unwinds (visited_by X V hdrs env K c (not_author c)) (\<lambda>s. s) (log_append X now q)" for now q
    by (rule visited_by_unwinds) (simp_all add: effects_keep)
  show "unwinds (visited_by X V hdrs env K c (not_author c)) (\<lambda>s. s) (put_change d)" if "ch_id d \<noteq> ch_id c" for d
    using that by (intro unwindsI) (simp_all add: visited_by_keep(2))
qed simp_all

section \<open>Sequences of requests\<close>

text \<open>A request of a guest that stays within the changes.\<close>

definition request_of ::
  "'x ext_scheme \<Rightarrow> vault \<Rightarrow> change \<Rightarrow> (principal_id \<Rightarrow> bool) \<Rightarrow> 'r daemon_scheme \<Rightarrow> event \<Rightarrow> bool" where
  "request_of X V c guest s e \<longleftrightarrow>
     \<not> crosses_changes (ev_req e) \<and> en_cid (ev_env e) \<noteq> ch_id c \<and>
     (case caller_from X V (en_seconds (ev_env e)) (ev_hdrs e) s of Inr p \<Rightarrow> guest p | Inl _ \<Rightarrow> True)"

definition serves_blindly ::
  "'x ext_scheme \<Rightarrow> tools \<Rightarrow> vault \<Rightarrow> change \<Rightarrow> (principal_id \<Rightarrow> bool) \<Rightarrow> ('r daemon_scheme \<Rightarrow> 'r daemon_scheme) \<Rightarrow> bool" where
  "serves_blindly X T V c guest g \<longleftrightarrow>
     (\<forall>env hdrs req K. \<not> crosses_changes req \<longrightarrow> unwinds (visited_by X V hdrs env K c guest) g (serve X T V env hdrs req))"

lemma serves_blindly: "serves_blindly X T V c (cannot_see c) (forget (ch_id c))" "serves_blindly X T V c (not_author c) (\<lambda>s. s)"
  by (simp_all add: serves_blindly_def hidden.serve_unwinds others.serve_unwinds)

lemma serve_all_blindly:
  assumes "serves_blindly X T V c guest g" and "ids_ok s" and "get_change (ch_id c) s = Inr c"
    and "\<forall>e \<in> set es. request_of X V c guest s e"
  shows "serve_all X T V es (g s) = (fst (serve_all X T V es s), g (snd (serve_all X T V es s)))
    \<and> get_change (ch_id c) (snd (serve_all X T V es s)) = Inr c \<and> ids_ok (snd (serve_all X T V es s))"
  using assms(2-4)
proof (induction es arbitrary: s)
  case (Cons e es)
  let ?H = "visited_by X V (ev_hdrs e) (ev_env e) (dkeys s) c guest"
  obtain r t where st: "serve X T V (ev_env e) (ev_hdrs e) (ev_req e) s = (r, t)" by fastforce
  have "\<not> crosses_changes (ev_req e)" "?H s"
    using Cons.prems by (auto simp: request_of_def visited_by_def split: sum.splits)
  then have "unwinds ?H g (serve X T V (ev_env e) (ev_hdrs e) (ev_req e))" using assms(1) by (simp add: serves_blindly_def)
  note next_state = unwindsD [where m = "serve X T V (ev_env e) (ev_hdrs e) (ev_req e)", OF this \<open>?H s\<close> st]
  then have "ids_ok t" "get_change (ch_id c) t = Inr c" "dkeys t = dkeys s" by (simp_all add: visited_by_def)
  moreover have "\<forall>e \<in> set es. request_of X V c guest t e"
    using Cons.prems(3) caller_keys [OF \<open>dkeys t = dkeys s\<close>, where X = X] by (simp add: request_of_def)
  ultimately have "serve_all X T V es (g t) = (fst (serve_all X T V es t), g (snd (serve_all X T V es t)))
      \<and> get_change (ch_id c) (snd (serve_all X T V es t)) = Inr c \<and> ids_ok (snd (serve_all X T V es t))"
    using Cons.IH by blast
  with st next_state show ?case by (simp add: split_beta Let_def)
qed simp

end
