(* ===== verification/Moves.thy ===== *)
theory Moves
  imports Outsiders Worktree_Theorems
begin

text \<open>
  What the daemon's writes do: each moves one change, by one put and one record in the log, after
  a phase that touches nothing but objects. The changes as a map follow an abstract machine that
  knows nothing of objects, logs and files.
\<close>

section \<open>The phase before the move\<close>

definition only_objects :: "'r daemon_scheme \<Rightarrow> 'r daemon_scheme \<Rightarrow> bool" where
  "only_objects s t \<longleftrightarrow> objects_only s t \<and> dkeys t = dkeys s"

interpretation only: object_frame only_objects X for X
  by unfold_locales
    (auto intro!: reflpI transpI keepsI simp: only_objects_def objects_only_def obj_put_def Let_def)

lemma only_objects_repo_put: "keeps only_objects (repo_put X enc)"
  unfolding repo_put_def by (intro only.steps only.put)

lemma only_objectsD:
  assumes "only_objects s t"
  shows "rchanges t = rchanges s" "dkeys t = dkeys s" "get_change i t = get_change i s" "refs_view t = refs_view s"
    "caller_from X V now hdrs t = caller_from X V now hdrs s" "log_ok X s ops \<Longrightarrow> log_ok X t ops"
proof -
  have o: "objects_only s t" "dkeys t = dkeys s" using assms by (simp_all add: only_objects_def)
  show "rchanges t = rchanges s" "dkeys t = dkeys s" using o by (simp_all add: objects_only_def)
  show "get_change i t = get_change i s" by (rule objects_only_change [OF o(1)])
  show "refs_view t = refs_view s" by (rule objects_only_refs [OF o(1)])
  show "caller_from X V now hdrs t = caller_from X V now hdrs s" by (rule caller_keys [OF o(2)])
  show "log_ok X s ops \<Longrightarrow> log_ok X t ops" by (rule objects_only_log [OF o(1)])
qed

section \<open>One move\<close>

text \<open>A snapshot taken without a workspace: nothing happens, or the change advances to a new snapshot
  of the given tree, and the record in the log holds the change as it was.\<close>

lemma snap_direct:
  assumes "store_ok X s" and "log_ok X s ops" and "length ops + 1 < 2 ^ 63"
    and c: "get_change i s = Inr c" "ch_id c = i"
    and run: "snap_change_directly X t1 t2 i tree_h opts s = (Inr out, t)"
  shows "(\<exists>prev. out = Unchanged c \<and> t = s \<and> load_snapshot X (ch_current c) s = Inr prev \<and> sn_tree prev = tree_h)
    \<or> (\<exists>h q. out = Snapped h tree_h (advance c h) False \<and> store_ok X t \<and> store_grows s t
        \<and> (\<forall>f. store_grows t f \<longrightarrow> collision_free X f \<longrightarrow>
             load_snapshot X h f = Inr (new_snapshot opts t1 [ch_current c] tree_h))
        \<and> refs_view t = view_update [RChange i (Some (advance c h))] (refs_view s)
        \<and> log_ok X t (ops @ [q]) \<and> \<not> is_undo q \<and> op_before q = [RChange i (Some c)])"
proof -
  obtain prev where prev: "load_snapshot X (ch_current c) s = Inr prev"
    using run c(1) by (auto simp: snap_change_directly_def eff_iffs and_then_Inr_iff)
  obtain h u where u: "store_snapshot X (new_snapshot opts t1 [ch_current c] tree_h) s = (Inr h, u)"
      "store_ok X u" "store_grows s u"
      "\<forall>f. store_grows u f \<longrightarrow> collision_free X f \<longrightarrow> load_snapshot X h f = Inr (new_snapshot opts t1 [ch_current c] tree_h)"
    using store_snapshot_at [OF assms(1)] by blast
  show ?thesis
  proof (cases "sn_tree prev = tree_h \<and> so_message opts = None \<and> \<not> so_force opts")
    case True
    then show ?thesis using run c(1) prev by (auto simp: snap_change_directly_def eff_simps)
  next
    case False
    have oo: "objects_only s u" using u(1) keepsD [OF objs.store_any] by (simp add: store_snapshot_def)
    define w where "w = snd (put_change (advance c h) u)"
    have w: "ofiles w = ofiles u" "owritten w = owritten u" "rlog w = rlog u" "slog w = slog u"
      by (simp_all add: w_def refs_only_steps)
    have vw: "refs_view w = view_update [RChange i (Some (advance c h))] (refs_view s)"
      using c(2) by (simp add: w_def put_change_view objects_only_refs [OF oo])
    have lw: "log_ok X w ops" using log_ok_same [of w u X ops] objects_only_log [OF oo assms(2)] w by simp
    define p where "p = \<lparr>oip_actor = so_author opts, oip_kind = OkSnap h (so_message opts),
        oip_before = [RChange i (Some c)], oip_after = [RChange i (Some (advance c h))]\<rparr>"
    have eq: "(Inr out, t) = (case log_append X t2 p w of (Inl e, t) \<Rightarrow> (Inl (FStore e), t)
         | (Inr q, t) \<Rightarrow> (Inr (Snapped h tree_h (advance c h) False), t))"
      using run c(1) prev False u(1)
      by (auto simp: snap_change_directly_def eff_simps Let_def put_change_def w_def p_def split: prod.splits sum.splits)
    from logged [OF store_okD(2) [OF assms(1)] lw assms(3), of t2 p] show ?thesis
    proof
      assume "\<exists>q t. log_append X t2 p w = (Inr q, t) \<and> log_ok X t (ops @ [q]) \<and> same_refs w t
        \<and> op_kind_of q = oip_kind p \<and> op_before q = oip_before p"
      then obtain q t' where a: "log_append X t2 p w = (Inr q, t')" "log_ok X t' (ops @ [q])" "same_refs w t'"
          "op_kind_of q = oip_kind p" "op_before q = oip_before p" by blast
      have t': "t' = t" "out = Snapped h tree_h (advance c h) False" using eq a(1) by simp_all
      have of_eq: "ofiles t = ofiles u" "owritten t = owritten u" using a(3) w by (simp_all add: same_refs_def t')
      have "\<not> is_undo q" "op_before q = [RChange i (Some c)]" using a(4,5) by (simp_all add: p_def is_undo_def)
      then show ?thesis
        using u vw a(2) refs_view_same [OF a(3)] t'
        by (intro disjI2 exI [of _ h] exI [of _ q])
          (simp add: store_ok_same [OF of_eq] store_grows_same [OF of_eq] store_grows_from [OF of_eq])
    qed (use eq in simp)
  qed
qed

lemma view_change: "refs_view t (KyChange i) = Inr (RChange i (Some c)) \<longleftrightarrow> get_change i t = Inr c"
  by (cases "get_change i t") (auto simp: refs_view_simps split: store_error.splits)

definition same_keys :: "'r daemon_scheme \<Rightarrow> 'r daemon_scheme \<Rightarrow> bool" where
  "same_keys s t \<longleftrightarrow> dkeys t = dkeys s"

lemma same_keys_order: "reflp same_keys" "transp same_keys"
  by (auto intro!: reflpI transpI simp: same_keys_def)

lemma keeps_keys:
  "keeps same_keys (store_raw X enc)" "keeps same_keys (put_change c)" "keeps same_keys (log_append X now q)"
proof -
  show "keeps same_keys (store_raw X enc)"
    using only.store_any by (auto simp: keeps_def same_keys_def only_objects_def)
  show "keeps same_keys (put_change c)" "keeps same_keys (log_append X now q)"
    by (simp_all add: keeps_def same_keys_def effects_keep)
qed

lemma snap_direct_keys:
  assumes "snap_change_directly X t1 t2 i tree_h opts s = (r, t)"
  shows "dkeys t = dkeys s"
proof -
  have "keeps same_keys (snap_change_directly X t1 t2 i tree_h opts)"
    unfolding snap_change_directly_def store_snapshot_def Let_def
    by (auto intro!: keeps_pure [OF same_keys_order(1)] keeps_bindE [OF same_keys_order(2)] keeps_mapE keeps_keys)
  from keepsD [OF this assms] show ?thesis by (simp add: same_keys_def)
qed

lemma edit_steps:
  assumes "edit_and_snap X V env hdrs i edit s = (Inr view, t)"
  obtains p c sn root' u out where "i \<noteq> []" "caller_from X V (en_seconds env) hdrs s = Inr p"
    "load_mutable_change i p s = Inr c" "load_snapshot X (ch_current c) s = Inr sn" "edit (sn_tree sn) s = (Inr root', u)"
    "snap_change_directly X (en_t1 env) (en_t2 env) i root' (snap_options_default\<lparr>so_author := p, so_message := None\<rparr>) u
       = (Inr out, t)"
    "view = change_view_of X (outcome_change out)"
  using assms
  by (auto simp: edit_and_snap_def eff_iffs parse_change_id_def snapshot_at_hash_load split: if_splits)

text \<open>A write by PATCH or DELETE: the change is at a snapshot of the edited tree afterwards.\<close>

lemma edit_result:
  assumes ok: "store_ok X u" "log_ok X u ops" "length ops + 1 < 2 ^ 63"
    and c: "get_change i u = Inr c" "ch_id c = i"
    and run: "snap_change_directly X t1 t2 i root' opts u = (Inr out, t)"
    and free: "collision_free X t"
  obtains c' sn' where "get_change i t = Inr c'" "load_snapshot X (ch_current c') t = Inr sn'" "sn_tree sn' = root'"
    "ch_author c' = ch_author c" "ch_visibility c' = ch_visibility c" "store_grows u t" "store_ok X t"
proof -
  from snap_direct [OF ok c run] show thesis
  proof (elim disjE exE conjE)
    fix prev assume "t = u" "load_snapshot X (ch_current c) u = Inr prev" "sn_tree prev = root'"
    with that c ok(1) show thesis by simp
  next
    fix h q
    assume h: "store_ok X t" "store_grows u t" "refs_view t = view_update [RChange i (Some (advance c h))] (refs_view u)"
      "\<forall>f. store_grows t f \<longrightarrow> collision_free X f \<longrightarrow> load_snapshot X h f = Inr (new_snapshot opts t1 [ch_current c] root')"
    have "get_change i t = Inr (advance c h)" using h(3) by (simp flip: view_change)
    moreover have "load_snapshot X (ch_current (advance c h)) t = Inr (new_snapshot opts t1 [ch_current c] root')"
      using h(4) free by simp
    moreover have "sn_tree (new_snapshot opts t1 [ch_current c] root') = root'" by (simp add: new_snapshot_def)
    ultimately show thesis using that h(1,2) by simp
  qed
qed

section \<open>The changes as an abstract machine\<close>

text \<open>The changes as a map, and what one request of \<open>p\<close> may do to it; \<open>n\<close> is the fresh identifier.\<close>

definition change_map :: "'r daemon_scheme \<Rightarrow> change_id \<rightharpoonup> change" where
  "change_map s i = (case get_change i s of Inr c \<Rightarrow> Some c | Inl _ \<Rightarrow> None)"

inductive change_step ::
  "principal_id \<Rightarrow> change_id \<Rightarrow> (change_id \<rightharpoonup> change) \<Rightarrow> (change_id \<rightharpoonup> change) \<Rightarrow> bool" for p n where
  stay: "change_step p n m m"
| start: "change_step p n m (m(n \<mapsto> (change_new n d p h)\<lparr>ch_visibility := v, ch_state := st\<rparr>))"
| advance: "m i = Some c \<Longrightarrow> ch_author c = p \<Longrightarrow> change_step p n m (m(i \<mapsto> advance c h))"
| relabel: "m i = Some c \<Longrightarrow> ch_author c = p \<Longrightarrow>
    change_step p n m (m(i \<mapsto> c\<lparr>ch_state := st, ch_visibility := v\<rparr>))"

lemma change_map_same: "rchanges t = rchanges s \<Longrightarrow> change_map t = change_map s"
  by (rule ext) (simp add: change_map_def get_change_def)

lemma change_map_put: "change_map (snd (put_change c s)) = (change_map s)(ch_id c \<mapsto> c)"
  by (auto simp: change_map_def get_put_change)

lemma change_map_Some: "change_map s i = Some c \<longleftrightarrow> get_change i s = Inr c"
  by (simp add: change_map_def split: sum.splits)

definition same_changes :: "'r daemon_scheme \<Rightarrow> 'r daemon_scheme \<Rightarrow> bool" where
  "same_changes s t \<longleftrightarrow> rchanges t = rchanges s"

lemma same_changes_order: "reflp same_changes" "transp same_changes"
  by (auto intro!: reflpI transpI simp: same_changes_def)

lemmas calm = keeps_pure [OF same_changes_order(1)] keeps_bindE [OF same_changes_order(2)] keeps_mapE

lemma calm_only: "keeps only_objects m \<Longrightarrow> keeps same_changes m"
  by (auto intro!: keepsI simp: keeps_def same_changes_def dest: only_objectsD(1))

lemma calm_log: "keeps same_changes (log_append X now q)"
  by (simp add: keeps_def same_changes_def effects_keep)

lemmas calm_effects = only.store_any [THEN calm_only] only_objects_repo_put [THEN calm_only] only.edits [THEN calm_only] calm_log

lemma calm_map: "keeps same_changes m \<Longrightarrow> change_map (snd (m s)) = change_map s"
  by (rule change_map_same) (simp add: keeps_def same_changes_def)

text \<open>\<open>after m s Q\<close>: the changes satisfy \<open>Q\<close> when \<open>m\<close> has run from \<open>s\<close>, also when it failed.\<close>

definition after :: "('r daemon_scheme, 'e, 'a) eff \<Rightarrow> 'r daemon_scheme \<Rightarrow> ((change_id \<rightharpoonup> change) \<Rightarrow> bool) \<Rightarrow> bool" where
  "after m s Q \<longleftrightarrow> Q (change_map (snd (m s)))"

lemma after_calm: "keeps same_changes m \<Longrightarrow> Q (change_map s) \<Longrightarrow> after m s Q"
  by (simp add: after_def calm_map)

lemma after_calm_bind:
  assumes "keeps same_changes m" and "Q (change_map s)"
    and "\<And>a u. change_map u = change_map s \<Longrightarrow> after (k a) u Q"
  shows "after (bindE m k) s Q"
proof -
  obtain r u where m: "m s = (r, u)" by fastforce
  then have "change_map u = change_map s" using calm_map [OF assms(1), of s] by simp
  then show ?thesis using m assms(2) assms(3) [of u] by (auto simp: after_def bindE_def split: sum.split)
qed

lemma after_read_bind:
  "Q (change_map s) \<Longrightarrow> (\<And>a. f s = Inr a \<Longrightarrow> after (k a) s Q) \<Longrightarrow> after (bindE (readE f) k) s Q"
  by (simp add: after_def bindE_def readE_def split: sum.split)

lemma after_lift_bind:
  "Q (change_map s) \<Longrightarrow> (\<And>a. f = Inr a \<Longrightarrow> after (k a) s Q) \<Longrightarrow> after (bindE (liftE f) k) s Q"
  by (simp add: after_def bindE_def liftE_def split: sum.split)

lemma after_put:
  assumes "Q ((change_map s)(ch_id c \<mapsto> c))" and "\<And>a. keeps same_changes (k a)"
  shows "after (bindE (mapE E (put_change c)) k) s Q"
proof -
  have "bindE (mapE E (put_change c)) k s = k () (snd (put_change c s))"
    by (simp add: bindE_def mapE_def put_change_def)
  then show ?thesis using assms by (simp add: after_def calm_map change_map_put)
qed

lemma after_then_calm:
  assumes "after m s Q" and "\<And>a. keeps same_changes (k a)"
  shows "after (bindE m k) s Q"
proof -
  have "change_map (snd (k a u)) = change_map u" for a u by (rule calm_map [OF assms(2)])
  moreover obtain r u where "m s = (r, u)" by fastforce
  ultimately show ?thesis using assms(1) by (simp add: after_def bindE_def split: sum.split)
qed

lemma after_mapE: "after (mapE f m) s Q = after m s Q"
  by (simp add: after_def mapE_def)

lemma after_snap_direct:
  assumes "Q (change_map s)" and "\<And>c h. change_map s i = Some c \<Longrightarrow> Q ((change_map s)(ch_id c \<mapsto> advance c h))"
  shows "after (snap_change_directly X t1 t2 i tree_h opts) s Q"
  unfolding snap_change_directly_def Let_def
proof (intro after_read_bind)
  fix c prev assume c: "map_err FStore (get_change i s) = Inr c"
  have put: "after (bindE (mapE FStore (put_change (advance c h))) k) u Q"
    if "change_map u = change_map s" "\<And>a. keeps same_changes (k a)" for h u and k :: "unit \<Rightarrow> ('a daemon_scheme, fs_error, snap_outcome) eff"
    using that c by (intro after_put) (auto simp: change_map_Some assms(2))
  show "after (if sn_tree prev = tree_h \<and> so_message opts = None \<and> \<not> so_force opts then retE (Unchanged c)
      else bindE (store_snapshot X (new_snapshot opts t1 [ch_current c] tree_h)) (\<lambda>h.
        bindE (mapE FStore (put_change (advance c h))) (\<lambda>_.
          bindE (mapE FStore (log_append X t2
            \<lparr>oip_actor = so_author opts, oip_kind = OkSnap h (so_message opts),
             oip_before = [RChange i (Some c)], oip_after = [RChange i (Some (advance c h))]\<rparr>)) (\<lambda>_.
            retE (Snapped h tree_h (advance c h) False))))) s Q"
  proof (cases "sn_tree prev = tree_h \<and> so_message opts = None \<and> \<not> so_force opts")
    case True
    then show ?thesis by (simp add: after_calm [OF calm(1)] assms(1))
  next
    case False
    show ?thesis unfolding if_not_P [OF False] store_snapshot_def
      by (intro after_calm_bind calm_effects put calm assms(1))
  qed
qed (rule assms(1))+

section \<open>Every request is a step of the machine\<close>

lemma calm_readers:
  "keeps same_changes (handle_list_changes X V env hdrs)" "keeps same_changes (handle_get_change X V env hdrs i)"
  "keeps same_changes (handle_get_tree_root X V env hdrs i)" "keeps same_changes (handle_get_tree_path X V env hdrs i path)"
  "keeps same_changes (handle_get_snapshot X V env hdrs i)" "keeps same_changes (handle_list_oplog X V env hdrs limit)"
  "keeps same_changes (handle_diff_change X T V env hdrs i q)" "keeps same_changes (handle_blame_path X T V env hdrs i path a)"
  "keeps same_changes (handle_grep_change X T V env hdrs i gq)"
proof -
  have "keeps same_changes (diff_from_tree X q sn)" for q sn
    by (auto simp: diff_from_tree_def intro!: calm calm_effects split: option.split list.split)
  then show "keeps same_changes (handle_diff_change X T V env hdrs i q)"
    unfolding handle_diff_change_def by (auto intro!: calm)
qed (unfold handle_list_changes_def handle_get_change_def handle_get_tree_root_def handle_get_tree_path_def
    handle_get_snapshot_def handle_list_oplog_def handle_blame_path_def handle_grep_change_def, auto intro!: calm)

definition allowed ::
  "'x ext_scheme \<Rightarrow> vault \<Rightarrow> environment \<Rightarrow> headers \<Rightarrow> 'r daemon_scheme \<Rightarrow> (change_id \<rightharpoonup> change) \<Rightarrow> bool" where
  "allowed X V env hdrs s m \<longleftrightarrow>
     m = change_map s \<or> (\<exists>p. caller_from X V (en_seconds env) hdrs s = Inr p \<and> change_step p (en_cid env) (change_map s) m)"

lemma allowed_stay: "allowed X V env hdrs s (change_map s)"
  by (simp add: allowed_def)

lemma after_caller:
  "(\<And>p. caller_from X V (en_seconds env) hdrs s = Inr p \<Longrightarrow> after (k p) s (allowed X V env hdrs s)) \<Longrightarrow>
   after (bindE (readE (caller_from X V (en_seconds env) hdrs)) k) s (allowed X V env hdrs s)"
  by (rule after_read_bind [where Q = "allowed X V env hdrs s"]) (auto simp: allowed_stay)

lemma after_mutable:
  assumes "ids_ok s" and "\<And>c. change_map s i = Some c \<Longrightarrow> ch_author c = p \<Longrightarrow> ch_id c = i \<Longrightarrow> after (k c) s (allowed X V env hdrs s)"
  shows "after (bindE (readE (load_mutable_change i p)) k) s (allowed X V env hdrs s)"
proof (rule after_read_bind [where Q = "allowed X V env hdrs s"], rule allowed_stay)
  fix c assume "load_mutable_change i p s = Inr c"
  from mutable_by [OF this] assms show "after (k c) s (allowed X V env hdrs s)" by (simp add: change_map_Some ids_ok_def)
qed

lemma after_direct:
  assumes "caller_from X V (en_seconds env) hdrs s = Inr p" and "change_map s i = Some c" and "ch_author c = p" and "ch_id c = i"
    and "change_map u = change_map s"
  shows "after (snap_change_directly X t1 t2 i tree_h opts) u (allowed X V env hdrs s)"
proof (rule after_snap_direct)
  show "allowed X V env hdrs s (change_map u)" by (simp add: assms(5) allowed_stay)
  show "allowed X V env hdrs s ((change_map u)(ch_id c' \<mapsto> advance c' h))" if "change_map u i = Some c'" for c' h
    using that assms change_step.advance [of "change_map s" i c p "en_cid env" h] by (auto simp: allowed_def)
qed

lemma after_edit:
  assumes "ids_ok s" and "\<And>h. keeps same_changes (edit h)"
  shows "after (edit_and_snap X V env hdrs i edit) s (allowed X V env hdrs s)"
  unfolding edit_and_snap_def
proof (intro after_lift_bind after_caller after_mutable after_read_bind allowed_stay assms(1), goal_cases)
  case (1 j p c sn)
  show ?case
  proof (rule after_calm_bind [OF calm(6) [OF assms(2)], where Q = "allowed X V env hdrs s"], rule allowed_stay)
    fix h u assume "change_map u = change_map s"
    with 1 show "after (bindE (mapE api_of_fs (snap_change_directly X (en_t1 env) (en_t2 env) j h
        (snap_options_default\<lparr>so_author := p, so_message := None\<rparr>))) (\<lambda>outcome. retE (change_view_of X (outcome_change outcome))))
      u (allowed X V env hdrs s)"
      by (intro after_then_calm calm) (simp add: after_mapE after_direct)
  qed
qed

lemma after_snap: "ids_ok s \<Longrightarrow> after (handle_snap_change X V env hdrs i req) s (allowed X V env hdrs s)"
  unfolding handle_snap_change_def Let_def
proof (intro after_lift_bind after_caller after_mutable after_read_bind allowed_stay after_then_calm, goal_cases)
  case (2 j p c sn)
  then show ?case by (simp add: after_mapE after_direct)
qed (auto intro!: calm split: snap_outcome.split)

lemma after_transition: "ids_ok s \<Longrightarrow> after (handle_transition_change X T V env hdrs i req) s (allowed X V env hdrs s)"
  unfolding handle_transition_change_def Let_def
proof (intro after_lift_bind after_caller after_mutable after_put allowed_stay calm calm_log, goal_cases)
  case (2 j p c st v)
  then have "change_step p (en_cid env) (change_map s) ((change_map s)(j \<mapsto> c\<lparr>ch_state := st, ch_visibility := v\<rparr>))"
    by (intro change_step.relabel)
  with 2 show ?case by (auto simp: allowed_def)
qed

lemma after_create:
  fixes s :: "'r daemon_scheme"
  shows "after (handle_create_change X T V env hdrs req) s (allowed X V env hdrs s)"
proof -
  let ?Q = "allowed X V env hdrs s"
  have put: "after (bindE (liftE (parse_or parse_vis_label vd (cc_visibility req))) (\<lambda>v.
      bindE (liftE (parse_or (parse_change_state T) sd (cc_state req))) (\<lambda>st.
        bindE (mapE api_of_store (put_change ((change_new n d p h)\<lparr>ch_visibility := v, ch_state := st\<rparr>))) (k v st)))) u ?Q"
    if "change_map u = change_map s" "caller_from X V (en_seconds env) hdrs s = Inr p" "n = en_cid env"
      "\<And>v st a. keeps same_changes (k v st a)"
    for u :: "'r daemon_scheme" and p n d h vd sd and k :: "vis_label \<Rightarrow> change_state \<Rightarrow> unit \<Rightarrow> ('r daemon_scheme, api_error, change_view) eff"
  proof (intro after_lift_bind after_put that(4))
    have "change_step p n (change_map s) ((change_map s)(n \<mapsto> (change_new n d p h)\<lparr>ch_visibility := v, ch_state := st\<rparr>))" for v st
      by (rule change_step.start)
    then show "?Q ((change_map u)(ch_id ((change_new n d p h)\<lparr>ch_visibility := v, ch_state := st\<rparr>)
        \<mapsto> (change_new n d p h)\<lparr>ch_visibility := v, ch_state := st\<rparr>))" for v st
      using that(1-3) by (auto simp: allowed_def change_new_def)
  qed (simp_all add: that(1) allowed_stay)
  show ?thesis unfolding handle_create_change_def Let_def
  proof (rule after_caller, rule after_calm_bind [where Q = ?Q], goal_cases)
    case (3 p h u)
    then show ?case by (intro put calm calm_log) auto
  next
    case (2 p)
    show ?case by (rule allowed_stay)
  qed (auto intro!: calm calm_effects split: option.split)
qed

lemma after_answer: "after m s Q \<Longrightarrow> after (answer f m) s Q"
  unfolding answer_def by (intro after_then_calm calm)

lemma serve_step:
  "ids_ok s \<Longrightarrow> \<not> crosses_changes req \<Longrightarrow> after (serve X T V env hdrs req) s (allowed X V env hdrs s)"
proof -
  assume "ids_ok s" "\<not> crosses_changes req"
  then show ?thesis
    by (cases req)
      (auto simp: handle_patch_tree_path_def handle_delete_tree_path_def
        intro!: after_answer after_calm [where Q = "allowed X V env hdrs s"] calm_readers allowed_stay after_create
          after_transition after_snap after_edit calm_effects)
qed

end
