(* ===== verification/Demo_Vault.thy ===== *)
theory Demo_Vault
  imports Vis_Keys Demo
begin

text \<open>
  Concrete stand-ins for the cryptographic packages: they satisfy the laws that the theorems on
  seals and tokens assume, and protect nothing.
\<close>

definition demo_dh :: "b32 \<Rightarrow> b32 \<Rightarrow> b32" where
  "demo_dh a b = b32_of (map2 (+) (b32_bytes a) (b32_bytes b))"

definition demo_encrypt :: "b32 \<Rightarrow> bytes \<Rightarrow> bytes \<Rightarrow> bytes \<Rightarrow> bytes option" where
  "demo_encrypt k n a m = Some (b32_bytes k @ n @ a @ m)"

definition demo_decrypt :: "b32 \<Rightarrow> bytes \<Rightarrow> bytes \<Rightarrow> bytes \<Rightarrow> bytes option" where
  "demo_decrypt k n a c =
     (let p = b32_bytes k @ n @ a in if take (length p) c = p then Some (drop (length p) c) else None)"

definition demo_sign :: "b32 \<Rightarrow> bytes \<Rightarrow> bytes" where
  "demo_sign k m = b32_bytes k @ b32_bytes (demo_hash m)"

definition demo_claims_write :: "claims \<Rightarrow> bytes" where
  "demo_claims_write c =
     map (\<lambda>i. word_of_int (uint (cl_exp c) div 256 ^ i)) [0..<8] @ str_bytes (cl_sub c)"

definition demo_claims_read :: "bytes \<Rightarrow> claims option" where
  "demo_claims_read b =
     Some \<lparr>cl_sub = bytes_str (drop 8 b),
           cl_exp = word_of_int (\<Sum>i < 8. uint (b ! i) * 256 ^ i)\<rparr>"

definition demo_vault :: vault where
  "demo_vault =
     \<lparr>x_public = (\<lambda>k. k), x_dh = demo_dh, hkdf_expand = (\<lambda>k i. Some k), aead_encrypt = demo_encrypt,
      aead_decrypt = demo_decrypt, ed_public = (\<lambda>k. k), ed_sign = demo_sign,
      ed_verify = (\<lambda>k m s. s = demo_sign k m), b64_encode = to_hex_text, b64_decode = of_hex_text,
      claims_write = demo_claims_write, claims_read = demo_claims_read\<rparr>"

lemma demo_seal_laws: "seal_laws demo_vault"
proof -
  have "map2 (+) xs ys = map2 (+) ys xs" for xs ys :: bytes
    by (induction xs arbitrary: ys) (auto simp: zip_Cons1 add.commute split: list.split)
  then have "demo_dh a b = demo_dh b a" for a b by (simp add: demo_dh_def)
  then show ?thesis by (simp add: seal_laws_def demo_vault_def demo_encrypt_def demo_decrypt_def)
qed

lemma digits_256: "0 \<le> n \<Longrightarrow> n < 256 ^ k \<Longrightarrow> (\<Sum>i < k. n div 256 ^ i mod 256 * 256 ^ i) = (n :: int)"
proof (induction k arbitrary: n)
  case (Suc k)
  have "(\<Sum>i < Suc k. n div 256 ^ i mod 256 * 256 ^ i)
      = n mod 256 + 256 * (\<Sum>i < k. n div 256 div 256 ^ i mod 256 * 256 ^ i)"
    by (simp add: sum.lessThan_Suc_shift sum_distrib_left div_mult2_eq zdiv_zmult2_eq algebra_simps del: sum.lessThan_Suc)
  also have "(\<Sum>i < k. n div 256 div 256 ^ i mod 256 * 256 ^ i) = n div 256"
  proof (rule Suc.IH)
    have "n = 256 * (n div 256) + n mod 256" "0 \<le> n mod 256" "n < 256 * 256 ^ k" using Suc.prems by simp_all
    then show "n div 256 < 256 ^ k" by linarith
  qed (use Suc.prems in \<open>simp add: pos_imp_zdiv_nonneg_iff\<close>)
  finally show ?case by simp
qed simp

lemma demo_claims: "demo_claims_read (demo_claims_write c) = Some c" "demo_claims_write c \<noteq> []"
proof -
  let ?n = "uint (cl_exp c)"
  have "?n < 256 ^ 8" using uint_lt2p [of "cl_exp c"] by simp
  then have "(\<Sum>i < 8. ?n div 256 ^ i mod 256 * 256 ^ i) = ?n" by (intro digits_256) simp_all
  moreover have "uint ((demo_claims_write c) ! i) = ?n div 256 ^ i mod 256" if "i < 8" for i
    using that by (simp add: demo_claims_write_def nth_append uint_word_of_int)
  then have "(\<Sum>i < 8. uint ((demo_claims_write c) ! i) * 256 ^ i) = (\<Sum>i < 8. ?n div 256 ^ i mod 256 * 256 ^ i)"
    by (intro sum.cong) simp_all
  ultimately show "demo_claims_read (demo_claims_write c) = Some c" by (simp add: demo_claims_read_def demo_claims_write_def)
  show "demo_claims_write c \<noteq> []" by (simp add: demo_claims_write_def)
qed

lemma demo_token_laws: "token_laws demo_vault"
proof -
  have "CHR ''.'' \<notin> set (to_hex_text b)" "to_hex_text b = [] \<longleftrightarrow> b = []" "of_hex_text (to_hex_text b) = Some b" for b
    using hex_encode_chars [OF demo_hex, of "CHR ''.''" b] length_hex_encode [OF demo_hex, of b]
      hex_decode_encode [OF demo_hex, of b] by (auto simp: demo_def hex_digits_def)
  then show ?thesis by (simp add: token_laws_def demo_vault_def demo_sign_def demo_claims)
qed

end
