(* ===== verification/Vis_Seal.thy ===== *)
theory Vis_Seal
  imports Vis_Keys Text_Lines Materialize_Props
begin

text \<open>
  \<^verbatim>\<open>tig-vis/src/seal.rs\<close>: sealing bytes for several recipients, each of whom can unseal them with
  the secret half of their key, at the path they were sealed for and nowhere else. The random
  bytes (the ephemeral secret, the data key, the nonces) are arguments; a nonce is 24 bytes.
\<close>

definition hkdf_info :: bytes where
  "hkdf_info = str_bytes ''tig-seal:wrap:v1''"

definition derive_wrap_key :: "vault \<Rightarrow> b32 \<Rightarrow> vis_error + b32" where
  "derive_wrap_key V shared = ok_or (VCrypto HkdfFailed) (hkdf_expand V shared hkdf_info)"

text \<open>One recipient's wrap of the data key, bound to the path and the recipient's key.\<close>

definition wrap_for ::
  "vault \<Rightarrow> secret_key \<Rightarrow> b32 \<Rightarrow> bytes \<Rightarrow> public_key \<times> bytes \<Rightarrow> vis_error + recipient_wrap" where
  "wrap_for V eph data_key aad = (\<lambda>(rpk, nonce).
     and_then (derive_wrap_key V (secret_dh V eph rpk)) (\<lambda>wrap_key.
       and_then (ok_or (VCrypto WrapEncryption)
           (aead_encrypt V wrap_key nonce (aad @ b32_bytes (pk_bytes rpk)) (b32_bytes data_key)))
         (\<lambda>wrapped. Inr \<lparr>recipient_pk = b32_bytes (pk_bytes rpk), wrapped_key = wrapped, wrap_nonce = nonce\<rparr>)))"

definition seal ::
  "vault \<Rightarrow> b32 \<Rightarrow> b32 \<Rightarrow> bytes list \<Rightarrow> bytes \<Rightarrow> bytes \<Rightarrow> public_key list \<Rightarrow> bytes \<Rightarrow> vis_error + sealed" where
  "seal V eph_seed data_key wrap_nonces payload_nonce plaintext recipients aad =
     (if recipients = [] then Inl (VCrypto NoRecipients)
      else
        (let (eph_secret, eph_public) = keypair_generate V eph_seed in
         and_then (traverse (wrap_for V eph_secret data_key aad) (zip recipients wrap_nonces)) (\<lambda>wraps.
           and_then (ok_or (VCrypto PayloadEncryption) (aead_encrypt V data_key payload_nonce aad plaintext))
             (\<lambda>ciphertext. Inr
               \<lparr>sl_algo = X25519XChaCha20Poly1305, sl_ephemeral_pk = b32_bytes (pk_bytes eph_public),
                sl_recipients = wraps, sl_ciphertext = ciphertext, sl_nonce = payload_nonce, sl_aad = aad\<rparr>))))"

definition unseal :: "vault \<Rightarrow> sealed \<Rightarrow> secret_key \<Rightarrow> bytes \<Rightarrow> vis_error + bytes" where
  "unseal V sl my_secret aad =
     (if sl_algo sl \<noteq> X25519XChaCha20Poly1305 then Inl VUnsupportedAlgo
      else if length (sl_ephemeral_pk sl) \<noteq> 32 then Inl (VMalformedSealed ''ephemeral_pk must be 32 bytes'')
      else if length (sl_nonce sl) \<noteq> 24 then Inl (VMalformedSealed ''payload nonce must be 24 bytes'')
      else if sl_aad sl \<noteq> aad then Inl VAuthFailure
      else
        (let my_pub = b32_bytes (pk_bytes (secret_public V my_secret)) in
         and_then (ok_or VNotARecipient (recipient_for sl my_pub)) (\<lambda>wrap.
           if length (wrap_nonce wrap) \<noteq> 24 then Inl (VMalformedSealed ''wrap_nonce must be 24 bytes'')
           else and_then (derive_wrap_key V (secret_dh V my_secret (PublicKey (b32_of (sl_ephemeral_pk sl))))) (\<lambda>wrap_key.
             and_then (ok_or VAuthFailure
                 (aead_decrypt V wrap_key (wrap_nonce wrap) (aad @ my_pub) (wrapped_key wrap))) (\<lambda>data_key.
               if length data_key \<noteq> 32 then Inl (VMalformedSealed ''unwrapped data key has wrong length'')
               else ok_or VAuthFailure (aead_decrypt V (b32_of data_key) (sl_nonce sl) aad (sl_ciphertext sl)))))))"

lemma seal_lawsD:
  assumes "seal_laws V"
  shows "\<exists>k'. hkdf_expand V k i = Some k'"
    "\<exists>c. aead_encrypt V k n a m = Some c \<and> aead_decrypt V k n a c = Some m"
  using assms by (simp_all add: seal_laws_def)

lemma wrap_for_ok:
  assumes "seal_laws V"
  shows "\<exists>wrap_key c. hkdf_expand V (secret_dh V eph rpk) hkdf_info = Some wrap_key
    \<and> aead_encrypt V wrap_key nonce (aad @ b32_bytes (pk_bytes rpk)) (b32_bytes data_key) = Some c
    \<and> aead_decrypt V wrap_key nonce (aad @ b32_bytes (pk_bytes rpk)) c = Some (b32_bytes data_key)
    \<and> wrap_for V eph data_key aad (rpk, nonce)
        = Inr \<lparr>recipient_pk = b32_bytes (pk_bytes rpk), wrapped_key = c, wrap_nonce = nonce\<rparr>"
proof -
  obtain wk where wk: "hkdf_expand V (secret_dh V eph rpk) hkdf_info = Some wk"
    using seal_lawsD(1) [OF assms] by blast
  moreover obtain c where "aead_encrypt V wk nonce (aad @ b32_bytes (pk_bytes rpk)) (b32_bytes data_key) = Some c"
      "aead_decrypt V wk nonce (aad @ b32_bytes (pk_bytes rpk)) c = Some (b32_bytes data_key)"
    using seal_lawsD(2) [OF assms] by blast
  ultimately show ?thesis by (auto simp: wrap_for_def derive_wrap_key_def)
qed

text \<open>The first wrap for a key unwraps to the data key, whoever else the sealed value is for.\<close>

lemma find_wrap:
  assumes "seal_laws V" and "list_all2 (\<lambda>p w. wrap_for V eph data_key aad p = Inr w) ps ws"
    and "rpk \<in> set (map fst ps)" and "\<forall>p \<in> set ps. length (snd p) = 24"
  shows "\<exists>w wrap_key. List.find (\<lambda>r. recipient_pk r = b32_bytes (pk_bytes rpk)) ws = Some w
    \<and> length (wrap_nonce w) = 24 \<and> hkdf_expand V (secret_dh V eph rpk) hkdf_info = Some wrap_key
    \<and> aead_decrypt V wrap_key (wrap_nonce w) (aad @ b32_bytes (pk_bytes rpk)) (wrapped_key w) = Some (b32_bytes data_key)"
  using assms(2-4)
proof (induction rule: list_all2_induct)
  case (Cons p ps w ws)
  obtain q nonce where p: "p = (q, nonce)" by (cases p)
  note wr = wrap_for_ok [OF assms(1), of eph q nonce aad data_key]
  show ?case
  proof (cases "q = rpk")
    case True
    with wr Cons.hyps(1) Cons.prems(2) show ?thesis by (auto simp: p)
  next
    case False
    then have "b32_bytes (pk_bytes q) \<noteq> b32_bytes (pk_bytes rpk)"
      by (metis B32_b32_bytes public_key.expand)
    with wr Cons False show ?thesis by (auto simp: p)
  qed
qed simp

lemma seal_total:
  assumes "seal_laws V" and "recipients \<noteq> []"
  obtains sl where "seal V eph data_key nonces nonce plaintext recipients aad = Inr sl"
proof -
  have "\<exists>w. wrap_for V k data_key aad p = Inr w" for k p
    using wrap_for_ok [OF assms(1), of k "fst p" "snd p" aad data_key] by auto
  then have "\<exists>ws. traverse (wrap_for V k data_key aad) ps = Inr ws" for k ps
    using traverse_Inr_all [of ps "wrap_for V k data_key aad" "\<lambda>_ _. True"] by blast
  moreover obtain c where "aead_encrypt V data_key nonce aad plaintext = Some c"
    using seal_lawsD(2) [OF assms(1)] by blast
  ultimately show thesis using assms(2) that by (auto simp: seal_def Let_def split_beta) (metis and_then_simps(2))
qed

lemma unseal_sealed:
  assumes "seal_laws V" and "seal V eph data_key nonces nonce plaintext recipients aad = Inr sl"
    and "length nonces = length recipients" and "\<forall>n \<in> set nonces. length n = 24" and "length nonce = 24"
  shows "secret_public V k \<in> set recipients \<Longrightarrow> unseal V sl k aad = Inr plaintext"
    "aad' \<noteq> aad \<Longrightarrow> unseal V sl k aad' = Inl VAuthFailure"
    "secret_public V k \<notin> set recipients \<Longrightarrow> unseal V sl k aad = Inl VNotARecipient"
proof -
  let ?e = "SecretKey eph"
  obtain ws c where ws: "traverse (wrap_for V ?e data_key aad) (zip recipients nonces) = Inr ws"
      "aead_encrypt V data_key nonce aad plaintext = Some c"
      "sl = \<lparr>sl_algo = X25519XChaCha20Poly1305, sl_ephemeral_pk = b32_bytes (pk_bytes (secret_public V ?e)),
             sl_recipients = ws, sl_ciphertext = c, sl_nonce = nonce, sl_aad = aad\<rparr>"
    using assms(2) by (auto simp: seal_def keypair_generate_def Let_def and_then_Inr_iff split: if_splits)
  have all: "list_all2 (\<lambda>p w. wrap_for V ?e data_key aad p = Inr w) (zip recipients nonces) ws"
    using ws(1) by (simp add: traverse_Inr_iff)
  have dec: "aead_decrypt V data_key nonce aad c = Some plaintext"
    using assms(1) ws(2) by (metis option.inject seal_laws_def)
  show "aad' \<noteq> aad \<Longrightarrow> unseal V sl k aad' = Inl VAuthFailure"
    using assms(5) by (simp add: unseal_def ws(3))
  show "unseal V sl k aad = Inr plaintext" if k: "secret_public V k \<in> set recipients"
  proof -
    have "secret_public V k \<in> set (map fst (zip recipients nonces))" using k assms(3) by simp
    moreover have "\<forall>p \<in> set (zip recipients nonces). length (snd p) = 24" using assms(4) by (auto dest: set_zip_rightD)
    ultimately obtain w wk where w: "List.find (\<lambda>r. recipient_pk r = b32_bytes (pk_bytes (secret_public V k))) ws = Some w"
        "length (wrap_nonce w) = 24" "hkdf_expand V (secret_dh V ?e (secret_public V k)) hkdf_info = Some wk"
        "aead_decrypt V wk (wrap_nonce w) (aad @ b32_bytes (pk_bytes (secret_public V k))) (wrapped_key w) = Some (b32_bytes data_key)"
      using find_wrap [OF assms(1) all] by blast
    have dh: "secret_dh V k (secret_public V ?e) = secret_dh V ?e (secret_public V k)"
      using assms(1) by (simp add: seal_laws_def secret_dh_def secret_public_def)
    show ?thesis using w dh dec assms(5)
      by (simp add: unseal_def ws(3) recipient_for_def derive_wrap_key_def Let_def)
  qed
  show "unseal V sl k aad = Inl VNotARecipient" if k: "secret_public V k \<notin> set recipients"
  proof -
    have "\<forall>w \<in> set ws. \<exists>p \<in> set (zip recipients nonces). recipient_pk w = b32_bytes (pk_bytes (fst p))"
    proof
      fix w assume "w \<in> set ws"
      then obtain p where "p \<in> set (zip recipients nonces)" "wrap_for V ?e data_key aad p = Inr w"
        using all by (metis (mono_tags, lifting) list_all2_in2)
      then show "\<exists>p \<in> set (zip recipients nonces). recipient_pk w = b32_bytes (pk_bytes (fst p))"
        by (auto simp: wrap_for_def and_then_Inr_iff split_beta)
    qed
    then have "recipient_pk w \<noteq> b32_bytes (pk_bytes (secret_public V k))" if "w \<in> set ws" for w
      using that k by (metis B32_b32_bytes in_set_zipE prod.collapse public_key.expand)
    then have "recipient_for sl (b32_bytes (pk_bytes (secret_public V k))) = None"
      by (auto simp: recipient_for_def ws(3) find_None_iff)
    then show ?thesis using assms(5) by (simp add: unseal_def ws(3) Let_def)
  qed
qed

end
