(* ===== verification/Daemon_Theorems.thy ===== *)
theory Daemon_Theorems
  imports Moves Demo_Vault Vis_Seal Query_Theorems
begin

text \<open>The properties of the daemon: who can see and move what, tokens, seals, the operation log.\<close>

section \<open>A concrete daemon\<close>

text \<open>A repository with one private draft of \<open>alice\<close>, and requests of \<open>bob\<close>.\<close>

definition demo_draft :: change where
  "demo_draft = new_private_draft ''c1'' ''draft'' ''alice'' (raw_hash demo (snapshot_raw new_snap))"

definition demo_daemon :: daemon where
  "demo_daemon = \<lparr>ofiles = ofiles (puts query_raws), owritten = query_raws, rchanges = [(''c1'', Json demo_draft)],
     rbookmarks = [], rhead = None, rworkspaces = [], rlog = Some [], slog = FileLog 0, dkeys = []\<rparr>"

definition demo_env :: environment where
  "demo_env = \<lparr>en_seconds = 5, en_t1 = 6, en_t2 = 7, en_cid = ''c2''\<rparr>"

definition named :: "string \<Rightarrow> headers" where
  "named n = \<lparr>hd_authorization = None, hd_principal = Some n\<rparr>"

definition asks :: "string \<Rightarrow> request \<Rightarrow> event" where
  "asks n req = \<lparr>ev_env = demo_env, ev_hdrs = named n, ev_req = req\<rparr>"

lemma demo_callers: "caller_from X V now (named ''alice'') s = Inr ''alice''" "caller_from X V now (named ''bob'') s = Inr ''bob''"
proof -
  have "header_str ''alice'' = Some ''alice''" "header_str ''bob'' = Some ''bob''" by code_simp+
  then show "caller_from X V now (named ''alice'') s = Inr ''alice''" "caller_from X V now (named ''bob'') s = Inr ''bob''"
    by (simp_all add: caller_from_def named_def)
qed

lemma demo_draft_fields [simp]:
  "ch_id demo_draft = ''c1''" "ch_author demo_draft = ''alice''" "ch_visibility demo_draft = VPrivate"
  by (simp_all add: demo_draft_def new_private_draft_def change_new_def)

lemma demo_daemon_ok: "ids_ok demo_daemon" "get_change (ch_id demo_draft) demo_daemon = Inr demo_draft"
  by (simp_all add: ids_ok_def get_change_def demo_daemon_def)

definition bobs_requests :: "event list" where
  "bobs_requests = [asks ''bob'' ReqListChanges, asks ''bob'' (ReqGetChange ''c1''),
     asks ''bob'' (ReqPatchTreePath ''c1'' ''f'' [0]), asks ''bob'' (ReqListOplog None)]"

lemma bob_outside:
  "\<forall>e \<in> set bobs_requests. request_of demo demo_vault demo_draft (cannot_see demo_draft) demo_daemon e"
  "\<forall>e \<in> set bobs_requests. request_of demo demo_vault demo_draft (not_author demo_draft) demo_daemon e"
  by (simp_all add: bobs_requests_def asks_def request_of_def demo_callers demo_env_def cannot_see_def not_author_def)

section \<open>Hidden changes\<close>

text \<open>C1. The record of a change is unobservable to those who cannot see it: as long as no request
  resolves to a caller who may see it, and none is an undo or a garbage collection, every answer,
  error or not, is the one the daemon would give if the record of the change were absent. That
  covers listings, reads by identifier, path and snapshot hash, diffs, blame, search, the operation
  log and writes, alone and in sequence. Absent is less than never created: the objects and the
  log entries of the change are there in both worlds. Undo is left out because it takes back, and
  names, the last operation whosoever it was; collection because its counts depend on every
  change.\<close>

theorem hidden_change_unobservable:
  assumes "ids_ok s" and "get_change (ch_id c) s = Inr c"
    and "\<forall>e \<in> set es. request_of X V c (cannot_see c) s e"
  shows "fst (serve_all X T V es s) = fst (serve_all X T V es (forget (ch_id c) s))"
  using serve_all_blindly [OF serves_blindly(1) assms] by (simp add: split_beta)

theorem hidden_change_unobservable_witness:
  "fst (serve_all demo demo_tools demo_vault bobs_requests demo_daemon)
     = fst (serve_all demo demo_tools demo_vault bobs_requests (forget ''c1'' demo_daemon))
   \<and> get_change ''c1'' demo_daemon \<noteq> get_change ''c1'' (forget ''c1'' demo_daemon)"
  using hidden_change_unobservable [OF demo_daemon_ok bob_outside(1), of demo_tools] demo_daemon_ok(2)
  by (simp add: get_forget)

text \<open>C7. But for undo and garbage collection, only its author moves a change: through any sequence of
  requests none of which resolves to the author and none of which is an undo or a collection, the
  change stays exactly as it is, whether the callers can see it or not. An undo, by anybody, does
  move it.\<close>

theorem only_author_moves:
  assumes "ids_ok s" and "get_change (ch_id c) s = Inr c"
    and "\<forall>e \<in> set es. request_of X V c (not_author c) s e"
  shows "get_change (ch_id c) (snd (serve_all X T V es s)) = Inr c"
  using serve_all_blindly [OF serves_blindly(2) assms] by blast

theorem only_author_moves_witness:
  "get_change ''c1'' (snd (serve_all demo demo_tools demo_vault bobs_requests demo_daemon)) = Inr demo_draft"
  using only_author_moves [OF demo_daemon_ok bob_outside(2), of demo_tools] by simp

section \<open>Authentication\<close>

lemma verify_token_peek:
  "verify_token V token k now = Inr c \<Longrightarrow> peek_claims V token = Inr c' \<Longrightarrow> c' = c \<and> \<not> is_expired c now"
  by (auto simp: verify_token_def peek_claims_def and_then_Inr_iff split: if_splits)

text \<open>C17. A request with a readable Authorization header, one of visible ASCII, is attributed to a
  principal only on the strength of a valid token: the principal is the subject of a token that has
  not expired and whose signature verifies under the signing key registered for that very subject.
  Such a request never falls back to the name in the other header; one whose Authorization header
  is not visible ASCII does, as if it had none.\<close>

theorem bearer_is_verified:
  assumes "Option.bind (hd_authorization hdrs) header_str = Some auth" and "caller_from X V now hdrs s = Inr p"
  shows "\<exists>token q k c. bearer_token auth = Some token \<and> principal_get p (dkeys s) = Inr q
    \<and> principal_sign_pubkey X q = Inr k \<and> verify_token V token k now = Inr c \<and> cl_sub c = p \<and> \<not> is_expired c now"
proof -
  obtain token c q k c' where t: "bearer_token auth = Some token" "peek_claims V token = Inr c"
      "principal_get (cl_sub c) (dkeys s) = Inr q" "principal_sign_pubkey X q = Inr k" "verify_token V token k now = Inr c'"
      "p = cl_sub c'"
    using assms by (auto simp: caller_from_def and_then_Inr_iff split: option.splits)
  with verify_token_peek [OF t(5,2)] show ?thesis by blast
qed

lemma registered:
  assumes "hex_laws X" and "principal_put (new_local_full X i kind skp (k, sign_secret_public V k)) d = (Inr (), d')"
  shows "\<exists>q. principal_get i d' = Inr q \<and> principal_sign_pubkey X q = Inr (sign_secret_public V k)"
proof -
  let ?q = "new_local_full X i kind skp (k, sign_secret_public V k)"
  have "principal_get i d' = Inr ?q" using principal_put_get [OF assms(2), of i] by (simp add: new_local_full_def)
  moreover have "principal_sign_pubkey X ?q = Inr (sign_secret_public V k)"
    by (simp add: principal_sign_pubkey_def new_local_full_def sign_public_to_hex_def sign_public_from_hex_def key_hex [OF assms(1)])
  ultimately show ?thesis by blast
qed

lemma strip_bearer: "bearer_token (''Bearer '' @ t) = Some t"
  by (simp add: bearer_token_def strip_prefix_def starts_with_def)

lemma caller_token:
  assumes "Option.bind (hd_authorization hdrs) header_str = Some auth" and "bearer_token auth = Some token"
    and "peek_claims V token = Inr c" and "principal_get (cl_sub c) (dkeys s) = Inr q" and "principal_sign_pubkey X q = Inr k"
  shows "caller_from X V now hdrs s =
    (case verify_token V token k now of Inl e \<Rightarrow> Inl (ApiUnauthorized (TVis e)) | Inr c' \<Rightarrow> Inr (cl_sub c'))"
  using assms by (simp add: caller_from_def split: sum.splits)

definition demo_claims_5 :: claims where
  "demo_claims_5 = \<lparr>cl_sub = ''alice'', cl_exp = 5\<rparr>"

definition demo_key :: sign_secret_key where
  "demo_key = SignSecretKey (b32_of [])"

definition demo_bearer :: headers where
  "demo_bearer = \<lparr>hd_authorization = Some (''Bearer '' @ sign_token demo_vault demo_claims_5 demo_key), hd_principal = Some ''bob''\<rparr>"

definition demo_keys :: keys_dir where
  "demo_keys = snd (principal_put (new_local_full demo ''alice'' PkUser (SecretKey (b32_of []), PublicKey (b32_of []))
     (demo_key, sign_secret_public demo_vault demo_key)) [])"

lemma demo_keys_put:
  "principal_put (new_local_full demo (cl_sub demo_claims_5) PkUser (SecretKey (b32_of []), PublicKey (b32_of []))
     (demo_key, sign_secret_public demo_vault demo_key)) [] = (Inr (), dkeys (demo_daemon\<lparr>dkeys := demo_keys\<rparr>))"
  by (simp add: demo_keys_def demo_claims_5_def principal_put_def eff_simps new_local_full_def validate_id_def)

lemma demo_bearer_text:
  "Option.bind (hd_authorization demo_bearer) header_str = Some (''Bearer '' @ sign_token demo_vault demo_claims_5 demo_key)"
proof -
  have "list_all (in_range 32 126) hex_digits" by code_simp
  then have "list_all (in_range 32 126) (to_hex_text b)" for b
    using hex_encode_chars [OF demo_hex, of _ b] by (auto simp: list_all_iff demo_def)
  moreover have "list_all (in_range 32 126) ''Bearer .''" by code_simp
  ultimately have "list_all (in_range 32 126) (''Bearer '' @ sign_token demo_vault demo_claims_5 demo_key)"
    by (simp add: sign_token_def demo_vault_def Let_def)
  then have "list_all (\<lambda>c. c = CHR 0x09 \<or> in_range 32 126 c) (''Bearer '' @ sign_token demo_vault demo_claims_5 demo_key)"
    by (rule list.pred_mono_strong) simp
  then show ?thesis by (simp only: demo_bearer_def headers.simps bind.bind_lunit header_str_def if_True)
qed

lemma demo_claims_fresh: "\<not> is_expired demo_claims_5 4" "is_expired demo_claims_5 5"
  by (simp_all add: is_expired_def demo_claims_5_def)

lemma demo_bearer_caller: "caller_from demo demo_vault 4 demo_bearer (demo_daemon\<lparr>dkeys := demo_keys\<rparr>) = Inr ''alice''"
proof -
  note t = verify_signed [OF demo_token_laws, of demo_claims_5 demo_key]
  obtain q where q: "principal_get (cl_sub demo_claims_5) (dkeys (demo_daemon\<lparr>dkeys := demo_keys\<rparr>)) = Inr q"
      "principal_sign_pubkey demo q = Inr (sign_secret_public demo_vault demo_key)"
    using registered [OF demo_hex demo_keys_put] by blast
  show ?thesis unfolding caller_token [OF demo_bearer_text strip_bearer t(1) q] t(2)
    using demo_claims_fresh(1) by (simp add: demo_claims_5_def)
qed

theorem bearer_is_verified_witness:
  "\<exists>token c. bearer_token (''Bearer '' @ sign_token demo_vault demo_claims_5 demo_key) = Some token
     \<and> cl_sub c = ''alice'' \<and> \<not> is_expired c 4"
  using bearer_is_verified [OF demo_bearer_text demo_bearer_caller] by blast

text \<open>The check that is to keep unauthenticated callers from collecting garbage can be passed
  without any token: a request whose Authorization header has a byte outside visible ASCII, with
  no token in it, is served like an authenticated one, because the check only asks whether the
  header is there while the caller is resolved as if it were not.\<close>

theorem gc_needs_no_token:
  assumes "hd_authorization hdrs = Some v" and "header_str v = None"
    and "collect_garbage X \<lparr>gc_dry_run = gr_dry_run req, include_oplog_snapshots = \<not> gr_ignore_oplog req\<rparr> s = (Inr m, t)"
  shows "\<exists>view. handle_gc X V env hdrs (Some req) s = (Inr view, t) \<and> gw_removed view = gs_removed m"
  using assms by (simp add: handle_gc_def caller_from_def eff_simps)

theorem gc_needs_no_token_witness:
  "\<exists>view. fst (handle_gc demo demo_vault demo_env \<lparr>hd_authorization = Some [CHR 0xE9], hd_principal = None\<rparr>
      (Some \<lparr>gr_dry_run = False, gr_ignore_oplog = False\<rparr>) (demo_daemon\<lparr>ofiles := [], owritten := [], rchanges := []\<rparr>)) = Inr view"
proof -
  let ?s = "demo_daemon\<lparr>ofiles := [], owritten := [], rchanges := []\<rparr>"
  have h: "header_str [CHR 0xE9] = None" by code_simp
  have "gc_roots demo \<lparr>gc_dry_run = False, include_oplog_snapshots = True\<rparr> ?s = Inr []"
    by (simp add: gc_roots_def demo_daemon_def list_changes_def log_list_def read_all_def)
  then have "collect_garbage demo \<lparr>gc_dry_run = gr_dry_run \<lparr>gr_dry_run = False, gr_ignore_oplog = False\<rparr>,
      include_oplog_snapshots = \<not> gr_ignore_oplog \<lparr>gr_dry_run = False, gr_ignore_oplog = False\<rparr>\<rparr> ?s
     = (Inr \<lparr>gs_roots = 0, gs_kept = 0, gs_removed = 0, gs_bytes_freed = 0, gs_dry_run = False\<rparr>, ?s)"
    by (simp add: collect_garbage_def eff_simps gc_mark.simps iter_all_def gc_sweep_def gc_unmarked_def Let_def forE.simps)
  from gc_needs_no_token [OF _ h this, of "\<lparr>hd_authorization = Some [CHR 0xE9], hd_principal = None\<rparr>" demo_vault demo_env]
  show ?thesis by auto
qed

section \<open>Writing through the daemon\<close>

text \<open>The concrete daemon after \<open>alice\<close> has written other bytes into her draft's file.\<close>

definition demo_edit :: snapshot where
  "demo_edit = \<lparr>sn_parents = [raw_hash demo (snapshot_raw new_snap)], sn_tree = raw_hash demo (tree_raw (one_file mode_regular old_bytes)),
     sn_author = ''alice'', sn_timestamp_ns = 6, sn_message = None, sn_op_id = None\<rparr>"

definition demo_moved :: change where
  "demo_moved = advance demo_draft (raw_hash demo (snapshot_raw demo_edit))"

definition demo_edit_op :: op_in_progress where
  "demo_edit_op = \<lparr>oip_actor = ''alice'', oip_kind = OkSnap (raw_hash demo (snapshot_raw demo_edit)) None,
     oip_before = [RChange ''c1'' (Some demo_draft)], oip_after = [RChange ''c1'' (Some demo_moved)]\<rparr>"

definition demo_edited :: daemon where
  "demo_edited = put_raw (snapshot_raw demo_edit) (put_raw (tree_raw (one_file mode_regular old_bytes))
      (put_raw (blob_raw old_bytes) demo_daemon))
    \<lparr>rchanges := [(''c1'', Json demo_moved)],
     rlog := Some (frame_record (put_value (op_value (finalize 0 7 demo_edit_op)))), slog := FileLog 1\<rparr>"

lemma put_raw_daemon [simp]:
  fixes s :: "'r daemon_scheme"
  shows "rchanges (put_raw raw s) = rchanges s" "rlog (put_raw raw s) = rlog s" "slog (put_raw raw s) = slog s"
    "dkeys (put_raw raw s) = dkeys s" "put_raw raw (s\<lparr>rchanges := cs\<rparr>) = (put_raw raw s)\<lparr>rchanges := cs\<rparr>"
  by (simp_all add: put_raw_def obj_put_def Let_def)

lemma store_ok_fields: "ofiles t = ofiles s \<Longrightarrow> owritten t = owritten s \<Longrightarrow> store_ok X t \<longleftrightarrow> store_ok X s"
  for s :: "'a objects_dir_scheme" and t :: "'b objects_dir_scheme"
  by (simp add: store_ok_def objs_ok_def trees_ok_def)

lemma loads_fields:
  fixes s :: "'a objects_dir_scheme" and t :: "'b objects_dir_scheme"
  assumes "ofiles t = ofiles s"
  shows "load_tree X h t = load_tree X h s" "load_blob X h t = load_blob X h s" "load_snapshot X h t = load_snapshot X h s"
    "obj_get X h t = obj_get X h s"
  using assms by (simp_all add: load_tree_def load_blob_def load_snapshot_def obj_get_def)

lemma one_file_wf: "tree_wf (one_file m b)"
  by (simp add: tree_wf_def names_ok_def one_file_def entry_for_def validate_name_def)

lemma demo_daemon_store: "store_ok demo demo_daemon" "log_ok demo demo_daemon []"
proof -
  have "store_ok demo (puts query_raws)"
    by (rule puts_store_ok) (use one_file_wf in \<open>auto simp: query_raws_def\<close>)
  then show "store_ok demo demo_daemon" by (subst store_ok_fields [where s = "puts query_raws"]) (simp_all add: demo_daemon_def)
  show "log_ok demo demo_daemon []"
    by (simp add: log_ok_def log_list_def read_all_def numbered_def demo_daemon_def)
qed

lemma demo_daemon_loads:
  "load_snapshot demo (raw_hash demo (snapshot_raw new_snap)) demo_daemon = Inr new_snap"
  "load_tree demo (raw_hash demo (tree_raw (one_file mode_regular new_bytes))) demo_daemon = Inr (one_file mode_regular new_bytes)"
proof -
  have f: "ofiles demo_daemon = ofiles (puts query_raws)" by (simp add: demo_daemon_def)
  show "load_snapshot demo (raw_hash demo (snapshot_raw new_snap)) demo_daemon = Inr new_snap"
    "load_tree demo (raw_hash demo (tree_raw (one_file mode_regular new_bytes))) demo_daemon = Inr (one_file mode_regular new_bytes)"
    using query_loads by (simp_all add: loads_fields [OF f])
qed

lemma demo_edit_op_small: "length (put_value (op_value (finalize 0 7 demo_edit_op))) < 1000"
  by code_simp

lemma demo_edited_raws: "distinct (map (raw_hash demo) (remdups (owritten demo_edited)))"
proof -
  have "distinct (map (raw_hash demo) (remdups (query_raws @ [blob_raw old_bytes, tree_raw (one_file mode_regular old_bytes), snapshot_raw demo_edit])))"
    by code_simp
  then show ?thesis by (simp add: demo_edited_def demo_daemon_def)
qed

lemma put_raw_grows: "store_grows s (put_raw raw s)"
  by (simp add: put_raw_def obj_put_grows)

lemma demo_write_file:
  "write_blob_at_path demo (raw_hash demo (tree_raw (one_file mode_regular new_bytes))) ''f'' old_bytes demo_daemon
     = (Inr (raw_hash demo (tree_raw (one_file mode_regular old_bytes))),
        put_raw (tree_raw (one_file mode_regular old_bytes)) (put_raw (blob_raw old_bytes) demo_daemon))"
proof -
  have p: "split_path ''f'' = Inr [''f'']" by code_simp
  have i: "tree_insert (one_file mode_regular new_bytes) (entry_for ''f'' EFile mode_regular (raw_hash demo (blob_raw old_bytes)))
      = Inr (one_file mode_regular old_bytes)"
    by (simp add: tree_insert_def one_file_def entry_for_def validate_name_def binary_search_def bs_window.simps)
  show ?thesis using load_mono(1) [OF put_raw_grows demo_daemon_loads(2)] i
    by (simp add: write_blob_at_path_def eff_simps p store_demo entry_for_def)
qed

lemma demo_alice: "load_mutable_change ''c1'' ''alice'' demo_daemon = Inr demo_draft"
  using demo_daemon_ok(2) by (simp add: load_mutable_change_def load_visible_change_def can_mutate_def)

lemma demo_patch:
  "handle_patch_tree_path demo demo_vault demo_env (named ''alice'') ''c1'' ''f'' old_bytes demo_daemon
     = (Inr (change_view_of demo demo_moved), demo_edited)"
proof -
  let ?u = "put_raw (tree_raw (one_file mode_regular old_bytes)) (put_raw (blob_raw old_bytes) demo_daemon)"
  let ?new = "raw_hash demo (tree_raw (one_file mode_regular old_bytes))"
  have w: "cbor_write demo (op_value p) = Some (put_value (op_value p))" for p by (simp add: demo_def demo_write_def)
  have cur: "ch_current demo_draft = raw_hash demo (snapshot_raw new_snap)"
      "sn_tree new_snap = raw_hash demo (tree_raw (one_file mode_regular new_bytes))"
    by (simp_all add: demo_draft_def new_private_draft_def change_new_def new_snap_def snap_of_def)
  have ne: "raw_hash demo (tree_raw (one_file mode_regular new_bytes)) \<noteq> ?new" by code_simp
  have l: "load_snapshot demo (raw_hash demo (snapshot_raw new_snap)) ?u = Inr new_snap"
    using load_mono(3) [OF store_grows_trans [OF put_raw_grows put_raw_grows] demo_daemon_loads(1)] .
  have g: "get_change ''c1'' ?u = Inr demo_draft" using demo_daemon_ok(2) by (simp add: get_change_def)
  let ?opts = "snap_options_default\<lparr>so_author := ''alice'', so_message := None\<rparr>"
  have o: "so_message ?opts = None" "\<not> so_force ?opts" "so_author ?opts = ''alice''" by (simp_all add: snap_options_default_def)
  have sn: "new_snapshot ?opts 6 [ch_current demo_draft] ?new = demo_edit"
    by (simp add: new_snapshot_def demo_edit_def cur snap_options_default_def)
  have flds: "rchanges demo_daemon = [(''c1'', Json demo_draft)]" "rlog demo_daemon = Some []" "slog demo_daemon = FileLog 0"
    by (simp_all add: demo_daemon_def)
  have moved: "advance demo_draft (raw_hash demo (snapshot_raw demo_edit)) = demo_moved" "ch_id demo_moved = ''c1''"
    by (simp_all add: demo_moved_def)
  have opeq: "\<lparr>oip_actor = so_author ?opts, oip_kind = OkSnap (raw_hash demo (snapshot_raw demo_edit)) (so_message ?opts),
       oip_before = [RChange ''c1'' (Some demo_draft)], oip_after = [RChange ''c1'' (Some demo_moved)]\<rparr> = demo_edit_op"
    by (simp add: demo_edit_op_def o)
  have snap: "snap_change_directly demo 6 7 ''c1'' ?new ?opts ?u
      = (Inr (Snapped (raw_hash demo (snapshot_raw demo_edit)) ?new demo_moved False), demo_edited)"
    using ne
    by (simp add: snap_change_directly_def eff_simps g l cur(1) o(1,2) sn [unfolded cur(1)] store_demo Let_def moved put_change_def)
      (use demo_edit_op_small in \<open>simp add: cur(2) opeq [unfolded o(1,3)] o(1,3) log_append_def flds w demo_edited_def Let_def retE_def\<close>)
  have env: "en_t1 demo_env = 6" "en_t2 demo_env = 7" by (simp_all add: demo_env_def)
  have ident: "parse_change_id ''c1'' = Inr ''c1''" by (simp add: parse_change_id_def)
  show ?thesis
    unfolding handle_patch_tree_path_def edit_and_snap_def
    by (simp add: eff_simps ident demo_callers demo_alice snapshot_at_hash_load cur demo_daemon_loads(1) demo_write_file env snap)
qed

lemma written_reads:
  assumes "store_ok X s" and "write_blob_at_path X root path data s = (Inr root', u)" and "collision_free X u"
  shows "read_blob_at_path X root' path u = Inr data"
proof -
  obtain parts h s1 where st: "split_path path = Inr parts" "store_ok X s1" "store_grows s s1"
      "rewrite_insert X parts h EFile mode_regular root s1 = (Inr root', u)"
      "\<And>f. store_grows s1 f \<Longrightarrow> collision_free X f \<Longrightarrow> load_blob X h f = Inr \<lparr>blob_bytes = data\<rparr>"
    by (rule write_blob_steps [OF assms(2,1)]) (rule that)
  note spec = rewrite_insert_spec [OF st(4,2)]
  have "store_grows s1 u" using spec by simp
  moreover obtain t' where "load_tree X root' u = Inr t'"
      "find_at X u t' parts = Some \<lparr>te_name = last parts, te_kind = EFile, te_target = h, te_mode = mode_regular, te_vis = None\<rparr>"
    using conjunct2 [OF conjunct2 [OF spec], rule_format, OF store_grows_refl assms(3)] by blast
  ultimately show ?thesis using st(5) [OF _ assms(3)] by (simp add: read_blob_find [OF st(1)])
qed

lemma path_parts_split: "split_path path = Inr parts \<Longrightarrow> path_parts path = Inr parts"
  by (auto simp: split_path_def path_parts_def Let_def split: if_splits option.splits)

lemma get_change_missing: "get_change j s = Inl (SNotFound m) \<Longrightarrow> m = ''change '' @ j"
  by (auto simp: get_change_def parse_json_def split: option.splits json_file.splits)

lemma view_change_eq:
  assumes "refs_view t = refs_view s"
  shows "get_change j t = get_change j s"
proof -
  have "refs_view t (KyChange j) = refs_view s (KyChange j)" using assms by simp
  then show ?thesis unfolding refs_view_simps(3)
    by (cases "get_change j t"; cases "get_change j s") (auto dest: get_change_missing split: store_error.splits)
qed

text \<open>C6. What a client writes it reads back: after a PATCH that was answered with success, a GET of the
  same path by the same caller returns exactly the bytes of the body.\<close>

theorem patch_then_get:
  assumes "store_ok X s" and "ids_ok s" and "log_ok X s ops" and "length ops + 1 < 2 ^ 63"
    and patch: "handle_patch_tree_path X V env hdrs i path body s = (Inr view, t)" and "collision_free X t"
  shows "\<exists>tag. handle_get_tree_path X V env hdrs i path t = (Inr (RawBytes tag body), t)"
proof -
  obtain p c sn root' u out where st: "i \<noteq> []" "caller_from X V (en_seconds env) hdrs s = Inr p"
      "load_mutable_change i p s = Inr c" "load_snapshot X (ch_current c) s = Inr sn"
      "write_blob_at_path X (sn_tree sn) path body s = (Inr root', u)"
      "snap_change_directly X (en_t1 env) (en_t2 env) i root' (snap_options_default\<lparr>so_author := p, so_message := None\<rparr>) u
         = (Inr out, t)"
    using edit_steps [OF patch [unfolded handle_patch_tree_path_def]] by metis
  note c = mutable_by [OF st(3)]
  have oo: "only_objects s u" by (rule keepsD [OF only.edits(1) st(5)])
  have u: "store_ok X u" "log_ok X u ops" "get_change i u = Inr c" "ch_id c = i"
    using write_then_read_ok [OF assms(1) st(5)] only_objectsD(3,6) [OF oo] assms(2,3) c(1) by (simp_all add: ids_ok_def)
  obtain c' sn' where e: "get_change i t = Inr c'" "load_snapshot X (ch_current c') t = Inr sn'" "sn_tree sn' = root'"
      "ch_author c' = ch_author c" "ch_visibility c' = ch_visibility c" "store_grows u t" "store_ok X t"
    by (rule edit_result [OF u(1,2) assms(4) u(3,4) st(6) assms(6)])
  have "read_blob_at_path X root' path u = Inr body"
    by (rule written_reads [OF assms(1) st(5) collision_free_back [OF e(6) assms(6)]])
  then have r: "read_blob_at_path X root' path t = Inr body" by (rule read_blob_mono [OF e(6)])
  then obtain parts en where parts: "split_path path = Inr parts" "lookup_entry X root' parts t = Inr en" "te_kind en = EFile"
    by (auto simp: read_blob_at_path_def and_then_Inr_iff split: if_splits)
  then have "read_tree_path X root' path t = Inr (RawBytes (to_hex X (te_target en)) body)"
    using r by (simp add: read_tree_path_def path_parts_split)
  moreover have "caller_from X V (en_seconds env) hdrs t = Inr p"
    using st(2) only_objectsD(5) [OF oo, of X V "en_seconds env" hdrs] caller_keys [OF snap_direct_keys [OF st(6)], of X V "en_seconds env" hdrs] by simp
  moreover have "load_visible_change i p t = Inr c'" using c e by (simp add: load_visible_change_def)
  ultimately show ?thesis using st(1) e(2,3)
    by (auto simp: handle_get_tree_path_def eff_simps parse_change_id_def snapshot_at_hash_load)
qed

lemma demo_edited_free: "collision_free demo demo_edited"
  by (rule collision_free_distinct) (rule demo_edited_raws)

theorem patch_then_get_witness:
  "\<exists>tag. handle_get_tree_path demo demo_vault demo_env (named ''alice'') ''c1'' ''f'' demo_edited
     = (Inr (RawBytes tag old_bytes), demo_edited)"
  by (rule patch_then_get [OF demo_daemon_store(1) demo_daemon_ok(1) demo_daemon_store(2) _ demo_patch demo_edited_free]) simp

text \<open>Undo asks nobody: once an author has written to a change, however private, anyone who can reach
  the daemon takes the write back. The request carries no caller; the change is afterwards what
  it was before the write, whatever author the body names.\<close>

theorem undo_reverts_anyones_write:
  assumes "store_ok X s" and "ids_ok s" and "log_ok X s ops" and "length ops + 2 < 2 ^ 63"
    and patch: "handle_patch_tree_path X V env hdrs i path body s = (Inr view, t)"
    and moved: "get_change i t \<noteq> get_change i s"
    and undo: "handle_undo X env' author t = (r, t')"
  shows "get_change j t' = get_change j s"
proof -
  obtain p c sn root' u out where st: "i \<noteq> []" "caller_from X V (en_seconds env) hdrs s = Inr p"
      "load_mutable_change i p s = Inr c" "load_snapshot X (ch_current c) s = Inr sn"
      "write_blob_at_path X (sn_tree sn) path body s = (Inr root', u)"
      "snap_change_directly X (en_t1 env) (en_t2 env) i root' (snap_options_default\<lparr>so_author := p, so_message := None\<rparr>) u
         = (Inr out, t)"
    using edit_steps [OF patch [unfolded handle_patch_tree_path_def]] by metis
  note c = mutable_by [OF st(3)]
  have oo: "only_objects s u" by (rule keepsD [OF only.edits(1) st(5)])
  have u: "store_ok X u" "log_ok X u ops" "get_change i u = Inr c" "ch_id c = i"
    using write_then_read_ok [OF assms(1) st(5)] only_objectsD(3,6) [OF oo] assms(2,3) c(1) by (simp_all add: ids_ok_def)
  have len: "length ops + 1 < 2 ^ 63" using assms(4) by simp
  have "t \<noteq> u" using moved only_objectsD(3) [OF oo] by auto
  with snap_direct [OF u(1,2) len u(3,4) st(6)] obtain h q where q: "store_ok X t"
      "refs_view t = view_update [RChange i (Some (advance c h))] (refs_view u)" "log_ok X t (ops @ [q])"
      "\<not> is_undo q" "op_before q = [RChange i (Some c)]"
    by blast
  have was: "\<forall>x \<in> set (op_before q). snap_wf x \<and> refs_view u (key_of_ref x) = Inr x"
    using u(3,4) by (simp add: q(5) view_change)
  have keys: "key_of_ref ` set [RChange i (Some (advance c h))] \<subseteq> key_of_ref ` set (op_before q)" by (simp add: q(5))
  let ?actor = "case author of Some a \<Rightarrow> a | None \<Rightarrow> default_actor"
  obtain r' t'' where "undo_once X (en_t2 env') ?actor t = (r', t'')" "refs_view t'' = refs_view u"
    using undo_takes_back [OF store_okD(2) [OF q(1)] q(3) assms(4) q(4) was q(2) keys, of "en_t2 env'" ?actor] by blast
  moreover from this have "t' = t''" using undo by (auto simp: handle_undo_def eff_simps Let_def split: sum.splits)
  ultimately have "refs_view t' = refs_view s" using only_objectsD(4) [OF oo] by simp
  then show ?thesis by (rule view_change_eq)
qed

theorem undo_reverts_anyones_write_witness:
  "get_change ''c1'' (snd (handle_undo demo demo_env (Some ''mallory'') demo_edited)) = Inr demo_draft"
proof -
  have m: "get_change ''c1'' demo_edited \<noteq> get_change ''c1'' demo_daemon"
  proof -
    have "raw_hash demo (snapshot_raw demo_edit) \<noteq> raw_hash demo (snapshot_raw new_snap)" by code_simp
    moreover have "ch_current demo_draft = raw_hash demo (snapshot_raw new_snap)"
      by (simp add: demo_draft_def new_private_draft_def change_new_def)
    ultimately have "demo_moved \<noteq> demo_draft" unfolding demo_moved_def by (metis advance_simps(1))
    then show ?thesis using demo_daemon_ok(2) by (simp add: get_change_def demo_edited_def)
  qed
  have "get_change ''c1'' (snd (handle_undo demo demo_env (Some ''mallory'') demo_edited)) = get_change ''c1'' demo_daemon"
    by (rule undo_reverts_anyones_write [OF demo_daemon_store(1) demo_daemon_ok(1) demo_daemon_store(2) _ demo_patch m
          surjective_pairing]) simp
  then show ?thesis using demo_daemon_ok(2) by simp
qed

section \<open>The operation log\<close>

lemma all_visible_iff:
  "all_visible p s js = Inr True \<longleftrightarrow>
     (\<forall>j \<in> set js. \<exists>c. get_change j s = Inr c \<and> can_see (ch_visibility c) (ch_author c) (Some p))"
  by (induction js) (auto split: sum.splits store_error.splits)

text \<open>C36. The log as a caller is shown it has one entry for every operation of the requested window, in
  order, with its number and time. An entry says more than that only if every change the
  operation refers to still exists and the caller may see it now; otherwise actor, kind and
  summary are blanked.\<close>

theorem oplog_redacted:
  assumes "caller_from X V (en_seconds env) hdrs s = Inr p" and "log_list X s = Inr ops"
    and "handle_list_oplog X V env hdrs limit s = (Inr views, t)"
  shows "t = s \<and> list_all2 (\<lambda>q v. ov_id v = op_id_of q \<and> ov_ts_ns v = op_ts_ns q \<and>
      (v = (if \<forall>j \<in> set (concat (map snapshot_change_ids (op_before q @ op_after q))).
               \<exists>c. get_change j s = Inr c \<and> can_see (ch_visibility c) (ch_author c) (Some p)
            then op_view_of X q else redacted_op_view q))) (most_recent limit ops) views"
proof -
  have tr: "t = s" "traverse (shown_op X p s) (most_recent limit ops) = Inr views"
    using assms by (auto simp: handle_list_oplog_def eff_simps)
  have ids: "set (referenced_change_ids q) = set (concat (map snapshot_change_ids (op_before q @ op_after q)))" for q
    by (simp add: referenced_change_ids_def)
  have one: "ov_id v = op_id_of q \<and> ov_ts_ns v = op_ts_ns q \<and>
      v = (if \<forall>j \<in> set (concat (map snapshot_change_ids (op_before q @ op_after q))).
               \<exists>c. get_change j s = Inr c \<and> can_see (ch_visibility c) (ch_author c) (Some p)
            then op_view_of X q else redacted_op_view q)" if "shown_op X p s q = Inr v" for q v
  proof -
    have "v = (if is_op_visible p s q = Inr True then op_view_of X q else redacted_op_view q)"
      using that by (auto simp: shown_op_def and_then_Inr_iff)
    then show ?thesis unfolding is_op_visible_def all_visible_iff ids
      by (auto simp: op_view_of_def redacted_op_view_def)
  qed
  have "list_all2 (\<lambda>q v. shown_op X p s q = Inr v) (most_recent limit ops) views"
    using tr(2) by (simp add: traverse_Inr_iff)
  then show ?thesis using tr(1) one by (intro conjI) (assumption, erule list_all2_mono, blast)
qed

theorem oplog_redacted_witness:
  "\<exists>v. handle_list_oplog demo demo_vault demo_env (named ''bob'') None demo_edited = (Inr [v], demo_edited)
     \<and> ov_actor v = ''<redacted>''"
proof -
  have w: "cbor_write demo (op_value p) = Some (put_value (op_value p))" for p by (simp add: demo_def demo_write_def)
  have "read_ops demo 0 ([] @ frame_record (put_value (op_value (finalize 0 7 demo_edit_op)))) = Inr ([] @ [finalize 0 7 demo_edit_op])"
    by (rule read_ops_append [OF demo_cbor w]) (use demo_edit_op_small in auto)
  then have l: "log_list demo demo_edited = Inr [finalize 0 7 demo_edit_op]"
    by (simp add: log_list_def read_all_def demo_edited_def)
  have g: "get_change ''c1'' demo_edited = Inr demo_moved" by (simp add: get_change_def demo_edited_def)
  have hid: "\<not> can_see (ch_visibility demo_moved) (ch_author demo_moved) (Some ''bob'')" by (simp add: demo_moved_def)
  have q: "snapshot_change_ids (RChange ''c1'' v) = [''c1'']" "op_before (finalize 0 7 demo_edit_op) = [RChange ''c1'' (Some demo_draft)]"
      "op_after (finalize 0 7 demo_edit_op) = [RChange ''c1'' (Some demo_moved)]" for v
    by (simp_all add: finalize_def demo_edit_op_def)
  have vis: "is_op_visible ''bob'' demo_edited (finalize 0 7 demo_edit_op) = Inr False"
    using g hid by (simp add: is_op_visible_def referenced_change_ids_def q)
  obtain v where h: "handle_list_oplog demo demo_vault demo_env (named ''bob'') None demo_edited = (Inr [v], demo_edited)"
    using vis by (simp add: handle_list_oplog_def eff_simps demo_callers l most_recent_def shown_op_def)
  have "v = redacted_op_view (finalize 0 7 demo_edit_op)"
    using oplog_redacted [OF demo_callers(2) l h] g hid by (simp add: most_recent_def q)
  with h show ?thesis by (simp add: redacted_op_view_def)
qed

section \<open>Seals\<close>

text \<open>C16. Sealing for a non-empty list of recipients succeeds, and every one of them, with the secret half
  of the key and at the path the value was sealed for, unseals exactly the plaintext. At any other
  path nobody does, and a key that is not among the recipients is told so.\<close>

theorem seal_unseal:
  assumes "seal_laws V" and "recipients \<noteq> []" and "length nonces = length recipients"
    and "\<forall>n \<in> set nonces. length n = 24" and "length nonce = 24"
  shows "\<exists>sl. seal V eph data_key nonces nonce plaintext recipients aad = Inr sl \<and>
    (\<forall>k. secret_public V k \<in> set recipients \<longrightarrow> unseal V sl k aad = Inr plaintext) \<and>
    (\<forall>k path. path \<noteq> aad \<longrightarrow> unseal V sl k path = Inl VAuthFailure) \<and>
    (\<forall>k. secret_public V k \<notin> set recipients \<longrightarrow> unseal V sl k aad = Inl VNotARecipient)"
proof -
  obtain sl where sl: "seal V eph data_key nonces nonce plaintext recipients aad = Inr sl"
    by (rule seal_total [OF assms(1,2)])
  show ?thesis using sl unseal_sealed [OF assms(1) sl assms(3-5)] by blast
qed

theorem seal_unseal_witness:
  "\<exists>sl. seal demo_vault (b32_of [1]) (b32_of [2]) [replicate 24 0] (replicate 24 1) [7, 8] [PublicKey (b32_of [])] [47] = Inr sl
     \<and> unseal demo_vault sl (SecretKey (b32_of [])) [47] = Inr [7, 8]"
proof -
  have "secret_public demo_vault (SecretKey (b32_of [])) \<in> set [PublicKey (b32_of [])]"
    by (simp add: secret_public_def demo_vault_def)
  moreover obtain sl where "seal demo_vault (b32_of [1]) (b32_of [2]) [replicate 24 0] (replicate 24 1) [7, 8] [PublicKey (b32_of [])] [47] = Inr sl"
      "\<forall>k. secret_public demo_vault k \<in> set [PublicKey (b32_of [])] \<longrightarrow> unseal demo_vault sl k [47] = Inr [7, 8]"
    using seal_unseal [OF demo_seal_laws, of "[PublicKey (b32_of [])]" "[replicate 24 0]" "replicate 24 1" "b32_of [1]" "b32_of [2]" "[7, 8]" "[47]"]
    by auto
  ultimately show ?thesis by blast
qed

section \<open>The daemon as a machine on changes\<close>

text \<open>C5. Every request but undo and collection is, seen as a map from identifiers to changes, either no
  step or one step of an abstract machine, taken on behalf of the caller the request resolves to:
  start a change under the fresh identifier with the caller as its author, advance a change of
  the caller's by one snapshot, or set the state and visibility of a change of the caller's. That
  holds for requests that fail half way as well.\<close>

theorem requests_refine_machine:
  assumes "ids_ok s" and "\<not> crosses_changes req" and "serve X T V env hdrs req s = (r, t)"
  shows "change_map t = change_map s \<or>
    (\<exists>p. caller_from X V (en_seconds env) hdrs s = Inr p \<and> change_step p (en_cid env) (change_map s) (change_map t))"
  using serve_step [OF assms(1,2), of X T V env hdrs] assms(3) by (simp add: after_def allowed_def)

theorem requests_refine_machine_witness:
  "change_map demo_edited = change_map demo_daemon \<or> change_step ''alice'' ''c2'' (change_map demo_daemon) (change_map demo_edited)"
proof -
  have "serve demo demo_tools demo_vault demo_env (named ''alice'') (ReqPatchTreePath ''c1'' ''f'' old_bytes) demo_daemon
      = (Inr (RepChange (change_view_of demo demo_moved)), demo_edited)"
    by (simp add: answer_def bindE_def demo_patch retE_def)
  from requests_refine_machine [OF demo_daemon_ok(1) _ this] show ?thesis
    by (simp add: demo_callers) (simp add: demo_env_def)
qed

definition changes_ok :: "'r daemon_scheme \<Rightarrow> bool" where
  "changes_ok s \<longleftrightarrow> (\<forall>i c. get_change i s = Inr c \<longrightarrow> ch_id c = i \<and> change_ok c)"

definition map_ok :: "(change_id \<rightharpoonup> change) \<Rightarrow> bool" where
  "map_ok m \<longleftrightarrow> (\<forall>i c. m i = Some c \<longrightarrow> ch_id c = i \<and> change_ok c)"

lemma changes_ok_map: "changes_ok s \<longleftrightarrow> map_ok (change_map s)"
  by (simp add: changes_ok_def map_ok_def change_map_Some)

lemma step_ok: "change_step p n m m' \<Longrightarrow> map_ok m \<Longrightarrow> map_ok m'"
proof (induction rule: change_step.induct)
  case (start m d h v st)
  then show ?case by (auto simp: map_ok_def change_ok_def change_new_def)
next
  case (advance m i c h)
  then show ?case by (simp add: map_ok_def advance_ok)
next
  case (relabel m i c st v)
  then show ?case by (auto simp: map_ok_def change_ok_def)
qed

lemma gc_keeps_changes: "handle_gc X V env hdrs body s = (r, t) \<Longrightarrow> rchanges t = rchanges s"
proof -
  have sweep: "keeps same_changes (gc_sweep X dry xs)" for dry xs
    unfolding gc_sweep_def
    by (intro keeps_forE same_changes_order) (auto simp: same_changes_def obj_remove_def retE_def intro!: keepsI)
  have "keeps same_changes (handle_gc X V env hdrs body)"
    unfolding handle_gc_def collect_garbage_def Let_def by (auto intro!: calm sweep)
  then show "handle_gc X V env hdrs body s = (r, t) \<Longrightarrow> rchanges t = rchanges s"
    by (auto dest: keepsD simp: same_changes_def)
qed

lemma serve_ok:
  assumes "changes_ok s" and "\<forall>a. req \<noteq> ReqUndo a" and "serve X T V env hdrs req s = (r, t)"
  shows "changes_ok t"
proof (cases "crosses_changes req")
  case True
  with assms(2) obtain body where "req = ReqGc body" by (cases req) auto
  with assms(3) have "rchanges t = rchanges s"
    by (auto simp: answer_def bindE_def retE_def dest: gc_keeps_changes split: prod.splits sum.splits)
  then show ?thesis using assms(1) change_map_same [of t s] by (simp add: changes_ok_map)
next
  case False
  have "ids_ok s" using assms(1) by (simp add: changes_ok_def ids_ok_def)
  from serve_step [OF this False, of X T V env hdrs] assms(1,3) show ?thesis
    by (auto simp: changes_ok_map after_def allowed_def intro: step_ok)
qed

text \<open>C37. Whatever is asked, the changes stay well formed: each is stored under its own identifier and
  its history ends in the snapshot it points at and never stands still. Undo, which writes back
  what the log recorded, is left out.\<close>

theorem changes_stay_wellformed:
  assumes "changes_ok s" and "\<forall>e \<in> set es. \<forall>a. ev_req e \<noteq> ReqUndo a"
  shows "changes_ok (snd (serve_all X T V es s))"
  using assms
proof (induction es arbitrary: s)
  case (Cons e es)
  obtain r t where st: "serve X T V (ev_env e) (ev_hdrs e) (ev_req e) s = (r, t)" by fastforce
  with Cons.prems have "changes_ok t" by (auto intro: serve_ok)
  with Cons st show ?case by (simp add: split_beta)
qed simp

theorem changes_stay_wellformed_witness:
  "changes_ok (snd (serve_all demo demo_tools demo_vault bobs_requests demo_daemon))"
proof (rule changes_stay_wellformed)
  show "changes_ok demo_daemon"
    by (auto simp: changes_ok_def get_change_def demo_daemon_def change_new_ok demo_draft_def change_new_def new_private_draft_def
        change_ok_def split: if_splits)
  show "\<forall>e \<in> set bobs_requests. \<forall>a. ev_req e \<noteq> ReqUndo a" by (simp add: bobs_requests_def asks_def)
qed

end
