(* ===== verification/Cli_Text.thy ===== *)
theory Cli_Text
  imports Grep Blame Oplog_Codec
begin

text \<open>
  The text the command line prints (\<^verbatim>\<open>tig-cli/src/main.rs\<close>): columns, time stamps, rows of a
  blame listing and the unified form of a diff. A printed text is the list of its lines, one
  per \<^verbatim>\<open>println!\<close>. A slice that cuts a character in two is a panic, the value \<open>None\<close> here.
\<close>

section \<open>Columns\<close>

text \<open>Padding counts characters, slicing counts bytes: a continuation byte starts no character.\<close>

definition utf8_cont :: "char \<Rightarrow> bool" where
  "utf8_cont c \<longleftrightarrow> in_range 0x80 0xBF c"

definition char_count :: "string \<Rightarrow> nat" where
  "char_count s = length (filter (\<lambda>c. \<not> utf8_cont c) s)"

definition pad_right :: "nat \<Rightarrow> string \<Rightarrow> string" where
  "pad_right w s = s @ replicate (w - char_count s) CHR '' ''"

definition pad_left :: "nat \<Rightarrow> string \<Rightarrow> string" where
  "pad_left w s = replicate (w - char_count s) CHR '' '' @ s"

definition is_char_boundary :: "string \<Rightarrow> nat \<Rightarrow> bool" where
  "is_char_boundary s i \<longleftrightarrow> i = 0 \<or> i = length s \<or> i < length s \<and> \<not> utf8_cont (s ! i)"

text \<open>\<^verbatim>\<open>&s[..i]\<close>\<close>

definition str_upto :: "string \<Rightarrow> nat \<Rightarrow> string option" where
  "str_upto s i = (if is_char_boundary s i then Some (take i s) else None)"

text \<open>The characters U+2026, U+2014 and U+2192.\<close>

definition ellipsis :: string where
  "ellipsis = [CHR 0xE2, CHR 0x80, CHR 0xA6]"

definition em_dash :: string where
  "em_dash = [CHR 0xE2, CHR 0x80, CHR 0x94]"

definition right_arrow :: string where
  "right_arrow = [CHR 0xE2, CHR 0x86, CHR 0x92]"

definition short_hash :: "'x ext_scheme \<Rightarrow> hash \<Rightarrow> string" where
  "short_hash X h = take 12 (to_hex X h)"

definition format_ts :: "u64 \<Rightarrow> string" where
  "format_ts ns =
     (let secs = unat ns div 1000000000; micros = (unat ns mod 1000000000) div 1000; m = show_nat micros in
      ''@'' @ show_nat secs @ ''.'' @ replicate (6 - length m) CHR ''0'' @ m)"

fun show_octal :: "nat \<Rightarrow> string" where
  "show_octal n = (if n < 8 then [char_of (n + 48)] else show_octal (n div 8) @ [char_of (n mod 8 + 48)])"

declare show_octal.simps [simp del]

section \<open>Blame rows\<close>

definition author_column :: "nat \<Rightarrow> string \<Rightarrow> string option" where
  "author_column w author =
     (if length author \<le> w then Some (pad_right w author)
      else map_option (\<lambda>p. p @ ellipsis) (str_upto author (w - 1)))"

text \<open>The width of the author column: the longest author in bytes, capped at 20.\<close>

definition author_width :: "blame_line list \<Rightarrow> nat" where
  "author_width ls = min (foldr (\<lambda>l w. max (length (bl_author l)) w) ls 0) 20"

definition print_blame_line :: "'x ext_scheme \<Rightarrow> blame_line \<Rightarrow> nat \<Rightarrow> nat \<Rightarrow> nat \<Rightarrow> string option" where
  "print_blame_line X b line_no n_width a_width =
     map_option (\<lambda>author_disp.
       short_hash X (bl_snap b) @ '' ('' @ author_disp @ '' '' @
       pad_left 10 (show_nat (unat (bl_timestamp_ns b) div 1000000000)) @ '') '' @
       pad_left n_width (show_nat line_no) @ ''  '' @ bl_line b)
     (author_column a_width (bl_author b))"

section \<open>Unified diffs\<close>

fun entry_kind_label :: "entry_kind \<Rightarrow> string" where
  "entry_kind_label EFile = ''file''"
| "entry_kind_label ETree = ''directory''"
| "entry_kind_label ESymlink = ''symlink''"
| "entry_kind_label ESealed = ''sealed entry''"
| "entry_kind_label EConflict = ''conflict marker''"
| "entry_kind_label ESubmodule = ''submodule''"

definition range_text :: "nat \<Rightarrow> nat \<Rightarrow> string" where
  "range_text start len = (if len = 1 then show_nat start else show_nat start @ '','' @ show_nat len)"

fun hunk_line_text :: "hunk_line \<Rightarrow> string" where
  "hunk_line_text (HContext s) = '' '' @ s"
| "hunk_line_text (HAdd s) = ''+'' @ s"
| "hunk_line_text (HRemove s) = ''-'' @ s"

definition hunk_text :: "hunk \<Rightarrow> string list" where
  "hunk_text h =
     (''@@ -'' @ range_text (hk_from_start h) (hk_from_len h) @ '' +'' @ range_text (hk_to_start h) (hk_to_len h) @ '' @@'')
       # map hunk_line_text (hk_lines h)"

definition diff_header :: "file_diff \<Rightarrow> string list" where
  "diff_header fd =
     (''diff --tig a/'' @ fd_path fd @ '' b/'' @ fd_path fd) #
     (case fd_kind fd of
        TypeChanged f t \<Rightarrow> [''type changed: '' @ entry_kind_name f @ '' -> '' @ entry_kind_name t]
      | Added \<Rightarrow> [''new '' @ entry_kind_label (fd_entry_kind fd) @ '' mode'']
      | Removed \<Rightarrow> [''removed '' @ entry_kind_label (fd_entry_kind fd)]
      | Modified \<Rightarrow> [])"

definition diff_sides :: "file_diff \<Rightarrow> string \<times> string" where
  "diff_sides fd =
     (case fd_kind fd of
        Added \<Rightarrow> (''/dev/null'', ''b/'' @ fd_path fd)
      | Removed \<Rightarrow> (''a/'' @ fd_path fd, ''/dev/null'')
      | _ \<Rightarrow> (''a/'' @ fd_path fd, ''b/'' @ fd_path fd))"

text \<open>What both printers write for a regular file.\<close>

definition diff_body :: "file_diff \<Rightarrow> string list" where
  "diff_body fd =
     (if fd_binary fd then [''Binary files a/'' @ fd_path fd @ '' and b/'' @ fd_path fd @ '' differ'']
      else (let (left, right) = diff_sides fd in
        [''--- '' @ left, ''+++ '' @ right] @
        (case fd_hunks fd of None \<Rightarrow> [] | Some hs \<Rightarrow> concat (map hunk_text hs))))"

definition is_type_change :: "file_diff \<Rightarrow> bool" where
  "is_type_change fd \<longleftrightarrow> (case fd_kind fd of TypeChanged _ _ \<Rightarrow> True | _ \<Rightarrow> False)"

definition print_file_diff :: "'x ext_scheme \<Rightarrow> file_diff \<Rightarrow> string list" where
  "print_file_diff X fd =
     (if is_type_change fd then diff_header fd
      else if fd_entry_kind fd \<noteq> EFile
      then (let f = (case fd_from_target fd of None \<Rightarrow> [] | Some h \<Rightarrow> short_hash X h);
                t = (case fd_to_target fd of None \<Rightarrow> [] | Some h \<Rightarrow> short_hash X h) in
            diff_header fd @ (if f \<noteq> [] \<and> t \<noteq> [] then [''  '' @ f @ '' -> '' @ t] else []))
      else diff_header fd @ diff_body fd)"

text \<open>\<^verbatim>\<open>writeln!\<close> into a buffer, and \<^verbatim>\<open>print_indented\<close>, which reads the buffer's lines back.\<close>

definition written_lines :: "string list \<Rightarrow> string" where
  "written_lines ls = concat (map (\<lambda>l. l @ [newline]) ls)"

definition print_indented :: "string \<Rightarrow> string \<Rightarrow> string list" where
  "print_indented buf pfx = map (\<lambda>l. pfx @ l) (str_lines buf)"

definition print_file_diff_indented :: "file_diff \<Rightarrow> string \<Rightarrow> string list" where
  "print_file_diff_indented fd pfx =
     (if is_type_change fd \<or> fd_entry_kind fd \<noteq> EFile then print_indented (written_lines (diff_header fd)) pfx
      else print_indented (written_lines (diff_header fd @ diff_body fd)) pfx)"

section \<open>The columns are bounded\<close>

lemma char_count_le: "char_count s \<le> length s"
  by (simp add: char_count_def)

lemma char_count_append [simp]: "char_count (s @ t) = char_count s + char_count t"
  by (simp add: char_count_def)

lemma char_count_blanks [simp]: "char_count (replicate n CHR '' '') = n"
  by (simp add: char_count_def utf8_cont_def in_range_def)

lemma char_count_ellipsis [simp]: "char_count ellipsis = 1"
  by (simp add: char_count_def ellipsis_def utf8_cont_def in_range_def)

definition ascii :: "string \<Rightarrow> bool" where
  "ascii s \<longleftrightarrow> list_all (\<lambda>c. of_char c < (128 :: nat)) s"

lemma ascii_char_count: "ascii s \<Longrightarrow> char_count s = length s"
  by (induction s) (auto simp: ascii_def char_count_def utf8_cont_def in_range_def)

lemma ascii_take: "ascii s \<Longrightarrow> ascii (take n s)"
  by (auto simp: ascii_def list_all_iff dest: in_set_takeD)

lemma ascii_not_cont: "ascii s \<Longrightarrow> i < length s \<Longrightarrow> \<not> utf8_cont (s ! i)"
  by (auto simp: ascii_def list_all_length utf8_cont_def in_range_def)

lemma author_width_le: "author_width ls \<le> 20"
  by (simp add: author_width_def)

lemma author_width_ge: "b \<in> set ls \<Longrightarrow> author_width ls < length (bl_author b) \<Longrightarrow> author_width ls = 20"
proof -
  have "length (bl_author b) \<le> foldr (\<lambda>l w. max (length (bl_author l)) w) ls 0" if "b \<in> set ls"
    using that by (induction ls) (auto simp: le_max_iff_disj)
  then show "b \<in> set ls \<Longrightarrow> author_width ls < length (bl_author b) \<Longrightarrow> author_width ls = 20"
    by (fastforce simp: author_width_def)
qed

section \<open>Reading written lines back\<close>

definition clean_line :: "string \<Rightarrow> bool" where
  "clean_line l \<longleftrightarrow> newline \<notin> set l \<and> (l \<noteq> [] \<longrightarrow> last l \<noteq> carriage)"

lemma split_inclusive_line:
  "newline \<notin> set l \<Longrightarrow> split_inclusive (l @ newline # s) = (l @ [newline]) # split_inclusive s"
  by (induction l) auto

lemma str_lines_written: "list_all clean_line ls \<Longrightarrow> str_lines (written_lines ls) = ls"
proof (induction ls)
  case (Cons l ls)
  then have "strip_line_end (l @ [newline]) = l"
    by (auto simp: strip_line_end_def clean_line_def Let_def)
  with Cons show ?case
    by (simp add: str_lines_def written_lines_def split_inclusive_line clean_line_def)
qed (simp add: str_lines_def written_lines_def)

lemma print_indented_written:
  "list_all clean_line ls \<Longrightarrow> print_indented (written_lines ls) pfx = map (\<lambda>l. pfx @ l) ls"
  by (simp add: print_indented_def str_lines_written)

end
