(* ===== verification/Shell.thy ===== *)
theory Shell
  imports Daemon Vis_Seal Cli_Text
begin

text \<open>
  What a command of the \<^verbatim>\<open>tig\<close> binary works on: the repository and its log, the keys directory,
  the directories on disk and the two output streams. A command takes the write lock before it
  mutates and holds it to its end, so one command is one step. What the process finds outside
  (environment variables, clocks, random bytes, fresh identifiers, standard input) and the
  packages whose text is not in the repository are the fields of an environment record.
\<close>

section \<open>State\<close>

text \<open>
  \<open>sh_disk\<close> is the root directory without the \<^verbatim>\<open>.tig\<close> directories, whose contents are the other
  fields; paths have no symbolic links on the way.
\<close>

record shell = daemon +
  sh_disk :: wnode
  sh_out :: string
  sh_err :: string

record cli_env =
  ce_user :: "string option"
  ce_tig_as :: "string option"
  ce_seconds :: u64
  ce_t1 :: u64
  ce_t2 :: u64
  ce_now :: u64
  ce_cid :: change_id
  ce_wid :: workspace_id
  ce_eph_seed :: b32
  ce_data_key :: b32
  ce_wrap_nonce :: "nat \<Rightarrow> bytes"
  ce_payload_nonce :: bytes
  ce_seal_seed :: b32
  ce_sign_seed :: b32
  ce_stdin :: "bytes option"
  ce_engine :: clone_engine
  ce_marker_json :: "workspace_marker \<Rightarrow> bytes"
  ce_vis_text :: "vis_error \<Rightarrow> string"

datatype cli_error =
    CliCore core_error
  | CliStore store_error
  | CliFs fs_error
  | CliVis vis_error
  | CliIo
  | CliPanic
  | CliExit nat
  | InvalidWorkspaceName string
  | NothingCheckedOut
  | DestinationExists path
  | NoWorkspaceNamed string
  | DropCurrentWorkspace
  | NoCurrentChange
  | UnknownState string
  | UnknownVisibility string
  | RangeNeedsBothSides string
  | IdentityRequired
  | NoSigningSecret string vis_error
  | NotASnapshot hash object_kind
  | EmptySealedPath
  | NotASealedEntry string entry_kind

text \<open>\<^verbatim>\<open>main\<close> exits with 1 on an error; a panic exits with 101.\<close>

definition exit_status :: "cli_error + 'a \<Rightarrow> nat" where
  "exit_status r = (case r of Inr _ \<Rightarrow> 0 | Inl (CliExit n) \<Rightarrow> n | Inl CliPanic \<Rightarrow> 101 | Inl _ \<Rightarrow> 1)"

section \<open>Output\<close>

definition print_line :: "string \<Rightarrow> ('r shell_scheme, 'e, unit) eff" where
  "print_line l = updE (\<lambda>s. s\<lparr>sh_out := sh_out s @ l @ [newline]\<rparr>)"

definition print_lines :: "string list \<Rightarrow> ('r shell_scheme, 'e, unit) eff" where
  "print_lines ls = updE (\<lambda>s. s\<lparr>sh_out := sh_out s @ written_lines ls\<rparr>)"

definition eprint_line :: "string \<Rightarrow> ('r shell_scheme, 'e, unit) eff" where
  "eprint_line l = updE (\<lambda>s. s\<lparr>sh_err := sh_err s @ l @ [newline]\<rparr>)"

section \<open>Directories\<close>

fun node_at :: "path \<Rightarrow> wnode \<Rightarrow> wnode option" where
  "node_at [] v = Some v"
| "node_at (n # ns) (WDir ch) = Option.bind (map_of ch n) (node_at ns)"
| "node_at (n # ns) v = None"

text \<open>Put a node at a path, or remove what is there; the parent directory exists.\<close>

fun set_node :: "path \<Rightarrow> wnode option \<Rightarrow> wnode \<Rightarrow> wnode" where
  "set_node [] v old = (case v of Some w \<Rightarrow> w | None \<Rightarrow> old)"
| "set_node [n] v (WDir ch) =
     WDir (case v of Some w \<Rightarrow> AList.update n w ch | None \<Rightarrow> AList.delete n ch)"
| "set_node (n # m # ns) v (WDir ch) =
     WDir (case map_of ch n of Some c \<Rightarrow> AList.update n (set_node (m # ns) v c) ch | None \<Rightarrow> ch)"
| "set_node (n # ns) v old = old"

text \<open>\<^verbatim>\<open>create_dir_all\<close>; \<open>None\<close> when something on the way is not a directory.\<close>

fun create_dirs :: "path \<Rightarrow> wnode \<Rightarrow> wnode option" where
  "create_dirs [] (WDir ch) = Some (WDir ch)"
| "create_dirs (n # ns) (WDir ch) =
     map_option (\<lambda>v. WDir (AList.update n v ch))
       (create_dirs ns (case map_of ch n of Some c \<Rightarrow> c | None \<Rightarrow> WDir []))"
| "create_dirs ns v = None"

definition path_exists :: "path \<Rightarrow> 'r shell_scheme \<Rightarrow> bool" where
  "path_exists p s \<longleftrightarrow> node_at p (sh_disk s) \<noteq> None"

definition write_node :: "path \<Rightarrow> wnode \<Rightarrow> ('r shell_scheme, 'e, unit) eff" where
  "write_node p v = updE (\<lambda>s. s\<lparr>sh_disk := set_node p (Some v) (sh_disk s)\<rparr>)"

definition create_dir_all :: "path \<Rightarrow> ('r shell_scheme, cli_error, unit) eff" where
  "create_dir_all p s =
     (case create_dirs p (sh_disk s) of
        None \<Rightarrow> (Inl CliIo, s)
      | Some d \<Rightarrow> (Inr (), s\<lparr>sh_disk := d\<rparr>))"

definition remove_dir_all :: "path \<Rightarrow> ('r shell_scheme, cli_error, unit) eff" where
  "remove_dir_all p s =
     (case node_at p (sh_disk s) of
        Some (WDir _) \<Rightarrow> (Inr (), s\<lparr>sh_disk := set_node p None (sh_disk s)\<rparr>)
      | _ \<Rightarrow> (Inl CliIo, s))"

definition read_file :: "path \<Rightarrow> 'r shell_scheme \<Rightarrow> cli_error + bytes" where
  "read_file p s = (case node_at p (sh_disk s) of Some (WFile b _) \<Rightarrow> Inr b | _ \<Rightarrow> Inl CliIo)"

text \<open>A step on the objects and the entries of one directory, which is written back.\<close>

definition in_workdir ::
  "path \<Rightarrow> ('r shell_scheme \<times> (string \<times> wnode) list, fs_error, 'a) eff \<Rightarrow> ('r shell_scheme, cli_error, 'a) eff" where
  "in_workdir p m s =
     (case node_at p (sh_disk s) of
        Some (WDir ch) \<Rightarrow>
          (case m (s, ch) of
             (r, (t, ch')) \<Rightarrow> (map_err CliFs r, t\<lparr>sh_disk := set_node p (Some (WDir ch')) (sh_disk t)\<rparr>))
      | _ \<Rightarrow> (Inl (CliFs FIo), s))"

section \<open>What commands share\<close>

definition in_keys :: "(keys_dir, vis_error, 'a) eff \<Rightarrow> ('r shell_scheme, cli_error, 'a) eff" where
  "in_keys m s = (case m (dkeys s) of (r, d) \<Rightarrow> (map_err CliVis r, s\<lparr>dkeys := d\<rparr>))"

definition storeE :: "('s, store_error, 'a) eff \<Rightarrow> ('s, cli_error, 'a) eff" where
  "storeE m = mapE CliStore m"

definition fsE :: "('s, fs_error, 'a) eff \<Rightarrow> ('s, cli_error, 'a) eff" where
  "fsE m = mapE CliFs m"

definition requireE :: "'e \<Rightarrow> 'a option \<Rightarrow> ('s, 'e, 'a) eff" where
  "requireE e a = liftE (ok_or e a)"

definition principal_of :: "cli_env \<Rightarrow> principal_id" where
  "principal_of env = principal_local (case ce_user env of Some u \<Rightarrow> u | None \<Rightarrow> ''anonymous'')"

definition snap_options :: "cli_env \<Rightarrow> string option \<Rightarrow> snap_options" where
  "snap_options env message = snap_options_default\<lparr>so_author := principal_of env, so_message := message\<rparr>"

text \<open>\<^verbatim>\<open>--as\<close>, or else \<^verbatim>\<open>$TIG_AS\<close>.\<close>

definition acting_as :: "cli_env \<Rightarrow> string option \<Rightarrow> string option" where
  "acting_as env as_name = (case as_name of Some n \<Rightarrow> Some n | None \<Rightarrow> ce_tig_as env)"

definition identity :: "string \<Rightarrow> ('r shell_scheme, cli_error, principal) eff" where
  "identity n = readE (\<lambda>s. map_err CliVis (principal_get n (dkeys s)))"

definition resolve_unseal_identity ::
  "'x ext_scheme \<Rightarrow> cli_env \<Rightarrow> string option \<Rightarrow> ('r shell_scheme, cli_error, secret_key option) eff" where
  "resolve_unseal_identity X env as_name =
     (case acting_as env as_name of
        None \<Rightarrow> retE None
      | Some n \<Rightarrow>
          bindE (identity n) (\<lambda>p.
            bindE (liftE (map_err CliVis (principal_secret X p))) (\<lambda>k. retE (Some k))))"

definition unsealer_for ::
  "vault \<Rightarrow> cli_env \<Rightarrow> secret_key option \<Rightarrow> (sealed \<Rightarrow> bytes \<Rightarrow> string + bytes) option" where
  "unsealer_for V env k = map_option (\<lambda>secret sl aad. map_err (ce_vis_text env) (unseal V sl secret aad)) k"

definition current_changeE ::
  "cli_error \<Rightarrow> workspace \<Rightarrow> ('r shell_scheme, cli_error, change_id) eff" where
  "current_changeE e w = bindE (readE (\<lambda>s. Inr (current_change_id (w_kind w) s))) (requireE e)"

definition changeE :: "change_id \<Rightarrow> ('r shell_scheme, cli_error, change) eff" where
  "changeE i = storeE (readE (get_change i))"

definition rawE :: "'x ext_scheme \<Rightarrow> hash \<Rightarrow> ('r shell_scheme, cli_error, raw_object) eff" where
  "rawE X h = storeE (readE (obj_get X h))"

text \<open>\<^verbatim>\<open>Snapshot::decode(&ws.repo.get(h)?)?\<close>\<close>

definition snapshotE :: "'x ext_scheme \<Rightarrow> hash \<Rightarrow> ('r shell_scheme, cli_error, snapshot) eff" where
  "snapshotE X h = bindE (rawE X h) (\<lambda>raw. liftE (map_err CliCore (decode_snapshot X raw)))"

definition putE :: "'x ext_scheme \<Rightarrow> core_error + raw_object \<Rightarrow> ('r shell_scheme, cli_error, hash) eff" where
  "putE X enc = bindE (liftE (map_err CliCore enc)) (\<lambda>raw. storeE (obj_put X raw))"

definition open_log :: "'x ext_scheme \<Rightarrow> ('r shell_scheme, cli_error, unit) eff" where
  "open_log X = storeE (log_open X)"

definition appendE :: "'x ext_scheme \<Rightarrow> cli_env \<Rightarrow> op_kind \<Rightarrow> ref_snapshot list \<Rightarrow> ref_snapshot list \<Rightarrow>
    ('r shell_scheme, cli_error, op) eff" where
  "appendE X env k was is =
     storeE (log_append X (ce_t2 env) \<lparr>oip_actor = principal_of env, oip_kind = k, oip_before = was, oip_after = is\<rparr>)"

definition scan_workdir :: "'x ext_scheme \<Rightarrow> workspace \<Rightarrow> ('r shell_scheme, cli_error, hash) eff" where
  "scan_workdir X w s =
     fsE (scan X scan_options_default (show_path (workdir w)) (node_at (workdir w) (sh_disk s))) s"

definition take_snap ::
  "'x ext_scheme \<Rightarrow> cli_env \<Rightarrow> snap_options \<Rightarrow> workspace \<Rightarrow>
     ('r shell_scheme, cli_error, snap_outcome \<times> workspace_kind) eff" where
  "take_snap X env opts w s =
     fsE (snap_now X (ce_t1 env) (ce_t2 env) (ce_cid env) opts (show_path (workdir w))
            (node_at (workdir w) (sh_disk s)) (w_kind w)) s"

declare storeE_def [eff_simps] fsE_def [eff_simps] requireE_def [eff_simps] print_line_def [eff_simps]
  print_lines_def [eff_simps] eprint_line_def [eff_simps] identity_def [eff_simps] current_changeE_def [eff_simps]
  changeE_def [eff_simps] rawE_def [eff_simps] open_log_def [eff_simps] appendE_def [eff_simps]

end
