(* ===== verification/Cli.thy ===== *)
theory Cli
  imports Shell
begin

text \<open>
  The commands of \<^verbatim>\<open>tig-cli/src/main.rs\<close> on the changes, the log and the objects, one definition
  per \<^verbatim>\<open>cmd_\<close> function. The workspace handle that \<^verbatim>\<open>discover_workspace\<close> returns is the argument
  \<open>w\<close> (discovery itself is \<open>Workspace_Store.discover\<close>); \<open>X\<close>, \<open>T\<close>, \<open>V\<close> are the packages.
\<close>

section \<open>Snapshots\<close>

definition message_label :: "snapshot \<Rightarrow> string" where
  "message_label sn = (case sn_message sn of Some m \<Rightarrow> m | None \<Rightarrow> ''(auto)'')"

text \<open>\<^verbatim>\<open>expect\<close> on the snapshot that was just written.\<close>

definition print_snap_outcome ::
  "'x ext_scheme \<Rightarrow> workspace_kind \<Rightarrow> snap_outcome \<Rightarrow> bool \<Rightarrow> ('r shell_scheme, cli_error, unit) eff" where
  "print_snap_outcome X kind outcome verbose =
     (case outcome of
        Snapped h _ c _ \<Rightarrow>
          bindE (mapE (\<lambda>_. CliPanic) (snapshotE X h)) (\<lambda>sn.
            bindE (print_line (''  snap '' @ short_hash X h @ ''  '' @ message_label sn)) (\<lambda>_.
              if verbose
              then bindE (print_line (''    on change '' @ ch_id c @ '' ('' @ ch_description c @ '')'')) (\<lambda>_.
                     print_line (''    in workspace '' @ id_for_display kind))
              else retE ()))
      | Unchanged c \<Rightarrow>
          if verbose then print_line (''nothing to snap: working copy matches '' @ short_hash X (ch_current c)) else retE ())"

definition cmd_snap ::
  "'x ext_scheme \<Rightarrow> cli_env \<Rightarrow> workspace \<Rightarrow> string option \<Rightarrow> ('r shell_scheme, cli_error, unit) eff" where
  "cmd_snap X env w message =
     bindE (open_log X) (\<lambda>_.
       bindE (take_snap X env (snap_options env message) w) (\<lambda>(outcome, kind).
         print_snap_outcome X kind outcome True))"

section \<open>Diffs\<close>

text \<open>\<^verbatim>\<open>r.split_once("..")\<close>\<close>

fun split_dots :: "string \<Rightarrow> (string \<times> string) option" where
  "split_dots (a # b # s) =
     (if a = CHR ''.'' \<and> b = CHR ''.'' then Some ([], s)
      else map_option (\<lambda>(l, r). (a # l, r)) (split_dots (b # s)))"
| "split_dots _ = None"

definition prefix_snapshot ::
  "'x ext_scheme \<Rightarrow> string \<Rightarrow> ('r shell_scheme, cli_error, hash) eff" where
  "prefix_snapshot X p = storeE (readE (resolve_prefix X p))"

definition snap_label :: "'x ext_scheme \<Rightarrow> hash \<Rightarrow> string" where
  "snap_label X h = ''snap '' @ short_hash X h"

definition resolve_diff_endpoints ::
  "'x ext_scheme \<Rightarrow> workspace \<Rightarrow> string option \<Rightarrow>
     ('r shell_scheme, cli_error, hash \<times> hash \<times> string \<times> string) eff" where
  "resolve_diff_endpoints X w rng =
     (case rng of
        Some r \<Rightarrow>
          (case split_dots r of
             Some (l, r2) \<Rightarrow>
               if l = [] \<or> r2 = [] then throwE (RangeNeedsBothSides r)
               else
                 bindE (prefix_snapshot X l) (\<lambda>from_h.
                   bindE (prefix_snapshot X r2) (\<lambda>to_h.
                     bindE (snapshotE X from_h) (\<lambda>from_snap.
                       bindE (snapshotE X to_h) (\<lambda>to_snap.
                         retE (sn_tree from_snap, sn_tree to_snap, snap_label X from_h, snap_label X to_h)))))
           | None \<Rightarrow>
               bindE (prefix_snapshot X r) (\<lambda>from_h.
                 bindE (snapshotE X from_h) (\<lambda>from_snap.
                   bindE (scan_workdir X w) (\<lambda>to_tree.
                     retE (sn_tree from_snap, to_tree, snap_label X from_h, ''workdir'')))))
      | None \<Rightarrow>
          bindE (current_changeE NoCurrentChange w) (\<lambda>i.
            bindE (changeE i) (\<lambda>c.
              bindE (snapshotE X (ch_current c)) (\<lambda>current_snap.
                bindE (scan_workdir X w) (\<lambda>to_tree.
                  retE (sn_tree current_snap, to_tree, snap_label X (ch_current c), ''workdir''))))))"

definition cli_diff_options :: "bool \<Rightarrow> string list \<Rightarrow> diff_options" where
  "cli_diff_options no_hunks paths = \<lparr>do_no_hunks = no_hunks, do_paths = paths, do_context_lines = 3\<rparr>"

definition cmd_diff ::
  "'x ext_scheme \<Rightarrow> tools \<Rightarrow> workspace \<Rightarrow> string option \<Rightarrow> bool \<Rightarrow> string list \<Rightarrow> ('r shell_scheme, cli_error, unit) eff" where
  "cmd_diff X T w rng no_hunks paths =
     bindE (resolve_diff_endpoints X w rng) (\<lambda>(from_tree, to_tree, from_label, to_label).
       bindE (fsE (readE (diff_trees X T from_tree to_tree (cli_diff_options no_hunks paths)))) (\<lambda>diffs.
         if diffs = [] then print_line (''(no differences: '' @ from_label @ '' == '' @ to_label @ '')'')
         else bindE (print_line (''# diff '' @ from_label @ '' -> '' @ to_label)) (\<lambda>_.
                print_lines (concat (map (print_file_diff X) diffs)))))"

section \<open>History and status\<close>

text \<open>One row of \<^verbatim>\<open>tig log\<close>; a snapshot without parents is compared with the empty tree, which is stored.\<close>

definition log_patch ::
  "'x ext_scheme \<Rightarrow> tools \<Rightarrow> snapshot \<Rightarrow> ('r shell_scheme, cli_error, unit) eff" where
  "log_patch X T sn =
     bindE (case sn_parents sn of
              p # _ \<Rightarrow> bindE (snapshotE X p) (\<lambda>psn. retE (sn_tree psn))
            | [] \<Rightarrow> putE X (encode_tree X tree_new)) (\<lambda>parent_tree.
       bindE (fsE (readE (diff_trees X T parent_tree (sn_tree sn) (cli_diff_options False [])))) (\<lambda>diffs.
         bindE (print_lines (concat (map (\<lambda>fd. print_file_diff_indented fd ''    '') diffs))) (\<lambda>_.
           if diffs \<noteq> [] then print_line [] else retE ())))"

definition log_row ::
  "'x ext_scheme \<Rightarrow> tools \<Rightarrow> bool \<Rightarrow> bool \<Rightarrow> hash \<Rightarrow> ('r shell_scheme, cli_error, unit) eff" where
  "log_row X T all patch h =
     bindE (snapshotE X h) (\<lambda>sn.
       if \<not> all \<and> sn_message sn = None then retE ()
       else
         bindE (print_line (''  '' @ short_hash X h @ ''  '' @ format_ts (sn_timestamp_ns sn) @ ''  '' @ sn_author sn @ ''  ''
                  @ em_dash @ '' '' @ message_label sn)) (\<lambda>_.
           if patch then log_patch X T sn else retE ()))"

definition cmd_log ::
  "'x ext_scheme \<Rightarrow> tools \<Rightarrow> workspace \<Rightarrow> bool \<Rightarrow> bool \<Rightarrow> ('r shell_scheme, cli_error, unit) eff" where
  "cmd_log X T w all patch =
     bindE (current_changeE NoCurrentChange w) (\<lambda>i.
       bindE (changeE i) (\<lambda>c.
         bindE (print_lines
                  [''change '' @ ch_id c, ''    '' @ ch_description c,
                   ''    '' @ change_state_name (ch_state c) @ '', '' @ show_nat (length (ch_history c))
                     @ '' snapshot(s), in workspace '' @ id_for_display (w_kind w),
                   []]) (\<lambda>_.
           forE (log_row X T all patch) (rev (ch_history c)))))"

definition cmd_status ::
  "'x ext_scheme \<Rightarrow> workspace \<Rightarrow> ('r shell_scheme, cli_error, unit) eff" where
  "cmd_status X w =
     bindE (print_lines
              [''workspace:   '' @ id_for_display (w_kind w), ''workdir:     '' @ show_path (workdir w),
               ''repo:        '' @ show_path (w_tig w)]) (\<lambda>_.
       bindE (readE (\<lambda>s. Inr (current_change_id (w_kind w) s))) (\<lambda>current.
         case current of
           None \<Rightarrow> print_line (''change:      <none '' @ em_dash @ '' try `tig snap`>'')
         | Some i \<Rightarrow>
             bindE (changeE i) (\<lambda>c.
               print_lines
                 [''change:      '' @ ch_id c, ''  description: '' @ ch_description c, ''  author:      '' @ ch_author c,
                  ''  state:       '' @ change_state_name (ch_state c), ''  visibility:  '' @ vis_name (ch_visibility c),
                  ''  current:     '' @ to_hex X (ch_current c), ''  snapshots:   '' @ show_nat (length (ch_history c))])))"

section \<open>Changes\<close>

text \<open>The current snapshot, or a fresh empty one where there is no change yet.\<close>

definition current_or_empty ::
  "'x ext_scheme \<Rightarrow> cli_env \<Rightarrow> workspace \<Rightarrow> ('r shell_scheme, cli_error, hash) eff" where
  "current_or_empty X env w =
     bindE (readE (\<lambda>s. Inr (current_change_id (w_kind w) s))) (\<lambda>current.
       case current of
         Some i \<Rightarrow> bindE (changeE i) (\<lambda>c. retE (ch_current c))
       | None \<Rightarrow>
           bindE (putE X (encode_tree X tree_new)) (\<lambda>tree_h.
             putE X (encode_snapshot X
               \<lparr>sn_parents = [], sn_tree = tree_h, sn_author = principal_of env, sn_timestamp_ns = ce_t1 env,
                sn_message = Some ''(empty)'', sn_op_id = None\<rparr>)))"

text \<open>What \<^verbatim>\<open>change new\<close> and \<^verbatim>\<open>draft\<close> share: register the change, check it out, log it.\<close>

definition register_change ::
  "'x ext_scheme \<Rightarrow> cli_env \<Rightarrow> workspace \<Rightarrow> string \<Rightarrow> change \<Rightarrow> ('r shell_scheme, cli_error, unit) eff" where
  "register_change X env w description c =
     bindE (storeE (readE (workspace_ref_snapshot (w_kind w)))) (\<lambda>ref_before.
       bindE (storeE (put_change c)) (\<lambda>_.
         bindE (storeE (set_current_change_id (w_kind w) (ch_id c))) (\<lambda>kind.
           bindE (storeE (readE (workspace_ref_snapshot kind))) (\<lambda>ref_after.
             bindE (appendE X env (OkChangeNew (ch_id c) description)
                      [ref_before, RChange (ch_id c) None] [ref_after, RChange (ch_id c) (Some c)]) (\<lambda>_.
               retE ())))))"

definition cmd_change_new ::
  "'x ext_scheme \<Rightarrow> cli_env \<Rightarrow> workspace \<Rightarrow> string \<Rightarrow> ('r shell_scheme, cli_error, unit) eff" where
  "cmd_change_new X env w description =
     bindE (open_log X) (\<lambda>_.
       bindE (current_or_empty X env w) (\<lambda>current.
         let c = change_new (ce_cid env) description (principal_of env) current in
         bindE (register_change X env w description c) (\<lambda>_.
           print_lines [''created change '' @ ch_id c, ''    '' @ description])))"

definition cmd_draft ::
  "'x ext_scheme \<Rightarrow> cli_env \<Rightarrow> workspace \<Rightarrow> string \<Rightarrow> ('r shell_scheme, cli_error, unit) eff" where
  "cmd_draft X env w description =
     bindE (open_log X) (\<lambda>_.
       bindE (current_or_empty X env w) (\<lambda>current.
         let c = new_private_draft (ce_cid env) description (principal_of env) current in
         bindE (register_change X env w description c) (\<lambda>_.
           print_lines
             [''created Draft+Private change '' @ ch_id c, ''    '' @ description,
              ''    visible only to '' @ ch_author c @ '' until `tig change publish`''])))"

definition change_row :: "change_id option \<Rightarrow> change \<Rightarrow> string" where
  "change_row current c =
     (if current = Some (ch_id c) then ''*'' else '' '') @ '' '' @ ch_id c @ ''  '' @ change_state_name (ch_state c) @ ''/''
       @ pad_right 7 (vis_name (ch_visibility c)) @ ''  by '' @ pad_right 14 (ch_author c) @ '' '' @ em_dash @ '' ''
       @ ch_description c"

definition cmd_change_list :: "workspace \<Rightarrow> ('r shell_scheme, cli_error, unit) eff" where
  "cmd_change_list w =
     bindE (readE (\<lambda>s. Inr (current_change_id (w_kind w) s))) (\<lambda>current.
       bindE (readE (\<lambda>s. Inr (list_changes s))) (\<lambda>ids.
         bindE (forE (\<lambda>i. bindE (changeE i) (\<lambda>c. print_line (change_row current c))) ids) (\<lambda>_.
           if ids = [] then print_line ''no changes yet'' else retE ())))"

definition parse_state_str :: "tools \<Rightarrow> string \<Rightarrow> cli_error + change_state" where
  "parse_state_str T s =
     (let l = lowercase T s in
      if l = ''working'' then Inr SWorking
      else if l = ''draft'' then Inr SDraft
      else if l = ''review'' then Inr SReview
      else if l = ''landed'' then Inr SLanded
      else if l = ''abandoned'' then Inr SAbandoned
      else Inl (UnknownState l))"

definition parse_vis_str :: "string \<Rightarrow> cli_error + vis_label" where
  "parse_vis_str s =
     (if s = ''public'' then Inr VPublic
      else if s = ''private'' then Inr VPrivate
      else Inl (UnknownVisibility s))"

text \<open>No look at the author: the command transitions anybody's change.\<close>

definition cmd_change_transition ::
  "'x ext_scheme \<Rightarrow> tools \<Rightarrow> cli_env \<Rightarrow> workspace \<Rightarrow> string option \<Rightarrow> string option \<Rightarrow> string option \<Rightarrow>
     ('r shell_scheme, cli_error, unit) eff" where
  "cmd_change_transition X T env w id_opt state_str vis_str =
     bindE (case id_opt of Some i \<Rightarrow> retE i | None \<Rightarrow> current_changeE NoCurrentChange w) (\<lambda>i.
       bindE (changeE i) (\<lambda>c0.
         bindE (case state_str of None \<Rightarrow> retE (ch_state c0) | Some t \<Rightarrow> liftE (parse_state_str T t)) (\<lambda>st.
           bindE (case vis_str of None \<Rightarrow> retE (ch_visibility c0) | Some t \<Rightarrow> liftE (parse_vis_str t)) (\<lambda>v.
             let c = c0\<lparr>ch_state := st, ch_visibility := v\<rparr> in
             bindE (storeE (put_change c)) (\<lambda>_.
               bindE (open_log X) (\<lambda>_.
                 bindE (appendE X env
                          (OkChangeTransition (ch_id c) (ch_state c0) (ch_state c) (ch_visibility c0) (ch_visibility c))
                          [RChange (ch_id c) (Some c0)] [RChange (ch_id c) (Some c)]) (\<lambda>_.
                   print_line (''transitioned '' @ ch_id c @ '': '' @ change_state_name (ch_state c0) @ ''/''
                     @ vis_name (ch_visibility c0) @ '' '' @ right_arrow @ '' '' @ change_state_name (ch_state c) @ ''/''
                     @ vis_name (ch_visibility c)))))))))"

section \<open>The operation log\<close>

text \<open>A dropped workspace comes back as a registration only; its directory may be gone.\<close>

definition note_files_after_wt_drop_undo :: "undo_outcome \<Rightarrow> ('r shell_scheme, cli_error, unit) eff" where
  "note_files_after_wt_drop_undo out s =
     (case (op_kind_of (uo_undone out), op_before (uo_undone out)) of
        (OkWtDrop _ name, RWorkspace _ (Some m) # _) \<Rightarrow>
          if path_exists (parse_path (ws_location m)) s then (Inr (), s)
          else print_lines
                 [''  note: manifest for '' @ name @ '' restored, but its directory at '' @ ws_location m
                    @ '' no longer exists.'',
                  ''        re-materialize with `tig wt make '' @ name @ '' --at '' @ ws_location m @ ''` if you need it.''] s
      | _ \<Rightarrow> (Inr (), s))"

definition cmd_undo :: "'x ext_scheme \<Rightarrow> cli_env \<Rightarrow> ('r shell_scheme, cli_error, unit) eff" where
  "cmd_undo X env =
     bindE (open_log X) (\<lambda>_.
       bindE (storeE (undo_once X (ce_t2 env) (principal_of env))) (\<lambda>outcome.
         case outcome of
           Some out \<Rightarrow>
             bindE (print_lines
                      [''undid '' @ show_op_id (op_id_of (uo_undone out)),
                       ''  was: '' @ one_line X (op_kind_of (uo_undone out)),
                       ''  recorded as '' @ show_op_id (op_id_of (uo_recorded out))]) (\<lambda>_.
               note_files_after_wt_drop_undo out)
         | None \<Rightarrow> print_line ''nothing to undo''))"

definition op_row :: "'x ext_scheme \<Rightarrow> op \<Rightarrow> string" where
  "op_row X p =
     ''op#'' @ pad_right 4 (show_nat (unat (op_id_of p))) @ '' '' @ format_ts (op_ts_ns p) @ ''  ''
       @ pad_right 20 (op_actor p) @ ''  '' @ one_line X (op_kind_of p)"

definition cmd_op_log :: "'x ext_scheme \<Rightarrow> nat \<Rightarrow> ('r shell_scheme, cli_error, unit) eff" where
  "cmd_op_log X limit =
     bindE (open_log X) (\<lambda>_.
       bindE (storeE (readE (log_list X))) (\<lambda>ops.
         if ops = [] then print_line ''no operations recorded''
         else
           bindE (print_lines (map (op_row X) (take limit (rev ops)))) (\<lambda>_.
             if length ops > limit
             then print_line (''... ('' @ show_nat (length ops - limit) @ '' earlier ops not shown)'')
             else retE ())))"

definition cmd_gc :: "'x ext_scheme \<Rightarrow> bool \<Rightarrow> bool \<Rightarrow> ('r shell_scheme, cli_error, unit) eff" where
  "cmd_gc X dry_run ignore_oplog =
     bindE (open_log X) (\<lambda>_.
       bindE (storeE (collect_garbage X \<lparr>gc_dry_run = dry_run, include_oplog_snapshots = \<not> ignore_oplog\<rparr>)) (\<lambda>summary.
         let counts = show_nat (gs_removed summary) @ '' object(s), '' @ show_nat (gs_kept summary) @ '' kept, ''
               @ show_nat (gs_bytes_freed summary) @ '' bytes freed'' in
         bindE (print_line (if gs_dry_run summary then ''dry-run: would remove '' @ counts else ''removed '' @ counts)) (\<lambda>_.
           if ignore_oplog \<and> gs_removed summary > 0
           then eprint_line
                  ''  warning: --ignore-oplog was set; future `tig undo` of a ChangeNew may be incomplete''
           else retE ())))"

end
