(* ===== verification/Cli_Work.thy ===== *)
theory Cli_Work
  imports Cli
begin

text \<open>
  The other commands of \<^verbatim>\<open>tig-cli/src/main.rs\<close>: queries over a snapshot, identities and sealed
  values, restoring a working directory, making and dropping workspaces; and the dispatch.
\<close>

section \<open>Queries\<close>

text \<open>The snapshot named by a prefix, or the current one; any other object is refused.\<close>

definition target_snapshot ::
  "'x ext_scheme \<Rightarrow> workspace \<Rightarrow> string option \<Rightarrow> ('r shell_scheme, cli_error, hash \<times> raw_object) eff" where
  "target_snapshot X w snap_arg =
     bindE (case snap_arg of
              Some p \<Rightarrow> prefix_snapshot X p
            | None \<Rightarrow> bindE (current_changeE NoCurrentChange w) (\<lambda>i. bindE (changeE i) (\<lambda>c. retE (ch_current c)))) (\<lambda>h.
       bindE (rawE X h) (\<lambda>raw.
         if raw_kind raw \<noteq> KSnapshot then throwE (NotASnapshot h (raw_kind raw)) else retE (h, raw)))"

definition print_blame_rows ::
  "'x ext_scheme \<Rightarrow> blame_line list \<Rightarrow> ('r shell_scheme, cli_error, unit) eff" where
  "print_blame_rows X ls =
     forE (\<lambda>(i, b).
         case print_blame_line X b (i + 1) (length (show_nat (length ls))) (author_width ls) of
           Some row \<Rightarrow> print_line row
         | None \<Rightarrow> throwE CliPanic)
       (enumerate 0 ls)"

definition cmd_blame ::
  "'x ext_scheme \<Rightarrow> tools \<Rightarrow> workspace \<Rightarrow> string \<Rightarrow> string option \<Rightarrow> ('r shell_scheme, cli_error, unit) eff" where
  "cmd_blame X T w path snap_arg =
     bindE (target_snapshot X w snap_arg) (\<lambda>(h, _).
       bindE (fsE (readE (\<lambda>s. blame_at X T s (tree_fuel s) path h))) (\<lambda>ls.
         if ls = [] then print_line ''(empty file)'' else print_blame_rows X ls))"

definition grep_row :: "grep_match \<Rightarrow> string" where
  "grep_row m = gm_path m @ '':'' @ show_nat (gm_line_number m) @ '':'' @ gm_line m"

definition cmd_grep ::
  "'x ext_scheme \<Rightarrow> tools \<Rightarrow> workspace \<Rightarrow> string \<Rightarrow> string option \<Rightarrow> grep_options \<Rightarrow>
     ('r shell_scheme, cli_error, unit) eff" where
  "cmd_grep X T w pattern snap_arg opts =
     bindE (target_snapshot X w snap_arg) (\<lambda>(h, raw).
       bindE (liftE (map_err CliCore (decode_snapshot X raw))) (\<lambda>sn.
         bindE (fsE (readE (grep_tree X T (sn_tree sn) pattern opts))) (\<lambda>hits.
           if hits = [] then throwE (CliExit 1) else print_lines (map grep_row hits))))"

definition tree_row :: "'x ext_scheme \<Rightarrow> tree_entry \<Rightarrow> string" where
  "tree_row X e =
     ''  '' @ entry_kind_name (te_kind e) @ '' '' @ pad_left 6 (show_octal (unat (te_mode e))) @ ''  ''
       @ to_hex X (te_target e) @ ''  '' @ te_name e"

definition object_text :: "'x ext_scheme \<Rightarrow> raw_object \<Rightarrow> core_error + string list" where
  "object_text X raw =
     (case raw_kind raw of
        KBlob \<Rightarrow>
          and_then (decode_blob X raw) (\<lambda>b.
            let text = bytes_str (blob_bytes b) in
            Inr [if valid_utf8 text then text else ''(binary, '' @ show_nat (length text) @ '' bytes)''])
      | KTree \<Rightarrow> and_then (decode_tree X raw) (\<lambda>t. Inr (map (tree_row X) (entries t)))
      | KSnapshot \<Rightarrow>
          and_then (decode_snapshot X raw) (\<lambda>sn. Inr
            ((''tree:    '' @ to_hex X (sn_tree sn)) # map (\<lambda>p. ''parent:  '' @ to_hex X p) (sn_parents sn)
              @ [''author:  '' @ sn_author sn, ''time:    '' @ format_ts (sn_timestamp_ns sn)]
              @ (case sn_message sn of Some m \<Rightarrow> [''message: '' @ m] | None \<Rightarrow> [])))
      | k \<Rightarrow> Inr [''(viewer for '' @ kind_name k @ '' not yet implemented)''])"

definition cmd_cat_object :: "'x ext_scheme \<Rightarrow> string \<Rightarrow> ('r shell_scheme, cli_error, unit) eff" where
  "cmd_cat_object X hash_str =
     bindE (liftE (map_err CliCore (from_hex X hash_str))) (\<lambda>h.
       bindE (rawE X h) (\<lambda>raw.
         bindE (print_lines
                  [''kind: '' @ kind_name (raw_kind raw),
                   ''size: '' @ show_nat (length (raw_bytes raw)) @ '' bytes (payload, excl. kind tag)'',
                   ''hash: '' @ to_hex X h, []]) (\<lambda>_.
           bindE (liftE (map_err CliCore (object_text X raw))) print_lines)))"

section \<open>Identities\<close>

fun principal_kind_name :: "principal_kind \<Rightarrow> string" where
  "principal_kind_name PkUser = ''User''"
| "principal_kind_name PkAgent = ''Agent''"
| "principal_kind_name PkBot = ''Bot''"
| "principal_kind_name PkSystem = ''System''"

definition has_secret :: "principal \<Rightarrow> bool" where
  "has_secret p \<longleftrightarrow> pr_secret_hex p \<noteq> None"

definition cmd_identity_new ::
  "'x ext_scheme \<Rightarrow> vault \<Rightarrow> cli_env \<Rightarrow> workspace \<Rightarrow> string \<Rightarrow> ('r shell_scheme, cli_error, unit) eff" where
  "cmd_identity_new X V env w name =
     (let seal_kp = keypair_generate V (ce_seal_seed env); sign_kp = sign_keypair_generate V (ce_sign_seed env) in
      bindE (in_keys (principal_put_new (new_local_full X name PkUser seal_kp sign_kp))) (\<lambda>_.
        print_lines
          [''created identity '' @ name, ''  seal pubkey: '' @ public_key_to_hex X (snd seal_kp),
           ''  sign pubkey: '' @ sign_public_to_hex X (snd sign_kp),
           ''  secrets stored at '' @ show_path (w_tig w) @ ''/vis/keys/'' @ name @ ''.json'',
           ''  (secrets never leave this machine; mint tokens with `tig auth-token`.)'']))"

definition identity_row :: "'x ext_scheme \<Rightarrow> principal \<Rightarrow> string" where
  "identity_row X p =
     pad_right 12 (pr_id p) @ '' '' @ pad_right 10 (principal_kind_name (pr_kind p)) @ '' ''
       @ take 16 (public_key_to_hex X (pr_pubkey p)) @ '' '' @ (if has_secret p then ''[local]'' else ''[remote]'')"

definition cmd_identity_list :: "'x ext_scheme \<Rightarrow> ('r shell_scheme, cli_error, unit) eff" where
  "cmd_identity_list X =
     bindE (readE (\<lambda>s. map_err CliVis (principal_list (dkeys s)))) (\<lambda>ps.
       bindE (print_lines (map (identity_row X) ps)) (\<lambda>_.
         if ps = [] then print_line ''no identities yet; create one with `tig identity new <name>`'' else retE ()))"

definition cmd_identity_show :: "'x ext_scheme \<Rightarrow> string \<Rightarrow> ('r shell_scheme, cli_error, unit) eff" where
  "cmd_identity_show X name =
     bindE (identity name) (\<lambda>p.
       print_lines
         [''id:     '' @ pr_id p, ''kind:   '' @ principal_kind_name (pr_kind p),
          ''pubkey: '' @ public_key_to_hex X (pr_pubkey p),
          ''secret: '' @ (if has_secret p then ''<local>'' else ''<remote '' @ em_dash @ '' pubkey only>'')])"

text \<open>\<^verbatim>\<open>u64::saturating_add\<close>\<close>

definition saturating_add :: "u64 \<Rightarrow> u64 \<Rightarrow> u64" where
  "saturating_add a b = (if uint a + uint b < 2 ^ 64 then a + b else - 1)"

definition cmd_auth_token ::
  "'x ext_scheme \<Rightarrow> vault \<Rightarrow> cli_env \<Rightarrow> string option \<Rightarrow> u64 \<Rightarrow> ('r shell_scheme, cli_error, unit) eff" where
  "cmd_auth_token X V env as_name ttl =
     bindE (requireE IdentityRequired (acting_as env as_name)) (\<lambda>name.
       bindE (identity name) (\<lambda>p.
         bindE (liftE (map_err (NoSigningSecret name) (principal_sign_secret X p))) (\<lambda>secret.
           bindE (print_line (sign_token V \<lparr>cl_sub = name, cl_exp = saturating_add (ce_seconds env) ttl\<rparr> secret)) (\<lambda>_.
             eprint_line (''  (sub: '' @ name @ '', expires in '' @ show_nat (unat ttl) @ ''s)'')))))"

section \<open>Sealed values\<close>

definition seal_plaintext ::
  "cli_env \<Rightarrow> path option \<Rightarrow> string option \<Rightarrow> ('r shell_scheme, cli_error, bytes) eff" where
  "seal_plaintext env from_file inline_data =
     (case (from_file, inline_data) of
        (Some p, _) \<Rightarrow> readE (read_file p)
      | (None, Some d) \<Rightarrow> retE (str_bytes d)
      | (None, None) \<Rightarrow> requireE CliIo (ce_stdin env))"

text \<open>The path is the associated data as it was typed, not in the form the tree gives it.\<close>

definition cmd_seal ::
  "'x ext_scheme \<Rightarrow> vault \<Rightarrow> cli_env \<Rightarrow> workspace \<Rightarrow> string \<Rightarrow> string list \<Rightarrow> path option \<Rightarrow> string option \<Rightarrow>
     ('r shell_scheme, cli_error, unit) eff" where
  "cmd_seal X V env w path recipient_names from_file inline_data =
     bindE (readE (\<lambda>s. traverse (\<lambda>n. map_err CliVis (principal_get n (dkeys s))) recipient_names)) (\<lambda>ps.
       bindE (seal_plaintext env from_file inline_data) (\<lambda>plaintext.
         bindE (liftE (map_err CliVis
                  (seal V (ce_eph_seed env) (ce_data_key env) (map (ce_wrap_nonce env) [0..<length ps])
                     (ce_payload_nonce env) plaintext (map pr_pubkey ps) (str_bytes path)))) (\<lambda>sl.
           bindE (current_changeE NoCurrentChange w) (\<lambda>i.
             bindE (changeE i) (\<lambda>c.
               bindE (snapshotE X (ch_current c)) (\<lambda>sn.
                 bindE (fsE (write_sealed_at_path X (sn_tree sn) path sl)) (\<lambda>new_tree.
                   bindE (open_log X) (\<lambda>_.
                     bindE (fsE (snap_change_directly X (ce_t1 env) (ce_t2 env) i new_tree
                              (snap_options env (Some (''seal '' @ path))))) (\<lambda>outcome.
                       print_line
                         (case outcome of
                            Snapped h _ _ _ \<Rightarrow> ''sealed '' @ path @ '' for '' @ show_nat (length recipient_names)
                              @ '' recipient(s); snap '' @ short_hash X h
                          | Unchanged _ \<Rightarrow> ''sealed '' @ path @ '' (no tree change '' @ em_dash
                              @ '' bytes match existing entry)''))))))))))"

definition cmd_reveal ::
  "'x ext_scheme \<Rightarrow> vault \<Rightarrow> cli_env \<Rightarrow> workspace \<Rightarrow> string \<Rightarrow> string option \<Rightarrow> ('r shell_scheme, cli_error, unit) eff" where
  "cmd_reveal X V env w path as_name =
     bindE (requireE IdentityRequired (acting_as env as_name)) (\<lambda>name.
       bindE (identity name) (\<lambda>p.
         bindE (liftE (map_err CliVis (principal_secret X p))) (\<lambda>secret.
           bindE (current_changeE NoCurrentChange w) (\<lambda>i.
             bindE (changeE i) (\<lambda>c.
               bindE (snapshotE X (ch_current c)) (\<lambda>sn.
                 let parts = filter (\<lambda>q. q \<noteq> []) (split_char CHR ''/'' path) in
                 if parts = [] then throwE EmptySealedPath
                 else
                   bindE (fsE (readE (lookup_entry X (sn_tree sn) parts))) (\<lambda>e.
                     if te_kind e \<noteq> ESealed then throwE (NotASealedEntry path (te_kind e))
                     else
                       bindE (rawE X (te_target e)) (\<lambda>raw.
                         bindE (liftE (map_err CliCore (decode_sealed X raw))) (\<lambda>sl.
                           bindE (liftE (map_err CliVis (unseal V sl secret (str_bytes path)))) (\<lambda>plaintext.
                             updE (\<lambda>s. s\<lparr>sh_out := sh_out s @ bytes_str plaintext\<rparr>)))))))))))"

section \<open>Restoring\<close>

definition sealed_note :: "nat \<Rightarrow> string" where
  "sealed_note n =
     ''  note: '' @ show_nat n @ '' sealed entr'' @ (if n = 1 then ''y'' else ''ies'')
       @ '' decrypted to plaintext on disk. Re-seal before snap with `tig seal <path> --recipients ...` ''
       @ ''or the next snap will store them as regular blobs.''"

definition cmd_restore ::
  "'x ext_scheme \<Rightarrow> vault \<Rightarrow> cli_env \<Rightarrow> workspace \<Rightarrow> string \<Rightarrow> bool \<Rightarrow> string option \<Rightarrow>
     ('r shell_scheme, cli_error, unit) eff" where
  "cmd_restore X V env w snap_prefix force as_name =
     bindE (open_log X) (\<lambda>_.
       bindE (target_snapshot X w (Some snap_prefix)) (\<lambda>(target, raw).
         bindE (liftE (map_err CliCore (decode_snapshot X raw))) (\<lambda>_.
           bindE (current_changeE NoCurrentChange w) (\<lambda>i.
             bindE (changeE i) (\<lambda>c.
               bindE (resolve_unseal_identity X env as_name) (\<lambda>secret.
                 bindE (in_workdir (workdir w)
                          (restore_tree_into X
                             \<lparr>ro_force = force,
                              ro_materialize = \<lparr>mo_unsealer = unsealer_for V env secret, mo_on_unsealable = OnError\<rparr>\<rparr>
                             (show_path (workdir w)) target (ch_current c))) (\<lambda>outcome.
                   bindE (if rs_sealed_unsealed (rt_render outcome) > 0
                          then eprint_line (sealed_note (rs_sealed_unsealed (rt_render outcome))) else retE ()) (\<lambda>_.
                     bindE (print_line (''  restored '' @ show_nat (rs_files (rt_render outcome)) @ '' files (''
                              @ show_nat (rs_bytes (rt_render outcome)) @ '' bytes), removed ''
                              @ show_nat (rt_top_level_removed outcome) @ '' top-level entries'')) (\<lambda>_.
                       bindE (take_snap X env
                                ((snap_options env (Some (''restore '' @ short_hash X target)))\<lparr>so_force := True\<rparr>) w)
                         (\<lambda>(snap_outcome, _).
                           case snap_outcome of
                             Snapped h _ c' _ \<Rightarrow>
                               print_lines
                                 [''  snap '' @ short_hash X h @ ''  restore '' @ short_hash X target,
                                  ''    change '' @ ch_id c' @ '' now at '' @ short_hash X (ch_current c')]
                           | Unchanged _ \<Rightarrow>
                               print_line (''  (no change recorded '' @ em_dash
                                 @ '' workdir already matched current snapshot)'')))))))))))"

section \<open>Workspaces\<close>

definition is_valid_workspace_name :: "string \<Rightarrow> bool" where
  "is_valid_workspace_name name \<longleftrightarrow>
     name \<noteq> [] \<and> CHR ''/'' \<notin> set name \<and> CHR 0x00 \<notin> set name \<and> name \<noteq> ''.'' \<and> name \<noteq> ''..''"

definition pick_donor ::
  "workspace \<Rightarrow> change_id \<Rightarrow> 'r shell_scheme \<Rightarrow> cli_error + path option" where
  "pick_donor w target s =
     (if current_change_id (w_kind w) s = Some target then Inr (Some (workdir w))
      else and_then (map_err CliStore (ws_list s)) (\<lambda>ms.
        case List.find (\<lambda>m. ws_change_id m = target \<and> path_exists (parse_path (ws_location m)) s) ms of
          Some m \<Rightarrow> Inr (Some (parse_path (ws_location m)))
        | None \<Rightarrow>
            Inr (case w_kind w of
                   WMain \<Rightarrow> None
                 | WSecondary _ \<Rightarrow> if head s = Some target then Some (butlast (w_tig w)) else None)))"

text \<open>
  The copy reads the donor's entries after the destination was created. Where the destination
  lies inside an entry that is copied, the copier descends into its own output without end and
  fails when the paths are too long; what that leaves behind is not modelled.
\<close>

definition copies_itself :: "path \<Rightarrow> path \<Rightarrow> bool" where
  "copies_itself donor dest \<longleftrightarrow>
     length donor < length dest \<and> take (length donor) dest = donor \<and> \<not> is_workspace_internal (lossy (dest ! length donor))"

definition clone_workspace ::
  "clone_engine \<Rightarrow> path \<Rightarrow> path \<Rightarrow> ('r shell_scheme, cli_error, materialize_outcome) eff" where
  "clone_workspace engine donor dest s =
     (if copies_itself donor dest
      then (Inl (CliFs FIo), s\<lparr>sh_disk := set_node dest (Some (WDir [])) (sh_disk s)\<rparr>)
      else
        case materialize_from_workspace engine
               (case node_at donor (set_node dest (Some (WDir [])) (sh_disk s)) of Some (WDir ch) \<Rightarrow> Some ch | _ \<Rightarrow> None)
               (node_at dest (sh_disk s)) of
          (r, v) \<Rightarrow> (map_err CliFs r, s\<lparr>sh_disk := set_node dest v (sh_disk s)\<rparr>))"

definition render_workspace ::
  "'x ext_scheme \<Rightarrow> materialize_options \<Rightarrow> hash \<Rightarrow> path \<Rightarrow> ('r shell_scheme, cli_error, materialize_outcome) eff" where
  "render_workspace X opts snap dest s =
     (case materialize_change_into X s opts (show_path dest) snap (node_at dest (sh_disk s)) of
        (r, v) \<Rightarrow> (map_err CliFs r, s\<lparr>sh_disk := set_node dest v (sh_disk s)\<rparr>))"

definition materialize_workspace ::
  "'x ext_scheme \<Rightarrow> vault \<Rightarrow> cli_env \<Rightarrow> change_id \<Rightarrow> secret_key option \<Rightarrow> string option \<Rightarrow> path option \<Rightarrow> path \<Rightarrow>
     ('r shell_scheme, cli_error, materialize_outcome) eff" where
  "materialize_workspace X V env source_change secret as_name donor dest =
     (case donor of
        Some d \<Rightarrow>
          bindE (clone_workspace (ce_engine env) d dest) (\<lambda>outcome.
            bindE (print_line (''  cloned from '' @ show_path d @ '' via '' @ ce_name (ce_engine env))) (\<lambda>_.
              retE outcome))
      | None \<Rightarrow>
          bindE (changeE source_change) (\<lambda>c.
            bindE (render_workspace X \<lparr>mo_unsealer = unsealer_for V env secret, mo_on_unsealable = OnError\<rparr>
                     (ch_current c) dest) (\<lambda>outcome.
              bindE (print_line
                       (if secret \<noteq> None
                        then ''  rendered from objects, decrypting sealed entries as ''
                          @ (case acting_as env as_name of Some n \<Rightarrow> n | None \<Rightarrow> ''?'')
                        else ''  rendered from objects (no donor workspace available)'')) (\<lambda>_.
                retE outcome))))"

definition workspace_ready :: "workspace_manifest \<Rightarrow> materialize_outcome \<Rightarrow> ('r shell_scheme, cli_error, unit) eff" where
  "workspace_ready m outcome =
     (let ready = ''  workspace '' @ ws_name m @ '' ('' @ ws_id m @ '') ready at '' @ ws_location m in
      case outcome of
        Cloned engine \<Rightarrow> print_line (ready @ '' [engine: '' @ engine @ '']'')
      | Rendered stats \<Rightarrow>
          bindE (print_line (ready @ '' ['' @ show_nat (rs_files stats) @ '' files, '' @ show_nat (rs_bytes stats) @ '' bytes]''))
            (\<lambda>_. if rs_sealed_unsealed stats > 0 then eprint_line (sealed_note (rs_sealed_unsealed stats)) else retE ()))"

definition cmd_wt_make ::
  "'x ext_scheme \<Rightarrow> vault \<Rightarrow> cli_env \<Rightarrow> workspace \<Rightarrow> string \<Rightarrow> path option \<Rightarrow> string option \<Rightarrow>
     ('r shell_scheme, cli_error, unit) eff" where
  "cmd_wt_make X V env w name at_path as_name =
     (if \<not> is_valid_workspace_name name then throwE (InvalidWorkspaceName name)
      else
        bindE (current_changeE NothingCheckedOut w) (\<lambda>source_change.
          let dest = (case at_path of Some p \<Rightarrow> p | None \<Rightarrow> workdir w @ [default_worktree_dir, name]) in
          bindE (readE (\<lambda>s. if path_exists dest s then Inl (DestinationExists dest) else Inr ())) (\<lambda>_.
            bindE (resolve_unseal_identity X env as_name) (\<lambda>secret.
              bindE (if secret \<noteq> None then retE None else readE (pick_donor w source_change)) (\<lambda>donor.
                bindE (create_dir_all (butlast dest)) (\<lambda>_.
                  bindE (materialize_workspace X V env source_change secret as_name donor dest) (\<lambda>outcome.
                    let m = \<lparr>ws_id = ce_wid env, ws_name = name, ws_location = show_path dest,
                             ws_change_id = source_change, ws_created_ns = ce_now env\<rparr> in
                    bindE (storeE (ws_put m)) (\<lambda>_.
                      bindE (write_node (dest @ [marker_file])
                               (WFile (ce_marker_json env \<lparr>mk_repo = show_path (w_tig w), mk_workspace_id = ws_id m\<rparr>) False)) (\<lambda>_.
                        bindE (open_log X) (\<lambda>_.
                          bindE (appendE X env (OkWtMake (ws_id m) (ws_name m))
                                   [RWorkspace (ws_id m) None] [RWorkspace (ws_id m) (Some m)]) (\<lambda>_.
                            workspace_ready m outcome)))))))))))"

definition workspace_row :: "workspace_id option \<Rightarrow> workspace_manifest \<Rightarrow> string" where
  "workspace_row current m =
     (if current = Some (ws_id m) then ''*'' else '' '') @ '' '' @ ws_name m @ ''    '' @ ws_location m @ ''  ''
       @ right_arrow @ '' change '' @ ws_change_id m"

definition cmd_wt_list :: "workspace \<Rightarrow> ('r shell_scheme, cli_error, unit) eff" where
  "cmd_wt_list w =
     bindE (storeE (readE ws_list)) (\<lambda>ms.
       bindE (readE (\<lambda>s. Inr (head s))) (\<lambda>main_head.
         print_lines
           ((''* (main)  '' @ show_path (butlast (w_tig w)) @ ''  '' @ right_arrow @ '' change ''
               @ (case main_head of Some i \<Rightarrow> i | None \<Rightarrow> ''<none>''))
            # map (workspace_row (workspace_id_of (w_kind w))) ms)))"

definition cmd_wt_drop ::
  "'x ext_scheme \<Rightarrow> cli_env \<Rightarrow> workspace \<Rightarrow> string \<Rightarrow> bool \<Rightarrow> ('r shell_scheme, cli_error, unit) eff" where
  "cmd_wt_drop X env w name keep_files =
     bindE (storeE (readE (ws_find_by_name name))) (\<lambda>found.
       bindE (requireE (NoWorkspaceNamed name) found) (\<lambda>m.
         if workspace_id_of (w_kind w) = Some (ws_id m) then throwE DropCurrentWorkspace
         else
           bindE (readE (\<lambda>s. Inr (path_exists (parse_path (ws_location m)) s))) (\<lambda>there.
             bindE (if \<not> keep_files \<and> there then remove_dir_all (parse_path (ws_location m)) else retE ()) (\<lambda>_.
               bindE (storeE (ws_delete (ws_id m))) (\<lambda>_.
                 bindE (open_log X) (\<lambda>_.
                   bindE (appendE X env (OkWtDrop (ws_id m) (ws_name m))
                            [RWorkspace (ws_id m) (Some m)] [RWorkspace (ws_id m) None]) (\<lambda>_.
                     bindE (print_line (''dropped workspace '' @ ws_name m @ '' ('' @ ws_id m @ '')'')) (\<lambda>_.
                       if keep_files then print_line (''  files left at '' @ ws_location m) else retE ()))))))))"

section \<open>Dispatch\<close>

datatype change_cmd =
    CmdNew string
  | CmdList
  | CmdSetState string "string option"
  | CmdSetVisibility string "string option"
  | CmdPublish "string option"

datatype wt_cmd = CmdMake string "path option" "string option" | CmdWtList | CmdDrop string bool

datatype identity_cmd = CmdIdentityNew string | CmdIdentityList | CmdIdentityShow string

datatype cmd =
    CmdSnap "string option"
  | CmdLog bool bool
  | CmdStatus
  | CmdChange change_cmd
  | CmdWt wt_cmd
  | CmdUndo
  | CmdOpLog nat
  | CmdIdentity identity_cmd
  | CmdSeal string "string list" "path option" "string option"
  | CmdReveal string "string option"
  | CmdDraft string
  | CmdDiff "string option" bool "string list"
  | CmdRestore string bool "string option"
  | CmdAuthToken "string option" u64
  | CmdBlame string "string option"
  | CmdGrep string "string option" grep_options
  | CmdCatObject string
  | CmdGc bool bool

text \<open>\<^verbatim>\<open>init\<close> and \<^verbatim>\<open>watch\<close>, which do not run inside one workspace step, stand apart.\<close>

fun run_cmd ::
  "'x ext_scheme \<Rightarrow> tools \<Rightarrow> vault \<Rightarrow> cli_env \<Rightarrow> workspace \<Rightarrow> cmd \<Rightarrow> ('r shell_scheme, cli_error, unit) eff" where
  "run_cmd X T V env w (CmdSnap message) = cmd_snap X env w message"
| "run_cmd X T V env w (CmdLog all patch) = cmd_log X T w all patch"
| "run_cmd X T V env w CmdStatus = cmd_status X w"
| "run_cmd X T V env w (CmdChange (CmdNew description)) = cmd_change_new X env w description"
| "run_cmd X T V env w (CmdChange CmdList) = cmd_change_list w"
| "run_cmd X T V env w (CmdChange (CmdSetState state i)) = cmd_change_transition X T env w i (Some state) None"
| "run_cmd X T V env w (CmdChange (CmdSetVisibility vis i)) = cmd_change_transition X T env w i None (Some vis)"
| "run_cmd X T V env w (CmdChange (CmdPublish i)) =
     cmd_change_transition X T env w i (Some ''working'') (Some ''public'')"
| "run_cmd X T V env w (CmdDraft description) = cmd_draft X env w description"
| "run_cmd X T V env w (CmdDiff rng no_hunks paths) = cmd_diff X T w rng no_hunks paths"
| "run_cmd X T V env w (CmdRestore snap_prefix force as_name) = cmd_restore X V env w snap_prefix force as_name"
| "run_cmd X T V env w (CmdBlame path snap) = cmd_blame X T w path snap"
| "run_cmd X T V env w (CmdGrep pattern snap opts) = cmd_grep X T w pattern snap opts"
| "run_cmd X T V env w (CmdAuthToken as_name ttl) = cmd_auth_token X V env as_name ttl"
| "run_cmd X T V env w (CmdWt (CmdMake name at_path as_name)) = cmd_wt_make X V env w name at_path as_name"
| "run_cmd X T V env w (CmdWt CmdWtList) = cmd_wt_list w"
| "run_cmd X T V env w (CmdWt (CmdDrop name keep_files)) = cmd_wt_drop X env w name keep_files"
| "run_cmd X T V env w CmdUndo = cmd_undo X env"
| "run_cmd X T V env w (CmdOpLog limit) = cmd_op_log X limit"
| "run_cmd X T V env w (CmdIdentity (CmdIdentityNew name)) = cmd_identity_new X V env w name"
| "run_cmd X T V env w (CmdIdentity CmdIdentityList) = cmd_identity_list X"
| "run_cmd X T V env w (CmdIdentity (CmdIdentityShow name)) = cmd_identity_show X name"
| "run_cmd X T V env w (CmdSeal path recipients from_file data) = cmd_seal X V env w path recipients from_file data"
| "run_cmd X T V env w (CmdReveal path as_name) = cmd_reveal X V env w path as_name"
| "run_cmd X T V env w (CmdCatObject hash_str) = cmd_cat_object X hash_str"
| "run_cmd X T V env w (CmdGc dry_run ignore_oplog) = cmd_gc X dry_run ignore_oplog"

definition cmd_init :: "path \<Rightarrow> host \<Rightarrow> (cli_error + string) \<times> host" where
  "cmd_init cwd h =
     (case repo_init cwd h of
        (Inl e, h') \<Rightarrow> (Inl (CliStore e), h')
      | (Inr _, h') \<Rightarrow> (Inr (''Initialized empty tig repository in '' @ show_path (cwd @ [tig_dir])), h'))"

end
