(* ===== verification/Watch.thy ===== *)
theory Watch
  imports Cli_Work
begin

text \<open>
  \<^verbatim>\<open>tig-fs/src/watch.rs\<close>: snapshots on every change of the working directory, and \<^verbatim>\<open>cmd_watch\<close>.
  The loop's inputs come from outside, so a run is given by its rounds: in each, whether the
  stop flag was up, what others did to the disk and the repository since the last round, what
  the channel delivered, and whether the write lock could be taken. The rounds may end before the loop does.
\<close>

section \<open>Rounds and events\<close>

datatype event_kind = EvCreate | EvModify | EvRemove | EvOther

datatype watch_recv =
    Batch "(event_kind \<times> path list) list"
  | NotifyErrors "string list"
  | RecvTimeout
  | Disconnected

record 's watch_round =
  wr_stop :: bool
  wr_others :: "'s \<Rightarrow> 's"
  wr_recv :: watch_recv
  wr_lock :: "store_error option"
  wr_t1 :: u64
  wr_t2 :: u64
  wr_cid :: change_id

datatype watch_event =
    WStarted path
  | WSnap snap_outcome
  | WIdle
  | WSnapError fs_error
  | WNotifyError string
  | WStopped

record watch_options =
  wo_debounce_ms :: nat
  wo_poll_interval_ms :: nat

definition watch_options_default :: watch_options where
  "watch_options_default = \<lparr>wo_debounce_ms = 750, wo_poll_interval_ms = 250\<rparr>"

section \<open>One batch\<close>

text \<open>\<^verbatim>\<open>p.starts_with(&tig_dir)\<close> compares whole components.\<close>

definition touches_workdir :: "path \<Rightarrow> (event_kind \<times> path list) list \<Rightarrow> bool" where
  "touches_workdir tig evs \<longleftrightarrow> list_ex (\<lambda>e. list_ex (\<lambda>p. take (length tig) p \<noteq> tig) (snd e)) evs"

definition kinds_meaningful :: "(event_kind \<times> path list) list \<Rightarrow> bool" where
  "kinds_meaningful evs \<longleftrightarrow> list_ex (\<lambda>e. fst e \<in> {EvCreate, EvModify, EvRemove}) evs"

definition watch_snap ::
  "'x ext_scheme \<Rightarrow> snap_options \<Rightarrow> path \<Rightarrow> 'r shell_scheme watch_round \<Rightarrow> workspace_kind \<Rightarrow>
     ('r shell_scheme, fs_error, snap_outcome \<times> workspace_kind) eff" where
  "watch_snap X opts dir r kind s =
     (case wr_lock r of
        Some e \<Rightarrow> (Inl (FStore e), s)
      | None \<Rightarrow> snap_now X (wr_t1 r) (wr_t2 r) (wr_cid r) opts (show_path dir) (node_at dir (sh_disk s)) kind s)"

section \<open>The loop\<close>

text \<open>
  The result: the events in order, whether the loop has ended, the handle and the state. An error
  of a snapshot is an event; the loop goes on with the handle as it was.
\<close>

fun watch_loop ::
  "'x ext_scheme \<Rightarrow> snap_options \<Rightarrow> path \<Rightarrow> path \<Rightarrow> 'r shell_scheme watch_round list \<Rightarrow> workspace_kind \<Rightarrow> 'r shell_scheme \<Rightarrow>
     watch_event list \<times> bool \<times> workspace_kind \<times> 'r shell_scheme" where
  "watch_loop X opts dir tig [] kind s = ([], False, kind, s)"
| "watch_loop X opts dir tig (r # rs) kind s0 =
     (let s = wr_others r s0 in
      if wr_stop r then ([], True, kind, s)
      else
        case wr_recv r of
          Batch evs \<Rightarrow>
            if \<not> (touches_workdir tig evs \<and> kinds_meaningful evs)
            then (case watch_loop X opts dir tig rs kind s of (es, res) \<Rightarrow> (WIdle # es, res))
            else
              (case watch_snap X opts dir r kind s of
                 (Inr (out, kind'), t) \<Rightarrow>
                   (case watch_loop X opts dir tig rs kind' t of (es, res) \<Rightarrow> (WSnap out # es, res))
               | (Inl e, t) \<Rightarrow>
                   (case watch_loop X opts dir tig rs kind t of (es, res) \<Rightarrow> (WSnapError e # es, res)))
        | NotifyErrors errs \<Rightarrow>
            (case watch_loop X opts dir tig rs kind s of (es, res) \<Rightarrow> (map WNotifyError errs @ es, res))
        | RecvTimeout \<Rightarrow> watch_loop X opts dir tig rs kind s
        | Disconnected \<Rightarrow> ([], True, kind, s))"

definition watch_and_snap ::
  "'x ext_scheme \<Rightarrow> snap_options \<Rightarrow> workspace \<Rightarrow> 'r shell_scheme watch_round list \<Rightarrow> 'r shell_scheme \<Rightarrow>
     watch_event list \<times> bool \<times> workspace_kind \<times> 'r shell_scheme" where
  "watch_and_snap X opts w rs s =
     (case watch_loop X opts (workdir w) (w_tig w) rs (w_kind w) s of
        (es, ended, kind, t) \<Rightarrow> (WStarted (workdir w) # es @ (if ended then [WStopped] else []), ended, kind, t))"

section \<open>\<^verbatim>\<open>tig watch\<close>\<close>

definition print_outcome_one_liner :: "'x ext_scheme \<Rightarrow> snap_outcome \<Rightarrow> string list" where
  "print_outcome_one_liner X outcome =
     (case outcome of Snapped h _ _ _ \<Rightarrow> [''  snap '' @ short_hash X h @ ''  (auto)''] | Unchanged _ \<Rightarrow> [])"

definition watch_line :: "'x ext_scheme \<Rightarrow> string \<Rightarrow> nat \<Rightarrow> watch_event \<Rightarrow> string list" where
  "watch_line X label debounce_ms ev =
     (case ev of
        WStarted d \<Rightarrow>
          [''watching '' @ show_path d @ '' ['' @ label @ ''] (debounce '' @ show_nat debounce_ms @ ''ms) '' @ em_dash
             @ '' ctrl-c to stop'']
      | WSnap outcome \<Rightarrow> print_outcome_one_liner X outcome
      | WStopped \<Rightarrow> [''stopped.'']
      | _ \<Rightarrow> [])"

text \<open>The text of an error, which goes to standard error, is the parameter \<open>err\<close>.\<close>

definition watch_err_line :: "(fs_error \<Rightarrow> string) \<Rightarrow> watch_event \<Rightarrow> string list" where
  "watch_err_line err ev =
     (case ev of
        WSnapError e \<Rightarrow> [''  ! '' @ err e]
      | WNotifyError e \<Rightarrow> [''  ! '' @ e]
      | _ \<Rightarrow> [])"

definition cmd_watch ::
  "'x ext_scheme \<Rightarrow> cli_env \<Rightarrow> (fs_error \<Rightarrow> string) \<Rightarrow> workspace \<Rightarrow> nat \<Rightarrow> 'r shell_scheme watch_round list \<Rightarrow>
     ('r shell_scheme, cli_error, bool) eff" where
  "cmd_watch X env err w debounce_ms rs =
     bindE (open_log X) (\<lambda>_ s.
       case watch_and_snap X (snap_options env None) w rs s of
         (es, ended, _, t) \<Rightarrow>
           (Inr ended, t\<lparr>sh_out := sh_out t @ written_lines (concat (map (watch_line X (id_for_display (w_kind w)) debounce_ms) es)),
                        sh_err := sh_err t @ written_lines (concat (map (watch_err_line err) es))\<rparr>))"

end
