(* ===== verification/Shell_Props.thy ===== *)
theory Shell_Props
  imports Watch Moves
begin

text \<open>
  Rules for reasoning about commands: when a helper of the shell succeeds, what printing leaves
  alone, and what a snapshot taken by a command establishes.
\<close>

section \<open>When a helper succeeds\<close>

lemma storeE_Inr [eff_iffs]: "storeE m s = (Inr a, t) \<longleftrightarrow> m s = (Inr a, t)"
  by (simp add: storeE_def mapE_Inr_iff)

lemma fsE_Inr [eff_iffs]: "fsE m s = (Inr a, t) \<longleftrightarrow> m s = (Inr a, t)"
  by (simp add: fsE_def mapE_Inr_iff)

lemma requireE_Inr [eff_iffs]: "requireE e a s = (Inr b, t) \<longleftrightarrow> a = Some b \<and> t = s"
  by (auto simp: requireE_def liftE_def)

lemma print_iffs [eff_iffs]:
  "print_line l s = (r, t) \<longleftrightarrow> r = Inr () \<and> t = s\<lparr>sh_out := sh_out s @ l @ [newline]\<rparr>"
  "print_lines ls s = (r, t) \<longleftrightarrow> r = Inr () \<and> t = s\<lparr>sh_out := sh_out s @ written_lines ls\<rparr>"
  "eprint_line l s = (r, t) \<longleftrightarrow> r = Inr () \<and> t = s\<lparr>sh_err := sh_err s @ l @ [newline]\<rparr>"
  by (auto simp: print_line_def print_lines_def eprint_line_def updE_def)

lemma identity_Inr [eff_iffs]: "identity n s = (Inr p, t) \<longleftrightarrow> principal_get n (dkeys s) = Inr p \<and> t = s"
  by (auto simp: identity_def readE_def)

lemma current_changeE_Inr [eff_iffs]:
  "current_changeE e w s = (Inr i, t) \<longleftrightarrow> current_change_id (w_kind w) s = Some i \<and> t = s"
  by (auto simp: current_changeE_def eff_iffs)

lemma changeE_Inr [eff_iffs]: "changeE i s = (Inr c, t) \<longleftrightarrow> get_change i s = Inr c \<and> t = s"
  by (auto simp: changeE_def eff_iffs)

lemma rawE_Inr [eff_iffs]: "rawE X h s = (Inr raw, t) \<longleftrightarrow> obj_get X h s = Inr raw \<and> t = s"
  by (auto simp: rawE_def eff_iffs)

lemma snapshotE_Inr [eff_iffs]: "snapshotE X h s = (Inr sn, t) \<longleftrightarrow> load_snapshot X h s = Inr sn \<and> t = s"
  by (auto simp: snapshotE_def load_snapshot_def and_then_Inr_iff eff_iffs)

lemma putE_Inr [eff_iffs]: "putE X enc s = (Inr h, t) \<longleftrightarrow> store_raw X enc s = (Inr h, t)"
  by (auto simp: putE_def store_raw_def eff_iffs)

lemma open_log_Inr [eff_iffs]: "open_log X s = (Inr u, t) \<longleftrightarrow> log_open X s = (Inr u, t)"
  by (simp add: open_log_def eff_iffs)

lemma prefix_snapshot_Inr [eff_iffs]: "prefix_snapshot X p s = (Inr h, t) \<longleftrightarrow> resolve_prefix X p s = Inr h \<and> t = s"
  by (auto simp: prefix_snapshot_def eff_iffs)

lemma take_snap_Inr [eff_iffs]:
  "take_snap X env opts w s = (Inr a, t) \<longleftrightarrow>
     snap_now X (ce_t1 env) (ce_t2 env) (ce_cid env) opts (show_path (workdir w))
       (node_at (workdir w) (sh_disk s)) (w_kind w) s = (Inr a, t)"
  by (simp add: take_snap_def eff_iffs)

lemma scan_workdir_Inr [eff_iffs]:
  "scan_workdir X w s = (Inr h, t) \<longleftrightarrow>
     scan X scan_options_default (show_path (workdir w)) (node_at (workdir w) (sh_disk s)) s = (Inr h, t)"
  by (simp add: scan_workdir_def eff_iffs)

section \<open>What printing leaves alone\<close>

lemma loads_agree:
  fixes s :: "'a objects_dir_scheme" and t :: "'b objects_dir_scheme"
  assumes "ofiles t = ofiles s"
  shows "load_tree X h t = load_tree X h s" "load_blob X h t = load_blob X h s" "load_snapshot X h t = load_snapshot X h s"
    "obj_get X h t = obj_get X h s" "lookup_entry X h parts t = lookup_entry X h parts s"
proof -
  show l: "load_tree X h t = load_tree X h s" "load_blob X h t = load_blob X h s" "load_snapshot X h t = load_snapshot X h s"
    "obj_get X h t = obj_get X h s" for h
    using assms by (simp_all add: load_tree_def load_blob_def load_snapshot_def obj_get_def)
  have "lookup_parts X t pre u parts = lookup_parts X s pre u parts" for pre u
    by (induction parts arbitrary: pre u) (simp_all add: l(1) and_then_def split: option.split sum.split)
  then show "lookup_entry X h parts t = lookup_entry X h parts s" by (simp add: lookup_entry_def l(1))
qed

definition same_but_text :: "'r shell_scheme \<Rightarrow> 'r shell_scheme \<Rightarrow> bool" where
  "same_but_text s t \<longleftrightarrow>
     ofiles t = ofiles s \<and> owritten t = owritten s \<and> rchanges t = rchanges s \<and> rbookmarks t = rbookmarks s
     \<and> rhead t = rhead s \<and> rworkspaces t = rworkspaces s \<and> rlog t = rlog s \<and> slog t = slog s \<and> dkeys t = dkeys s
     \<and> sh_disk t = sh_disk s"

lemma text_frames [simp]:
  "same_but_text s (s\<lparr>sh_out := x\<rparr>)" "same_but_text s (s\<lparr>sh_err := x\<rparr>)" "same_but_text s s"
  by (simp_all add: same_but_text_def)

lemma same_but_text_trans: "same_but_text s t \<Longrightarrow> same_but_text t u \<Longrightarrow> same_but_text s u"
  by (simp add: same_but_text_def)

lemma text_only:
  assumes "same_but_text s t"
  shows "load_tree X h t = load_tree X h s" "load_blob X h t = load_blob X h s" "load_snapshot X h t = load_snapshot X h s"
    "obj_get X h t = obj_get X h s" "lookup_entry X h parts t = lookup_entry X h parts s" "get_change i t = get_change i s"
    "current_change_id k t = current_change_id k s" "store_ok X t = store_ok X s" "collision_free X t = collision_free X s"
    "read_all X t = read_all X s" "refs_view t = refs_view s" "dkeys t = dkeys s" "sh_disk t = sh_disk s"
    "store_grows u t = store_grows u s" "store_grows t u = store_grows s u"
proof -
  have f: "ofiles t = ofiles s" "owritten t = owritten s" using assms by (simp_all add: same_but_text_def)
  show "load_tree X h t = load_tree X h s" "load_blob X h t = load_blob X h s" "load_snapshot X h t = load_snapshot X h s"
    "obj_get X h t = obj_get X h s" "lookup_entry X h parts t = lookup_entry X h parts s"
    by (rule loads_agree [OF f(1)])+
  show "store_ok X t = store_ok X s" by (rule store_ok_same [OF f])
  show "collision_free X t = collision_free X s" using f by (simp add: collision_free_def)
  have g: "rchanges t = rchanges s" "rhead t = rhead s" "rlog t = rlog s" "dkeys t = dkeys s" "sh_disk t = sh_disk s"
    using assms by (simp_all add: same_but_text_def)
  then show "dkeys t = dkeys s" "sh_disk t = sh_disk s" by simp_all
  show "get_change i t = get_change i s" "read_all X t = read_all X s" using g by (simp_all add: get_change_def read_all_def)
  show "current_change_id k t = current_change_id k s" using g by (cases k) (simp_all add: current_change_id_def head_def)
  show "refs_view t = refs_view s" using assms by (intro refs_view_same) (simp add: same_but_text_def same_refs_def)
  show "store_grows u t = store_grows u s" "store_grows t u = store_grows s u"
    by (rule store_grows_same [OF f], rule store_grows_from [OF f])
qed

section \<open>The log as a command finds it\<close>

text \<open>Every command opens the log anew, so the handle a state carries from before does not matter.\<close>

definition log_reads :: "'x ext_scheme \<Rightarrow> 'r repo_scheme \<Rightarrow> op list \<Rightarrow> bool" where
  "log_reads X s ops \<longleftrightarrow> read_all X s = Inr ops \<and> numbered ops (of_nat (length ops))"

lemma log_reads_open:
  assumes "log_reads X s ops" and "log_open X s = (Inr u, t)"
  shows "log_ok X t ops" and "same_refs s t" and "\<exists>n. slog t = FileLog n" and "log_reads X t ops"
proof -
  obtain t' where t': "log_open X s = (Inr (), t')" "log_ok X t' ops" "same_refs s t'"
    using log_open_ok [of X s ops "of_nat (length ops)"] assms(1) by (auto simp: log_reads_def)
  then show "log_ok X t ops" "same_refs s t" using assms(2) by simp_all
  show n: "\<exists>n. slog t = FileLog n" using assms(2) by (auto simp: log_open_def Let_def split: sum.splits)
  then show "log_reads X t ops"
    using \<open>log_ok X t ops\<close> assms(1) by (auto simp: log_reads_def log_ok_def log_list_def)
qed

lemma log_ok_reads: "log_ok X s ops \<Longrightarrow> slog s = FileLog n \<Longrightarrow> log_reads X s ops"
  by (auto simp: log_ok_def log_reads_def log_list_def numbered_def)

text \<open>Opening the log leaves the rest of the shell alone.\<close>

lemma log_open_frame:
  assumes "log_open X s = (r, t)"
  shows "dkeys t = dkeys s" "sh_disk t = sh_disk s" "sh_out t = sh_out s" "sh_err t = sh_err s"
    "ofiles t = ofiles s" "owritten t = owritten s"
  using assms by (auto simp: log_open_def Let_def split: sum.splits option.splits)

section \<open>A snapshot lands\<close>

text \<open>The workspace's change, where there is one, can be read, and so can its current snapshot.\<close>

definition checked_out :: "'x ext_scheme \<Rightarrow> workspace_kind \<Rightarrow> 'r repo_scheme \<Rightarrow> bool" where
  "checked_out X k s \<longleftrightarrow>
     (case current_change_id k s of
        None \<Rightarrow> True
      | Some i \<Rightarrow>
          (case get_change i s of
             Inl _ \<Rightarrow> False
           | Inr c \<Rightarrow> ch_id c = i \<and> (case load_snapshot X (ch_current c) s of Inl _ \<Rightarrow> False | Inr _ \<Rightarrow> True)))"

text \<open>The workspace's change is at a snapshot with tree \<open>h\<close>.\<close>

definition at_tree :: "'x ext_scheme \<Rightarrow> workspace_kind \<Rightarrow> 'r repo_scheme \<Rightarrow> hash \<Rightarrow> bool" where
  "at_tree X k s h \<longleftrightarrow>
     (case current_change_id k s of
        None \<Rightarrow> False
      | Some i \<Rightarrow>
          (case get_change i s of
             Inl _ \<Rightarrow> False
           | Inr c \<Rightarrow> ch_id c = i \<and> (case load_snapshot X (ch_current c) s of Inl _ \<Rightarrow> False | Inr sn \<Rightarrow> sn_tree sn = h)))"

lemma at_treeE:
  assumes "at_tree X k s h"
  obtains i c sn where "current_change_id k s = Some i" "get_change i s = Inr c" "ch_id c = i"
    "load_snapshot X (ch_current c) s = Inr sn" "sn_tree sn = h"
  using assms by (auto simp: at_tree_def split: option.splits sum.splits)

lemma at_treeI:
  "current_change_id k s = Some i \<Longrightarrow> get_change i s = Inr c \<Longrightarrow> ch_id c = i \<Longrightarrow>
   load_snapshot X (ch_current c) s = Inr sn \<Longrightarrow> sn_tree sn = h \<Longrightarrow> at_tree X k s h"
  by (simp add: at_tree_def)

lemma at_tree_checked_out: "at_tree X k s h \<Longrightarrow> checked_out X k s"
  by (auto simp: at_tree_def checked_out_def split: option.splits sum.splits)

lemma checked_outE:
  assumes "checked_out X k s" and "current_change_id k s = Some i"
  obtains c sn where "get_change i s = Inr c" "ch_id c = i" "load_snapshot X (ch_current c) s = Inr sn"
  using assms by (auto simp: checked_out_def split: sum.splits)

lemma current_of_view:
  "refs_view t KyHead = Inr (RHead (Some i)) \<Longrightarrow> current_change_id WMain t = Some i"
  by (simp add: refs_view_simps current_change_id_def)

lemma snap_lands:
  fixes s :: "'r session_scheme"
  assumes ok: "store_ok X s" "log_ok X s ops" "length ops + 1 < 2 ^ 63"
    and sc: "scannable (scan_opts_for opts) (WDir ch)" and out: "checked_out X kind s"
    and fresh: "current_change_id kind s = None \<longrightarrow> trimmed cid"
    and run: "snap_now X t1 t2 cid opts dir (Some (WDir ch)) kind s = (r, t)"
    and free: "collision_free X t"
  shows "at_tree X kind t (dir_hash X (norm_children (scan_opts_for opts) ch))" and "store_ok X t" and "store_grows s t"
    and "\<exists>ops'. log_ok X t ops' \<and> length ops' \<le> length ops + 1"
    and "r = Inr (out', kind') \<Longrightarrow> kind' = kind"
    and "(\<exists>out'. r = Inr (out', kind)) \<or> r = Inl (FStore (SCorrupt OplogRecordTooLarge))"
proof -
  let ?th = "dir_hash X (norm_children (scan_opts_for opts) ch)"
  obtain u where u: "scan X (scan_opts_for opts) dir (Some (WDir ch)) s = (Inr ?th, u)"
      "store_ok X u" "store_grows s u" "objects_only s u" "log_ok X u ops"
    using scan_workspace [OF ok(1,2) sc] by blast
  have rv: "refs_view u = refs_view s" by (rule objects_only_refs [OF u(4)])
  have cur: "current_change_id k u = current_change_id k s" for k
    using u(4) by (cases k) (simp_all add: current_change_id_def objects_only_def head_def)
  have goal: "at_tree X kind t ?th \<and> store_ok X t \<and> store_grows s t \<and> (\<exists>ops'. log_ok X t ops' \<and> length ops' \<le> length ops + 1)
      \<and> ((\<exists>out'. r = Inr (out', kind)) \<or> r = Inl (FStore (SCorrupt OplogRecordTooLarge)))"
  proof (cases "current_change_id kind s")
    case None
    let ?c = "change_new cid (so_initial_description opts) (so_author opts) (placeholder_hash X)"
    note first = snap_now_first(1) [OF u(1,4) None, of t1 t2 cid] snap_now_first(2) [OF u(1,4) None]
    have nf: "True \<longrightarrow> kind = WMain \<and> trimmed (ch_id ?c)" using first(2) fresh None by (simp add: change_new_def)
    obtain h t' r' where sc: "snap_commit X t1 t2 opts kind ?th ?c [] True None u = (r', t')"
        "store_ok X t'" "store_grows u t'"
        "\<forall>f. store_grows t' f \<longrightarrow> collision_free X f \<longrightarrow> load_snapshot X h f = Inr (new_snapshot opts t1 [] ?th)"
        "refs_view t' = view_update (snap_sets True (snapped_change True ?c h)) (refs_view u)"
        "(\<exists>q. r' = Inr (Snapped h ?th (snapped_change True ?c h) True, kind)
          \<and> log_ok X t' (ops @ [q]) \<and> op_kind_of q = OkSnap h (so_message opts)
          \<and> op_before q = [capture_workspace_ref kind u, RChange (ch_id ?c) None])
         \<or> r' = Inl (FStore (SCorrupt OplogRecordTooLarge)) \<and> log_ok X t' ops"
      using snap_commit_spec [where fresh = True and opts = opts and kind = kind and tree_h = ?th and c = ?c
          and parents = "[]" and old = None and ?t1.0 = t1 and ?t2.0 = t2, OF u(2,5) ok(3) nf]
      by (elim exE conjE) (rule that)
    have rt: "r' = r" "t' = t" using first(1) sc(1) run by simp_all
    have "get_change cid t = Inr (snapped_change True ?c h)" "current_change_id WMain t = Some cid"
      using sc(5) by (auto simp: rt snap_sets_def change_new_def simp flip: view_change intro!: current_of_view)
    moreover have "load_snapshot X (ch_current (snapped_change True ?c h)) t = Inr (new_snapshot opts t1 [] ?th)"
      using sc(4) free by (simp add: rt snapped_change_def)
    ultimately have "at_tree X kind t ?th"
      using first(2) by (auto intro!: at_treeI [where i = cid and c = "snapped_change True ?c h" and sn = "new_snapshot opts t1 [] ?th"]
          simp: new_snapshot_def change_new_def simp del: change.simps snapshot.simps)
        (simp_all add: change_new_def)
    moreover have "\<exists>ops'. log_ok X t ops' \<and> length ops' \<le> length ops + 1"
      using sc(6) unfolding rt
    proof (elim disjE exE conjE)
      fix q assume "log_ok X t (ops @ [q])"
      then show ?thesis by (intro exI [of _ "ops @ [q]"]) simp
    qed (intro exI [of _ ops], simp)
    moreover have "store_grows s t" using store_grows_trans [OF u(3) sc(3)] by (simp add: rt)
    moreover have "(\<exists>out'. r = Inr (out', kind)) \<or> r = Inl (FStore (SCorrupt OplogRecordTooLarge))"
      using sc(6) by (auto simp: rt)
    ultimately show ?thesis using sc(2) by (simp add: rt)
  next
    case (Some i)
    obtain c prev where c: "get_change i s = Inr c" "ch_id c = i" "load_snapshot X (ch_current c) s = Inr prev"
      by (rule checked_outE [OF out Some])
    note step = snap_now_current [OF u(1,4,3) Some c(1,3), of t1 t2 cid]
    show ?thesis
    proof (cases "sn_tree prev = ?th \<and> so_message opts = None \<and> \<not> so_force opts")
      case True
      then have rt: "r = Inr (Unchanged c, kind)" "t = u" using step run by simp_all
      have "get_change i u = Inr c" using c(1) rv by (simp flip: view_change)
      then have "at_tree X kind t ?th"
        using True cur Some c(2) load_mono(3) [OF u(3) c(3)] by (auto intro: at_treeI simp: rt)
      with u(2,3,5) show ?thesis by (auto simp: rt)
    next
      case False
      have nf: "False \<longrightarrow> kind = WMain \<and> trimmed (ch_id c)" by simp
      obtain h t' r' where sc: "snap_commit X t1 t2 opts kind ?th c [ch_current c] False (Some c) u = (r', t')"
          "store_ok X t'" "store_grows u t'"
          "\<forall>f. store_grows t' f \<longrightarrow> collision_free X f \<longrightarrow> load_snapshot X h f = Inr (new_snapshot opts t1 [ch_current c] ?th)"
          "refs_view t' = view_update (snap_sets False (snapped_change False c h)) (refs_view u)"
          "(\<exists>q. r' = Inr (Snapped h ?th (snapped_change False c h) False, kind)
            \<and> log_ok X t' (ops @ [q]) \<and> op_kind_of q = OkSnap h (so_message opts)
            \<and> op_before q = [capture_workspace_ref kind u, RChange (ch_id c) (Some c)])
           \<or> r' = Inl (FStore (SCorrupt OplogRecordTooLarge)) \<and> log_ok X t' ops"
        using snap_commit_spec [where fresh = False and opts = opts and kind = kind and tree_h = ?th and c = c
            and parents = "[ch_current c]" and old = "Some c" and ?t1.0 = t1 and ?t2.0 = t2, OF u(2,5) ok(3) nf]
        by (elim exE conjE) (rule that)
      have rt: "r' = r" "t' = t" using step False sc(1) run by simp_all
      have adv: "snapped_change False c h = advance c h" by (simp add: snapped_change_def)
      have view: "refs_view t = (refs_view s)(KyChange i := Inr (RChange i (Some (advance c h))))"
        using sc(5) c(2) by (simp add: rt adv snap_sets_def rv)
      then have "get_change i t = Inr (advance c h)" by (simp flip: view_change)
      moreover have "refs_view t KyHead = refs_view s KyHead" using view by simp
      then have "current_change_id kind t = Some i"
        using Some by (cases kind) (simp_all add: current_change_id_def refs_view_simps)
      moreover have "load_snapshot X (ch_current (advance c h)) t = Inr (new_snapshot opts t1 [ch_current c] ?th)"
        using sc(4) free by (simp add: rt)
      ultimately have "at_tree X kind t ?th"
        using c(2) by (intro at_treeI [where i = i and c = "advance c h" and sn = "new_snapshot opts t1 [ch_current c] ?th"])
          (simp_all add: new_snapshot_def)
      moreover have "\<exists>ops'. log_ok X t ops' \<and> length ops' \<le> length ops + 1"
        using sc(6) unfolding rt
      proof (elim disjE exE conjE)
        fix q assume "log_ok X t (ops @ [q])"
        then show ?thesis by (intro exI [of _ "ops @ [q]"]) simp
      qed (intro exI [of _ ops], simp)
      moreover have "store_grows s t" using store_grows_trans [OF u(3) sc(3)] by (simp add: rt)
      moreover have "(\<exists>out'. r = Inr (out', kind)) \<or> r = Inl (FStore (SCorrupt OplogRecordTooLarge))"
        using sc(6) by (auto simp: rt)
      ultimately show ?thesis using sc(2) by (simp add: rt)
    qed
  qed
  then show "at_tree X kind t ?th" "store_ok X t" "store_grows s t" "\<exists>ops'. log_ok X t ops' \<and> length ops' \<le> length ops + 1"
    "r = Inr (out', kind') \<Longrightarrow> kind' = kind"
    "(\<exists>out'. r = Inr (out', kind)) \<or> r = Inl (FStore (SCorrupt OplogRecordTooLarge))"
    by auto
qed

section \<open>What the operations of a repository leave alone\<close>

text \<open>A file log stays one.\<close>

definition keeps_file_log :: "'r session_scheme \<Rightarrow> 'r session_scheme \<Rightarrow> bool" where
  "keeps_file_log s t \<longleftrightarrow> ((\<exists>n. slog s = FileLog n) \<longrightarrow> (\<exists>n. slog t = FileLog n))"

lemmas repository_effects =
  obj_put_def obj_remove_def put_change_def delete_change_def set_bookmark_def delete_bookmark_def set_head_def
  clear_head_def ws_put_def ws_delete_def log_append_def log_open_def

interpretation file_log: repository_frame keeps_file_log X for X
proof unfold_locales
  show "keeps keeps_file_log (restore_ref x)" for x
    by (cases x) (auto intro!: keepsI simp: keeps_file_log_def repository_effects split: option.split store_error.split)
qed (auto intro!: reflpI transpI keepsI simp: keeps_file_log_def repository_effects Let_def
    split: op_log.splits option.splits sum.splits)

text \<open>The repository's operations touch neither the working directories, nor the keys, nor the output.\<close>

definition same_outside :: "'r shell_scheme \<Rightarrow> 'r shell_scheme \<Rightarrow> bool" where
  "same_outside s t \<longleftrightarrow> sh_disk t = sh_disk s \<and> dkeys t = dkeys s \<and> sh_out t = sh_out s \<and> sh_err t = sh_err s"

interpretation outside: repository_frame same_outside X for X
proof unfold_locales
  show "keeps same_outside (restore_ref x)" for x
    by (cases x) (auto intro!: keepsI simp: same_outside_def repository_effects split: option.split store_error.split)
qed (auto intro!: reflpI transpI keepsI simp: same_outside_def repository_effects Let_def
    split: op_log.splits option.splits sum.splits)

section \<open>Commands that end with a snapshot\<close>

lemma print_snap_text: "print_snap_outcome X kind out verbose s = (Inr (), t) \<Longrightarrow> same_but_text s t"
  by (auto simp: print_snap_outcome_def eff_iffs same_but_text_def split: snap_outcome.splits if_splits)

text \<open>After \<^verbatim>\<open>tig snap\<close> the workspace's change is at the tree of the working directory.\<close>

lemma cmd_snap_lands:
  fixes s :: "'r shell_scheme"
  assumes "store_ok X s" and "log_reads X s ops" and "length ops + 1 < 2 ^ 63"
    and dir: "node_at (workdir w) (sh_disk s) = Some (WDir ch)" "scannable scan_options_default (WDir ch)"
    and "checked_out X (w_kind w) s" and "current_change_id (w_kind w) s = None \<longrightarrow> trimmed (ce_cid env)"
    and snap: "cmd_snap X env w message s = (Inr (), t)" and free: "collision_free X t"
  shows "at_tree X (w_kind w) t (dir_hash X (norm_children scan_options_default ch))" and "store_ok X t"
    and "store_grows s t" and "\<exists>ops'. log_reads X t ops' \<and> length ops' \<le> length ops + 1" and "sh_disk t = sh_disk s"
proof -
  let ?opts = "snap_options env message"
  obtain u v out kind where st: "log_open X s = (Inr (), u)"
      "snap_now X (ce_t1 env) (ce_t2 env) (ce_cid env) ?opts (show_path (workdir w))
         (node_at (workdir w) (sh_disk u)) (w_kind w) u = (Inr (out, kind), v)"
      "print_snap_outcome X kind out True v = (Inr (), t)"
    using snap by (auto simp: cmd_snap_def eff_iffs)
  note op = log_reads_open [OF assms(2) st(1)] and fr = log_open_frame [OF st(1)]
  have tx: "same_but_text v t" by (rule print_snap_text [OF st(3)])
  have u: "store_ok X u" "checked_out X (w_kind w) u" "current_change_id (w_kind w) u = current_change_id (w_kind w) s"
  proof -
    have "refs_view u = refs_view s" by (rule refs_view_same [OF op(2)])
    then show c: "current_change_id (w_kind w) u = current_change_id (w_kind w) s"
      using op(2) by (simp add: current_change_id_def head_def same_refs_def split: workspace_kind.split)
    show "store_ok X u" using assms(1) by (simp only: store_ok_same [OF fr(5,6)])
    have "get_change i u = get_change i s" for i using op(2) by (simp add: get_change_def same_refs_def)
    then show "checked_out X (w_kind w) u" using assms(6) c
      by (simp add: checked_out_def loads_agree(3) [OF fr(5)] cong: option.case_cong sum.case_cong)
  qed
  have so: "scan_opts_for ?opts = scan_options_default"
    by (simp add: scan_opts_for_def snap_options_def snap_options_default_def scan_options_default_def)
  have run: "snap_now X (ce_t1 env) (ce_t2 env) (ce_cid env) ?opts (show_path (workdir w)) (Some (WDir ch)) (w_kind w) u
      = (Inr (out, kind), v)"
    using st(2) dir(1) fr(2) by simp
  have "collision_free X v" using free by (simp add: text_only(9) [OF tx])
  note lands = snap_lands [OF u(1) op(1) assms(3) _ u(2) _ run this, unfolded so, OF dir(2)]
  have fr2: "current_change_id (w_kind w) u = None \<longrightarrow> trimmed (ce_cid env)" using u(3) assms(7) by simp
  show "at_tree X (w_kind w) t (dir_hash X (norm_children scan_options_default ch))"
    using lands(1) [OF fr2] by (simp add: at_tree_def text_only(3,6,7) [OF tx] cong: option.case_cong sum.case_cong)
  show "store_ok X t" using lands(2) [OF fr2] by (simp add: text_only(8) [OF tx])
  show "store_grows s t"
    using lands(3) [OF fr2] by (simp only: text_only(14) [OF tx] store_grows_from [OF fr(5,6)])
  obtain ops' where ops': "log_ok X v ops'" "length ops' \<le> length ops + 1" using lands(4) [OF fr2] by blast
  have "\<exists>n. slog v = FileLog n"
    using keepsD [OF file_log.snapping(1) run] op(3) by (simp add: keeps_file_log_def)
  then obtain n where "slog v = FileLog n" by blast
  with ops' have "log_reads X v ops'" by (intro log_ok_reads)
  then show "\<exists>ops'. log_reads X t ops' \<and> length ops' \<le> length ops + 1"
    using ops'(2) by (auto simp: log_reads_def text_only(10) [OF tx])
  have "sh_disk v = sh_disk u" using keepsD [OF outside.snapping(1) run] by (simp add: same_outside_def)
  then show "sh_disk t = sh_disk s" using fr(2) by (simp add: text_only(13) [OF tx])
qed

end
