(* ===== verification/Cli_Frames.thy ===== *)
theory Cli_Frames
  imports Shell_Props "HOL-Library.Sublist"
begin

text \<open>
  The frame rule of the command line: what the repository's steps and a change of the disk, the
  keys and the output leave alone, every command leaves alone that does not collect garbage.
  Interpreted for what must never get lost: the stored objects and the written log.
\<close>

section \<open>Which commands collect garbage\<close>

fun collects :: "cmd \<Rightarrow> bool" where
  "collects (CmdGc _ _) \<longleftrightarrow> True"
| "collects _ \<longleftrightarrow> False"

section \<open>Sessions\<close>

text \<open>
  Every program keeps a handle of its own on the log, so a step may start with any handle. A
  watch runs while others work; \<open>gc\<close> says whether somebody may collect garbage.
\<close>

inductive session_of ::
  "'x ext_scheme \<Rightarrow> tools \<Rightarrow> vault \<Rightarrow> bool \<Rightarrow> 'r shell_scheme \<Rightarrow> 'r shell_scheme \<Rightarrow> bool" for X T V gc where
  stay: "session_of X T V gc s s"
| edit: "session_of X T V gc s t \<Longrightarrow> session_of X T V gc s (t\<lparr>sh_disk := d\<rparr>)"
| command: "session_of X T V gc s t \<Longrightarrow> (collects c \<longrightarrow> gc) \<Longrightarrow> run_cmd X T V env w c (t\<lparr>slog := l\<rparr>) = (r, u) \<Longrightarrow>
    session_of X T V gc s u"
| request: "session_of X T V gc s t \<Longrightarrow> ((\<exists>b. req = ReqGc b) \<longrightarrow> gc) \<Longrightarrow> serve X T V e hdrs req (t\<lparr>slog := l\<rparr>) = (r', u) \<Longrightarrow>
    session_of X T V gc s u"
| watch: "session_of X T V gc s t \<Longrightarrow> (\<And>r v. r \<in> set rs \<Longrightarrow> session_of X T V gc v (wr_others r v)) \<Longrightarrow>
    watch_and_snap X opts w rs (t\<lparr>slog := l\<rparr>) = (es, ended, kind, u) \<Longrightarrow> session_of X T V gc s u"

lemma watched:
  assumes "watch_and_snap X opts w rs s = (es, ended, kind, u)"
  shows "u = snd (snd (snd (watch_loop X opts (workdir w) (w_tig w) rs (w_kind w) s)))"
  using assms by (auto simp: watch_and_snap_def split: prod.splits)

section \<open>The frame rule of commands\<close>

locale command_frame = history_frame R X
  for R :: "'r shell_scheme \<Rightarrow> 'r shell_scheme \<Rightarrow> bool" and X :: "'x ext_scheme" +
  assumes disk: "R s (s\<lparr>sh_disk := d\<rparr>)" and keys: "R s (s\<lparr>dkeys := k\<rparr>)" and handle: "R s (s\<lparr>slog := l\<rparr>)"
    and streams: "R s (s\<lparr>sh_out := o1\<rparr>)" "R s (s\<lparr>sh_err := o2\<rparr>)"
begin

lemma refl_R: "R s s"
  using reflp_R by (simp add: reflp_def)

lemma trans_R: "R s t \<Longrightarrow> R t u \<Longrightarrow> R s u"
  using transp_R by (meson transpE)

lemma wraps: "keeps R m \<Longrightarrow> keeps R (storeE m)" "keeps R m' \<Longrightarrow> keeps R (fsE m')"
  by (simp_all add: storeE_def fsE_def keeps_mapE)

lemma prints: "keeps R (print_line l)" "keeps R (print_lines ls)" "keeps R (eprint_line l)"
  "keeps R (updE (\<lambda>s. s\<lparr>sh_out := f s\<rparr>))"
  by (auto intro!: keepsI streams simp: print_line_def print_lines_def eprint_line_def updE_def)

lemma on_keys: "keeps R (in_keys m)"
  by (auto intro!: keepsI keys simp: in_keys_def split: prod.split)

lemma on_disk: "keeps R (write_node p v)" "keeps R (create_dir_all p)" "keeps R (remove_dir_all p)"
  "keeps R (clone_workspace engine donor dest)" "keeps R (render_workspace X opts h dest)"
  by (auto intro!: keepsI disk refl_R simp: write_node_def updE_def create_dir_all_def remove_dir_all_def
      clone_workspace_def render_workspace_def split: option.split wnode.split prod.split)

lemma reads: "keeps R (requireE e b)" "keeps R (identity n)" "keeps R (current_changeE e w)" "keeps R (changeE i)"
  "keeps R (rawE X h)" "keeps R (snapshotE X h)" "keeps R (prefix_snapshot X p)" "keeps R (resolve_unseal_identity X env a)"
  "keeps R (target_snapshot X w sp)" "keeps R (seal_plaintext env f d)"
  unfolding requireE_def identity_def current_changeE_def changeE_def rawE_def snapshotE_def prefix_snapshot_def
    resolve_unseal_identity_def target_snapshot_def seal_plaintext_def
  by (auto intro!: steps wraps split: option.split)

lemma writes: "keeps R (putE X enc)" "keeps R (open_log X)" "keeps R (appendE X env k was is)"
  "keeps R (scan_workdir X w)" "keeps R (take_snap X env opts w)"
proof -
  show "keeps R (putE X enc)" "keeps R (open_log X)" "keeps R (appendE X env k was is)"
    by (auto simp: putE_def open_log_def appendE_def intro!: steps wraps put open_op append)
  show "keeps R (scan_workdir X w)"
    using wraps(2) [OF scan_all] by (simp add: keeps_def scan_workdir_def)
  show "keeps R (take_snap X env opts w)"
    using wraps(2) [OF snapping(1)] by (simp add: keeps_def take_snap_def)
qed

lemma restoring: "R s (fst (snd (restore_tree_into X opts dir target current (s, ch))))"
  using keepsD [OF scan_all]
  by (auto simp: restore_tree_into_def eff_simps refl_R split: prod.split sum.split if_split)

lemma in_directory: "keeps R (in_workdir p (restore_tree_into X opts dir target current))"
proof (rule keepsI)
  fix s
  have "R s (t\<lparr>sh_disk := d\<rparr>)" if "restore_tree_into X opts dir target current (s, ch) = (r, t, ch')" for ch r t ch' d
    using trans_R [OF restoring disk] that by (metis fst_conv snd_conv)
  then show "R s (snd (in_workdir p (restore_tree_into X opts dir target current) s))"
    by (auto simp: in_workdir_def refl_R split: option.split wnode.split prod.split)
qed

lemmas rules = steps wraps prints on_keys on_disk reads writes in_directory stores sets unregisters snapping undoing append
  open_op scan_all edits keeps_forE [OF reflp_R transp_R]

lemma change_commands:
  "keeps R (cmd_snap X env w message)" "keeps R (cmd_change_new X env w description)" "keeps R (cmd_draft X env w description)"
  "keeps R (cmd_change_transition X T env w i st v)" "keeps R (cmd_undo X env)" "keeps R (cmd_change_list w)"
proof -
  have pr: "keeps R (print_snap_outcome X kind out verbose)" for kind out verbose
    by (auto simp: print_snap_outcome_def intro!: rules split: snap_outcome.split)
  show "keeps R (cmd_snap X env w message)"
    by (auto simp: cmd_snap_def intro!: rules pr split: prod.split)
  have reg: "keeps R (register_change X env w d c)" "keeps R (current_or_empty X env w)" for d c
    unfolding register_change_def current_or_empty_def by (auto intro!: rules split: option.split)
  show "keeps R (cmd_change_new X env w description)" "keeps R (cmd_draft X env w description)"
    unfolding cmd_change_new_def cmd_draft_def Let_def by (intro rules reg)+
  show "keeps R (cmd_change_transition X T env w i st v)"
    unfolding cmd_change_transition_def Let_def by (auto intro!: rules split: option.split)
  have wt_note: "keeps R (note_files_after_wt_drop_undo out)" for out
  proof (rule keepsI)
    fix s show "R s (snd (note_files_after_wt_drop_undo out s))"
      using keepsD [OF prints(2)]
      by (auto simp: note_files_after_wt_drop_undo_def refl_R streams print_lines_def updE_def
          split: op_kind.split list.split ref_snapshot.split option.split)
  qed
  show "keeps R (cmd_undo X env)" "keeps R (cmd_change_list w)"
    unfolding cmd_undo_def cmd_change_list_def by (auto intro!: rules wt_note split: option.split)
qed

lemma query_commands:
  "keeps R (cmd_diff X T w rng nh ps)" "keeps R (cmd_log X T w all patch)" "keeps R (cmd_status X w)"
  "keeps R (cmd_op_log X limit)" "keeps R (cmd_blame X T w path sp)" "keeps R (cmd_grep X T w pat sp go)"
  "keeps R (cmd_cat_object X hs)"
proof -
  show "keeps R (cmd_diff X T w rng nh ps)"
    unfolding cmd_diff_def resolve_diff_endpoints_def by (auto intro!: rules split: option.split prod.split)
  have "keeps R (log_row X T all patch h)" for h
    unfolding log_row_def log_patch_def by (auto intro!: rules split: list.split)
  then show "keeps R (cmd_log X T w all patch)"
    unfolding cmd_log_def by (auto intro!: rules)
  show "keeps R (cmd_status X w)" "keeps R (cmd_op_log X limit)"
    unfolding cmd_status_def cmd_op_log_def by (auto intro!: rules split: option.split)
  have "keeps R (print_blame_rows X ls)" for ls
    unfolding print_blame_rows_def by (auto intro!: rules split: option.split)
  then show "keeps R (cmd_blame X T w path sp)" "keeps R (cmd_grep X T w pat sp go)"
    unfolding cmd_blame_def cmd_grep_def by (auto intro!: rules split: prod.split)
  show "keeps R (cmd_cat_object X hs)"
    unfolding cmd_cat_object_def by (intro rules)
qed

lemma work_commands:
  "keeps R (cmd_identity_new X V env w n)" "keeps R (cmd_identity_list X)" "keeps R (cmd_identity_show X n)"
  "keeps R (cmd_auth_token X V env a ttl)" "keeps R (cmd_seal X V env w path rs f d)" "keeps R (cmd_reveal X V env w path a)"
  "keeps R (cmd_restore X V env w p force a)" "keeps R (cmd_wt_make X V env w n at_path a)" "keeps R (cmd_wt_list w)"
  "keeps R (cmd_wt_drop X env w n keep)"
proof -
  show "keeps R (cmd_identity_new X V env w n)" "keeps R (cmd_identity_list X)" "keeps R (cmd_identity_show X n)"
    "keeps R (cmd_auth_token X V env a ttl)"
    unfolding cmd_identity_new_def cmd_identity_list_def cmd_identity_show_def cmd_auth_token_def Let_def
    by (auto intro!: rules)
  show "keeps R (cmd_seal X V env w path rs f d)" "keeps R (cmd_reveal X V env w path a)"
    unfolding cmd_seal_def cmd_reveal_def Let_def by (auto intro!: rules)
  show "keeps R (cmd_restore X V env w p force a)"
    unfolding cmd_restore_def by (auto intro!: rules split: prod.split snap_outcome.split)
  have "keeps R (materialize_workspace X V env i k a donor dest)" "keeps R (workspace_ready m out)" for i k donor dest m out
    unfolding materialize_workspace_def workspace_ready_def Let_def
    by (auto intro!: rules split: option.split materialize_outcome.split)
  then show "keeps R (cmd_wt_make X V env w n at_path a)"
    unfolding cmd_wt_make_def Let_def by (auto intro!: rules)
  show "keeps R (cmd_wt_list w)" "keeps R (cmd_wt_drop X env w n keep)"
    unfolding cmd_wt_list_def cmd_wt_drop_def by (auto intro!: rules)
qed

lemma running: "\<not> collects c \<Longrightarrow> keeps R (run_cmd X T V env w c)"
  by (cases "(X, T, V, env, w, c)" rule: run_cmd.cases)
    (simp_all add: change_commands query_commands work_commands del: keeps_def)

text \<open>A watch, whatever happens between its rounds.\<close>

lemma watching:
  "(\<And>r v. r \<in> set rs \<Longrightarrow> R v (wr_others r v)) \<Longrightarrow> R s (snd (snd (snd (watch_loop X opts dir tig rs kind s))))"
proof (induction rs arbitrary: kind s)
  case (Cons r rs)
  let ?u = "wr_others r s"
  have u: "R s ?u" using Cons.prems by simp
  have loop: "R s (snd (snd (snd (watch_loop X opts dir tig rs k v))))" if "R s v" for k v
    using Cons.IH [of v k] Cons.prems trans_R [OF that] by simp
  have "R ?u (snd (watch_snap X opts dir r kind ?u))"
    using keepsD [OF snapping(1)] by (auto simp: watch_snap_def refl_R snd_def split: option.split prod.split)
  then have snap: "R s (snd (watch_snap X opts dir r kind ?u))" using trans_R [OF u] by simp
  show ?case
    using u loop [OF u] loop [OF snap]
    by (auto simp: Let_def split_beta split: watch_recv.split sum.split prod.split)
qed (simp add: refl_R)

lemma after: "R s t \<Longrightarrow> keeps R m \<Longrightarrow> m (t\<lparr>slog := l\<rparr>) = (r, u) \<Longrightarrow> R s u"
  using keepsD trans_R handle by metis

lemma after_watch:
  assumes "R s t" and "\<And>r v. r \<in> set rs \<Longrightarrow> R v (wr_others r v)"
    and "watch_and_snap X opts w rs (t\<lparr>slog := l\<rparr>) = (es, ended, kind, u)"
  shows "R s u"
  unfolding watched [OF assms(3)]
  by (rule trans_R [OF trans_R [OF assms(1) handle] watching]) (rule assms(2))

lemma serving: "\<not> (\<exists>b. req = ReqGc b) \<Longrightarrow> keeps R (serve X T V e hdrs req)"
proof -
  have put': "keeps R (repo_put X enc)" for enc
    unfolding repo_put_def by (intro rules put)
  have edit: "keeps R (edit_and_snap X V e hdrs i f)" if "\<And>h. keeps R (f h)" for i f
    unfolding edit_and_snap_def Let_def by (auto intro!: rules that)
  assume "\<not> (\<exists>b. req = ReqGc b)"
  then show ?thesis
    by (cases req)
      (auto simp: answer_def handle_list_changes_def handle_create_change_def handle_get_change_def
        handle_get_tree_root_def handle_get_tree_path_def handle_patch_tree_path_def handle_delete_tree_path_def
        handle_snap_change_def handle_diff_change_def diff_from_tree_def handle_blame_path_def handle_grep_change_def
        handle_transition_change_def handle_get_snapshot_def handle_list_oplog_def handle_undo_def Let_def
        intro!: rules put' edit split: option.split list.split snap_outcome.split)
qed

lemma in_session: "session_of X T V gc s t \<Longrightarrow> \<not> gc \<Longrightarrow> R s t"
proof (induction rule: session_of.induct)
  case (watch s t rs opts w l es ended kind u)
  show ?case by (rule after_watch [OF watch.IH(1) watch.IH(2) watch.hyps(3)]) (use watch.prems in simp_all)
qed (auto intro: refl_R trans_R disk after running serving)

end

text \<open>With unlinked objects, the collections too.\<close>

locale any_command_frame = command_frame R X + repository_frame R X
  for R :: "'r shell_scheme \<Rightarrow> 'r shell_scheme \<Rightarrow> bool" and X :: "'x ext_scheme"
begin

lemma running_any: "keeps R (run_cmd X T V env w c)"
proof (cases "collects c")
  case True
  then obtain d i where c: "c = CmdGc d i" by (cases c rule: collects.cases) auto
  show ?thesis
    unfolding c run_cmd.simps cmd_gc_def Let_def by (auto intro!: rules collecting)
qed (rule running)

lemma serving_any: "keeps R (serve X T V e hdrs req)"
proof (cases "\<exists>b. req = ReqGc b")
  case True
  then show ?thesis
    by (auto simp: answer_def handle_gc_def Let_def intro!: rules collecting)
qed (rule serving)

lemma in_any_session: "session_of X T V gc s t \<Longrightarrow> R s t"
proof (induction rule: session_of.induct)
  case (watch s t rs opts w l es ended kind u)
  show ?case by (rule after_watch [OF watch.IH watch.hyps(3)])
qed (auto intro: refl_R trans_R disk after running_any serving_any)

end

section \<open>What must not get lost\<close>

definition keeps_objects :: "'x ext_scheme \<Rightarrow> 'r shell_scheme \<Rightarrow> 'r shell_scheme \<Rightarrow> bool" where
  "keeps_objects X s t \<longleftrightarrow> store_grows s t \<and> (objs_ok X s \<longrightarrow> objs_ok X t)"

definition extends_log :: "'r shell_scheme \<Rightarrow> 'r shell_scheme \<Rightarrow> bool" where
  "extends_log s t \<longleftrightarrow> prefix (log_bytes s) (log_bytes t)"

lemma same_objects: "ofiles t = ofiles s \<Longrightarrow> owritten t = owritten s \<Longrightarrow> keeps_objects X s t"
  by (simp add: keeps_objects_def store_grows_def objs_ok_def)

interpretation lossless: command_frame "keeps_objects X" X for X
proof unfold_locales
  show "reflp (keeps_objects X)" "transp (keeps_objects X)"
    by (auto intro!: reflpI transpI simp: keeps_objects_def intro: store_grows_trans)
  show "keeps (keeps_objects X) (obj_put X raw)" for raw
    by (rule keepsI) (simp add: keeps_objects_def obj_put_grows obj_put_ok)
  show "keeps (keeps_objects X) (restore_ref x)" for x
    by (cases x) (auto intro!: keepsI same_objects simp: repository_effects split: option.split store_error.split)
qed (auto intro!: keepsI same_objects simp: repository_effects Let_def split: op_log.splits option.splits sum.splits)

interpretation recorded: any_command_frame extends_log X for X
proof unfold_locales
  show "reflp extends_log" "transp extends_log"
    by (auto intro!: reflpI transpI simp: extends_log_def)
  show "keeps extends_log (restore_ref x)" for x
    by (cases x) (auto intro!: keepsI simp: extends_log_def log_bytes_def repository_effects split: option.split store_error.split)
qed (auto intro!: keepsI simp: extends_log_def log_bytes_def repository_effects Let_def
    split: op_log.splits option.splits sum.splits)

end
