(* ===== verification/Watch_Props.thy ===== *)
theory Watch_Props
  imports Cli_Frames
begin

text \<open>
  A watch while the user edits the working directory: what one round establishes, and that the
  rounds compose.
\<close>

text \<open>The others of a round only edit the disk, and leave a directory that can be scanned.\<close>

definition edits_workdir :: "path \<Rightarrow> scan_options \<Rightarrow> 'r shell_scheme watch_round \<Rightarrow> bool" where
  "edits_workdir dir opts r \<longleftrightarrow>
     (\<exists>d ch. wr_others r = (\<lambda>s. s\<lparr>sh_disk := d\<rparr>) \<and> node_at dir d = Some (WDir ch) \<and> scannable opts (WDir ch))"

text \<open>The round ends neither the watch nor the process.\<close>

definition goes_on :: "'s watch_round \<Rightarrow> bool" where
  "goes_on r \<longleftrightarrow> \<not> wr_stop r \<and> wr_recv r \<noteq> Disconnected \<and> trimmed (wr_cid r)"

text \<open>The round takes a snapshot.\<close>

definition takes_snap :: "path \<Rightarrow> 's watch_round \<Rightarrow> bool" where
  "takes_snap tig r \<longleftrightarrow>
     (case wr_recv r of Batch evs \<Rightarrow> touches_workdir tig evs \<and> kinds_meaningful evs \<and> wr_lock r = None | _ \<Rightarrow> False)"

text \<open>The repository can take \<open>n\<close> more operations, and the workspace's change can be read.\<close>

definition ready :: "'x ext_scheme \<Rightarrow> workspace_kind \<Rightarrow> nat \<Rightarrow> 'r session_scheme \<Rightarrow> bool" where
  "ready X kind n s \<longleftrightarrow> store_ok X s \<and> (\<exists>ops. log_ok X s ops \<and> length ops + n < 2 ^ 63) \<and> checked_out X kind s"

text \<open>The workspace's change shows the directory on disk.\<close>

definition caught_up :: "'x ext_scheme \<Rightarrow> scan_options \<Rightarrow> path \<Rightarrow> workspace_kind \<Rightarrow> 'r shell_scheme \<Rightarrow> bool" where
  "caught_up X opts dir kind s \<longleftrightarrow>
     (\<exists>ch. node_at dir (sh_disk s) = Some (WDir ch) \<and> at_tree X kind s (dir_hash X (norm_children opts ch)))"

lemma ready_edit: "ready X kind n (s\<lparr>sh_disk := d\<rparr>) = ready X kind n s"
proof -
  have "load_snapshot X h (s\<lparr>sh_disk := d\<rparr>) = load_snapshot X h s" for h by (rule loads_agree) simp
  then have "checked_out X kind (s\<lparr>sh_disk := d\<rparr>) = checked_out X kind s"
    by (cases kind) (simp_all add: checked_out_def current_change_id_def head_def get_change_def
        cong: option.case_cong sum.case_cong)
  moreover have "store_ok X (s\<lparr>sh_disk := d\<rparr>) = store_ok X s" by (rule store_ok_same) simp_all
  moreover have "log_ok X (s\<lparr>sh_disk := d\<rparr>) ops = log_ok X s ops" for ops
    by (rule log_ok_same) simp_all
  ultimately show ?thesis by (simp add: ready_def)
qed

lemma ready_less: "ready X kind n s \<Longrightarrow> m \<le> n \<Longrightarrow> ready X kind m s"
  by (fastforce simp: ready_def)

lemma watch_snap_lands:
  fixes s :: "'r shell_scheme"
  assumes "ready X kind (Suc n) s" and "node_at dir (sh_disk s) = Some (WDir ch)" and "scannable (scan_opts_for opts) (WDir ch)"
    and "trimmed (wr_cid r)" and "wr_lock r = None" and "watch_snap X opts dir r kind s = (res, t)"
  shows "keeps_objects X s t" and "sh_disk t = sh_disk s"
    and "collision_free X t \<Longrightarrow> ready X kind n t \<and> caught_up X (scan_opts_for opts) dir kind t
      \<and> ((\<exists>out. res = Inr (out, kind)) \<or> res = Inl (FStore (SCorrupt OplogRecordTooLarge)))"
proof -
  have run: "snap_now X (wr_t1 r) (wr_t2 r) (wr_cid r) opts (show_path dir) (Some (WDir ch)) kind s = (res, t)"
    using assms(2,5,6) by (simp add: watch_snap_def)
  show "keeps_objects X s t" by (rule keepsD [OF lossless.snapping(1) run])
  show disk: "sh_disk t = sh_disk s" using keepsD [OF outside.snapping(1) run] by (simp add: same_outside_def)
  obtain ops where r: "store_ok X s" "log_ok X s ops" "length ops + Suc n < 2 ^ 63" "checked_out X kind s"
    using assms(1) by (auto simp: ready_def)
  have len: "length ops + 1 < 2 ^ 63" using r(3) by simp
  assume free: "collision_free X t"
  note lands = snap_lands [OF r(1,2) len assms(3) r(4) _ run free]
  obtain ops' where "log_ok X t ops'" "length ops' + n < 2 ^ 63" using lands(4) assms(4) r(3) by fastforce
  then have "ready X kind n t"
    using lands(2) at_tree_checked_out [OF lands(1)] assms(4) by (auto simp: ready_def)
  then show "ready X kind n t \<and> caught_up X (scan_opts_for opts) dir kind t
      \<and> ((\<exists>out. res = Inr (out, kind)) \<or> res = Inl (FStore (SCorrupt OplogRecordTooLarge)))"
    using lands(1,6) assms(2,4) disk by (auto simp: caught_up_def)
qed

text \<open>One round.\<close>

lemma watch_round:
  fixes s :: "'r shell_scheme"
  assumes "ready X kind (Suc n) s" and "edits_workdir dir (scan_opts_for opts) r" and "goes_on r"
  obtains es v k where "\<And>rs. watch_loop X opts dir tig (r # rs) kind s
      = (case watch_loop X opts dir tig rs k v of (es', res) \<Rightarrow> (es @ es', res))"
    "keeps_objects X s v" "collision_free X v \<Longrightarrow> k = kind \<and> ready X kind n v"
    "takes_snap tig r \<Longrightarrow> collision_free X v \<Longrightarrow> caught_up X (scan_opts_for opts) dir kind v"
proof -
  obtain d ch where d: "wr_others r = (\<lambda>s. s\<lparr>sh_disk := d\<rparr>)" "node_at dir d = Some (WDir ch)"
      "scannable (scan_opts_for opts) (WDir ch)"
    using assms(2) by (auto simp: edits_workdir_def)
  let ?u = "s\<lparr>sh_disk := d\<rparr>"
  have go: "\<not> wr_stop r" "wr_recv r \<noteq> Disconnected" "trimmed (wr_cid r)" using assms(3) by (simp_all add: goes_on_def)
  have u: "ready X kind (Suc n) ?u" using assms(1) by (simp add: ready_edit)
  have same: "keeps_objects X s ?u" "ready X kind n ?u" using ready_less [OF u] by (simp_all add: same_objects)
  show ?thesis
  proof (cases "takes_snap tig r")
    case True
    then obtain evs where evs: "wr_recv r = Batch evs" "touches_workdir tig evs" "kinds_meaningful evs" "wr_lock r = None"
      by (auto simp: takes_snap_def split: watch_recv.splits)
    obtain res v where w: "watch_snap X opts dir r kind ?u = (res, v)" by fastforce
    note lands = watch_snap_lands [OF u _ d(3) go(3) evs(4) w]
    define ev where "ev = (case res of Inr (out, _) \<Rightarrow> WSnap out | Inl e \<Rightarrow> WSnapError e)"
    define k where "k = (case res of Inr (_, k') \<Rightarrow> k' | Inl _ \<Rightarrow> kind)"
    show ?thesis
    proof (rule that [of "[ev]" k v])
      show "watch_loop X opts dir tig (r # rs) kind s
          = (case watch_loop X opts dir tig rs k v of (es', res) \<Rightarrow> ([ev] @ es', res))" for rs
        using evs(2,3) go(1)
        by (auto simp: Let_def d(1) evs(1) w ev_def k_def split: sum.split prod.split)
      show "keeps_objects X s v" by (rule lossless.trans_R [OF same(1) lands(1)]) (simp add: d(2))
      show "k = kind \<and> ready X kind n v" if "collision_free X v"
        using lands(3) [OF _ that] d(2) by (auto simp: k_def)
      show "caught_up X (scan_opts_for opts) dir kind v" if "collision_free X v"
        using lands(3) [OF _ that] d(2) by simp
    qed
  next
    case False
    define es where "es = (case wr_recv r of Batch evs \<Rightarrow>
        if touches_workdir tig evs \<and> kinds_meaningful evs then [WSnapError (FStore (the (wr_lock r)))] else [WIdle]
      | NotifyErrors errs \<Rightarrow> map WNotifyError errs | _ \<Rightarrow> [])"
    show ?thesis
    proof (rule that [of es kind ?u])
      show "watch_loop X opts dir tig (r # rs) kind s
          = (case watch_loop X opts dir tig rs kind ?u of (es', res) \<Rightarrow> (es @ es', res))" for rs
        using False go(1,2)
        by (auto simp: Let_def d(1) es_def takes_snap_def watch_snap_def split: watch_recv.split prod.split)
    qed (use same False in simp_all)
  qed
qed

text \<open>Many rounds, the last of which takes a snapshot.\<close>

lemma watch_rounds:
  fixes s :: "'r shell_scheme"
  assumes "watch_loop X opts dir tig (rs @ [r]) kind s = (es, ended, kind', t)" and "collision_free X t"
    and "ready X kind (length (rs @ [r])) s" and "\<forall>q \<in> set (rs @ [r]). edits_workdir dir (scan_opts_for opts) q \<and> goes_on q"
    and "takes_snap tig r"
  shows "\<not> ended \<and> kind' = kind \<and> ready X kind 0 t \<and> caught_up X (scan_opts_for opts) dir kind t"
  using assms(1,3,4)
proof (induction rs arbitrary: s es)
  case Nil
  obtain es' v k where v: "\<And>rs. watch_loop X opts dir tig (r # rs) kind s
      = (case watch_loop X opts dir tig rs k v of (es'', res) \<Rightarrow> (es' @ es'', res))"
      "collision_free X v \<Longrightarrow> k = kind \<and> ready X kind 0 v"
      "takes_snap tig r \<Longrightarrow> collision_free X v \<Longrightarrow> caught_up X (scan_opts_for opts) dir kind v"
    by (rule watch_round [of X kind 0 s dir opts r tig]) (use Nil.prems in auto)
  from v(1) [of "[]"] Nil.prems(1) have "\<not> ended" "k = kind'" "v = t" by simp_all
  then show ?case using v(2,3) assms(2,5) by simp
next
  case (Cons q rs)
  obtain es' v k where v: "\<And>rs. watch_loop X opts dir tig (q # rs) kind s
      = (case watch_loop X opts dir tig rs k v of (es'', res) \<Rightarrow> (es' @ es'', res))"
      "collision_free X v \<Longrightarrow> k = kind \<and> ready X kind (length (rs @ [r])) v"
    by (rule watch_round [of X kind "length (rs @ [r])" s dir opts q tig]) (use Cons.prems in auto)
  obtain es'' where rest: "watch_loop X opts dir tig (rs @ [r]) k v = (es'', ended, kind', t)"
    using Cons.prems(1) v(1) [of "rs @ [r]"] by (auto split: prod.splits)
  have "keeps_objects X u (wr_others p u)" if "p \<in> set (rs @ [r])" for p u
    using Cons.prems(3) that by (auto simp: edits_workdir_def same_objects)
  from lossless.watching [OF this] rest have "keeps_objects X v t" by (metis snd_conv)
  then have "collision_free X v" using assms(2) by (auto simp: keeps_objects_def intro: collision_free_back)
  with v(2) have "k = kind" "ready X kind (length (rs @ [r])) v" by simp_all
  with Cons.IH [of v es''] rest Cons.prems(3) show ?case by simp
qed

end
