(* ===== verification/Demo_Shell.thy ===== *)
theory Demo_Shell
  imports Watch_Props Daemon_Theorems Worktree_Theorems Query_Theorems
begin

text \<open>
  A freshly initialised repository in the directory \<open>/w\<close> of a disk, with the environment of one
  user, and the states that commands lead to from it, on the concrete packages.
\<close>

definition demo_shell :: shell where
  "demo_shell = \<lparr>ofiles = [], owritten = [], rchanges = [], rbookmarks = [], rhead = None, rworkspaces = [], rlog = Some [],
     slog = FileLog 0, dkeys = [], sh_disk = WDir [(''w'', WDir demo_dir)], sh_out = [], sh_err = []\<rparr>"

definition demo_w :: workspace where
  "demo_w = \<lparr>w_tig = [''w'', ''.tig''], w_kind = WMain\<rparr>"

definition demo_cli :: cli_env where
  "demo_cli = \<lparr>ce_user = None, ce_tig_as = None, ce_seconds = 5, ce_t1 = 7, ce_t2 = 8, ce_now = 9, ce_cid = ''01A'', ce_wid = ''01W'',
     ce_eph_seed = b32_of [1], ce_data_key = b32_of [2], ce_wrap_nonce = (\<lambda>_. replicate 24 3), ce_payload_nonce = replicate 24 4,
     ce_seal_seed = b32_of [5], ce_sign_seed = b32_of [6], ce_stdin = None, ce_engine = copy_fallback,
     ce_marker_json = (\<lambda>_. []), ce_vis_text = (\<lambda>_. [])\<rparr>"

lemma demo_w_fields [simp]: "workdir demo_w = [''w'']" "w_kind demo_w = WMain" "w_tig demo_w = [''w'', ''.tig'']"
  by (simp_all add: demo_w_def workdir_def)

lemma demo_cli_fields [simp]: "ce_t1 demo_cli = 7" "ce_t2 demo_cli = 8" "ce_cid demo_cli = ''01A''"
  "principal_of demo_cli = principal_local ''anonymous''" "snap_options demo_cli None = snap_options_default"
  by (simp_all add: demo_cli_def principal_of_def snap_options_def snap_options_default_def)

lemma demo_shell_fields [simp]:
  "ofiles demo_shell = []" "owritten demo_shell = []" "rchanges demo_shell = []" "rhead demo_shell = None" "rlog demo_shell = Some []"
  "slog demo_shell = FileLog 0" "dkeys demo_shell = []" "sh_disk demo_shell = WDir [(''w'', WDir demo_dir)]" "sh_out demo_shell = []"
  by (simp_all add: demo_shell_def)

lemma demo_shell_ok: "store_ok demo demo_shell" "log_ok demo demo_shell []" "log_reads demo demo_shell []"
proof -
  show "store_ok demo demo_shell" using demo_store_ok by (subst store_ok_fields [where s = demo_repo]) simp_all
  show "log_ok demo demo_shell []" by (simp add: log_ok_def log_list_def read_all_def numbered_def)
  show "log_reads demo demo_shell []" by (simp add: log_reads_def read_all_def numbered_def)
qed

lemma demo_shell_opened: "log_open demo demo_shell = (Inr (), demo_shell)"
  by (simp add: log_open_def compute_next_id_def read_all_def Let_def demo_shell_def)

lemma put_raw_shell [simp]:
  fixes s :: "'r shell_scheme"
  shows "rhead (put_raw raw s) = rhead s" "sh_disk (put_raw raw s) = sh_disk s" "sh_out (put_raw raw s) = sh_out s"
    "sh_err (put_raw raw s) = sh_err s" "rbookmarks (put_raw raw s) = rbookmarks s" "rworkspaces (put_raw raw s) = rworkspaces s"
  by (simp_all add: put_raw_def obj_put_def Let_def)

section \<open>The first snapshot\<close>

definition put_all :: "raw_object list \<Rightarrow> 'r objects_dir_scheme \<Rightarrow> 'r objects_dir_scheme" where
  "put_all raws s = foldl (\<lambda>s raw. put_raw raw s) s raws"

lemma put_all_simps: "put_raw r (put_all raws s) = put_all (raws @ [r]) s"
  by (simp add: put_all_def)

lemma put_all_written [simp]: "owritten (put_all raws s) = owritten s @ raws"
  by (induction raws rule: rev_induct) (simp_all add: put_all_def)

lemma put_all_shell [simp]:
  fixes s :: "'r shell_scheme"
  shows "rchanges (put_all raws s) = rchanges s" "rhead (put_all raws s) = rhead s" "rlog (put_all raws s) = rlog s"
    "slog (put_all raws s) = slog s" "dkeys (put_all raws s) = dkeys s" "sh_disk (put_all raws s) = sh_disk s"
    "sh_out (put_all raws s) = sh_out s"
  by (induction raws rule: rev_induct) (simp_all add: put_all_def)

definition demo_snapped_shell :: shell where
  "demo_snapped_shell = (put_all demo_snap_raws demo_shell)\<lparr>rchanges := [(''01A'', Json demo_change)], rhead := Some ''01A'',
     rlog := Some (frame_record (put_value (op_value (finalize 0 8 demo_snap_op)))), slog := FileLog 1\<rparr>"

lemma scan_demo_dir:
  "scan demo scan_options_default dir (Some (WDir demo_dir)) s
     = (Inr (raw_hash demo (tree_raw demo_scanned)), put_all demo_scan_raws s)"
proof -
  have c: "scan_children scan_options_default demo_dir = Inr [(''b'', WFile [7] True), (''l'', WLink ''b'')]"
    by code_simp
  have l: "str_bytes (lossy ''b'') = [98]" by code_simp
  have i: "tree_insert tree_new (entry_for ''b'' EFile mode_exec h) = Inr \<lparr>entries = [entry_for ''b'' EFile mode_exec h]\<rparr>" for h
    by (simp add: tree_insert_def tree_new_def binary_search_def entry_for_def validate_name_def)
  have i2: "tree_insert \<lparr>entries = [entry_for ''b'' EFile mode_exec h]\<rparr> (entry_for ''l'' ESymlink mode_symlink k)
      = Inr \<lparr>entries = [entry_for ''b'' EFile mode_exec h, entry_for ''l'' ESymlink mode_symlink k]\<rparr>" for h k
    by (simp add: tree_insert_def binary_search_def entry_for_def validate_name_def bs_window.simps less_char_def)
  show ?thesis
    by (simp add: scan_def scan_dir_eq c build_entry_def eff_simps store_demo l i i2 unix_mode_def del: lossy.simps)
      (simp add: demo_scan_raws_def demo_scanned_def put_all_def)
qed

lemma demo_shell_snap:
  "snap_now demo 7 8 ''01A'' snap_options_default dir (Some (WDir demo_dir)) WMain demo_shell
     = (Inr (Snapped (raw_hash demo (snapshot_raw demo_sn)) (raw_hash demo (tree_raw demo_scanned)) demo_change True, WMain),
        demo_snapped_shell)"
proof -
  have w: "cbor_write demo v = Some (put_value v)" for v by (simp add: demo_def demo_write_def)
  have d: "so_author snap_options_default = principal_local ''anonymous''" "so_message snap_options_default = None"
      "so_initial_description snap_options_default = ''initial work''"
    by (simp_all add: snap_options_default_def)
  have tr: "trim ''01A'' = ''01A''" by code_simp
  have b: "\<not> 2 ^ 32 \<le> length (put_value (op_value (finalize 0 8 demo_snap_op)))"
    using demo_snap_op_small by simp
  show ?thesis
    using b
    by (simp add: snap_now_def eff_simps demo_opts scan_demo_dir current_change_id_def head_def snap_commit_def store_demo
        put_all_simps Let_def set_current_change_id_def put_change_def set_head_def capture_workspace_ref_def
        log_append_def w d tr demo_sn_def [symmetric] change_new_def demo_change_def
        demo_snap_op_def demo_snapped_shell_def demo_snap_raws_def)
qed

lemma demo_snapped_free: "collision_free demo demo_snapped_shell"
  by (rule collision_free_distinct) (use demo_snap_raws_distinct in \<open>simp add: demo_snapped_shell_def\<close>)

lemma put_all_files: "ofiles s = ofiles t \<Longrightarrow> ofiles (put_all raws s) = ofiles (put_all raws t)"
  for s :: "'a objects_dir_scheme" and t :: "'b objects_dir_scheme"
  by (induction raws rule: rev_induct) (simp_all add: put_all_def put_raw_def obj_put_files)

lemma demo_snapped_files: "ofiles demo_snapped_shell = ofiles demo_snapped" "owritten demo_snapped_shell = owritten demo_snapped"
proof -
  have "puts raws = put_all raws demo_repo" for raws by (simp add: puts_def put_all_def)
  then show "ofiles demo_snapped_shell = ofiles demo_snapped"
    using put_all_files [of demo_shell demo_repo demo_snap_raws] by (simp add: demo_snapped_shell_def demo_snapped_def)
  show "owritten demo_snapped_shell = owritten demo_snapped"
    by (simp add: demo_snapped_shell_def demo_snapped_def)
qed

lemma demo_snapped_shell_ok: "store_ok demo demo_snapped_shell"
  "load_snapshot demo (ch_current demo_change) demo_snapped_shell = Inr demo_sn"
  using demo_snapped_ok demo_snapped_load
  by (simp_all add: store_ok_fields [OF demo_snapped_files] loads_fields [OF demo_snapped_files(1)])

lemma demo_cmd_snap:
  obtains out where "cmd_snap demo demo_cli demo_w None demo_shell = (Inr (), demo_snapped_shell\<lparr>sh_out := out\<rparr>)"
proof -
  have cur: "ch_current demo_change = raw_hash demo (snapshot_raw demo_sn)" by (simp add: demo_change_def)
  have "snapshotE demo (raw_hash demo (snapshot_raw demo_sn)) demo_snapped_shell = (Inr demo_sn, demo_snapped_shell)"
    using demo_snapped_shell_ok(2) by (simp add: snapshotE_Inr cur)
  moreover have "open_log demo demo_shell = (Inr (), demo_shell)" using demo_shell_opened by (simp add: open_log_Inr)
  moreover have "take_snap demo demo_cli snap_options_default demo_w demo_shell
      = (Inr (Snapped (raw_hash demo (snapshot_raw demo_sn)) (raw_hash demo (tree_raw demo_scanned)) demo_change True, WMain),
         demo_snapped_shell)"
    by (simp add: take_snap_Inr demo_shell_snap)
  ultimately show ?thesis
    using that by (simp add: cmd_snap_def print_snap_outcome_def bindE_def mapE_def print_line_def updE_def retE_def)
qed

lemma demo_dir_ready: "node_at (workdir demo_w) (sh_disk demo_shell) = Some (WDir demo_dir)" "checked_out X WMain demo_shell"
  "trimmed (ce_cid demo_cli)"
proof -
  show "node_at (workdir demo_w) (sh_disk demo_shell) = Some (WDir demo_dir)" by simp
  show "checked_out X WMain demo_shell" by (simp add: checked_out_def current_change_id_def head_def)
  have "trim ''01A'' = ''01A''" by code_simp
  then show "trimmed (ce_cid demo_cli)" by (simp add: trimmed_def)
qed

section \<open>Other concrete inputs\<close>

definition demo_blame_line :: blame_line where
  "demo_blame_line = \<lparr>bl_line = [], bl_snap = raw_hash demo (snapshot_raw demo_sn), bl_author = ''a longer name than fits'',
     bl_timestamp_ns = 0, bl_message = None\<rparr>"

definition demo_link_diff :: file_diff where
  "demo_link_diff = \<lparr>fd_path = ''l'', fd_kind = Modified, fd_entry_kind = ESymlink, fd_from_target = Some (raw_hash demo (blob_raw [7])),
     fd_to_target = Some (raw_hash demo (blob_raw [98])), fd_binary = False, fd_hunks = None\<rparr>"

text \<open>A round of a watch: the file \<open>/w/b\<close> was written.\<close>

definition demo_round :: "shell watch_round" where
  "demo_round = \<lparr>wr_stop = False, wr_others = (\<lambda>s. s\<lparr>sh_disk := WDir [(''w'', WDir demo_dir)]\<rparr>),
     wr_recv = Batch [(EvModify, [[''w'', ''b'']])], wr_lock = None, wr_t1 = 7, wr_t2 = 8, wr_cid = ''01A''\<rparr>"

lemma demo_round_props:
  "edits_workdir [''w''] (scan_opts_for snap_options_default) demo_round \<and> goes_on demo_round"
  "takes_snap [''w'', ''.tig''] demo_round"
proof -
  have "scannable scan_options_default (WDir demo_dir)" by (rule demo_dir_scannable)
  then show "edits_workdir [''w''] (scan_opts_for snap_options_default) demo_round \<and> goes_on demo_round"
    using demo_dir_ready(3)
    by (auto simp: edits_workdir_def goes_on_def demo_round_def demo_opts
        intro!: exI [of _ "WDir [(''w'', WDir demo_dir)]"] exI [of _ demo_dir])
  show "takes_snap [''w'', ''.tig''] demo_round"
    by (simp add: takes_snap_def demo_round_def touches_workdir_def kinds_meaningful_def)
qed

lemma demo_round_run:
  "\<exists>es. watch_loop demo snap_options_default [''w''] [''w'', ''.tig''] [demo_round] WMain demo_shell
     = (es, False, WMain, demo_snapped_shell)"
proof -
  have s: "wr_others demo_round demo_shell = demo_shell" by (simp add: demo_round_def demo_shell_def)
  have "watch_snap demo snap_options_default [''w''] demo_round WMain demo_shell
      = (Inr (Snapped (raw_hash demo (snapshot_raw demo_sn)) (raw_hash demo (tree_raw demo_scanned)) demo_change True, WMain),
         demo_snapped_shell)"
    using demo_shell_snap by (simp add: watch_snap_def) (simp add: demo_round_def)
  then show ?thesis
    using s by (simp add: Let_def) (simp add: demo_round_def touches_workdir_def kinds_meaningful_def)
qed

section \<open>A draft\<close>

definition demo_empty :: snapshot where
  "demo_empty = \<lparr>sn_parents = [], sn_tree = raw_hash demo (tree_raw tree_new), sn_author = principal_local ''anonymous'',
     sn_timestamp_ns = 7, sn_message = Some ''(empty)'', sn_op_id = None\<rparr>"

definition demo_cli_draft :: change where
  "demo_cli_draft = new_private_draft ''01A'' ''idea'' (principal_local ''anonymous'') (raw_hash demo (snapshot_raw demo_empty))"

definition demo_draft_op :: op_in_progress where
  "demo_draft_op = \<lparr>oip_actor = principal_local ''anonymous'', oip_kind = OkChangeNew ''01A'' ''idea'',
     oip_before = [RHead None, RChange ''01A'' None],
     oip_after = [RHead (Some ''01A''), RChange ''01A'' (Some demo_cli_draft)]\<rparr>"

definition demo_publish_op :: op_in_progress where
  "demo_publish_op = \<lparr>oip_actor = principal_local ''anonymous'',
     oip_kind = OkChangeTransition ''01A'' SDraft SWorking VPrivate VPublic,
     oip_before = [RChange ''01A'' (Some demo_cli_draft)],
     oip_after = [RChange ''01A'' (Some (demo_cli_draft\<lparr>ch_state := SWorking, ch_visibility := VPublic\<rparr>))]\<rparr>"

lemma demo_ops_small:
  "length (put_value (op_value (finalize 0 8 demo_draft_op))) < 1000"
  "length (put_value (op_value (finalize 1 8 demo_publish_op))) < 1000"
  by code_simp+

definition demo_drafted :: shell where
  "demo_drafted = (put_all [tree_raw tree_new, snapshot_raw demo_empty] demo_shell)
     \<lparr>rchanges := [(''01A'', Json demo_cli_draft)], rhead := Some ''01A'',
      rlog := Some (frame_record (put_value (op_value (finalize 0 8 demo_draft_op)))), slog := FileLog 1\<rparr>"

lemma demo_logs:
  fixes s :: "'r session_scheme"
  assumes "slog s = FileLog n" and "length (put_value (op_value (finalize n now p))) < 1000"
  shows "log_append demo now p s = (Inr (finalize n now p),
    s\<lparr>rlog := Some (log_bytes s @ frame_record (put_value (op_value (finalize n now p)))), slog := FileLog (n + 1)\<rparr>)"
proof -
  have "cbor_write demo v = Some (put_value v)" for v by (simp add: demo_def demo_write_def)
  with assms show ?thesis by (simp add: log_append_def Let_def log_bytes_def)
qed

lemma demo_cmd_draft:
  obtains out where "cmd_draft demo demo_cli demo_w ''idea'' demo_shell = (Inr (), demo_drafted\<lparr>sh_out := out\<rparr>)"
proof -
  let ?s = "put_all [tree_raw tree_new, snapshot_raw demo_empty] demo_shell"
  have put: "store_raw demo (Inr raw) s = (Inr (raw_hash demo raw), put_raw raw s)" for raw and s :: shell
    by (simp add: store_raw_def eff_simps put_raw_def obj_put_fst)
  have p2: "put_raw (snapshot_raw demo_empty) (put_raw (tree_raw tree_new) demo_shell) = ?s" by (simp add: put_all_def)
  have "putE demo (Inr raw) s = (Inr (raw_hash demo raw), put_raw raw s)" for raw and s :: shell
    using put by (simp add: putE_Inr)
  then have cur: "current_or_empty demo demo_cli demo_w demo_shell = (Inr (raw_hash demo (snapshot_raw demo_empty)), ?s)"
    by (simp add: current_or_empty_def bindE_def readE_def current_change_id_def head_def encode_raw p2 demo_empty_def [symmetric])
  have tr: "trim ''01A'' = ''01A''" by code_simp
  have i: "ch_id demo_cli_draft = ''01A''" by (simp add: demo_cli_draft_def new_private_draft_def change_new_def)
  let ?c = "?s\<lparr>rchanges := [(''01A'', Json demo_cli_draft)]\<rparr>" and ?h = "?s\<lparr>rchanges := [(''01A'', Json demo_cli_draft)], rhead := Some ''01A''\<rparr>"
  have "appendE demo demo_cli (OkChangeNew ''01A'' ''idea'') [RHead None, RChange ''01A'' None]
      [RHead (Some ''01A''), RChange ''01A'' (Some demo_cli_draft)] ?h = (Inr (finalize 0 8 demo_draft_op), demo_drafted)"
    using demo_logs [of ?h 0 8 demo_draft_op] demo_ops_small(1)
    by (simp add: appendE_def storeE_Inr demo_draft_op_def [symmetric]) (simp add: demo_drafted_def log_bytes_def)
  moreover have "put_change demo_cli_draft ?s = (Inr (), ?c)" "set_current_change_id WMain ''01A'' ?c = (Inr WMain, ?h)"
    by (simp_all add: put_change_def i set_current_change_id_def set_head_def bindE_def retE_def)
  moreover have "workspace_ref_snapshot WMain ?s = Inr (RHead None)" "workspace_ref_snapshot WMain ?h = Inr (RHead (Some ''01A''))"
    by (simp_all add: workspace_ref_snapshot_def head_def tr)
  ultimately have reg: "register_change demo demo_cli demo_w ''idea'' demo_cli_draft ?s = (Inr (), demo_drafted)"
    by (simp add: register_change_def bindE_def storeE_def mapE_def readE_def retE_def i)
  have "open_log demo demo_shell = (Inr (), demo_shell)" using demo_shell_opened by (simp add: open_log_Inr)
  then show ?thesis
    using that by (simp add: cmd_draft_def bindE_def cur Let_def demo_cli_draft_def [symmetric] reg print_lines_def updE_def)
qed

lemma demo_drafted_change: "get_change ''01A'' (demo_drafted\<lparr>sh_out := out\<rparr>) = Inr demo_cli_draft"
  by (simp add: get_change_def demo_drafted_def parse_json_def)

lemma demo_publish:
  obtains u where "run_cmd demo demo_tools demo_vault demo_cli demo_w (CmdChange (CmdPublish (Some ''01A''))) (demo_drafted\<lparr>sh_out := out\<rparr>)
    = (Inr (), u)"
proof -
  let ?s = "demo_drafted\<lparr>sh_out := out\<rparr>" and ?c = "demo_cli_draft\<lparr>ch_state := SWorking, ch_visibility := VPublic\<rparr>"
  let ?op = "finalize 0 8 demo_draft_op"
  obtain v where v: "put_change ?c ?s = (Inr (), v)" "rlog v = Some (frame_record (put_value (op_value ?op)))"
    by (simp add: put_change_def demo_drafted_def)
  have w: "cbor_write demo (op_value p) = Some (put_value (op_value p))" for p by (simp add: demo_def demo_write_def)
  have "read_ops demo 0 ([] @ frame_record (put_value (op_value ?op))) = Inr ([] @ [?op])"
    by (rule read_ops_append [OF demo_cbor w]) (use demo_ops_small in auto)
  then have "read_all demo v = Inr [?op]" by (simp add: read_all_def v(2))
  moreover have n: "numbered [?op] 1" by (simp add: numbered_def finalize_def)
  ultimately have "compute_next_id demo v = Inr 1" by (rule compute_next_id_numbered)
  then obtain v' where v': "log_open demo v = (Inr (), v')" "slog v' = FileLog 1"
    by (simp add: log_open_def Let_def v(2))
  have f: "ch_id demo_cli_draft = ''01A''" "ch_state demo_cli_draft = SDraft" "ch_visibility demo_cli_draft = VPrivate"
    by (simp_all add: demo_cli_draft_def new_private_draft_def change_new_def)
  obtain v'' where "log_append demo 8 demo_publish_op v' = (Inr (finalize 1 8 demo_publish_op), v'')"
    using demo_logs [OF v'(2) demo_ops_small(2)] by simp
  then have ap: "appendE demo demo_cli (OkChangeTransition ''01A'' SDraft SWorking VPrivate VPublic)
      [RChange ''01A'' (Some demo_cli_draft)] [RChange ''01A'' (Some ?c)] v' = (Inr (finalize 1 8 demo_publish_op), v'')"
    by (simp add: appendE_def storeE_Inr demo_publish_op_def [symmetric])
  have "changeE ''01A'' ?s = (Inr demo_cli_draft, ?s)" by (simp add: changeE_Inr demo_drafted_change)
  moreover have "storeE (put_change ?c) ?s = (Inr (), v)" "open_log demo v = (Inr (), v')"
    using v(1) v'(1) by (simp_all add: eff_iffs)
  moreover have "parse_state_str demo_tools ''working'' = Inr SWorking" "parse_vis_str ''public'' = Inr VPublic"
    by (simp_all add: parse_state_str_def parse_vis_str_def demo_tools_def)
  ultimately show ?thesis
    using that ap f
    by (simp add: cmd_change_transition_def bindE_def retE_def liftE_def Let_def print_line_def updE_def)
qed

section \<open>Undoing the first snapshot\<close>

definition demo_undo_op :: op_in_progress where
  "demo_undo_op = \<lparr>oip_actor = ''bob'', oip_kind = OkUndo 0,
     oip_before = [RHead (Some ''01A''), RChange ''01A'' (Some demo_change)], oip_after = [RHead None, RChange ''01A'' None]\<rparr>"

lemma demo_undo_small: "length (put_value (op_value (finalize 1 9 demo_undo_op))) < 1000"
  by code_simp

lemma demo_history:
  "undo_stack [finalize 0 8 demo_snap_op] = [finalize 0 8 demo_snap_op]"
  "op_before (finalize 0 8 demo_snap_op) = [RHead None, RChange ''01A'' None]" "op_id_of (finalize 0 8 demo_snap_op) = 0"
  by (simp_all add: undo_stack_def is_undo_def finalize_def demo_snap_op_def)

lemma demo_snapped_readable: "\<exists>y. refs_view demo_snapped k = Inr y"
  by (cases k) (auto simp: refs_view_simps get_change_def ws_get_def demo_snapped_def parse_json_def)

lemma demo_undo: "\<exists>out t. undo_once demo 9 ''bob'' demo_snapped = (Inr (Some out), t)"
proof -
  have lst: "log_list demo demo_snapped = Inr [finalize 0 8 demo_snap_op]" using demo_snapped_log by (simp add: log_ok_def)
  have pick: "pick_op_to_undo [finalize 0 8 demo_snap_op] = Some (finalize 0 8 demo_snap_op)"
    by (simp add: pick_is_top demo_history(1))
  have tr: "trim ''01A'' = ''01A''" by code_simp
  have cur: "traverse (\<lambda>x. read_current x demo_snapped) [RHead None, RChange ''01A'' None]
      = Inr [RHead (Some ''01A''), RChange ''01A'' (Some demo_change)]"
    by (simp add: read_current_view refs_view_simps head_def get_change_def demo_snapped_def parse_json_def tr)
  obtain v where v: "forE restore_ref [RHead None, RChange ''01A'' None] demo_snapped = (Inr (), v)" "slog v = FileLog 1"
    by (simp add: clear_head_def delete_change_def demo_snapped_def)
  obtain q t where "log_append demo 9 demo_undo_op v = (Inr q, t)"
    using demo_logs [OF v(2) demo_undo_small] by simp
  then show ?thesis
    by (simp add: undo_once_def eff_simps lst pick demo_history(2,3) cur v(1) demo_undo_op_def del: traverse.simps forE.simps)
qed

lemma demo_second_undo:
  assumes "undo_once demo 9 ''bob'' demo_snapped = (Inr (Some out), u)"
  shows "undo_once demo now actor u = (Inr None, u)"
proof -
  let ?op = "finalize 0 8 demo_snap_op"
  have pick: "pick_op_to_undo [?op] = Some ?op" by (simp add: pick_is_top demo_history(1))
  have len: "length [?op] + 1 < 2 ^ 63" by simp
  have wf: "\<forall>x \<in> set (op_before ?op). snap_wf x" by (simp add: demo_history)
  have rd: "\<forall>x \<in> set (op_before ?op). \<exists>y. read_current x demo_snapped = Inr y"
    using demo_snapped_readable by (simp add: read_current_view)
  obtain q where "log_ok demo u ([?op] @ [q])" "undo_stack ([?op] @ [q]) = tl (undo_stack [?op])"
    using undo_once_spec [OF demo_cbor demo_snapped_log len pick wf rd, of 9 "''bob''"] assms by (auto simp del: undo_stack_simps)
  then show ?thesis
    using undo_once_nothing [of demo u "[?op] @ [q]"] by (simp add: log_ok_def demo_history del: undo_stack_simps)
qed

section \<open>An identity\<close>

lemma demo_identity:
  obtains t u where "cmd_identity_new demo demo_vault demo_cli demo_w ''alice'' demo_shell = (Inr (), t)"
    "cmd_auth_token demo demo_vault demo_cli (Some ''alice'') 100 t = (Inr (), u)"
proof -
  let ?p = "new_local_full demo ''alice'' PkUser (keypair_generate demo_vault (ce_seal_seed demo_cli))
    (sign_keypair_generate demo_vault (ce_sign_seed demo_cli))"
  have id: "pr_id ?p = ''alice''" by (simp add: new_local_full_def)
  have "principal_put_new ?p [] = (Inr (), [(key_file ''alice'', Json ?p)])"
    by (simp add: principal_put_new_def principal_put_def eff_simps id validate_id_def)
  then obtain t where t: "cmd_identity_new demo demo_vault demo_cli demo_w ''alice'' demo_shell = (Inr (), t)"
      "dkeys t = [(key_file ''alice'', Json ?p)]"
    by (simp add: cmd_identity_new_def Let_def bindE_def in_keys_def print_lines_def updE_def)
  have "principal_sign_secret demo ?p = Inr (SignSecretKey (ce_sign_seed demo_cli))"
    by (simp add: principal_sign_secret_def new_local_full_def sign_secret_to_hex_def sign_secret_from_hex_def key_hex [OF demo_hex]
        sign_keypair_generate_def)
  then obtain u where "cmd_auth_token demo demo_vault demo_cli (Some ''alice'') 100 t = (Inr (), u)"
    using t(2) by (simp add: cmd_auth_token_def eff_simps acting_as_def principal_get_def)
  with t(1) show ?thesis by (rule that)
qed

end
