(* ===== verification/Demo_Seal.thy ===== *)
theory Demo_Seal
  imports Demo_Shell
begin

text \<open>
  A concrete \<^verbatim>\<open>tig seal\<close>: the shell after the first snapshot of the demo directory with an
  empty log and one identity, and the value the command writes for that identity.
\<close>

section \<open>A sealed value\<close>

definition demo_reader :: principal where
  "demo_reader = new_local_full demo ''alice'' PkUser (keypair_generate demo_vault (b32_of [5])) (sign_keypair_generate demo_vault (b32_of [6]))"

definition demo_sealer :: shell where
  "demo_sealer = demo_snapped_shell\<lparr>rlog := Some [], slog := FileLog 0, dkeys := [(key_file ''alice'', Json demo_reader)]\<rparr>"

definition demo_sealed :: sealed where
  "demo_sealed = projr (seal demo_vault (ce_eph_seed demo_cli) (ce_data_key demo_cli) [replicate 24 3] (replicate 24 4) (str_bytes ''hi'')
     [pr_pubkey demo_reader] (str_bytes ''s''))"

definition demo_sealed_raw :: raw_object where
  "demo_sealed_raw = projr (encode_sealed demo demo_sealed)"

definition demo_sealed_hash :: hash where
  "demo_sealed_hash = Hash (b32_of (replicate 30 0 @ [89, 34]))"

definition demo_sealed_tree :: tree where
  "demo_sealed_tree = \<lparr>entries = entries demo_scanned @ [entry_for ''s'' ESealed mode_regular demo_sealed_hash]\<rparr>"

definition demo_sealed_sn :: snapshot where
  "demo_sealed_sn = new_snapshot (snap_options demo_cli (Some ''seal s'')) 7 [ch_current demo_change]
     (raw_hash demo (tree_raw demo_sealed_tree))"

definition demo_sealed_at :: hash where
  "demo_sealed_at = Hash (b32_of (replicate 30 0 @ [132, 53]))"

definition demo_seal_op :: op_in_progress where
  "demo_seal_op =
     \<lparr>oip_actor = principal_local ''anonymous'', oip_kind = OkSnap demo_sealed_at (Some ''seal s''),
      oip_before = [RChange ''01A'' (Some demo_change)], oip_after = [RChange ''01A'' (Some (advance demo_change demo_sealed_at))]\<rparr>"

lemma demo_seal_op_small: "length (put_value (op_value (finalize 0 8 demo_seal_op))) < 1000"
  by code_simp

lemma demo_sealed_hash: "raw_hash demo demo_sealed_raw = demo_sealed_hash"
  by code_simp

lemma demo_sealed_at: "raw_hash demo (snapshot_raw demo_sealed_sn) = demo_sealed_at"
  by code_simp

lemma demo_seal_raws:
  "distinct (map (raw_hash demo) (remdups (demo_snap_raws @ [demo_sealed_raw, tree_raw demo_sealed_tree, snapshot_raw demo_sealed_sn])))"
proof -
  let ?rs = "demo_snap_raws @ [demo_sealed_raw, tree_raw demo_sealed_tree, snapshot_raw demo_sealed_sn]"
  have "distinct (map (raw_hash demo) demo_snap_raws @ [demo_sealed_hash, raw_hash demo (tree_raw demo_sealed_tree), demo_sealed_at])"
    by code_simp
  then have "distinct (map (raw_hash demo) ?rs)" by (simp only: map_append list.map demo_sealed_hash demo_sealed_at)
  then show ?thesis by (simp only: distinct_map distinct_remdups_id)
qed

lemma demo_reader_keys:
  "principal_get ''alice'' [(key_file ''alice'', Json demo_reader)] = Inr demo_reader"
  "principal_secret demo demo_reader = Inr (SecretKey (b32_of [5]))" "pr_pubkey demo_reader = secret_public demo_vault (SecretKey (b32_of [5]))"
  by (simp_all add: principal_get_def parse_json_def demo_reader_def new_local_full_def principal_secret_def
      keypair_generate_def secret_key_to_hex_def secret_key_from_hex_def key_hex [OF demo_hex])

lemma demo_sealer_ok:
  "store_ok demo demo_sealer" "log_reads demo demo_sealer []" "ids_ok demo_sealer"
  "current_change_id WMain demo_sealer = Some ''01A''" "get_change ''01A'' demo_sealer = Inr demo_change"
  "load_snapshot demo (ch_current demo_change) demo_sealer = Inr demo_sn"
  "load_tree demo (raw_hash demo (tree_raw demo_scanned)) demo_sealer = Inr demo_scanned"
proof -
  have f: "ofiles demo_sealer = ofiles demo_snapped" "owritten demo_sealer = owritten demo_snapped"
    using demo_snapped_files by (simp_all add: demo_sealer_def)
  show "store_ok demo demo_sealer" by (simp only: store_ok_fields [OF f] demo_snapped_ok)
  show "load_snapshot demo (ch_current demo_change) demo_sealer = Inr demo_sn"
    by (simp only: loads_fields [OF f(1)] demo_snapped_load)
  show "load_tree demo (raw_hash demo (tree_raw demo_scanned)) demo_sealer = Inr demo_scanned"
    using demo_gc_edges(2) by (simp only: loads_fields [OF f(1)]) (simp add: load_tree_def)
  show "log_reads demo demo_sealer []" by (simp add: log_reads_def read_all_def numbered_def demo_sealer_def)
  have tr: "trim ''01A'' = ''01A''" by code_simp
  have i: "ch_id demo_change = ''01A''" by (simp add: demo_change_def change_new_def)
  show "ids_ok demo_sealer" "current_change_id WMain demo_sealer = Some ''01A''" "get_change ''01A'' demo_sealer = Inr demo_change"
    by (auto simp: ids_ok_def current_change_id_def head_def get_change_def demo_sealer_def demo_snapped_shell_def parse_json_def tr i
        split: if_splits)
qed

lemma demo_seal_written:
  "seal demo_vault (ce_eph_seed demo_cli) (ce_data_key demo_cli) [replicate 24 3] (replicate 24 4) (str_bytes ''hi'')
     [pr_pubkey demo_reader] (str_bytes ''s'') = Inr demo_sealed"
  "write_sealed_at_path demo (sn_tree demo_sn) ''s'' demo_sealed demo_sealer
     = (Inr (raw_hash demo (tree_raw demo_sealed_tree)), put_all [demo_sealed_raw, tree_raw demo_sealed_tree] demo_sealer)"
proof -
  show "seal demo_vault (ce_eph_seed demo_cli) (ce_data_key demo_cli) [replicate 24 3] (replicate 24 4) (str_bytes ''hi'')
     [pr_pubkey demo_reader] (str_bytes ''s'') = Inr demo_sealed"
    unfolding demo_sealed_def
    by (rule seal_total [OF demo_seal_laws, where eph = "ce_eph_seed demo_cli" and data_key = "ce_data_key demo_cli" and
          recipients = "[pr_pubkey demo_reader]" and nonces = "[replicate 24 3]" and nonce = "replicate 24 4" and
          plaintext = "str_bytes ''hi''" and aad = "str_bytes ''s''"]) simp_all
  have p: "split_path ''s'' = Inr [''s'']" by code_simp
  have e: "encode_sealed demo demo_sealed = Inr demo_sealed_raw"
    unfolding demo_sealed_raw_def using sealed_codec.encode_total [OF demo_cbor, of demo_sealed] by (auto simp: encode_sealed_def)
  have put: "store_sealed demo demo_sealed s = (Inr demo_sealed_hash, put_raw demo_sealed_raw s)" for s :: shell
    by (simp add: demo_sealed_hash [symmetric] store_sealed_def store_raw_def eff_simps e put_raw_def obj_put_fst)
  have i: "tree_insert demo_scanned (entry_for ''s'' ESealed mode_regular demo_sealed_hash) = Inr demo_sealed_tree"
    by (simp add: tree_insert_def demo_scanned_def demo_sealed_tree_def entry_for_def validate_name_def binary_search_def bs_window.simps
        less_char_def)
  have "sn_tree demo_sn = raw_hash demo (tree_raw demo_scanned)" by (simp add: demo_sn_def new_snapshot_def)
  then show "write_sealed_at_path demo (sn_tree demo_sn) ''s'' demo_sealed demo_sealer
     = (Inr (raw_hash demo (tree_raw demo_sealed_tree)), put_all [demo_sealed_raw, tree_raw demo_sealed_tree] demo_sealer)"
    using load_mono(1) [OF put_raw_grows demo_sealer_ok(7)] i
    by (simp add: write_sealed_at_path_def eff_simps p put store_demo entry_for_def put_all_def)
qed

lemma demo_seal:
  obtains t where "cmd_seal demo demo_vault demo_cli demo_w ''s'' [''alice''] None (Some ''hi'') demo_sealer = (Inr (), t)"
    "collision_free demo t"
proof -
  let ?u = "put_all [demo_sealed_raw, tree_raw demo_sealed_tree] demo_sealer"
  let ?o = "snap_options demo_cli (Some ''seal s'')" and ?h = demo_sealed_at
  have o: "so_message ?o = Some ''seal s''" "so_author ?o = principal_local ''anonymous''"
    by (simp_all add: snap_options_def snap_options_default_def)
  have flds: "rlog demo_sealer = Some []" "slog demo_sealer = FileLog 0" "dkeys demo_sealer = [(key_file ''alice'', Json demo_reader)]"
    "owritten demo_sealer = demo_snap_raws"
    by (simp_all add: demo_sealer_def demo_snapped_shell_def)
  have gr: "store_grows demo_sealer ?u"
    using store_grows_trans [OF put_raw_grows put_raw_grows] by (simp add: put_all_def)
  have g: "get_change ''01A'' ?u = Inr demo_change" "load_snapshot demo (ch_current demo_change) ?u = Inr demo_sn"
    using demo_sealer_ok(5) load_mono(3) [OF gr demo_sealer_ok(6)] by (simp_all add: get_change_def)
  have opn: "log_open demo ?u = (Inr (), ?u)"
    by (simp add: log_open_def compute_next_id_def read_all_def Let_def flds)
  have i: "ch_id demo_change = ''01A''" by (simp add: demo_change_def change_new_def)
  define v where "v = (put_raw (snapshot_raw demo_sealed_sn) ?u)\<lparr>rchanges := AList.update ''01A'' (Json (advance demo_change ?h)) (rchanges demo_sealer)\<rparr>"
  have pc: "put_change (advance demo_change ?h) (put_raw (snapshot_raw demo_sealed_sn) ?u) = (Inr (), v)"
    by (simp add: put_change_def v_def i)
  obtain q t where t: "log_append demo 8 demo_seal_op v = (Inr q, t)" "owritten t = owritten v"
    using demo_logs [of v 0 8 demo_seal_op] demo_seal_op_small by (simp add: v_def flds)
  have snap: "snap_change_directly demo 7 8 ''01A'' (raw_hash demo (tree_raw demo_sealed_tree)) ?o ?u
      = (Inr (Snapped ?h (raw_hash demo (tree_raw demo_sealed_tree)) (advance demo_change ?h) False), t)"
    using t(1)
    by (simp add: snap_change_directly_def eff_simps g o demo_sealed_sn_def [symmetric] store_demo demo_sealed_at Let_def pc i demo_seal_op_def)
  have free: "collision_free demo (t\<lparr>sh_out := x\<rparr>)" for x
    by (rule collision_free_distinct) (use demo_seal_raws in \<open>simp add: t(2) v_def flds\<close>)
  have "traverse (\<lambda>n. map_err CliVis (principal_get n (dkeys demo_sealer))) [''alice''] = Inr [demo_reader]"
    by (simp add: flds demo_reader_keys)
  moreover have "seal_plaintext demo_cli None (Some ''hi'') demo_sealer = (Inr (str_bytes ''hi''), demo_sealer)"
    by (simp add: seal_plaintext_def retE_def)
  moreover have "map (ce_wrap_nonce demo_cli) [0..<length [demo_reader]] = [replicate 24 3]" "ce_payload_nonce demo_cli = replicate 24 4"
    by (simp_all add: demo_cli_def)
  moreover have "current_changeE NoCurrentChange demo_w demo_sealer = (Inr ''01A'', demo_sealer)" "changeE ''01A'' demo_sealer = (Inr demo_change, demo_sealer)"
      "snapshotE demo (ch_current demo_change) demo_sealer = (Inr demo_sn, demo_sealer)" "open_log demo ?u = (Inr (), ?u)"
      "fsE (write_sealed_at_path demo (sn_tree demo_sn) ''s'' demo_sealed) demo_sealer = (Inr (raw_hash demo (tree_raw demo_sealed_tree)), ?u)"
      "fsE (snap_change_directly demo 7 8 ''01A'' (raw_hash demo (tree_raw demo_sealed_tree)) ?o) ?u
         = (Inr (Snapped ?h (raw_hash demo (tree_raw demo_sealed_tree)) (advance demo_change ?h) False), t)"
    using demo_sealer_ok(4-6) demo_seal_written(2) opn snap by (simp_all add: eff_iffs)
  ultimately have "cmd_seal demo demo_vault demo_cli demo_w ''s'' [''alice''] None (Some ''hi'') demo_sealer
      = (Inr (), t\<lparr>sh_out := sh_out t @ ''sealed s for '' @ show_nat (length [''alice'']) @ '' recipient(s); snap '' @ short_hash demo ?h @ [newline]\<rparr>)"
    using demo_seal_written(1)
    by (simp add: cmd_seal_def bindE_def readE_def liftE_def print_line_def updE_def)
  with that free show thesis by blast
qed

end
