(* ===== verification/Cli_Theorems.thy ===== *)
theory Cli_Theorems
  imports Demo_Seal
begin

text \<open>
  The properties of the command line, and of everything that works on one repository together:
  commands, watches, the daemon's requests and the edits of the user.
\<close>

text \<open>C8. Nothing recorded is lost: whatever commands, watches, requests of the daemon and edits of the user work on
  a repository, in any order and with log handles of any age, the log's file is only ever extended,
  undo included; and where no garbage is collected, every object that could be read can still be
  read, as the same object.\<close>
theorem sessions_lose_nothing:
  fixes s t :: "'r shell_scheme"
  assumes "session_of X T V gc s t"
  shows "prefix (log_bytes s) (log_bytes t)
    \<and> (\<not> gc \<longrightarrow> (objs_ok X s \<longrightarrow> objs_ok X t) \<and> (\<forall>h raw. obj_get X h s = Inr raw \<longrightarrow> obj_get X h t = Inr raw))"
  using recorded.in_any_session [OF assms] lossless.in_session [OF assms]
  by (auto simp: extends_log_def keeps_objects_def obj_get_mono)


theorem sessions_lose_nothing_witness:
  "load_snapshot demo (ch_current demo_change)
     (snd (run_cmd demo demo_tools demo_vault demo_cli demo_w CmdUndo demo_snapped_shell)) = Inr demo_sn"
proof -
  let ?u = "snd (run_cmd demo demo_tools demo_vault demo_cli demo_w CmdUndo demo_snapped_shell)"
  have slog: "demo_snapped_shell\<lparr>slog := FileLog 1\<rparr> = demo_snapped_shell" by (simp add: demo_snapped_shell_def)
  have s: "session_of demo demo_tools demo_vault False demo_snapped_shell ?u"
    by (rule session_of.command [OF session_of.stay, where c = CmdUndo and l = "FileLog 1" and env = demo_cli and w = demo_w
        and r = "fst (run_cmd demo demo_tools demo_vault demo_cli demo_w CmdUndo demo_snapped_shell)"]) (simp_all add: slog)
  show ?thesis
    using demo_snapped_shell_ok(2) sessions_lose_nothing [OF s] by (auto simp: load_snapshot_def and_then_Inr_iff)
qed

section \<open>Undoing step by step\<close>

text \<open>A sequence of undos, each with its clock and actor: the answers and the state they leave.\<close>

fun undo_run ::
  "'x ext_scheme \<Rightarrow> (u64 \<times> principal_id) list \<Rightarrow> 'r session_scheme \<Rightarrow> (store_error + undo_outcome option) list \<times> 'r session_scheme" where
  "undo_run X [] s = ([], s)"
| "undo_run X ((now, actor) # cs) s =
     (let (r, t) = undo_once X now actor s; (rs, u) = undo_run X cs t in (r # rs, u))"

text \<open>C11. Repeated undo walks the history back to its start and then ends: in a repository whose references can
  be read and as long as its records fit the log, the \<open>i\<close>-th of a sequence of undos takes back the
  \<open>i\<close>-th most recent operation not undone so far, whatever was undone before; once they are used
  up it answers that there is nothing to undo; and the references end up as recorded before
  the oldest operation taken back.\<close>
theorem undo_walks_back:
  assumes "cbor_laws X" and "log_ok X s ops" and "length ops + length cs < 2 ^ 63"
    and "\<forall>p \<in> set (undo_stack ops). \<forall>x \<in> set (op_before p). snap_wf x" and "\<forall>k. \<exists>y. refs_view s k = Inr y"
    and "undo_run X cs s = (rs, t)" and "Inl (SCorrupt OplogRecordTooLarge) \<notin> set rs"
  shows "length rs = length cs
    \<and> (\<forall>i < length cs. \<exists>out. rs ! i = Inr out
         \<and> map_option uo_undone out = (if i < length (undo_stack ops) then Some (undo_stack ops ! i) else None))
    \<and> refs_view t = foldl (\<lambda>v p. view_update (op_before p) v) (refs_view s) (take (length cs) (undo_stack ops))"
  using assms(2-7)
proof (induction cs arbitrary: s ops rs)
  case Nil
  then show ?case by simp
next
  case (Cons c cs)
  obtain now actor where c: "c = (now, actor)" by fastforce
  obtain r u rs' where st: "undo_once X now actor s = (r, u)" "undo_run X cs u = (rs', t)" "rs = r # rs'"
    using Cons.prems(5) by (auto simp: c split: prod.splits)
  have len: "length ops + 1 < 2 ^ 63" and fits: "Inl (SCorrupt OplogRecordTooLarge) \<notin> set rs'"
    using Cons.prems(2,6) st(3) by simp_all
  show ?case
  proof (cases "undo_stack ops")
    case Nil
    then have r: "r = Inr None" "u = s" using undo_once_nothing [of X s ops] Cons.prems(1) st(1) by (auto simp: log_ok_def)
    note IH = Cons.IH [OF Cons.prems(1) _ Cons.prems(3,4) st(2) [unfolded r(2)] fits]
    show ?thesis using IH Cons.prems(2) r(1) by (auto simp: st(3) Nil less_Suc_eq_0_disj)
  next
    case (Cons p ps)
    have pick: "pick_op_to_undo ops = Some p" by (simp add: pick_is_top Cons)
    have wf: "\<forall>x \<in> set (op_before p). snap_wf x" using Cons.prems(3) Cons by simp
    have rd: "\<forall>x \<in> set (op_before p). \<exists>y. read_current x s = Inr y" using Cons.prems(4) by (simp add: read_current_view)
    obtain q where q: "r = Inr (Some \<lparr>uo_undone = p, uo_recorded = q\<rparr>)" "log_ok X u (ops @ [q])"
        "undo_stack (ops @ [q]) = ps" "refs_view u = view_update (op_before p) (refs_view s)"
      using undo_once_spec [OF assms(1) Cons.prems(1) len pick wf rd, of now actor] st(1,3) Cons.prems(6) Cons
      by (auto simp del: undo_stack_simps)
    have IH: "length rs' = length cs
      \<and> (\<forall>i < length cs. \<exists>out. rs' ! i = Inr out \<and> map_option uo_undone out = (if i < length ps then Some (ps ! i) else None))
      \<and> refs_view t = foldl (\<lambda>v p. view_update (op_before p) v) (refs_view u) (take (length cs) ps)"
      unfolding q(3) [symmetric]
    proof (rule Cons.IH [OF q(2) _ _ _ st(2) fits])
      show "\<forall>k. \<exists>y. refs_view u k = Inr y" using Cons.prems(4) view_update_readable unfolding q(4) by blast
    qed (use Cons.prems(2,3) Cons q(3) in \<open>simp_all del: undo_stack_simps\<close>)
    then show ?thesis by (auto simp: st(3) Cons q(1,4) less_Suc_eq_0_disj)
  qed
qed

theorem undo_walks_back_witness:
  "\<exists>out t. undo_run demo [(9, ''bob''), (10, ''eve'')] demo_snapped = ([Inr (Some out), Inr None], t)
    \<and> uo_undone out = finalize 0 8 demo_snap_op"
proof -
  let ?ops = "[finalize 0 8 demo_snap_op]"
  obtain out u where u: "undo_once demo 9 ''bob'' demo_snapped = (Inr (Some out), u)" using demo_undo by blast
  obtain r t where r: "undo_once demo 10 ''eve'' u = (r, t)" by fastforce
  have run: "undo_run demo [(9, ''bob''), (10, ''eve'')] demo_snapped = ([Inr (Some out), r], t)" by (simp add: u r)
  have wf: "\<forall>p \<in> set (undo_stack ?ops). \<forall>x \<in> set (op_before p). snap_wf x" by (simp add: demo_history)
  have small: "Inl (SCorrupt OplogRecordTooLarge) \<notin> set [Inr (Some out), r]"
    using r by (auto simp: demo_second_undo [OF u])
  have len: "length ?ops + length [(9 :: u64, ''bob''), (10, ''eve'')] < 2 ^ 63" and rd: "\<forall>k. \<exists>y. refs_view demo_snapped k = Inr y"
    using demo_snapped_readable by simp_all
  note walk = undo_walks_back [OF demo_cbor demo_snapped_log len wf rd run small]
  have "uo_undone out = finalize 0 8 demo_snap_op"
    using walk [THEN conjunct2, THEN conjunct1, rule_format, of 0] by (simp add: demo_history)
  moreover have "r = Inr None"
    using walk [THEN conjunct2, THEN conjunct1, rule_format, of 1] by (auto simp: demo_history)
  ultimately show ?thesis using run by blast
qed

section \<open>A snapshot leaves nothing to snap\<close>

lemma scan_workdir_ok:
  assumes "store_ok X s" and "node_at (workdir w) (sh_disk s) = Some (WDir ch)" and "scannable scan_options_default (WDir ch)"
  obtains u where "scan X scan_options_default (show_path (workdir w)) (node_at (workdir w) (sh_disk s)) s
      = (Inr (dir_hash X (norm_children scan_options_default ch)), u)"
    "store_grows s u" "objects_only s u" "same_outside s u"
proof -
  obtain u where u: "scan_dir X scan_options_default (show_path (workdir w)) ch s
      = (Inr (dir_hash X (norm_children scan_options_default ch)), u)" "store_grows s u"
    using scan_dir_shows [OF assms(3,1)] by blast
  show ?thesis
    by (rule that [of u])
      (use u keepsD [OF objs.scan_below u(1)] keepsD [OF outside.scan_below u(1)] in \<open>simp_all add: scan_def assms(2)\<close>)
qed

lemma snap_options_scan: "scan_opts_for (snap_options env message) = scan_options_default"
  by (simp add: scan_opts_for_def snap_options_def snap_options_default_def scan_options_default_def)

text \<open>What the two commands say when the current change is at the tree of the directory.\<close>

lemma diff_says_clean:
  fixes t :: "'r shell_scheme"
  assumes "store_ok X t" and "node_at (workdir w) (sh_disk t) = Some (WDir ch)" and "scannable scan_options_default (WDir ch)"
    and "current_change_id (w_kind w) t = Some i" and "get_change i t = Inr c"
    and "load_snapshot X (ch_current c) t = Inr sn" and "sn_tree sn = dir_hash X (norm_children scan_options_default ch)"
  shows "\<exists>u. cmd_diff X T w None nh paths t = (Inr (), u)
    \<and> sh_out u = sh_out t @ written_lines [''(no differences: '' @ snap_label X (ch_current c) @ '' == workdir)'']"
proof -
  obtain u where u: "scan X scan_options_default (show_path (workdir w)) (node_at (workdir w) (sh_disk t)) t = (Inr (sn_tree sn), u)"
      "same_outside t u"
    by (rule scan_workdir_ok [OF assms(1-3), folded assms(7)])
  have "current_changeE NoCurrentChange w t = (Inr i, t)" "changeE i t = (Inr c, t)"
      "snapshotE X (ch_current c) t = (Inr sn, t)" "scan_workdir X w t = (Inr (sn_tree sn), u)"
    using assms(4-6) u(1) by (simp_all add: eff_iffs)
  then show ?thesis
    using u(2) by (simp add: cmd_diff_def resolve_diff_endpoints_def bindE_def fsE_def mapE_def readE_def retE_def
        print_line_def updE_def diff_trees_def written_lines_def same_outside_def)
qed

lemma snap_says_clean:
  fixes t :: "'r shell_scheme"
  assumes "store_ok X t" and "node_at (workdir w) (sh_disk t) = Some (WDir ch)" and "scannable scan_options_default (WDir ch)"
    and "current_change_id (w_kind w) t = Some i" and "get_change i t = Inr c"
    and "load_snapshot X (ch_current c) t = Inr sn" and "sn_tree sn = dir_hash X (norm_children scan_options_default ch)"
    and "log_reads X t ops"
  shows "\<exists>v. cmd_snap X env w None t = (Inr (), v)
    \<and> sh_out v = sh_out t @ written_lines [''nothing to snap: working copy matches '' @ short_hash X (ch_current c)]
    \<and> refs_view v = refs_view t \<and> log_bytes v = log_bytes t"
proof -
  let ?o = "snap_options env None"
  obtain u where u: "log_open X t = (Inr (), u)" using log_open_ok [of X t ops] assms(8) by (auto simp: log_reads_def)
  note fr = log_open_frame [OF u] and op = log_reads_open(2) [OF assms(8) u]
  obtain v where v: "scan X scan_options_default (show_path (workdir w)) (node_at (workdir w) (sh_disk u)) u = (Inr (sn_tree sn), v)"
      "store_grows u v" "objects_only u v" "same_outside u v"
    by (rule scan_workdir_ok [OF _ _ assms(3), of X u w, folded assms(7)])
      (use assms(1,2) fr(2) in \<open>simp_all only: store_ok_same [OF fr(5,6)]\<close>)
  have sc: "scan X (scan_opts_for ?o) (show_path (workdir w)) (node_at (workdir w) (sh_disk u)) u = (Inr (sn_tree sn), v)"
    using v(1) by (simp only: snap_options_scan)
  have "current_change_id (w_kind w) u = Some i" "get_change i u = Inr c" "load_snapshot X (ch_current c) u = Inr sn"
    using assms(4-6) op loads_agree(3) [OF fr(5), of X]
    by (simp_all add: current_change_id_def head_def get_change_def same_refs_def split: workspace_kind.splits)
  then have "snap_now X (ce_t1 env) (ce_t2 env) (ce_cid env) ?o (show_path (workdir w))
      (node_at (workdir w) (sh_disk u)) (w_kind w) u = (Inr (Unchanged c, w_kind w), v)"
    using snap_now_current [OF sc v(3,2)] by (simp add: snap_options_def snap_options_default_def)
  then have "take_snap X env ?o w u = (Inr (Unchanged c, w_kind w), v)" "open_log X t = (Inr (), u)"
    using u by (simp_all add: eff_iffs)
  moreover have "refs_view (v\<lparr>sh_out := x\<rparr>) = refs_view t" for x
    using objects_only_refs [OF v(3)] refs_view_same [OF op] by (simp add: text_only(11) [OF text_frames(1)])
  moreover have "log_bytes (v\<lparr>sh_out := x\<rparr>) = log_bytes t" for x
    using u v(3) by (auto simp: log_bytes_def objects_only_def log_open_def Let_def split: sum.splits option.splits)
  ultimately show ?thesis
    using v(4) fr(3) by (simp add: cmd_snap_def bindE_def print_snap_outcome_def print_line_def updE_def written_lines_def
        same_outside_def)
qed

text \<open>C10. After a successful \<^verbatim>\<open>tig snap\<close> the workspace's current change shows the working directory:
  \<^verbatim>\<open>tig diff\<close>, whatever its options, succeeds and says that there are no differences, and another
  \<^verbatim>\<open>tig snap\<close> without a message succeeds, says that there is nothing to snap, and moves no
  reference and writes no operation.\<close>
theorem snap_then_clean:
  fixes s t :: "'r shell_scheme"
  assumes "store_ok X s" and "log_reads X s ops" and "length ops + 1 < 2 ^ 63"
    and "node_at (workdir w) (sh_disk s) = Some (WDir ch)" and "scannable scan_options_default (WDir ch)"
    and "checked_out X (w_kind w) s" and "current_change_id (w_kind w) s = None \<longrightarrow> trimmed (ce_cid env)"
    and "cmd_snap X env w message s = (Inr (), t)" and "collision_free X t"
  shows "\<exists>i c u v. current_change_id (w_kind w) t = Some i \<and> get_change i t = Inr c
    \<and> cmd_diff X T w None nh paths t = (Inr (), u)
    \<and> sh_out u = sh_out t @ written_lines [''(no differences: '' @ snap_label X (ch_current c) @ '' == workdir)'']
    \<and> cmd_snap X env' w None t = (Inr (), v)
    \<and> sh_out v = sh_out t @ written_lines [''nothing to snap: working copy matches '' @ short_hash X (ch_current c)]
    \<and> refs_view v = refs_view t \<and> log_bytes v = log_bytes t"
proof -
  note lands = cmd_snap_lands [OF assms]
  have wd: "node_at (workdir w) (sh_disk t) = Some (WDir ch)" using lands(5) assms(4) by simp
  obtain ops' where ops': "log_reads X t ops'" using lands(4) by blast
  obtain i c sn where c: "current_change_id (w_kind w) t = Some i" "get_change i t = Inr c"
      "load_snapshot X (ch_current c) t = Inr sn" "sn_tree sn = dir_hash X (norm_children scan_options_default ch)"
    by (rule at_treeE [OF lands(1)])
  show ?thesis
    using c(1,2) diff_says_clean [OF lands(2) wd assms(5) c, of T nh paths]
      snap_says_clean [OF lands(2) wd assms(5) c ops', of env'] by blast
qed


theorem snap_then_clean_witness:
  "\<exists>t u v i c. cmd_snap demo demo_cli demo_w None demo_shell = (Inr (), t) \<and> get_change i t = Inr c
    \<and> cmd_diff demo demo_tools demo_w None False [] t = (Inr (), u)
    \<and> sh_out u = sh_out t @ written_lines [''(no differences: '' @ snap_label demo (ch_current c) @ '' == workdir)'']
    \<and> cmd_snap demo demo_cli demo_w None t = (Inr (), v) \<and> log_bytes v = log_bytes t"
proof -
  obtain out where t: "cmd_snap demo demo_cli demo_w None demo_shell = (Inr (), demo_snapped_shell\<lparr>sh_out := out\<rparr>)"
    by (rule demo_cmd_snap)
  have free: "collision_free demo (demo_snapped_shell\<lparr>sh_out := out\<rparr>)" using demo_snapped_free by (simp add: collision_free_def)
  have pre: "length ([] :: op list) + 1 < 2 ^ 63" "checked_out demo (w_kind demo_w) demo_shell"
      "current_change_id (w_kind demo_w) demo_shell = None \<longrightarrow> trimmed (ce_cid demo_cli)"
    using demo_dir_ready(2,3) by simp_all
  note clean = snap_then_clean [OF demo_shell_ok(1,3) pre(1) demo_dir_ready(1) demo_dir_scannable pre(2,3) t free,
      of demo_tools False "[]" demo_cli]
  show ?thesis using t clean by blast
qed

section \<open>Printed text\<close>

lemma author_column_fails:
  assumes "b \<in> set ls"
  shows "author_column (author_width ls) (bl_author b) = None \<longleftrightarrow> 20 < length (bl_author b) \<and> utf8_cont (bl_author b ! 19)"
proof (cases "length (bl_author b) \<le> author_width ls")
  case True
  then show ?thesis using author_width_le [of ls] by (simp add: author_column_def)
next
  case False
  then have "author_width ls = 20" using author_width_ge [OF assms] by simp
  then show ?thesis using False by (auto simp: author_column_def str_upto_def is_char_boundary_def)
qed

lemma author_column_chars:
  assumes "b \<in> set ls" and "author_column (author_width ls) (bl_author b) = Some col"
  shows "char_count col \<le> 20" and "ascii (bl_author b) \<Longrightarrow> char_count col = author_width ls"
proof -
  have "char_count col \<le> 20 \<and> (ascii (bl_author b) \<longrightarrow> char_count col = author_width ls)"
  proof (cases "length (bl_author b) \<le> author_width ls")
    case True
    then have "col = pad_right (author_width ls) (bl_author b)" using assms(2) by (simp add: author_column_def)
    then show ?thesis
      using True author_width_le [of ls] char_count_le [of "bl_author b"] by (simp add: pad_right_def)
  next
    case False
    then have w: "author_width ls = 20" using author_width_ge [OF assms(1)] by simp
    then have "col = take 19 (bl_author b) @ ellipsis"
      using False assms(2) by (auto simp: author_column_def str_upto_def split: if_splits)
    then show ?thesis
      using w False char_count_le [of "take 19 (bl_author b)"] ascii_char_count [OF ascii_take, of "bl_author b" 19] by simp
  qed
  then show "char_count col \<le> 20" "ascii (bl_author b) \<Longrightarrow> char_count col = author_width ls" by simp_all
qed

lemma forE_panics:
  assumes "\<And>x s. x \<in> set xs \<Longrightarrow> fst (f x s) = (if P x then Inl e else Inr ())"
  shows "fst (forE f xs s) = Inl e \<longleftrightarrow> (\<exists>x \<in> set xs. P x)"
  using assms
proof (induction xs arbitrary: s)
  case (Cons x xs)
  obtain r t where "f x s = (r, t)" by fastforce
  with Cons.prems [of x s] Cons.IH [of t] Cons.prems show ?case by (cases "P x") auto
qed simp

text \<open>C40. The author column of \<^verbatim>\<open>tig blame\<close> is never wider than twenty characters, and all ASCII authors of
  a listing fill it exactly; and the listing panics exactly when some author is longer than
  twenty bytes and the byte at which it is cut is in the middle of a character.\<close>
theorem blame_columns:
  "(fst (print_blame_rows X ls s) = Inl CliPanic \<longleftrightarrow> (\<exists>b \<in> set ls. 20 < length (bl_author b) \<and> utf8_cont (bl_author b ! 19)))
   \<and> (\<forall>b \<in> set ls. \<forall>col. author_column (author_width ls) (bl_author b) = Some col \<longrightarrow>
        char_count col \<le> 20 \<and> (ascii (bl_author b) \<longrightarrow> char_count col = author_width ls))
   \<and> (\<forall>b \<in> set ls. ascii (bl_author b) \<longrightarrow> author_column (author_width ls) (bl_author b) \<noteq> None)"
proof (intro conjI ballI allI impI)
  let ?bad = "\<lambda>b. 20 < length (bl_author b) \<and> utf8_cont (bl_author b ! 19)"
  have row: "fst ((case x of (i, b) \<Rightarrow>
        (case print_blame_line X b (i + 1) (length (show_nat (length ls))) (author_width ls) of
           Some row \<Rightarrow> print_line row | None \<Rightarrow> throwE CliPanic)) s') = (if ?bad (snd x) then Inl CliPanic else Inr ())"
    if "x \<in> set (enumerate 0 ls)" for x s'
  proof -
    obtain i b where x: "x = (i, b)" by fastforce
    with that have "b \<in> set ls" by (auto simp: in_set_enumerate_eq)
    then show ?thesis
      using author_column_fails [of b ls]
      by (cases "author_column (author_width ls) (bl_author b)")
        (auto simp: x print_blame_line_def print_line_def updE_def throwE_def)
  qed
  have "fst (print_blame_rows X ls s) = Inl CliPanic \<longleftrightarrow> (\<exists>x \<in> set (enumerate 0 ls). ?bad (snd x))"
    unfolding print_blame_rows_def by (rule forE_panics) (rule row)
  also have "\<dots> \<longleftrightarrow> (\<exists>b \<in> snd ` set (enumerate 0 ls). ?bad b)" by simp
  also have "snd ` set (enumerate 0 ls) = set ls" by (simp flip: list.set_map)
  finally show "fst (print_blame_rows X ls s) = Inl CliPanic \<longleftrightarrow> (\<exists>b \<in> set ls. ?bad b)" .
next
  fix b col assume "b \<in> set ls" "author_column (author_width ls) (bl_author b) = Some col"
  then show "char_count col \<le> 20" "ascii (bl_author b) \<Longrightarrow> char_count col = author_width ls"
    by (rule author_column_chars)+
next
  fix b assume "b \<in> set ls" "ascii (bl_author b)"
  then show "author_column (author_width ls) (bl_author b) \<noteq> None"
    using author_column_fails [of b ls] ascii_not_cont [of "bl_author b" 19] by auto
qed


theorem blame_columns_witness:
  "\<exists>col. author_column (author_width [demo_blame_line]) (bl_author demo_blame_line) = Some col \<and> char_count col = 20"
proof -
  have "ascii (bl_author demo_blame_line)" "author_width [demo_blame_line] = 20"
    by (simp_all add: demo_blame_line_def ascii_def author_width_def)
  with blame_columns [of demo "[demo_blame_line]" demo_shell] show ?thesis by auto
qed

text \<open>\<^verbatim>\<open>log -p\<close> and \<^verbatim>\<open>diff\<close> print the same diff: the indented form is the plain one with the prefix before
  every line, without the line of the two targets of a link, directory or sealed entry; for lines
  that end neither in a line feed nor in a carriage return.\<close>
theorem printers_agree:
  assumes "hex_laws X" and "list_all clean_line (diff_header fd @ diff_body fd)"
  shows "print_file_diff_indented fd pfx = map (\<lambda>l. pfx @ l)
    (if \<not> is_type_change fd \<and> fd_entry_kind fd \<noteq> EFile \<and> fd_from_target fd \<noteq> None \<and> fd_to_target fd \<noteq> None
     then butlast (print_file_diff X fd) else print_file_diff X fd)"
proof -
  have "short_hash X h \<noteq> []" for h
    using length_to_hex [OF assms(1), of h] by (auto simp: short_hash_def)
  then show ?thesis
    using assms(2)
    by (auto simp: print_file_diff_indented_def print_file_diff_def print_indented_written Let_def butlast_append
        split: option.split)
qed

theorem printers_agree_witness:
  "print_file_diff_indented demo_link_diff ''    '' = [''    diff --tig a/l b/l'']"
proof -
  have "list_all clean_line (diff_header demo_link_diff @ diff_body demo_link_diff)" by code_simp
  moreover have "to_hex demo h \<noteq> []" for h using length_to_hex [OF demo_hex, of h] by auto
  ultimately show ?thesis
    using printers_agree [OF demo_hex, of demo_link_diff "''    ''"]
    by (simp add: print_file_diff_def is_type_change_def diff_header_def Let_def short_hash_def demo_link_diff_def)
qed

section \<open>Watching\<close>

text \<open>C12. A watch catches up: while the user edits the working directory and whatever else the file system
  reports, errors, timeouts and events inside \<^verbatim>\<open>.tig\<close> included, and whether or not the write lock
  could be had before, once a batch that touches the directory has been handled under the lock,
  the watch is still running and the workspace's change is at the tree of the directory as it is
  then on disk, even where the operation's record was too long to be logged.\<close>
theorem watch_catches_up:
  fixes s t :: "'r shell_scheme"
  assumes "store_ok X s" and "log_ok X s ops" and "length ops + length (rs @ [r]) < 2 ^ 63" and "checked_out X kind s"
    and "\<forall>q \<in> set (rs @ [r]). edits_workdir dir (scan_opts_for opts) q \<and> goes_on q" and "takes_snap tig r"
    and "watch_loop X opts dir tig (rs @ [r]) kind s = (es, ended, kind', t)" and "collision_free X t"
  shows "\<not> ended \<and> (\<exists>ch. node_at dir (sh_disk t) = Some (WDir ch)
    \<and> at_tree X kind t (dir_hash X (norm_children (scan_opts_for opts) ch)))"
proof -
  have "ready X kind (length (rs @ [r])) s" using assms(1-4) by (auto simp: ready_def)
  from watch_rounds [OF assms(7,8) this assms(5,6)] show ?thesis by (simp add: caught_up_def)
qed


theorem watch_catches_up_witness:
  "\<exists>es ended kind t. watch_loop demo snap_options_default [''w''] [''w'', ''.tig''] [demo_round] WMain demo_shell = (es, ended, kind, t)
    \<and> \<not> ended \<and> at_tree demo WMain t (raw_hash demo (tree_raw demo_scanned))"
proof -
  obtain es where run: "watch_loop demo snap_options_default [''w''] [''w'', ''.tig''] ([] @ [demo_round]) WMain demo_shell
      = (es, False, WMain, demo_snapped_shell)"
    unfolding append_Nil using demo_round_run by blast
  have "dir_hash demo (norm_children scan_options_default demo_dir) = raw_hash demo (tree_raw demo_scanned)"
    using scan_workspace [OF demo_store_ok demo_log_ok demo_dir_scannable, of "''/w''"] demo_scan by auto
  moreover have "sh_disk demo_snapped_shell = WDir [(''w'', WDir demo_dir)]" by (simp add: demo_snapped_shell_def)
  ultimately show ?thesis
    using watch_catches_up [OF demo_shell_ok(1,2) _ demo_dir_ready(2) _ demo_round_props(2) run demo_snapped_free] demo_round_props(1)
      run [unfolded append_Nil]
    by (auto simp: demo_opts simp del: watch_loop.simps)
qed

section \<open>Drafts\<close>

lemma rchanges_frame:
  "set_current_change_id k i s = (r, t) \<Longrightarrow> rchanges t = rchanges s"
  "log_append X now p s' = (r', t') \<Longrightarrow> rchanges t' = rchanges s'"
  "log_open X s' = (r'', t') \<Longrightarrow> rchanges t' = rchanges s'"
proof -
  show "set_current_change_id k i s = (r, t) \<Longrightarrow> rchanges t = rchanges s"
    by (auto simp: set_current_change_id_def set_head_def ws_put_def eff_simps Let_def split: workspace_kind.splits)
qed (auto simp: log_append_def log_open_def Let_def split: op_log.splits option.splits if_splits sum.splits)

lemma put_change_reads: "put_change c s = (r, t) \<Longrightarrow> rchanges u = rchanges t \<Longrightarrow> get_change (ch_id c) u = Inr c"
  by (auto simp: put_change_def get_change_def parse_json_def update_conv')

lemma registered_change:
  assumes "register_change X env w d c s = (Inr (), t)" shows "get_change (ch_id c) t = Inr c"
proof -
  obtain v u k p q where "put_change c s = (Inr (), u)" "set_current_change_id (w_kind w) (ch_id c) u = (Inr k, v)"
      "log_append X (ce_t2 env) p v = (Inr q, t)"
    using assms by (auto simp: register_change_def appendE_def eff_iffs)
  then show ?thesis using rchanges_frame(1,2) put_change_reads by metis
qed

text \<open>C38. A draft is hidden until it is published: after \<^verbatim>\<open>tig draft\<close> the daemon answers everybody but the
  author that there is no such change; after \<^verbatim>\<open>tig change publish\<close>, by whoever works in the
  repository, everybody sees the same change, working and public.\<close>
theorem draft_hidden_until_published:
  fixes s t u :: "'r shell_scheme"
  assumes draft: "cmd_draft X env w description s = (Inr (), t)"
    and publish: "run_cmd X T V env' w' (CmdChange (CmdPublish (Some (ce_cid env)))) t = (Inr (), u)"
    and "lowercase T ''working'' = ''working''"
  shows "\<exists>c. ch_description c = description \<and> ch_author c = principal_of env \<and> ch_state c = SDraft
    \<and> (\<forall>caller. load_visible_change (ce_cid env) caller t
          = (if caller = principal_of env then Inr c else Inl (ApiNotFound (TChange (ce_cid env))))
        \<and> load_visible_change (ce_cid env) caller u = Inr (c\<lparr>ch_state := SWorking, ch_visibility := VPublic\<rparr>))"
proof -
  let ?i = "ce_cid env"
  obtain h and s1 s2 :: "'r shell_scheme" where d: "register_change X env w description (new_private_draft ?i description (principal_of env) h) s1 = (Inr (), s2)"
      "rchanges t = rchanges s2"
    using draft by (auto simp: cmd_draft_def eff_iffs Let_def)
  define c where "c = new_private_draft ?i description (principal_of env) h"
  have fields: "ch_id c = ?i" "ch_description c = description" "ch_author c = principal_of env" "ch_state c = SDraft" "ch_visibility c = VPrivate"
    by (simp_all add: c_def new_private_draft_def change_new_def)
  have at: "get_change ?i t = Inr c"
    using registered_change [OF d(1) [folded c_def]] d(2) fields(1) by (simp add: get_change_def)
  let ?c = "c\<lparr>ch_state := SWorking, ch_visibility := VPublic\<rparr>"
  have "get_change ?i u = Inr ?c"
  proof -
    obtain v v' v'' :: "'r shell_scheme" and p q where "put_change ?c t = (Inr (), v)" "log_open X v = (Inr (), v')" "log_append X (ce_t2 env') p v' = (Inr q, v'')"
        "rchanges u = rchanges v''"
      using publish at assms(3) fields(1)
      by (auto simp: cmd_change_transition_def eff_iffs appendE_def parse_state_str_def parse_vis_str_def Let_def)
    then have "rchanges u = rchanges v" using rchanges_frame(2,3) by metis
    with \<open>put_change ?c t = (Inr (), v)\<close> show ?thesis using put_change_reads [of ?c t _ v u] fields(1) by simp
  qed
  then show ?thesis
    using at fields by (intro exI [of _ c]) (simp add: load_visible_change_def)
qed


theorem draft_hidden_until_published_witness:
  "\<exists>t u c. cmd_draft demo demo_cli demo_w ''idea'' demo_shell = (Inr (), t)
    \<and> run_cmd demo demo_tools demo_vault demo_cli demo_w (CmdChange (CmdPublish (Some ''01A''))) t = (Inr (), u)
    \<and> load_visible_change ''01A'' ''bob'' t = Inl (ApiNotFound (TChange ''01A'')) \<and> load_visible_change ''01A'' ''bob'' u = Inr c"
proof -
  obtain out where t: "cmd_draft demo demo_cli demo_w ''idea'' demo_shell = (Inr (), demo_drafted\<lparr>sh_out := out\<rparr>)"
    by (rule demo_cmd_draft)
  obtain u where u: "run_cmd demo demo_tools demo_vault demo_cli demo_w (CmdChange (CmdPublish (Some ''01A''))) (demo_drafted\<lparr>sh_out := out\<rparr>)
      = (Inr (), u)"
    by (rule demo_publish)
  have bob: "''bob'' \<noteq> principal_of demo_cli" by (simp add: principal_local_def)
  have l: "lowercase demo_tools ''working'' = ''working''" by (simp add: demo_tools_def)
  show ?thesis
    using t u bob draft_hidden_until_published [OF t _ l, of demo_vault demo_cli demo_w u] by (auto simp del: run_cmd.simps)
qed

section \<open>Identities\<close>

text \<open>C39. An identity made on this machine can authenticate: after \<^verbatim>\<open>tig identity new\<close>, \<^verbatim>\<open>tig auth-token\<close>
  for that name prints a token that the daemon takes for the name from then on until the seconds
  asked for have passed (an overflow of the clock is cut off), and refuses as expired afterwards.\<close>
theorem minted_token_works:
  assumes "token_laws V" and "hex_laws X"
    and new: "cmd_identity_new X V env w name s = (Inr (), t)"
    and mint: "cmd_auth_token X V env' as_name ttl t = (Inr (), u)" and "acting_as env' as_name = Some name"
  shows "\<exists>token. sh_out u = sh_out t @ token @ [newline]
    \<and> (\<forall>hdrs now. Option.bind (hd_authorization hdrs) header_str = Some (''Bearer '' @ token) \<longrightarrow>
        caller_from X V now hdrs u =
          (if saturating_add (ce_seconds env') ttl \<le> now
           then Inl (ApiUnauthorized (TVis (VCrypto (TokenExpired (saturating_add (ce_seconds env') ttl) now)))) else Inr name))"
proof -
  define k where "k = SignSecretKey (ce_sign_seed env)"
  define c where "c = \<lparr>cl_sub = name, cl_exp = saturating_add (ce_seconds env') ttl\<rparr>"
  obtain skp where put: "principal_put (new_local_full X (cl_sub c) PkUser skp (k, sign_secret_public V k)) (dkeys s) = (Inr (), dkeys t)"
    using new
    by (auto simp: cmd_identity_new_def eff_iffs Let_def in_keys_def principal_put_new_def sign_keypair_generate_def k_def c_def
        map_err_Inr_iff split: prod.splits if_splits)
  obtain q where q: "principal_get (cl_sub c) (dkeys t) = Inr q" "principal_sign_pubkey X q = Inr (sign_secret_public V k)"
    using registered [OF assms(2) put] by blast
  have "q = new_local_full X (cl_sub c) PkUser skp (k, sign_secret_public V k)"
    using principal_put_get [OF put, of "cl_sub c"] q(1) by (simp add: new_local_full_def)
  then have "principal_sign_secret X q = Inr k"
    by (simp add: principal_sign_secret_def new_local_full_def sign_secret_to_hex_def sign_secret_from_hex_def key_hex [OF assms(2)]
        k_def)
  then have u: "sh_out u = sh_out t @ sign_token V c k @ [newline]" "dkeys u = dkeys t"
    using mint q(1) assms(5) by (auto simp: cmd_auth_token_def eff_iffs c_def)
  note v = verify_signed [OF assms(1), of c k]
  have "caller_from X V now hdrs u
      = (if is_expired c now then Inl (ApiUnauthorized (TVis (VCrypto (TokenExpired (cl_exp c) now)))) else Inr (cl_sub c))"
    if "Option.bind (hd_authorization hdrs) header_str = Some (''Bearer '' @ sign_token V c k)" for hdrs now
    unfolding caller_token [OF that strip_bearer v(1) q(1) [folded u(2)] q(2)] v(2) by simp
  then show ?thesis
    using u(1) by (intro exI [of _ "sign_token V c k"]) (simp add: c_def is_expired_def)
qed


theorem minted_token_works_witness:
  "\<exists>token t u. cmd_identity_new demo demo_vault demo_cli demo_w ''alice'' demo_shell = (Inr (), t)
    \<and> cmd_auth_token demo demo_vault demo_cli (Some ''alice'') 100 t = (Inr (), u)
    \<and> sh_out u = sh_out t @ token @ [newline]
    \<and> (\<forall>hdrs. Option.bind (hd_authorization hdrs) header_str = Some (''Bearer '' @ token) \<longrightarrow>
         caller_from demo demo_vault 104 hdrs u = Inr ''alice'')"
proof -
  obtain t u where tu: "cmd_identity_new demo demo_vault demo_cli demo_w ''alice'' demo_shell = (Inr (), t)"
      "cmd_auth_token demo demo_vault demo_cli (Some ''alice'') 100 t = (Inr (), u)"
    by (rule demo_identity)
  have "acting_as demo_cli (Some ''alice'') = Some ''alice''" "\<not> saturating_add (ce_seconds demo_cli) 100 \<le> 104"
    by (simp_all add: acting_as_def saturating_add_def demo_cli_def)
  with minted_token_works [OF demo_token_laws demo_hex tu] tu show ?thesis by fastforce
qed

section \<open>Sealed values\<close>

lemma write_sealed_steps:
  fixes s :: "'r objects_dir_scheme"
  assumes "write_sealed_at_path X root path sl s = (Inr root', u)" and "store_ok X s"
  obtains parts h raw where "split_path path = Inr parts" "store_ok X u" "store_grows s u" "decode_sealed X raw = Inr sl"
    "\<forall>f :: 'r objects_dir_scheme. store_grows u f \<longrightarrow> collision_free X f \<longrightarrow> obj_get X h f = Inr raw \<and>
       lookup_entry X root' parts f = Inr \<lparr>te_name = last parts, te_kind = ESealed, te_target = h, te_mode = mode_regular, te_vis = None\<rparr>"
proof -
  obtain parts h s1 where st: "split_path path = Inr parts" "store_sealed X sl s = (Inr h, s1)"
      "rewrite_insert X parts h ESealed mode_regular root s1 = (Inr root', u)"
    using assms(1) by (auto simp: write_sealed_at_path_def eff_iffs)
  obtain raw where raw: "store_ok X s1" "store_grows s s1" "decode_sealed X raw = Inr sl"
      "collision_free X s1 \<Longrightarrow> obj_get X h s1 = Inr raw"
    by (rule store_sealed_spec [OF assms(2), of sl]) (use st(2) in auto)
  note ins = rewrite_insert_spec [OF st(3) raw(1)]
  show thesis
  proof (rule that [OF st(1) conjunct1 [OF ins] _ raw(3)])
    show "store_grows s u" using ins store_grows_trans [OF raw(2)] by blast
    show "\<forall>f :: 'r objects_dir_scheme. store_grows u f \<longrightarrow> collision_free X f \<longrightarrow> obj_get X h f = Inr raw \<and>
       lookup_entry X root' parts f = Inr \<lparr>te_name = last parts, te_kind = ESealed, te_target = h, te_mode = mode_regular, te_vis = None\<rparr>"
    proof (intro allI impI)
      fix f :: "'r objects_dir_scheme" assume f: "store_grows u f" "collision_free X f"
      have g: "store_grows s1 f" using ins store_grows_trans f(1) by blast
      show "obj_get X h f = Inr raw \<and>
         lookup_entry X root' parts f = Inr \<lparr>te_name = last parts, te_kind = ESealed, te_target = h, te_mode = mode_regular, te_vis = None\<rparr>"
        using ins f obj_get_mono [OF g raw(4) [OF collision_free_back [OF g f(2)]]] by (auto simp: lookup_entry_find)
    qed
  qed
qed

lemma cmd_seal_steps:
  fixes s t :: "'r shell_scheme"
  assumes "cmd_seal X V env w path names from_file data s = (Inr (), t)"
  obtains ps plaintext sl i c sn root' out and s1 s2 s3 :: "'r shell_scheme"
    where "traverse (\<lambda>n. map_err CliVis (principal_get n (dkeys s))) names = Inr ps"
      "seal_plaintext env from_file data s = (Inr plaintext, s)"
      "seal V (ce_eph_seed env) (ce_data_key env) (map (ce_wrap_nonce env) [0..<length ps]) (ce_payload_nonce env) plaintext
         (map pr_pubkey ps) (str_bytes path) = Inr sl"
      "current_change_id (w_kind w) s = Some i" "get_change i s = Inr c" "load_snapshot X (ch_current c) s = Inr sn"
      "write_sealed_at_path X (sn_tree sn) path sl s = (Inr root', s1)" "log_open X s1 = (Inr (), s2)"
      "snap_change_directly X (ce_t1 env) (ce_t2 env) i root' (snap_options env (Some (''seal '' @ path))) s2 = (Inr out, s3)"
      "same_but_text s3 t"
proof -
  obtain ps plaintext sl i c sn root' out l and s0 s1 s2 s3 :: "'r shell_scheme" where st:
      "traverse (\<lambda>n. map_err CliVis (principal_get n (dkeys s))) names = Inr ps"
      "seal_plaintext env from_file data s = (Inr plaintext, s0)"
      "seal V (ce_eph_seed env) (ce_data_key env) (map (ce_wrap_nonce env) [0..<length ps]) (ce_payload_nonce env) plaintext
         (map pr_pubkey ps) (str_bytes path) = Inr sl"
      "current_change_id (w_kind w) s0 = Some i" "get_change i s0 = Inr c" "load_snapshot X (ch_current c) s0 = Inr sn"
      "write_sealed_at_path X (sn_tree sn) path sl s0 = (Inr root', s1)" "log_open X s1 = (Inr (), s2)"
      "snap_change_directly X (ce_t1 env) (ce_t2 env) i root' (snap_options env (Some (''seal '' @ path))) s2 = (Inr out, s3)"
      "t = s3\<lparr>sh_out := l\<rparr>"
    using assms by (auto simp: cmd_seal_def eff_iffs)
  have "s0 = s" using st(2) by (auto simp: seal_plaintext_def eff_iffs split: option.splits)
  with st show thesis by (intro that) (simp_all add: same_but_text_def)
qed

lemma principals_of:
  assumes "traverse (\<lambda>n. map_err CliVis (principal_get n d)) names = Inr ps" and "name \<in> set names"
    and "principal_get name d = Inr p"
  shows "p \<in> set ps"
  using assms by (auto simp: traverse_Inr_iff list_all2_conv_all_nth in_set_conv_nth)

lemma snap_direct_current:
  assumes "store_ok X s" and "log_ok X s ops" and "length ops + 1 < 2 ^ 63" and "get_change i s = Inr c" and "ch_id c = i"
    and "snap_change_directly X t1 t2 i root' opts s = (Inr out, t)"
  shows "current_change_id k t = current_change_id k s"
proof -
  have "refs_view t KyHead = refs_view s KyHead" using snap_direct [OF assms] by auto
  then show ?thesis by (cases k) (simp_all add: current_change_id_def refs_view_simps)
qed

text \<open>C13. What \<^verbatim>\<open>tig seal\<close> has stored \<^verbatim>\<open>tig reveal\<close> prints: after a successful seal, every recipient whose
  registered public key belongs to the secret kept on this machine reveals exactly the plaintext
  at the same path, from whatever source it was read, and revealing changes nothing but the output.\<close>
theorem seal_then_reveal:
  fixes s t :: "'r shell_scheme"
  assumes "seal_laws V" and "store_ok X s" and "ids_ok s" and "log_reads X s ops" and "length ops + 1 < 2 ^ 63"
    and "\<forall>i. length (ce_wrap_nonce env i) = 24" and "length (ce_payload_nonce env) = 24"
    and "cmd_seal X V env w path names from_file data s = (Inr (), t)" and "collision_free X t"
    and reader: "acting_as env' as_name = Some name" "name \<in> set names" "principal_get name (dkeys s) = Inr p"
      "principal_secret X p = Inr k" "pr_pubkey p = secret_public V k"
  shows "\<exists>plaintext. seal_plaintext env from_file data s = (Inr plaintext, s)
    \<and> cmd_reveal X V env' w path as_name t = (Inr (), t\<lparr>sh_out := sh_out t @ bytes_str plaintext\<rparr>)"
proof -
  obtain ps plaintext sl i c sn root' out and s1 s2 s3 :: "'r shell_scheme" where st:
      "traverse (\<lambda>n. map_err CliVis (principal_get n (dkeys s))) names = Inr ps"
      "seal_plaintext env from_file data s = (Inr plaintext, s)"
      "seal V (ce_eph_seed env) (ce_data_key env) (map (ce_wrap_nonce env) [0..<length ps]) (ce_payload_nonce env) plaintext
         (map pr_pubkey ps) (str_bytes path) = Inr sl"
      "current_change_id (w_kind w) s = Some i" "get_change i s = Inr c" "load_snapshot X (ch_current c) s = Inr sn"
      "write_sealed_at_path X (sn_tree sn) path sl s = (Inr root', s1)" "log_open X s1 = (Inr (), s2)"
      "snap_change_directly X (ce_t1 env) (ce_t2 env) i root' (snap_options env (Some (''seal '' @ path))) s2 = (Inr out, s3)"
      "same_but_text s3 t"
    by (rule cmd_seal_steps [OF assms(8)])
  obtain parts h raw where wr: "split_path path = Inr parts" "store_ok X s1" "store_grows s s1" "decode_sealed X raw = Inr sl"
      "\<forall>f :: 'r shell_scheme. store_grows s1 f \<longrightarrow> collision_free X f \<longrightarrow> obj_get X h f = Inr raw \<and>
         lookup_entry X root' parts f = Inr \<lparr>te_name = last parts, te_kind = ESealed, te_target = h, te_mode = mode_regular, te_vis = None\<rparr>"
    by (rule write_sealed_steps [OF st(7) assms(2)])
  have o1: "objects_only s s1" by (rule keepsD [OF objs.edits(2) st(7)])
  have r1: "log_reads X s1 ops" using assms(4) o1 by (simp add: log_reads_def read_all_def objects_only_def)
  note op = log_reads_open [OF r1 st(8)] and fr = log_open_frame [OF st(8)]
  have g2: "get_change j s2 = get_change j s" "current_change_id q s2 = current_change_id q s" for j q
    using op(2) o1 by (cases q; simp add: get_change_def current_change_id_def head_def same_refs_def objects_only_def)+
  have c2: "get_change i s2 = Inr c" "ch_id c = i" using st(5) g2(1) assms(3) by (simp_all add: ids_ok_def)
  have s2: "store_ok X s2" using wr(2) by (simp only: store_ok_same [OF fr(5,6)])
  have free: "collision_free X s3" using assms(9) by (simp only: text_only(9) [OF st(10)])
  obtain c' sn' where res: "get_change i s3 = Inr c'" "load_snapshot X (ch_current c') s3 = Inr sn'" "sn_tree sn' = root'"
      "store_grows s2 s3"
    by (rule edit_result [OF s2 op(1) assms(5) c2 st(9) free])
  have gr: "store_grows s1 t"
    using res(4) by (simp only: text_only(14) [OF st(10)] store_grows_from [OF fr(5,6)])
  have cur: "current_change_id (w_kind w) t = Some i"
    using snap_direct_current [OF s2 op(1) assms(5) c2 st(9)] st(4) g2(2) by (simp add: text_only(7) [OF st(10)])
  have keys: "dkeys t = dkeys s"
    using keepsD [OF outside.edits(2) st(7)] keepsD [OF outside.snapping(2) st(9)] fr(1)
    by (simp add: same_outside_def text_only(12) [OF st(10)])
  have pp: "filter (\<lambda>q. q \<noteq> []) (split_char CHR ''/'' path) = parts" "parts \<noteq> []"
    using wr(1) by (auto simp: split_path_def Let_def split: if_splits option.splits)
  have "secret_public V k \<in> set (map pr_pubkey ps)"
    using principals_of [OF st(1) reader(2,3)] reader(5) by force
  then have un: "unseal V sl k (str_bytes path) = Inr plaintext"
    by (rule unseal_sealed(1) [OF assms(1) st(3) _ _ assms(7), rotated 2]) (use assms(6) in auto)
  note look = wr(5) [rule_format, OF gr assms(9)]
  have "cmd_reveal X V env' w path as_name t = (Inr (), t\<lparr>sh_out := sh_out t @ bytes_str plaintext\<rparr>)"
    using reader keys cur res(1-3) look pp wr(4) un
    by (simp add: cmd_reveal_def eff_iffs text_only(3,6) [OF st(10)])
  with st(2) show ?thesis by blast
qed

theorem seal_then_reveal_witness:
  "\<exists>t. cmd_seal demo demo_vault demo_cli demo_w ''s'' [''alice''] None (Some ''hi'') demo_sealer = (Inr (), t)
    \<and> cmd_reveal demo demo_vault demo_cli demo_w ''s'' (Some ''alice'') t
        = (Inr (), t\<lparr>sh_out := sh_out t @ bytes_str (str_bytes ''hi'')\<rparr>)"
proof -
  obtain t where t: "cmd_seal demo demo_vault demo_cli demo_w ''s'' [''alice''] None (Some ''hi'') demo_sealer = (Inr (), t)"
      "collision_free demo t" by (rule demo_seal)
  have "length ([] :: op list) + 1 < 2 ^ 63" "\<forall>i. length (ce_wrap_nonce demo_cli i) = 24" "length (ce_payload_nonce demo_cli) = 24"
      "acting_as demo_cli (Some ''alice'') = Some ''alice''" "''alice'' \<in> set [''alice'']"
      "principal_get ''alice'' (dkeys demo_sealer) = Inr demo_reader"
    by (simp_all add: demo_cli_def acting_as_def demo_sealer_def demo_reader_keys(1))
  note * = seal_then_reveal [OF demo_seal_laws demo_sealer_ok(1,3,2) this(1-3) t this(4-6) demo_reader_keys(2,3)]
  have "plaintext = str_bytes ''hi''" if "seal_plaintext demo_cli None (Some ''hi'') demo_sealer = (Inr plaintext, demo_sealer)" for plaintext
    using that by (simp add: seal_plaintext_def retE_def)
  with * t(1) show ?thesis by blast
qed

end
