(* ===== verification/Locks.thy ===== *)
theory Locks
  imports Oplog "HOL-Library.Sublist"
begin

text \<open>
  The write lock of \<^verbatim>\<open>tig-store/src/repo.rs\<close>, and what it gives: writers that work only while they
  hold the guard leave the repository as if they had run one after the other. The lock itself is
  flock(2), reached through the crate fs4: the record \<open>flock\<close> stands for it, and \<open>flock_laws\<close> is
  what its manual promises. A lock belongs to an open file description, so two opens of the file
  exclude each other, in one process or in two, and closing the file gives the lock back.
\<close>

section \<open>The lock file\<close>

type_synonym fd = nat

record 't flock =
  fk_open :: "'t \<Rightarrow> fd \<times> 't"
  fk_try :: "fd \<Rightarrow> 't \<Rightarrow> bool \<times> 't"
  fk_close :: "fd \<Rightarrow> 't \<Rightarrow> 't"
  fk_holder :: "'t \<Rightarrow> fd option"
  fk_live :: "'t \<Rightarrow> fd set"

definition flock_laws :: "('t, 'k) flock_scheme \<Rightarrow> bool" where
  "flock_laws K \<longleftrightarrow>
     (\<forall>t fd t'. fk_open K t = (fd, t') \<longrightarrow>
        fd \<notin> fk_live K t \<and> fk_live K t' = insert fd (fk_live K t) \<and> fk_holder K t' = fk_holder K t)
     \<and> (\<forall>t fd b t'. fk_try K fd t = (b, t') \<longrightarrow>
        b = (fk_holder K t = None \<or> fk_holder K t = Some fd) \<and> fk_live K t' = fk_live K t
        \<and> fk_holder K t' = (if b then Some fd else fk_holder K t))
     \<and> (\<forall>t fd. fk_live K (fk_close K fd t) = fk_live K t - {fd}
        \<and> fk_holder K (fk_close K fd t) = (if fk_holder K t = Some fd then None else fk_holder K t))"

definition lock_file_path :: "path \<Rightarrow> path" where
  "lock_file_path root = root @ [''lock'']"

datatype write_guard = WriteGuard (guard_file: fd)

text \<open>\<^verbatim>\<open>lock_for_write\<close> has two parts: it opens the file, and blocks in \<^verbatim>\<open>lock_exclusive\<close>; \<open>None\<close> is the
  call that has not returned yet.\<close>

definition open_lock_file :: "('t, 'k) flock_scheme \<Rightarrow> 't \<Rightarrow> fd \<times> 't" where
  "open_lock_file K t = fk_open K t"

definition lock_for_write :: "('t, 'k) flock_scheme \<Rightarrow> fd \<Rightarrow> 't \<Rightarrow> (write_guard \<times> 't) option" where
  "lock_for_write K fd t = (case fk_try K fd t of (got, t') \<Rightarrow> if got then Some (WriteGuard fd, t') else None)"

text \<open>The file that did not get the lock is closed when the call returns.\<close>

definition try_lock_for_write :: "('t, 'k) flock_scheme \<Rightarrow> 't \<Rightarrow> write_guard option \<times> 't" where
  "try_lock_for_write K t =
     (case open_lock_file K t of (fd, t1) \<Rightarrow>
       case fk_try K fd t1 of (got, t2) \<Rightarrow>
         if got then (Some (WriteGuard fd), t2) else (None, fk_close K fd t2))"

definition drop_guard :: "('t, 'k) flock_scheme \<Rightarrow> write_guard \<Rightarrow> 't \<Rightarrow> 't" where
  "drop_guard K g t = fk_close K (guard_file g) t"

section \<open>Writers\<close>

text \<open>
  A writer is what it does under the lock: a list of atomic accesses to the shared state, each with
  the writer's own local state. It calls \<^verbatim>\<open>lock_for_write\<close>, or tries until it gets the guard; it
  works; it drops the guard. It may die at any point: then its file is closed by the system.
\<close>

type_synonym ('l, 's) access = "'l \<times> 's \<Rightarrow> 'l \<times> 's"

datatype ('l, 's) writer =
  Ready "('l, 's) access list"
| Waits fd "('l, 's) access list"
| Holds write_guard 'l "('l, 's) access list"
| Finished
| Dead

type_synonym ('l, 's, 't) scene = "(nat \<Rightarrow> ('l, 's) writer) \<times> 't \<times> 's"

inductive lock_step ::
  "('t, 'k) flock_scheme \<Rightarrow> 'l \<Rightarrow> ('l, 's, 't) scene \<Rightarrow> ('l, 's, 't) scene \<Rightarrow> bool" for K l0 where
  call: "w p = Ready as \<Longrightarrow> open_lock_file K t = (fd, t') \<Longrightarrow> lock_step K l0 (w, t, s) (w(p := Waits fd as), t', s)"
| enter: "w p = Waits fd as \<Longrightarrow> lock_for_write K fd t = Some (g, t') \<Longrightarrow>
    lock_step K l0 (w, t, s) (w(p := Holds g l0 as), t', s)"
| probe: "w p = Ready as \<Longrightarrow> try_lock_for_write K t = (Some g, t') \<Longrightarrow>
    lock_step K l0 (w, t, s) (w(p := Holds g l0 as), t', s)"
| busy: "w p = Ready as \<Longrightarrow> try_lock_for_write K t = (None, t') \<Longrightarrow> lock_step K l0 (w, t, s) (w, t', s)"
| work: "w p = Holds g l (a # as) \<Longrightarrow> a (l, s) = (l', s') \<Longrightarrow>
    lock_step K l0 (w, t, s) (w(p := Holds g l' as), t, s')"
| leave: "w p = Holds g l [] \<Longrightarrow> lock_step K l0 (w, t, s) (w(p := Finished), drop_guard K g t, s)"
| die: "w p = Holds g l as \<Longrightarrow> lock_step K l0 (w, t, s) (w(p := Dead), drop_guard K g t, s)"
| give_up: "w p = Waits fd as \<Longrightarrow> lock_step K l0 (w, t, s) (w(p := Dead), fk_close K fd t, s)"

text \<open>A writer on its own, from the local state \<open>l0\<close>.\<close>

definition run_accesses :: "('l, 's) access list \<Rightarrow> 'l \<times> 's \<Rightarrow> 'l \<times> 's" where
  "run_accesses as x = foldl (\<lambda>x a. a x) x as"

definition run_alone :: "'l \<Rightarrow> ('l, 's) access list \<Rightarrow> 's \<Rightarrow> 's" where
  "run_alone l0 as s = snd (run_accesses as (l0, s))"

definition run_in_turn :: "'l \<Rightarrow> (nat \<Rightarrow> ('l, 's) access list) \<Rightarrow> nat list \<Rightarrow> 's \<Rightarrow> 's" where
  "run_in_turn l0 e ps s = foldl (\<lambda>s p. run_alone l0 (e p) s) s ps"

lemma run_accesses_simps [simp]:
  "run_accesses [] x = x" "run_accesses (as @ [a]) x = a (run_accesses as x)" "run_accesses (a # as) x = run_accesses as (a x)"
  by (simp_all add: run_accesses_def)

lemma run_in_turn_snoc: "run_in_turn l0 e (ps @ [p]) s = run_alone l0 (e p) (run_in_turn l0 e ps s)"
  by (simp add: run_in_turn_def)

lemma run_in_turn_cong: "(\<And>p. p \<in> set ps \<Longrightarrow> e p = e' p) \<Longrightarrow> run_in_turn l0 e ps s = run_in_turn l0 e' ps s"
  by (induction ps arbitrary: s) (simp_all add: run_in_turn_def)

section \<open>One writer at a time\<close>

fun file_of :: "('l, 's) writer \<Rightarrow> fd option" where
  "file_of (Waits fd as) = Some fd"
| "file_of (Holds g l as) = Some (guard_file g)"
| "file_of w = None"

fun holding :: "('l, 's) writer \<Rightarrow> bool" where
  "holding (Holds g l as) = True"
| "holding w = False"

text \<open>Files are open and nobody's but their writer's; the writer inside is the one whose file has the lock.\<close>

definition lock_wf :: "('t, 'k) flock_scheme \<Rightarrow> (nat \<Rightarrow> ('l, 's) writer) \<Rightarrow> 't \<Rightarrow> bool" where
  "lock_wf K w t \<longleftrightarrow>
     (\<forall>p fd. file_of (w p) = Some fd \<longrightarrow> fd \<in> fk_live K t \<and> (\<forall>q. file_of (w q) = Some fd \<longrightarrow> q = p)
        \<and> (holding (w p) \<longleftrightarrow> fk_holder K t = Some fd))
     \<and> (\<forall>fd. fk_holder K t = Some fd \<longrightarrow> (\<exists>p. file_of (w p) = Some fd))"

lemma lock_wf_excludes: "lock_wf K w t \<Longrightarrow> holding (w p) \<Longrightarrow> holding (w q) \<Longrightarrow> p = q"
  by (cases "w p"; cases "w q") (auto simp: lock_wf_def, metis file_of.simps(2) holding.simps(1) option.inject)

lemma lock_wf_free: "lock_wf K w t \<Longrightarrow> fk_holder K t = None \<longleftrightarrow> (\<forall>p. \<not> holding (w p))"
  unfolding lock_wf_def
  by (metis file_of.simps(2) holding.elims(2) not_None_eq)

lemma flock_lawsD:
  assumes "flock_laws K"
  shows "open_lock_file K t = (fd, t') \<Longrightarrow>
      fd \<notin> fk_live K t \<and> fk_live K t' = insert fd (fk_live K t) \<and> fk_holder K t' = fk_holder K t"
    "fk_try K fd t = (b, t') \<Longrightarrow> b = (fk_holder K t = None \<or> fk_holder K t = Some fd) \<and> fk_live K t' = fk_live K t
      \<and> fk_holder K t' = (if b then Some fd else fk_holder K t)"
    "fk_live K (fk_close K fd t) = fk_live K t - {fd}
      \<and> fk_holder K (fk_close K fd t) = (if fk_holder K t = Some fd then None else fk_holder K t)"
proof -
  note l = assms [unfolded flock_laws_def]
  show "open_lock_file K t = (fd, t') \<Longrightarrow>
      fd \<notin> fk_live K t \<and> fk_live K t' = insert fd (fk_live K t) \<and> fk_holder K t' = fk_holder K t"
    unfolding open_lock_file_def by (rule l [THEN conjunct1, rule_format])
  show "fk_try K fd t = (b, t') \<Longrightarrow> b = (fk_holder K t = None \<or> fk_holder K t = Some fd) \<and> fk_live K t' = fk_live K t
      \<and> fk_holder K t' = (if b then Some fd else fk_holder K t)"
    by (rule l [THEN conjunct2, THEN conjunct1, rule_format])
  show "fk_live K (fk_close K fd t) = fk_live K t - {fd}
      \<and> fk_holder K (fk_close K fd t) = (if fk_holder K t = Some fd then None else fk_holder K t)"
    by (rule l [THEN conjunct2, THEN conjunct2, rule_format])
qed

lemma lock_for_write_Some:
  assumes "flock_laws K" and "lock_for_write K fd t = Some (g, t')"
  shows "g = WriteGuard fd" "fk_holder K t = None \<or> fk_holder K t = Some fd" "fk_live K t' = fk_live K t" "fk_holder K t' = Some fd"
proof -
  obtain b u where y: "fk_try K fd t = (b, u)" by fastforce
  then have "b" "g = WriteGuard fd" "t' = u" using assms(2) by (simp_all add: lock_for_write_def split: if_splits)
  then show "g = WriteGuard fd" "fk_holder K t = None \<or> fk_holder K t = Some fd" "fk_live K t' = fk_live K t" "fk_holder K t' = Some fd"
    using flock_lawsD(2) [OF assms(1) y] by simp_all
qed

lemma try_lock_cases:
  assumes "flock_laws K" and "\<forall>fd. fk_holder K t = Some fd \<longrightarrow> fd \<in> fk_live K t" and "try_lock_for_write K t = (r, t')"
  shows "(\<exists>fd. r = Some (WriteGuard fd) \<and> fk_holder K t = None \<and> fd \<notin> fk_live K t \<and> fk_live K t' = insert fd (fk_live K t)
      \<and> fk_holder K t' = Some fd)
    \<or> (r = None \<and> fk_holder K t \<noteq> None \<and> fk_live K t' = fk_live K t \<and> fk_holder K t' = fk_holder K t)"
proof -
  obtain fd t1 where o: "open_lock_file K t = (fd, t1)" by fastforce
  obtain b t2 where y: "fk_try K fd t1 = (b, t2)" by fastforce
  have l1: "fd \<notin> fk_live K t" "fk_live K t1 = insert fd (fk_live K t)" "fk_holder K t1 = fk_holder K t"
    using flock_lawsD(1) [OF assms(1) o] by simp_all
  have ne: "fk_holder K t \<noteq> Some fd" using assms(2) l1(1) by blast
  have l2: "b = (fk_holder K t = None)" "fk_live K t2 = insert fd (fk_live K t)" "fk_holder K t2 = (if b then Some fd else fk_holder K t)"
    using flock_lawsD(2) [OF assms(1) y] l1 ne by simp_all
  have l3: "fk_live K (fk_close K fd t2) = fk_live K t2 - {fd}" "fk_holder K t2 \<noteq> Some fd \<Longrightarrow> fk_holder K (fk_close K fd t2) = fk_holder K t2"
    using flock_lawsD(3) [OF assms(1)] by simp_all
  show ?thesis
  proof (cases b)
    case True
    then show ?thesis using assms(3) o y l1 l2 by (auto simp: try_lock_for_write_def)
  next
    case False
    then have "fk_holder K t2 \<noteq> Some fd" using l1(1) l2(3) assms(2) by auto
    then show ?thesis using False assms(3) o y l1(1) l2 l3 by (auto simp: try_lock_for_write_def)
  qed
qed

lemma lock_wf_live: "lock_wf K w t \<Longrightarrow> \<forall>fd. fk_holder K t = Some fd \<longrightarrow> fd \<in> fk_live K t"
  by (auto simp: lock_wf_def)

text \<open>The three ways a writer's file changes: it is opened, it gets the lock, it is closed.\<close>

lemma lock_wf_gains:
  assumes "lock_wf K w t" and "file_of (w p) = None" and "file_of x = Some fd" and "fd \<notin> fk_live K t"
    and "fk_live K t' = insert fd (fk_live K t)"
    and "holding x \<and> fk_holder K t = None \<and> fk_holder K t' = Some fd \<or> \<not> holding x \<and> fk_holder K t' = fk_holder K t"
  shows "lock_wf K (w(p := x)) t'"
  using assms lock_wf_live [OF assms(1)] unfolding lock_wf_def by (auto split: if_splits; metis option.distinct(1) option.inject)

lemma lock_wf_enters:
  assumes "lock_wf K w t" and "file_of (w p) = Some fd" and "file_of x = Some fd" and "holding x"
    and "fk_holder K t = None \<or> fk_holder K t = Some fd" and "fk_live K t' = fk_live K t" and "fk_holder K t' = Some fd"
  shows "lock_wf K (w(p := x)) t'"
  using assms unfolding lock_wf_def by (auto split: if_splits; metis option.distinct(1) option.inject)

lemma lock_wf_same:
  "lock_wf K w t \<Longrightarrow> file_of x = file_of (w p) \<Longrightarrow> holding x = holding (w p) \<Longrightarrow> lock_wf K (w(p := x)) t"
  unfolding lock_wf_def by (auto split: if_splits; metis)

lemma lock_wf_closes:
  assumes "flock_laws K" and "lock_wf K w t" and "file_of (w p) = Some fd" and "file_of x = None"
  shows "lock_wf K (w(p := x)) (fk_close K fd t)"
proof -
  have "fk_live K (fk_close K fd t) = fk_live K t - {fd}"
      "fk_holder K (fk_close K fd t) = (if fk_holder K t = Some fd then None else fk_holder K t)"
    using flock_lawsD(3) [OF assms(1)] by simp_all
  with assms(2-4) show ?thesis unfolding lock_wf_def by (auto split: if_splits; metis option.distinct(1) option.inject)
qed

lemma lock_step_wf:
  assumes "flock_laws K" and "lock_step K l0 (w, t, s) (w', t', s')" and "lock_wf K w t"
  shows "lock_wf K w' t'"
  using assms(2)
proof cases
  case (call p as fd)
  from \<open>open_lock_file K t = (fd, t')\<close> have "fd \<notin> fk_live K t \<and> fk_live K t' = insert fd (fk_live K t) \<and> fk_holder K t' = fk_holder K t"
    by (rule flock_lawsD(1) [OF assms(1)])
  with call show ?thesis by (auto intro: lock_wf_gains [OF assms(3)])
next
  case (enter p fd as g)
  note lock_for_write_Some [OF assms(1) \<open>lock_for_write K fd t = Some (g, t')\<close>]
  with enter show ?thesis by (auto intro: lock_wf_enters [OF assms(3)])
next
  case (probe p as g)
  note try_lock_cases [OF assms(1) lock_wf_live [OF assms(3)] \<open>try_lock_for_write K t = (Some g, t')\<close>]
  with probe show ?thesis by (auto intro: lock_wf_gains [OF assms(3)])
next
  case (busy p as)
  note try_lock_cases [OF assms(1) lock_wf_live [OF assms(3)] \<open>try_lock_for_write K t = (None, t')\<close>]
  with busy assms(3) show ?thesis by (simp add: lock_wf_def)
next
  case (work p g l a as l')
  then have "lock_wf K (w(p := Holds g l' as)) t"
    using assms(3) by (intro lock_wf_same) auto
  with work show ?thesis by simp
next
  case (leave p g l)
  then show ?thesis by (auto simp: drop_guard_def intro: lock_wf_closes [OF assms(1,3)])
next
  case (die p g l as)
  then show ?thesis by (auto simp: drop_guard_def intro: lock_wf_closes [OF assms(1,3)])
next
  case (give_up p fd as)
  then show ?thesis by (auto intro: lock_wf_closes [OF assms(1,3)])
qed

section \<open>Writers run in turn\<close>

fun waiting_with :: "('l, 's) access list \<Rightarrow> ('l, 's) writer \<Rightarrow> bool" where
  "waiting_with as (Ready as') = (as' = as)"
| "waiting_with as (Waits fd as') = (as' = as)"
| "waiting_with as w = True"

text \<open>\<open>ps\<close> are the writers that have been inside, in the order in which they got the lock, and \<open>e\<close> is how far
  they came: all the way unless they died.\<close>

definition ended :: "(nat \<Rightarrow> ('l, 's) access list) \<Rightarrow> (nat \<Rightarrow> ('l, 's) writer) \<Rightarrow> nat list \<Rightarrow> (nat \<Rightarrow> ('l, 's) access list) \<Rightarrow> bool" where
  "ended sec w ps e \<longleftrightarrow> distinct ps \<and> (\<forall>p. w p = Finished \<longrightarrow> p \<in> set ps \<and> e p = sec p)
     \<and> (\<forall>p \<in> set ps. prefix (e p) (sec p) \<and> (w p = Finished \<or> w p = Dead))"

definition so_far ::
  "'l \<Rightarrow> (nat \<Rightarrow> ('l, 's) access list) \<Rightarrow> 's \<Rightarrow> (nat \<Rightarrow> ('l, 's) writer) \<Rightarrow> 's \<Rightarrow> nat list \<Rightarrow> (nat \<Rightarrow> ('l, 's) access list) \<Rightarrow> bool" where
  "so_far l0 sec s0 w s ps e \<longleftrightarrow>
     (\<forall>p. \<not> holding (w p)) \<and> s = run_in_turn l0 e ps s0
     \<or> (\<exists>p g l as dn. w p = Holds g l as \<and> sec p = dn @ as \<and> run_accesses dn (l0, run_in_turn l0 e ps s0) = (l, s))"

definition in_turn ::
  "'l \<Rightarrow> (nat \<Rightarrow> ('l, 's) access list) \<Rightarrow> 's \<Rightarrow> (nat \<Rightarrow> ('l, 's) writer) \<Rightarrow> 's \<Rightarrow> bool" where
  "in_turn l0 sec s0 w s \<longleftrightarrow>
     (\<forall>p. waiting_with (sec p) (w p)) \<and> (\<exists>ps e. ended sec w ps e \<and> so_far l0 sec s0 w s ps e)"

lemma so_farE:
  assumes "so_far l0 sec s0 w s ps e"
  obtains "\<forall>p. \<not> holding (w p)" "s = run_in_turn l0 e ps s0"
  | p g l as dn where "w p = Holds g l as" "sec p = dn @ as" "run_accesses dn (l0, run_in_turn l0 e ps s0) = (l, s)"
  using assms unfolding so_far_def by blast

lemma so_far_inside:
  "w p = Holds g l as \<Longrightarrow> sec p = dn @ as \<Longrightarrow> run_accesses dn (l0, run_in_turn l0 e ps s0) = (l, s) \<Longrightarrow>
   so_far l0 sec s0 w s ps e"
  unfolding so_far_def by (metis (no_types))

lemma ended_moves:
  "ended sec w ps e \<Longrightarrow> w p \<noteq> Finished \<Longrightarrow> w p \<noteq> Dead \<Longrightarrow> x \<noteq> Finished \<Longrightarrow> ended sec (w(p := x)) ps e"
  by (auto simp: ended_def)

lemma ended_leaves:
  assumes "ended sec w ps e" and "w p = Holds g l as" and "sec p = dn @ as" and "x = Finished \<and> as = [] \<or> x = Dead"
  shows "ended sec (w(p := x)) (ps @ [p]) (e(p := dn))" "run_in_turn l0 (e(p := dn)) ps s0 = run_in_turn l0 e ps s0"
proof -
  have "p \<notin> set ps" using assms(1,2) by (auto simp: ended_def)
  then show "ended sec (w(p := x)) (ps @ [p]) (e(p := dn))" "run_in_turn l0 (e(p := dn)) ps s0 = run_in_turn l0 e ps s0"
    using assms by (auto simp: ended_def intro: run_in_turn_cong)
qed

text \<open>A step of a writer that neither was inside nor comes inside.\<close>

lemma in_turn_outside:
  assumes "in_turn l0 sec s0 w s" and "w p \<noteq> Finished" "w p \<noteq> Dead" "\<not> holding (w p)"
    and "x \<noteq> Finished" "\<not> holding x" "waiting_with (sec p) x"
  shows "in_turn l0 sec s0 (w(p := x)) s"
proof -
  obtain ps e where e: "\<forall>p. waiting_with (sec p) (w p)" "ended sec w ps e" "so_far l0 sec s0 w s ps e"
    using assms(1) by (auto simp: in_turn_def)
  have "ended sec (w(p := x)) ps e" by (rule ended_moves [OF e(2) assms(2,3,5)])
  moreover have "so_far l0 sec s0 (w(p := x)) s ps e"
    using e(3)
  proof (cases rule: so_farE)
    case 1
    then show ?thesis using assms(6) by (simp add: so_far_def)
  next
    case (2 q g l as dn)
    with assms(4) have "q \<noteq> p" by auto
    with 2 show ?thesis by (intro so_far_inside [where p = q]) simp_all
  qed
  ultimately show ?thesis using e(1) assms(7) by (auto simp: in_turn_def)
qed

lemma in_turn_enters:
  assumes "in_turn l0 sec s0 w s" and "\<forall>q. \<not> holding (w q)" and "w p = Ready as \<or> w p = Waits fd as"
  shows "in_turn l0 sec s0 (w(p := Holds g l0 as)) s"
proof -
  obtain ps e where e: "\<forall>p. waiting_with (sec p) (w p)" "ended sec w ps e" "so_far l0 sec s0 w s ps e"
    using assms(1) by (auto simp: in_turn_def)
  have s: "s = run_in_turn l0 e ps s0" using e(3) assms(2) by (cases rule: so_farE) (auto, metis holding.simps(1))
  have "waiting_with (sec p) (w p)" using e(1) by simp
  then have as: "sec p = as" using assms(3) by auto
  have "ended sec (w(p := Holds g l0 as)) ps e" by (rule ended_moves [OF e(2)]) (use assms(3) in auto)
  moreover have "so_far l0 sec s0 (w(p := Holds g l0 as)) s ps e"
    by (rule so_far_inside [where p = p and dn = "[]"]) (simp_all add: as s)
  ultimately show ?thesis using e(1) by (auto simp: in_turn_def)
qed

lemma in_turn_inside:
  assumes "in_turn l0 sec s0 w s" and "w p = Holds g l as" and "\<forall>q. holding (w q) \<longrightarrow> q = p"
  obtains ps e dn where "ended sec w ps e" "sec p = dn @ as" "run_accesses dn (l0, run_in_turn l0 e ps s0) = (l, s)"
proof -
  obtain ps e where e: "ended sec w ps e" "so_far l0 sec s0 w s ps e"
    using assms(1) by (auto simp: in_turn_def)
  from e(2) show thesis
  proof (cases rule: so_farE)
    case 1
    with assms(2) show thesis by (metis holding.simps(1))
  next
    case (2 q g' l' as' dn)
    then have "q = p" using assms(3) by (metis holding.simps(1))
    with 2 assms(2) that e(1) show thesis by simp
  qed
qed

lemma in_turn_works:
  assumes "in_turn l0 sec s0 w s" and "w p = Holds g l (a # as)" and "\<forall>q. holding (w q) \<longrightarrow> q = p" and "a (l, s) = (l', s')"
  shows "in_turn l0 sec s0 (w(p := Holds g l' as)) s'"
proof -
  obtain ps e dn where e: "ended sec w ps e" "sec p = dn @ a # as" "run_accesses dn (l0, run_in_turn l0 e ps s0) = (l, s)"
    by (rule in_turn_inside [OF assms(1-3)])
  have "ended sec (w(p := Holds g l' as)) ps e" by (rule ended_moves [OF e(1)]) (use assms(2) in auto)
  moreover have "so_far l0 sec s0 (w(p := Holds g l' as)) s' ps e"
    by (rule so_far_inside [where p = p and dn = "dn @ [a]"]) (simp_all add: e assms(4))
  ultimately show ?thesis using assms(1) by (auto simp: in_turn_def)
qed

lemma in_turn_leaves:
  assumes "in_turn l0 sec s0 w s" and "w p = Holds g l as" and "\<forall>q. holding (w q) \<longrightarrow> q = p"
    and "x = Finished \<and> as = [] \<or> x = Dead"
  shows "in_turn l0 sec s0 (w(p := x)) s"
proof -
  obtain ps e dn where e: "ended sec w ps e" "sec p = dn @ as" "run_accesses dn (l0, run_in_turn l0 e ps s0) = (l, s)"
    by (rule in_turn_inside [OF assms(1-3)])
  note el = ended_leaves [OF e(1) assms(2) e(2) assms(4)]
  have "s = run_in_turn l0 (e(p := dn)) (ps @ [p]) s0"
    by (simp add: run_in_turn_snoc el(2) run_alone_def e(3))
  moreover have "\<forall>q. \<not> holding ((w(p := x)) q)" using assms(3,4) by auto
  ultimately have "so_far l0 sec s0 (w(p := x)) s (ps @ [p]) (e(p := dn))" by (simp add: so_far_def)
  moreover have "waiting_with (sec p) x" using assms(4) by auto
  ultimately show ?thesis using assms(1) el(1) by (auto simp: in_turn_def)
qed

lemma lock_step_in_turn:
  assumes "flock_laws K" and "lock_step K l0 (w, t, s) (w', t', s')" and "lock_wf K w t" and "in_turn l0 sec s0 w s"
  shows "in_turn l0 sec s0 w' s'"
proof -
  have only: "\<forall>q. holding (w q) \<longrightarrow> q = p" if "w p = Holds g l as" for p g l as
    using lock_wf_excludes [OF assms(3), of _ p] that by simp
  have free: "\<forall>q. \<not> holding (w q)" if "fk_holder K t = None" using that lock_wf_free [OF assms(3)] by simp
  have wait: "waiting_with (sec p) (w p)" for p using assms(4) by (simp add: in_turn_def)
  show ?thesis
    using assms(2)
  proof cases
    case (call p as fd)
    then show ?thesis using in_turn_outside [OF assms(4), of p "Waits fd as"] wait [of p] by simp
  next
    case (enter p fd as g)
    note l = lock_for_write_Some [OF assms(1) \<open>lock_for_write K fd t = Some (g, t')\<close>]
    have "file_of (w p) = Some fd" "\<not> holding (w p)" using enter by simp_all
    then have "fk_holder K t = None" using l(2) assms(3) unfolding lock_wf_def by blast
    then show ?thesis using enter in_turn_enters [OF assms(4) free, of p as fd g] by simp
  next
    case (probe p as g)
    have "fk_holder K t = None"
      using try_lock_cases [OF assms(1) lock_wf_live [OF assms(3)] \<open>try_lock_for_write K t = (Some g, t')\<close>] by auto
    then show ?thesis using probe in_turn_enters [OF assms(4) free, of p as undefined g] by simp
  next
    case (busy p as)
    then show ?thesis using assms(4) by simp
  next
    case (work p g l a as l')
    then show ?thesis using in_turn_works [OF assms(4) _ only] by blast
  next
    case (leave p g l)
    then show ?thesis using in_turn_leaves [OF assms(4) _ only, where x = Finished] by simp
  next
    case (die p g l as)
    then show ?thesis using in_turn_leaves [OF assms(4) _ only, where x = Dead] by simp
  next
    case (give_up p fd as)
    then show ?thesis using in_turn_outside [OF assms(4), of p Dead] by simp
  qed
qed

section \<open>Runs\<close>

lemma lock_runs:
  assumes "flock_laws K" and "(lock_step K l0)\<^sup>*\<^sup>* (\<lambda>p. Ready (sec p), t0, s0) (w, t, s)" and "fk_holder K t0 = None"
  shows "lock_wf K w t \<and> in_turn l0 sec s0 w s"
  using assms(2)
proof (induction "(w, t, s)" arbitrary: w t s rule: rtranclp_induct)
  case base
  have "ended sec (\<lambda>p. Ready (sec p)) [] e" for e by (simp add: ended_def)
  moreover have "so_far l0 sec s0 (\<lambda>p. Ready (sec p)) s0 [] e" for e by (simp add: so_far_def run_in_turn_def)
  ultimately show ?case using assms(3) by (auto simp: lock_wf_def in_turn_def)
next
  case (step y)
  obtain w' t' s' where y: "y = (w', t', s')" by (cases y)
  have "lock_wf K w' t' \<and> in_turn l0 sec s0 w' s'" by (rule step.hyps(3) [OF y])
  then show ?case
    using lock_step_wf [OF assms(1) step.hyps(2) [unfolded y]] lock_step_in_turn [OF assms(1) step.hyps(2) [unfolded y]] by simp
qed

text \<open>When nobody is inside, the state is what the writers make of it one after the other.\<close>

lemma serialised:
  assumes "flock_laws K" and "(lock_step K l0)\<^sup>*\<^sup>* (\<lambda>p. Ready (sec p), t0, s0) (w, t, s)" and "fk_holder K t0 = None"
    and "\<forall>p. \<not> holding (w p)"
  obtains ps e where "ended sec w ps e" "s = run_in_turn l0 e ps s0"
proof -
  have "in_turn l0 sec s0 w s" using lock_runs [OF assms(1-3)] by simp
  then obtain ps e where e: "ended sec w ps e" "so_far l0 sec s0 w s ps e" by (auto simp: in_turn_def)
  from e(2) have "s = run_in_turn l0 e ps s0" by (cases rule: so_farE) (use assms(4) in \<open>auto, metis holding.simps(1)\<close>)
  with e(1) show thesis by (rule that)
qed

text \<open>The lock is there for the taking when nobody is inside, and then a ready writer gets through.\<close>

lemma works_through:
  "w p = Holds g l as \<Longrightarrow> (lock_step K l0)\<^sup>*\<^sup>* (w, t, s)
     (w(p := Holds g (fst (run_accesses as (l, s))) []), t, snd (run_accesses as (l, s)))"
proof (induction as arbitrary: w l s)
  case Nil
  then have "w(p := Holds g l []) = w" by auto
  then show ?case by simp
next
  case (Cons a as)
  obtain l' s' where a: "a (l, s) = (l', s')" by fastforce
  have "lock_step K l0 (w, t, s) (w(p := Holds g l' as), t, s')" by (rule work [where w = w and p = p, OF Cons.prems a])
  from converse_rtranclp_into_rtranclp [OF this Cons.IH [of "w(p := Holds g l' as)" l' s', OF fun_upd_same]]
  show ?case by (simp add: a del: fun_upd_apply)
qed

lemma gets_through:
  assumes "flock_laws K" and "fk_holder K t = None" and "w p = Ready as"
  obtains t' where "(lock_step K l0)\<^sup>*\<^sup>* (w, t, s) (w(p := Finished), t', run_alone l0 as s)" "fk_holder K t' = None"
proof -
  obtain fd t1 where o: "open_lock_file K t = (fd, t1)" by fastforce
  obtain b t2 where y: "fk_try K fd t1 = (b, t2)" by fastforce
  have t1: "fk_holder K t1 = None" using flock_lawsD(1) [OF assms(1) o] assms(2) by simp
  then have t2: b "fk_holder K t2 = Some fd" using flock_lawsD(2) [OF assms(1) y] by simp_all
  define x where "x = run_accesses as (l0, s)"
  have "lock_step K l0 (w, t, s) (w(p := Waits fd as), t1, s)" by (rule call [where w = w and p = p, OF assms(3) o])
  moreover have "lock_step K l0 (w(p := Waits fd as), t1, s) (w(p := Holds (WriteGuard fd) l0 as), t2, s)"
    using enter [where w = "w(p := Waits fd as)" and p = p] y t2(1) by (force simp: lock_for_write_def)
  moreover have "(lock_step K l0)\<^sup>*\<^sup>* (w(p := Holds (WriteGuard fd) l0 as), t2, s)
      (w(p := Holds (WriteGuard fd) (fst x) []), t2, snd x)"
    using works_through [of "w(p := Holds (WriteGuard fd) l0 as)" p "WriteGuard fd" l0 as K l0 t2 s] by (simp add: x_def)
  moreover have "lock_step K l0 (w(p := Holds (WriteGuard fd) (fst x) []), t2, snd x)
      (w(p := Finished), fk_close K fd t2, snd x)"
    using leave [where w = "w(p := Holds (WriteGuard fd) (fst x) [])" and p = p] by (force simp: drop_guard_def)
  ultimately have "(lock_step K l0)\<^sup>*\<^sup>* (w, t, s) (w(p := Finished), fk_close K fd t2, run_alone l0 as s)"
    unfolding run_alone_def x_def [symmetric] by (meson converse_rtranclp_into_rtranclp rtranclp.rtrancl_into_rtrancl)
  moreover have "fk_holder K (fk_close K fd t2) = None" using flock_lawsD(3) [OF assms(1), of fd t2] t2(2) by simp
  ultimately show thesis by (rule that)
qed

end
