(* ===== verification/Lock_Theorems.thy ===== *)
theory Lock_Theorems
  imports Locks Demo_Repo Snap
begin

text \<open>
  The properties of the write lock: locked writers run as if in turn, and the operations they
  append are numbered without gaps or repetitions.
\<close>

section \<open>A lock\<close>

definition demo_flock :: "(nat \<times> nat set \<times> nat option) flock" where
  "demo_flock =
     \<lparr>fk_open = (\<lambda>(n, fds, h). (n, Suc n, insert n {x \<in> fds. x < n}, h)),
      fk_try = (\<lambda>fd (n, fds, h). if h = None \<or> h = Some fd then (True, n, fds, Some fd) else (False, n, fds, h)),
      fk_close = (\<lambda>fd (n, fds, h). (n, fds - {fd}, if h = Some fd then None else h)),
      fk_holder = (\<lambda>(n, fds, h). h), fk_live = (\<lambda>(n, fds, h). {x \<in> fds. x < n})\<rparr>"

lemma demo_flock_laws: "flock_laws demo_flock"
  by (auto simp: flock_laws_def demo_flock_def split: if_splits)

lemma demo_flock_free: "fk_holder demo_flock (0, {}, None) = None"
  by (simp add: demo_flock_def)

section \<open>Writers\<close>

text \<open>C14. The write lock makes a critical section of what is done under its guard: however the accesses of
  any number of writers interleave, whether they block for the lock or try for it, and wherever
  they die, once nobody is inside the shared state is what the writers that were inside make of
  it one after the other, each from its beginning. A writer that finished was inside exactly once
  and did all of its work; one that died did an initial part.\<close>

theorem locked_writers_serialise:
  assumes "flock_laws K" and "fk_holder K t0 = None"
    and "(lock_step K l0)\<^sup>*\<^sup>* (\<lambda>p. Ready (sec p), t0, s0) (w, t, s)" and "\<forall>p. \<not> holding (w p)"
  shows "\<exists>ps e. distinct ps \<and> s = run_in_turn l0 e ps s0
    \<and> (\<forall>p. w p = Finished \<longrightarrow> p \<in> set ps \<and> e p = sec p)
    \<and> (\<forall>p \<in> set ps. prefix (e p) (sec p) \<and> (w p = Finished \<or> w p = Dead))"
  by (rule serialised [OF assms(1,3,2,4)]) (auto simp: ended_def)

text \<open>Two writers that each read a number and write back the next one.\<close>

definition demo_increment :: "(nat, nat) access list" where
  "demo_increment = [\<lambda>(l, s). (s, s), \<lambda>(l, s). (l, Suc l)]"

lemma two_writers:
  assumes "flock_laws K" and "fk_holder K t0 = None"
  obtains t where "(lock_step K l0)\<^sup>*\<^sup>* (\<lambda>p. Ready (sec p), t0, s0)
    ((\<lambda>p. Ready (sec p))(0 := Finished, 1 := Finished), t, run_alone l0 (sec 1) (run_alone l0 (sec 0) s0))"
proof -
  let ?w = "\<lambda>p. Ready (sec p)"
  obtain t1 where a: "(lock_step K l0)\<^sup>*\<^sup>* (?w, t0, s0) (?w(0 := Finished), t1, run_alone l0 (sec 0) s0)" "fk_holder K t1 = None"
    by (rule gets_through [OF assms, of ?w 0]) simp_all
  obtain t2 where "(lock_step K l0)\<^sup>*\<^sup>* (?w(0 := Finished), t1, run_alone l0 (sec 0) s0)
      (?w(0 := Finished, 1 := Finished), t2, run_alone l0 (sec 1) (run_alone l0 (sec 0) s0))"
    by (rule gets_through [OF assms(1) a(2), of "?w(0 := Finished)" 1]) simp_all
  with a(1) show thesis by (intro that) (rule rtranclp_trans)
qed

theorem locked_writers_serialise_witness:
  "\<exists>ps e. distinct ps \<and> 2 = run_in_turn 0 e ps 0 \<and> {0, 1} \<subseteq> set ps \<and> e 0 = demo_increment \<and> e 1 = demo_increment"
proof -
  let ?w = "(\<lambda>p. Ready demo_increment)(0 := Finished, 1 := Finished)"
  obtain t where run: "(lock_step demo_flock 0)\<^sup>*\<^sup>* (\<lambda>p. Ready demo_increment, (0, {}, None), 0) (?w, t, 2)"
    using two_writers [OF demo_flock_laws demo_flock_free, of 0 "\<lambda>_. demo_increment" 0]
    by (auto simp: run_alone_def demo_increment_def numeral_2_eq_2)
  have free: "\<forall>p. \<not> holding (?w p)" by simp
  from locked_writers_serialise [OF demo_flock_laws demo_flock_free run free]
  obtain ps e where "distinct ps" "2 = run_in_turn 0 e ps 0" "\<forall>p. ?w p = Finished \<longrightarrow> p \<in> set ps \<and> e p = demo_increment"
    by (elim exE conjE) (rule that)
  moreover have "?w 0 = Finished" "?w 1 = Finished" by simp_all
  ultimately show ?thesis by blast
qed

section \<open>Appends\<close>

text \<open>
  What a writer does under the lock. It opens the log, which reads the next number into a handle of
  its own; a log that cannot be read ends its work. It does other things that leave the log file
  alone. It encodes its operation, and it writes the record: \<^verbatim>\<open>append\<close> calls \<^verbatim>\<open>write_all\<close> twice, for the
  length and for the payload, and each may reach the file in pieces, so the record is written in
  chunks of any sizes \<open>ks\<close> and a rest (\<open>ks = [4]\<close> are the two calls). Its local state is the handle,
  and what of the record is still to be written. A writer whose write fails half way leaves what
  one leaves that dies there.
\<close>

type_synonym writing = "(op_log \<times> bytes) option"

definition open_access :: "'x ext_scheme \<Rightarrow> (writing, 'r session_scheme) access" where
  "open_access X = (\<lambda>(h, s). case log_open X s of
     (Inl e, t) \<Rightarrow> (None, t)
   | (Inr _, t) \<Rightarrow> (Some (slog t, []), t\<lparr>slog := slog s\<rparr>))"

fun other_access :: "('r session_scheme \<Rightarrow> 'r session_scheme) \<Rightarrow> (writing, 'r session_scheme) access" where
  "other_access f (None, s) = (None, s)"
| "other_access f (Some l, s) = (Some l, f s)"

fun encode_access :: "'x ext_scheme \<Rightarrow> u64 \<Rightarrow> op_in_progress \<Rightarrow> (writing, 'r session_scheme) access" where
  "encode_access X now q (None, s) = (None, s)"
| "encode_access X now q (Some (l, pending), s) =
     (case cbor_write X (op_value (finalize (next_id_of l) now q)) of
        None \<Rightarrow> (None, s)
      | Some b \<Rightarrow> if length b \<ge> 2 ^ 32 then (None, s) else (Some (l, frame_record b), s))"

fun write_access :: "nat \<Rightarrow> (writing, 'r session_scheme) access" where
  "write_access k (None, s) = (None, s)"
| "write_access k (Some (l, pending), s) =
     (Some (l, drop k pending), s\<lparr>rlog := Some (log_bytes s @ take k pending)\<rparr>)"

fun rest_access :: "(writing, 'r session_scheme) access" where
  "rest_access (None, s) = (None, s)"
| "rest_access (Some (l, pending), s) = (Some (l, []), s\<lparr>rlog := Some (log_bytes s @ pending)\<rparr>)"

definition appending ::
  "'x ext_scheme \<Rightarrow> ('r session_scheme \<Rightarrow> 'r session_scheme) list \<Rightarrow> u64 \<Rightarrow> op_in_progress \<Rightarrow> nat list \<Rightarrow>
     (writing, 'r session_scheme) access list" where
  "appending X fs now q ks =
     (open_access X # map other_access fs) @ encode_access X now q # map write_access ks @ [rest_access]"

text \<open>The chunks put together are the append of the log.\<close>

lemma chunks_written:
  "run_accesses (map write_access ks @ [rest_access]) (Some (l, pending), s)
     = (Some (l, []), s\<lparr>rlog := Some (log_bytes s @ pending)\<rparr>)"
proof (induction ks arbitrary: pending s)
  case (Cons k ks)
  then show ?case by (simp add: log_bytes_def)
qed (simp add: log_bytes_def)

lemma appending_appends:
  assumes "log_append X now q (s\<lparr>slog := FileLog n\<rparr>) = (Inr o', t)"
  shows "snd (run_accesses (encode_access X now q # map write_access ks @ [rest_access]) (Some (FileLog n, []), s))
    = t\<lparr>slog := slog s\<rparr>"
  using assms
  by (auto simp: log_append_def Let_def log_bytes_def chunks_written simp del: run_accesses_simps(2) split: option.splits if_splits)

section \<open>Whole and torn logs\<close>

text \<open>A log file: the records of \<open>ops\<close>, numbered from zero, and after them an initial piece of a record that
  was not finished; usually that is empty.\<close>

definition piece_of_record :: "'x ext_scheme \<Rightarrow> bytes \<Rightarrow> bool" where
  "piece_of_record X r \<longleftrightarrow>
     (\<exists>p b. cbor_write X (op_value p) = Some b \<and> length b < 2 ^ 32 \<and> strict_prefix r (frame_record b))"

definition torn_log :: "'x ext_scheme \<Rightarrow> 'r repo_scheme \<Rightarrow> op list \<Rightarrow> bytes \<Rightarrow> bool" where
  "torn_log X s ops torn \<longleftrightarrow>
     (\<exists>whole. log_bytes s = whole @ torn \<and> read_ops X 0 whole = Inr ops)
     \<and> numbered ops (of_nat (length ops)) \<and> (torn = [] \<or> piece_of_record X torn)"

definition too_large :: "'x ext_scheme \<Rightarrow> u64 \<Rightarrow> op_in_progress \<Rightarrow> bool" where
  "too_large X now q \<longleftrightarrow> (\<exists>n b. cbor_write X (op_value (finalize n now q)) = Some b \<and> 2 ^ 32 \<le> length b)"

lemma torn_log_same: "log_bytes t = log_bytes s \<Longrightarrow> torn_log X t ops torn = torn_log X s ops torn"
  by (simp add: torn_log_def)

lemma read_all_bytes: "read_all X s = read_ops X 0 (log_bytes s)"
  by (simp add: read_all_def log_bytes_def split: option.split)

lemma whole_log: "torn_log X s ops [] \<longleftrightarrow> read_all X s = Inr ops \<and> numbered ops (of_nat (length ops))"
  by (auto simp: torn_log_def read_all_bytes)

lemma torn_log_corrupt:
  assumes "cbor_laws X" and "torn_log X s ops torn" and "torn \<noteq> []"
  obtains e where "read_all X s = Inl (SCorrupt e)"
proof -
  obtain whole p b where w: "log_bytes s = whole @ torn" "read_ops X 0 whole = Inr ops"
      "cbor_write X (op_value p) = Some b" "length b < 2 ^ 32" "strict_prefix torn (frame_record b)"
    using assms(2,3) by (auto simp: torn_log_def piece_of_record_def)
  have "torn = take (length torn) (frame_record b)" "length torn < length (frame_record b)" "0 < length torn"
    using w(5) assms(3) by (auto simp: strict_prefix_def prefix_def)
  with read_ops_torn [OF assms(1) w(3,4) _ _ w(2), of "length torn"] w(1) that show thesis
    by (metis read_all_bytes)
qed

section \<open>One writer\<close>

lemma open_whole:
  assumes "torn_log X s ops []"
  obtains u where "open_access X (h, s) = (Some (FileLog (of_nat (length ops)), []), u)" "log_bytes u = log_bytes s"
proof -
  let ?s = "case rlog s of None \<Rightarrow> s\<lparr>rlog := Some []\<rparr> | Some _ \<Rightarrow> s"
  have r: "read_all X ?s = Inr ops" "numbered ops (of_nat (length ops))"
    using assms by (auto simp: whole_log read_all_def split: option.splits)
  then have "open_access X (h, s) = (Some (FileLog (of_nat (length ops)), []), ?s\<lparr>slog := slog s\<rparr>)"
    using compute_next_id_numbered [OF r] by (simp add: open_access_def log_open_def Let_def)
  then show thesis by (rule that) (simp add: log_bytes_def split: option.split)
qed

lemma open_torn:
  assumes "cbor_laws X" and "torn_log X s ops torn" and "torn \<noteq> []"
  shows "open_access X (h, s) = (None, s)"
proof -
  obtain e where "read_all X s = Inl (SCorrupt e)" by (rule torn_log_corrupt [OF assms])
  moreover obtain l where "rlog s = Some l"
    using assms(2,3) by (auto simp: torn_log_def log_bytes_def split: option.splits)
  ultimately show ?thesis by (simp add: open_access_def log_open_def compute_next_id_def Let_def)
qed

text \<open>After a failed open nothing happens.\<close>

definition idle :: "(writing, 's) access \<Rightarrow> bool" where
  "idle a \<longleftrightarrow> (\<forall>s. a (None, s) = (None, s))"

lemma idle_accesses: "idle (other_access f)" "idle (encode_access X now q)" "idle (write_access k)" "idle rest_access"
  by (simp_all add: idle_def)

lemma run_idle: "\<forall>a \<in> set as. idle a \<Longrightarrow> run_accesses as (None, s) = (None, s)"
  by (induction as) (simp_all add: idle_def)

lemma appending_idle: "\<forall>a \<in> set (tl (appending X fs now q ks)). idle a"
  by (auto simp: appending_def idle_accesses)

lemma writer_torn:
  assumes "cbor_laws X" and "torn_log X s ops torn" and "torn \<noteq> []" and "prefix as (appending X fs now q ks)"
  shows "run_alone None as s = s"
proof (cases as)
  case (Cons a bs)
  then have a: "a = open_access X" "\<forall>b \<in> set bs. idle b"
    using assms(4) appending_idle [of X fs now q ks] set_mono_prefix [of bs "tl (appending X fs now q ks)"]
    by (auto simp: appending_def)
  show ?thesis using run_idle [OF a(2)] open_torn [OF assms(1-3)] by (simp add: run_alone_def Cons a(1))
qed (simp add: run_alone_def)

text \<open>Other work leaves the log file alone.\<close>

lemma other_accesses:
  assumes "\<forall>f \<in> set fs. \<forall>s. rlog (f s) = rlog s"
  obtains u where "run_accesses (map other_access fs) (Some l, s) = (Some l, u)" "log_bytes u = log_bytes s"
  using assms
proof (induction fs arbitrary: s thesis)
  case (Cons f fs)
  obtain u where "run_accesses (map other_access fs) (Some l, f s) = (Some l, u)" "log_bytes u = log_bytes (f s)"
    using Cons.IH [of "f s"] Cons.prems(2) by auto
  with Cons.prems show ?case by (simp add: log_bytes_def)
qed simp

lemma before_record:
  assumes "\<forall>f \<in> set fs. \<forall>s. rlog (f s) = rlog s" and "prefix as (open_access X # map other_access fs)" and "torn_log X s ops []"
  shows "log_bytes (run_alone None as s) = log_bytes s"
proof (cases as)
  case (Cons a bs)
  then have a: "a = open_access X" and "prefix bs (map other_access fs)" using assms(2) by simp_all
  then obtain k where bs: "bs = map other_access (take k fs)" by (metis append_eq_conv_conj prefix_def take_map)
  obtain u where u: "open_access X (None, s) = (Some (FileLog (of_nat (length ops)), []), u)" "log_bytes u = log_bytes s"
    by (rule open_whole [OF assms(3)])
  have "\<forall>f \<in> set (take k fs). \<forall>s. rlog (f s) = rlog s" using assms(1) by (auto dest: in_set_takeD)
  then obtain v where "run_accesses (map other_access (take k fs)) (Some (FileLog (of_nat (length ops)), []), u)
      = (Some (FileLog (of_nat (length ops)), []), v)" "log_bytes v = log_bytes u"
    by (rule other_accesses)
  then show ?thesis using u by (simp add: run_alone_def Cons a bs)
qed (simp add: run_alone_def)

text \<open>While the record is written, the file has grown by what is no longer pending.\<close>

lemma some_chunks:
  assumes "prefix as (map write_access ks @ [rest_access])"
  shows "\<exists>wr. prefix wr pending \<and> log_bytes (snd (run_accesses as (Some (l, pending), s))) = log_bytes s @ wr"
  using assms
proof (induction ks arbitrary: as pending s)
  case Nil
  then have "as = [] \<or> as = [rest_access]" by (auto simp: prefix_Cons)
  then show ?case by (auto simp: log_bytes_def)
next
  case (Cons k ks)
  show ?case
  proof (cases as)
    case Nil
    then show ?thesis by simp
  next
    case (Cons a bs)
    then have a: "a = write_access k" "prefix bs (map write_access ks @ [rest_access])" using Cons.prems by simp_all
    let ?s = "s\<lparr>rlog := Some (log_bytes s @ take k pending)\<rparr>"
    obtain d where d: "prefix d (drop k pending)"
        "log_bytes (snd (run_accesses bs (Some (l, drop k pending), ?s))) = log_bytes ?s @ d"
      using Cons.IH [OF a(2), of "drop k pending" ?s] by blast
    have "prefix (take k pending @ d) (take k pending @ drop k pending)" using d(1) by (simp only: same_prefix_prefix)
    with d(2) show ?thesis
      by (intro exI [of _ "take k pending @ d"]) (simp add: Cons a(1) log_bytes_def)
  qed
qed

lemma frame_record_not_Nil [simp]: "frame_record b \<noteq> []"
  by (simp add: frame_record_def)

lemma record_appended:
  assumes "cbor_laws X" and "torn_log X s ops []" and "length ops + 1 < 2 ^ 63"
    and "cbor_write X (op_value (finalize (of_nat (length ops)) now q)) = Some b" and "length b < 2 ^ 32"
    and "log_bytes t = log_bytes s @ wr" and "prefix wr (frame_record b)"
  shows "wr = frame_record b \<and> torn_log X t (ops @ [finalize (of_nat (length ops)) now q]) []
    \<or> wr \<noteq> frame_record b \<and> torn_log X t ops wr"
proof (cases "wr = frame_record b")
  case True
  have "read_ops X 0 (log_bytes s) = Inr ops" "numbered ops (of_nat (length ops))"
    using assms(2) by (simp_all add: whole_log read_all_bytes)
  then have "read_all X t = Inr (ops @ [finalize (of_nat (length ops)) now q])"
      "numbered (ops @ [finalize (of_nat (length ops)) now q]) (of_nat (length ops) + 1)"
    using read_ops_append [OF assms(1,4,5)] numbered_append [of ops "of_nat (length ops)"] assms(3,6) True
    by (simp_all add: read_all_bytes finalize_def)
  then show ?thesis using True by (simp add: whole_log add.commute)
next
  case False
  then have "piece_of_record X wr" using assms(4,5,7) by (auto simp: piece_of_record_def strict_prefix_def)
  with False assms(2,6) show ?thesis by (auto simp: torn_log_def)
qed

text \<open>A writer that finds a whole log and comes as far as \<open>as\<close>: it appends its record, or a piece of it, or
  nothing; if it does all of its work, it appends the record or the record is too large.\<close>

lemma prefix_around:
  "prefix as (xs @ y # ys) \<Longrightarrow> prefix as xs \<or> (\<exists>zs. as = xs @ y # zs \<and> prefix zs ys)"
  by (auto simp: prefix_append prefix_Cons)

lemma writer_whole:
  assumes "cbor_laws X" and "\<forall>f \<in> set fs. \<forall>s. rlog (f s) = rlog s" and "torn_log X s ops []" and "length ops + 1 < 2 ^ 63"
    and "prefix as (appending X fs now q ks)"
  defines "o' \<equiv> finalize (of_nat (length ops)) now q" and "t \<equiv> run_alone None as s"
  shows "torn_log X t (ops @ [o']) [] \<or> (\<exists>torn. torn_log X t ops torn \<and>
    (as = appending X fs now q ks \<longrightarrow> torn = [] \<and> too_large X now q))"
proof -
  let ?pre = "open_access X # map other_access fs" and ?ch = "map write_access ks @ [rest_access]"
  have whole: "appending X fs now q ks = ?pre @ encode_access X now q # ?ch" by (simp add: appending_def)
  from prefix_around [OF assms(5) [unfolded whole]] show ?thesis
  proof (elim disjE exE conjE)
    assume p: "prefix as ?pre"
    have "log_bytes t = log_bytes s" unfolding t_def by (rule before_record [OF assms(2) p assms(3)])
    moreover have "as \<noteq> appending X fs now q ks" using prefix_length_le [OF p] by (auto simp: whole)
    ultimately show ?thesis using assms(3) torn_log_same [of t s] by blast
  next
    fix zs assume zs: "as = ?pre @ encode_access X now q # zs" "prefix zs ?ch"
    let ?h = "FileLog (of_nat (length ops))"
    obtain u where u: "open_access X (None, s) = (Some (?h, []), u)" "log_bytes u = log_bytes s"
      by (rule open_whole [OF assms(3)])
    obtain v where v: "run_accesses (map other_access fs) (Some (?h, []), u) = (Some (?h, []), v)" "log_bytes v = log_bytes u"
      by (rule other_accesses [OF assms(2)])
    obtain b where b: "cbor_write X (op_value o') = Some b" using cbor_write_read [OF assms(1) op_value_fits] by blast
    have t: "t = snd (run_accesses zs (encode_access X now q (Some (?h, []), v)))"
      using u(1) v(1) by (simp add: t_def run_alone_def zs(1) run_accesses_def)
    show ?thesis
    proof (cases "2 ^ 32 \<le> length b")
      case True
      have "\<forall>a \<in> set ?ch. idle a" by (auto simp: idle_accesses)
      then have "\<forall>a \<in> set zs. idle a" using set_mono_prefix [OF zs(2)] by blast
      then have "t = v" using t b True run_idle [of zs v] by (simp add: o'_def)
      moreover have "too_large X now q" using b True by (auto simp: too_large_def o'_def)
      ultimately show ?thesis using assms(3) torn_log_same [of v s] u(2) v(2) by auto
    next
      case False
      then have enc: "encode_access X now q (Some (?h, []), v) = (Some (?h, frame_record b), v)" using b by (simp add: o'_def)
      obtain wr where wr: "prefix wr (frame_record b)" "log_bytes t = log_bytes s @ wr"
        using some_chunks [OF zs(2), of "frame_record b" ?h v] u(2) v(2) by (auto simp: t enc simp del: encode_access.simps)
      have full: "wr = frame_record b" if "as = appending X fs now q ks"
      proof -
        have "zs = ?ch" using that zs(1) whole by simp
        then have "snd (run_accesses zs (Some (?h, frame_record b), v)) = v\<lparr>rlog := Some (log_bytes v @ frame_record b)\<rparr>"
          by (simp only: chunks_written snd_conv)
        then have "log_bytes t = log_bytes s @ frame_record b" using u(2) v(2) by (simp only: t enc) (simp add: log_bytes_def)
        with wr(2) show ?thesis by simp
      qed
      from record_appended [OF assms(1,3,4) b [unfolded o'_def] _ wr(2,1)] False full show ?thesis by (auto simp: o'_def)
    qed
  qed
qed

section \<open>Writers in turn\<close>

definition came_before :: "'a list \<Rightarrow> 'a \<Rightarrow> 'a \<Rightarrow> bool" where
  "came_before ps d p \<longleftrightarrow> (\<exists>as bs. ps = as @ p # bs \<and> d \<in> set as)"

lemma came_before_snoc: "d \<in> set ps \<Longrightarrow> came_before (ps @ [p]) d p" "came_before ps d p \<Longrightarrow> came_before (ps @ [r]) d p"
  unfolding came_before_def by blast (metis append_Cons append_assoc)

definition appenders ::
  "'x ext_scheme \<Rightarrow> nat \<Rightarrow> (nat \<Rightarrow> ('r session_scheme \<Rightarrow> 'r session_scheme) list) \<Rightarrow> (nat \<Rightarrow> u64) \<Rightarrow>
     (nat \<Rightarrow> op_in_progress) \<Rightarrow> (nat \<Rightarrow> nat list) \<Rightarrow> nat \<Rightarrow> (writing, 'r session_scheme) access list" where
  "appenders X n fs now q ks p = (if p < n then appending X (fs p) (now p) (q p) (ks p) else [])"

text \<open>What the writers \<open>ps\<close> in turn leave of the log: new operations, and perhaps a torn end.\<close>

definition logged :: "(nat \<Rightarrow> op_in_progress) \<Rightarrow> op list \<Rightarrow> nat \<Rightarrow> bool" where
  "logged q os p \<longleftrightarrow> (\<exists>o' \<in> set os. op_kind_of o' = oip_kind (q p) \<and> op_before o' = oip_before (q p))"

lemma logged_append: "logged q (os @ [finalize n t (q p)]) p" "logged q os r \<Longrightarrow> logged q (os @ os') r"
  by (auto simp: logged_def finalize_def)

definition left_log ::
  "'x ext_scheme \<Rightarrow> nat \<Rightarrow> (nat \<Rightarrow> 'a list) \<Rightarrow> (nat \<Rightarrow> 'a list) \<Rightarrow> (nat \<Rightarrow> u64) \<Rightarrow> (nat \<Rightarrow> op_in_progress) \<Rightarrow> op list \<Rightarrow>
     nat list \<Rightarrow> 'r repo_scheme \<Rightarrow> op list \<Rightarrow> bytes \<Rightarrow> bool" where
  "left_log X n sec e now q ops ps s os torn \<longleftrightarrow>
     torn_log X s (ops @ os) torn \<and> length os \<le> card (set ps \<inter> {..< n})
     \<and> (torn \<noteq> [] \<longrightarrow> (\<exists>d \<in> set ps. e d \<noteq> sec d))
     \<and> (\<forall>p \<in> set ps. p < n \<longrightarrow> e p = sec p \<longrightarrow> too_large X (now p) (q p) \<or> logged q os p
          \<or> torn \<noteq> [] \<and> (\<exists>d. e d \<noteq> sec d \<and> came_before ps d p))"

lemma more_writers: "card (set ps \<inter> {..< n}) \<le> card (set (ps @ [p]) \<inter> {..< n})"
  by (rule card_mono) auto

lemma left_log_same:
  assumes "left_log X n sec e now q ops ps s os torn" and "p < n \<Longrightarrow> torn \<noteq> []"
  shows "left_log X n sec e now q ops (ps @ [p]) s os torn"
proof -
  have old: "torn_log X s (ops @ os) torn" "length os \<le> card (set ps \<inter> {..< n})" "torn \<noteq> [] \<Longrightarrow> \<exists>d \<in> set ps. e d \<noteq> sec d"
      "\<And>r. r \<in> set ps \<Longrightarrow> r < n \<Longrightarrow> e r = sec r \<Longrightarrow> too_large X (now r) (q r) \<or> logged q os r
         \<or> torn \<noteq> [] \<and> (\<exists>d. e d \<noteq> sec d \<and> came_before ps d r)"
    using assms(1) by (auto simp: left_log_def)
  have "torn \<noteq> [] \<and> (\<exists>d. e d \<noteq> sec d \<and> came_before (ps @ [p]) d p)" if "p < n"
    using assms(2) [OF that] old(3) came_before_snoc(1) [of _ ps p] by blast
  moreover have "too_large X (now r) (q r) \<or> logged q os r \<or> torn \<noteq> [] \<and> (\<exists>d. e d \<noteq> sec d \<and> came_before (ps @ [p]) d r)"
    if "r \<in> set ps" "r < n" "e r = sec r" for r
    using old(4) [OF that] came_before_snoc(2) [of ps _ r p] by blast
  moreover have "torn \<noteq> [] \<longrightarrow> (\<exists>d \<in> set (ps @ [p]). e d \<noteq> sec d)" using old(3) by auto
  ultimately show ?thesis using old(1) le_trans [OF old(2) more_writers] by (auto simp: left_log_def)
qed

lemma left_log_next:
  assumes "cbor_laws X" and "\<forall>f \<in> set (fs p). \<forall>s. rlog (f s) = rlog s" and "length ops + n < 2 ^ 63"
    and "left_log X n (appenders X n fs now q ks) e now q ops ps s os []" and "p < n" and "p \<notin> set ps"
    and "prefix (e p) (appenders X n fs now q ks p)"
  shows "\<exists>os' torn. left_log X n (appenders X n fs now q ks) e now q ops (ps @ [p]) (run_alone None (e p) s) os' torn"
proof -
  let ?sec = "appenders X n fs now q ks" and ?o = "finalize (of_nat (length (ops @ os))) (now p) (q p)"
  have old: "torn_log X s (ops @ os) []" "length os \<le> card (set ps \<inter> {..< n})"
      "\<And>r. r \<in> set ps \<Longrightarrow> r < n \<Longrightarrow> e r = ?sec r \<Longrightarrow> too_large X (now r) (q r) \<or> logged q os r"
    using assms(4) by (auto simp: left_log_def)
  have card: "card (set (ps @ [p]) \<inter> {..< n}) = Suc (card (set ps \<inter> {..< n}))" using assms(5,6) by simp
  have "card (set (ps @ [p]) \<inter> {..< n}) \<le> n" using card_mono [of "{..< n}" "set (ps @ [p]) \<inter> {..< n}"] by simp
  then have len: "length (ops @ os) + 1 < 2 ^ 63" using old(2) card assms(3) by simp
  have sec: "?sec p = appending X (fs p) (now p) (q p) (ks p)" using assms(5) by (simp add: appenders_def)
  from writer_whole [OF assms(1,2) old(1) len assms(7) [unfolded sec]] show ?thesis
  proof (elim disjE exE conjE)
    assume o: "torn_log X (run_alone None (e p) s) ((ops @ os) @ [?o]) []"
    have "too_large X (now r) (q r) \<or> logged q (os @ [?o]) r" if "r \<in> set (ps @ [p])" "r < n" "e r = ?sec r" for r
      using old(3) [of r] that logged_append [of q os] by auto
    then have "left_log X n ?sec e now q ops (ps @ [p]) (run_alone None (e p) s) (os @ [?o]) []"
      using o old(2) card by (simp add: left_log_def)
    then show ?thesis by blast
  next
    fix torn assume torn: "torn_log X (run_alone None (e p) s) (ops @ os) torn"
      "e p = appending X (fs p) (now p) (q p) (ks p) \<longrightarrow> torn = [] \<and> too_large X (now p) (q p)"
    have "too_large X (now r) (q r) \<or> logged q os r" if "r \<in> set (ps @ [p])" "r < n" "e r = ?sec r" for r
      using old(3) [of r] that torn(2) sec by auto
    moreover have "torn \<noteq> [] \<longrightarrow> (\<exists>d \<in> set (ps @ [p]). e d \<noteq> ?sec d)" using torn(2) sec by auto
    ultimately have "left_log X n ?sec e now q ops (ps @ [p]) (run_alone None (e p) s) os torn"
      using torn(1) le_trans [OF old(2) more_writers] unfolding left_log_def by blast
    then show ?thesis by blast
  qed
qed

lemma appended_in_turn:
  fixes s0 :: "'r session_scheme"
  assumes "cbor_laws X" and "torn_log X s0 ops []" and "length ops + n < 2 ^ 63"
    and "\<forall>p. \<forall>f \<in> set (fs p). \<forall>s. rlog (f s) = rlog s" and "distinct ps" and "\<forall>p \<in> set ps. prefix (e p) (appenders X n fs now q ks p)"
  shows "\<exists>os torn. left_log X n (appenders X n fs now q ks) e now q ops ps (run_in_turn None e ps s0) os torn"
  using assms(5,6)
proof (induction ps rule: rev_induct)
  case Nil
  show ?case using assms(2) by (intro exI [of _ "[]"]) (simp add: run_in_turn_def left_log_def)
next
  case (snoc p ps)
  let ?s = "run_in_turn None e ps s0"
  have "distinct ps" "\<forall>p \<in> set ps. prefix (e p) (appenders X n fs now q ks p)" using snoc.prems by simp_all
  from snoc.IH [OF this] obtain os torn where IH: "left_log X n (appenders X n fs now q ks) e now q ops ps ?s os torn" by blast
  have pre: "prefix (e p) (appenders X n fs now q ks p)" "p \<notin> set ps" using snoc.prems by simp_all
  have keep: "\<forall>f \<in> set (fs p). \<forall>s. rlog (f s) = rlog s" using assms(4) by blast
  show ?case
  proof (cases "p < n \<and> torn = []")
    case True
    with left_log_next [where ps = ps and e = e and now = now, OF assms(1) keep assms(3) _ _ pre(2,1)] IH show ?thesis
      by (simp add: run_in_turn_snoc)
  next
    case False
    have "run_alone None (e p) ?s = ?s"
    proof (cases "p < n")
      case True
      with False pre(1) IH show ?thesis
        by (intro writer_torn [OF assms(1)]) (auto simp: left_log_def appenders_def)
    qed (use pre(1) in \<open>simp add: appenders_def run_alone_def\<close>)
    then show ?thesis using left_log_same [OF IH, of p] False by (auto simp: run_in_turn_snoc)
  qed
qed

text \<open>C15. Operations appended under the write lock are numbered without a gap and without a repetition,
  although every writer opens the log for itself. Let any number of writers open the log, do other
  work that leaves the log file alone, and write their records, in pieces of any sizes, all under
  the lock, interleaved in any way and dying anywhere, also in the middle of a record. Once nobody
  is inside, the shared state is what the writers that were inside make of it in turn, and the log
  file holds the operations it had followed by new ones, numbered from zero in order, and possibly
  a piece of one more record. If there is no such piece the log reads back exactly those
  operations, and the operation of every writer that finished is among the new ones unless its
  record is too large. If there is one, some writer died, reading the log reports corruption, and
  only a writer that came in after one that died can miss its operation.\<close>

theorem locked_appends_numbered:
  fixes s0 s :: "'r session_scheme"
  assumes "flock_laws K" and "fk_holder K t0 = None" and "cbor_laws X"
    and "read_all X s0 = Inr ops" and "numbered ops (of_nat (length ops))" and "length ops + n < 2 ^ 63"
    and "\<forall>p. \<forall>f \<in> set (fs p). \<forall>s. rlog (f s) = rlog s"
    and "(lock_step K None)\<^sup>*\<^sup>* (\<lambda>p. Ready (appenders X n fs now q ks p), t0, s0) (w, t, s)"
    and "\<forall>p. \<not> holding (w p)"
  shows "\<exists>ps e ops' torn. ended (appenders X n fs now q ks) w ps e \<and> s = run_in_turn None e ps s0
    \<and> torn_log X s (ops @ ops') torn
    \<and> (\<forall>i < length (ops @ ops'). op_id_of ((ops @ ops') ! i) = of_nat i) \<and> distinct (map op_id_of (ops @ ops'))
    \<and> (torn = [] \<longrightarrow> read_all X s = Inr (ops @ ops'))
    \<and> (torn \<noteq> [] \<longrightarrow> (\<exists>d. w d = Dead) \<and> (\<exists>e. read_all X s = Inl (SCorrupt e)))
    \<and> (\<forall>p < n. w p = Finished \<longrightarrow> too_large X (now p) (q p)
         \<or> (\<exists>o' \<in> set ops'. op_kind_of o' = oip_kind (q p) \<and> op_before o' = oip_before (q p))
         \<or> torn \<noteq> [] \<and> (\<exists>d. w d = Dead \<and> came_before ps d p))"
proof -
  let ?sec = "appenders X n fs now q ks"
  let ?found = "\<lambda>ops' p. \<exists>o' \<in> set ops'. op_kind_of o' = oip_kind (q p) \<and> op_before o' = oip_before (q p)"
  obtain ps e where ps: "ended ?sec w ps e" "s = run_in_turn None e ps s0"
    by (rule serialised [OF assms(1,8,2,9)])
  have pre: "distinct ps" "\<forall>p \<in> set ps. prefix (e p) (?sec p)" using ps(1) by (simp_all add: ended_def)
  have dead: "w d = Dead" if "d \<in> set ps" "e d \<noteq> ?sec d" for d using ps(1) that by (auto simp: ended_def)
  have fins: "p \<in> set ps" "e p = ?sec p" if "w p = Finished" for p using ps(1) that by (auto simp: ended_def)
  have start: "torn_log X s0 ops []" using assms(4,5) by (simp add: whole_log)
  from appended_in_turn [OF assms(3) start assms(6,7) pre, folded ps(2)] obtain ops' torn where
      left: "left_log X n ?sec e now q ops ps s ops' torn" by blast
  note left = left [unfolded left_log_def logged_def]
  note o' = conjunct1 [OF left] conjunct1 [OF conjunct2 [OF conjunct2 [OF left]]] conjunct2 [OF conjunct2 [OF conjunct2 [OF left]]]
  have num: "numbered (ops @ ops') (of_nat (length (ops @ ops')))" using o'(1) by (simp add: torn_log_def)
  have "came_before ps d p \<Longrightarrow> d \<in> set ps" for d p by (auto simp: came_before_def)
  then have fin: "\<forall>p < n. w p = Finished \<longrightarrow> too_large X (now p) (q p) \<or> ?found ops' p
      \<or> torn \<noteq> [] \<and> (\<exists>d. w d = Dead \<and> came_before ps d p)"
    using o'(3) fins dead by blast
  have "torn = [] \<longrightarrow> read_all X s = Inr (ops @ ops')" using o'(1) by (auto simp: whole_log)
  moreover have "torn \<noteq> [] \<longrightarrow> (\<exists>d. w d = Dead) \<and> (\<exists>e. read_all X s = Inl (SCorrupt e))"
    using o'(2) dead torn_log_corrupt [OF assms(3) o'(1)] by metis
  moreover have "\<forall>i < length (ops @ ops'). op_id_of ((ops @ ops') ! i) = of_nat i" using num by (simp add: numbered_def)
  ultimately show ?thesis using ps o'(1) numbered_distinct [OF num] fin by blast
qed

text \<open>Two writers that append one operation each to an empty log.\<close>

definition demo_undo_of :: "nat \<Rightarrow> op_in_progress" where
  "demo_undo_of p = \<lparr>oip_actor = ''bob'', oip_kind = OkUndo (of_nat p), oip_before = [], oip_after = []\<rparr>"

lemma put_nat_length: "n < 128 ^ Suc k \<Longrightarrow> length (put_nat n) \<le> Suc k"
proof (induction k arbitrary: n)
  case (Suc k)
  have "n div 128 < 128 ^ Suc k" using Suc.prems by (simp add: less_mult_imp_div_less mult.commute)
  from Suc.IH [OF this] show ?case by (subst put_nat.simps) simp
qed (simp add: put_nat.simps)

lemma put_u64_length: "length (put_nat (unat (n :: u64))) \<le> 10"
proof -
  have "unat n < 128 ^ 10" using unsigned_less [of n, where 'a = nat] by simp
  then show ?thesis using put_nat_length [of "unat n" 9] by simp
qed

lemma demo_undo_fits: "\<not> too_large demo 5 (demo_undo_of p)"
proof -
  have "length (put_nat (Suc (Suc (Suc (Suc (Suc (Suc 0))))))) + length (put_bytes (str_bytes ''bob'')) + length (put_nat (Suc 0))
      + length (put_bytes (str_bytes ''Undo'')) + length (put_nat (Suc 0)) + length (put_bytes (str_bytes ''undone_op'')) \<le> 100"
    by code_simp
  then have "length (put_value (op_value (finalize n 5 (demo_undo_of p)))) \<le> 200" for n
    using put_u64_length [of n] put_u64_length [of 5] put_u64_length [of "of_nat p"]
    by (simp add: op_value_def finalize_def demo_undo_of_def variant_def word_value_def text_codes_def put_nat.simps [of 0])
  then have "\<not> 2 ^ 32 \<le> length (put_value (op_value (finalize n 5 (demo_undo_of p))))" for n
    using le_trans [of "2 ^ 32" _ 200] by fastforce
  then show ?thesis by (simp add: too_large_def demo_def demo_write_def)
qed

theorem locked_appends_numbered_witness:
  "\<exists>s ops'. read_all demo (s :: session) = Inr ops' \<and> distinct (map op_id_of ops')
    \<and> (\<exists>o' \<in> set ops'. op_kind_of o' = OkUndo 0) \<and> (\<exists>o' \<in> set ops'. op_kind_of o' = OkUndo 1)"
proof -
  let ?sec = "appenders demo 2 (\<lambda>_. [\<lambda>s. s\<lparr>rhead := Some ''c''\<rparr>]) (\<lambda>_. 5) demo_undo_of (\<lambda>_. [4])"
  let ?w = "(\<lambda>p. Ready (?sec p))(0 := Finished, 1 := Finished) :: nat \<Rightarrow> (writing, session) writer"
  obtain t and s :: session where run: "(lock_step demo_flock None)\<^sup>*\<^sup>* (\<lambda>p. Ready (?sec p), (0, {}, None), demo_repo) (?w, t, s)"
    using two_writers [OF demo_flock_laws demo_flock_free, of None ?sec demo_repo] by blast
  have "read_all demo demo_repo = Inr []" "numbered [] (of_nat (length ([] :: op list)))"
      "length ([] :: op list) + 2 < 2 ^ 63"
      "\<forall>p :: nat. \<forall>f \<in> set [\<lambda>s :: session. s\<lparr>rhead := Some ''c''\<rparr>]. \<forall>s. rlog (f s) = rlog s" "\<forall>p. \<not> holding (?w p)"
    using demo_log_ok by (simp_all add: log_ok_def log_list_def numbered_def demo_repo_def)
  from locked_appends_numbered [OF demo_flock_laws demo_flock_free demo_cbor this(1-4) run this(5), unfolded append_Nil]
  obtain ps ops' and torn :: bytes where o': "distinct (map op_id_of ops')" "torn = [] \<longrightarrow> read_all demo s = Inr ops'"
      "torn \<noteq> [] \<longrightarrow> (\<exists>d. ?w d = Dead) \<and> (\<exists>e. read_all demo s = Inl (SCorrupt e))"
      "\<forall>p < 2. ?w p = Finished \<longrightarrow> too_large demo 5 (demo_undo_of p)
         \<or> (\<exists>o' \<in> set ops'. op_kind_of o' = oip_kind (demo_undo_of p) \<and> op_before o' = oip_before (demo_undo_of p))
         \<or> torn \<noteq> [] \<and> (\<exists>d. ?w d = Dead \<and> came_before ps d p)"
    by (elim exE conjE) (rule that)
  have "?w d \<noteq> Dead" for d by simp
  then have whole: "torn = []" using o'(3) by blast
  have "\<exists>o' \<in> set ops'. op_kind_of o' = oip_kind (demo_undo_of p)" if "p < 2" for p
  proof -
    have "?w p = Finished" using that by (cases "p = 0") auto
    with o'(4) that demo_undo_fits whole show ?thesis by blast
  qed
  from this [of 0] this [of 1] o'(1,2) whole show ?thesis by (auto simp: demo_undo_of_def)
qed

end
