(* ===== verification/Spec2Isabelle.thy ===== *)
theory Spec2Isabelle
  imports Core_Theorems Store_Theorems Worktree_Theorems Query_Theorems Daemon_Theorems Cli_Theorems Lock_Theorems
begin

text \<open>
  Tig is a version-control system written in Rust, as a workspace of crates under \<^verbatim>\<open>src/crates\<close>.
  \<^verbatim>\<open>tig-core\<close> has the object model: content-addressed blobs, trees, snapshots and sealed values in
  canonical CBOR, and the mutable change records with their visibility. \<^verbatim>\<open>tig-store\<close> keeps a
  repository: the object directory, the references (changes, bookmarks, HEAD, workspaces), the
  operation log with undo, and garbage collection. \<^verbatim>\<open>tig-fs\<close> relates working directories to trees
  (scan, render, snapshot, restore), edits stored trees by path and answers diff, search and
  blame. \<^verbatim>\<open>tig-vis\<close> has keys, principals, signed tokens and seals. \<^verbatim>\<open>tigd\<close> serves a repository over
  HTTP with the values of \<^verbatim>\<open>tig-protocol\<close>, and \<^verbatim>\<open>tig-cli\<close> is the \<^verbatim>\<open>tig\<close> command. This development
  models them as HOL functions, proves what makes each component correct, and composes them up to
  the daemon's request loop and the commands.

  \<^bold>\<open>How code becomes definitions.\<close> A struct is a \<^theory_text>\<open>record\<close>, an enum a \<^theory_text>\<open>datatype\<close>, \<^verbatim>\<open>u64\<close> is
  \<open>64 word\<close>, text and paths are \<open>string\<close>s of UTF-8 bytes. \<open>Result\<close> is a sum, \<open>Inl\<close> the error. A
  function that mutates is an effect \<open>'s \<Rightarrow> ('e + 'a) \<times> 's\<close> built from \<open>bindE\<close>, \<open>readE\<close>,
  \<open>mapE\<close> and the like (Prelude): the state is returned on the error path too, since an early
  return rolls nothing back. The state is one extensible record, from the object files
  (\<open>objects_dir\<close>) through references (\<open>ref_dir\<close>), workspaces (\<open>repo\<close>) and the log (\<open>session\<close>) to
  the keys (\<open>daemon\<close>), the disk and the output (\<open>shell\<close>), so an operation of a lower layer applies to every layer above. A file
  that holds JSON is \<open>Json v\<close> or \<open>NotJson\<close>. Clocks, fresh ULIDs and random bytes are arguments.

  \<^bold>\<open>Third-party code\<close> is never given a definition. BLAKE3, hexadecimal text and CBOR are the fields
  of the record \<open>ext\<close> (argument \<open>X\<close>, External); the line diff, the regex engine and lower-casing
  are \<open>tools\<close> (argument \<open>T\<close>, Text_Lines); X25519, HKDF, the AEAD, Ed25519, base64 and the JSON of
  a token are \<open>vault\<close> (argument \<open>V\<close>, Vis_Keys); flock(2) is \<open>flock\<close> (argument \<open>K\<close>, Locks). What the code relies on is stated as laws
  (\<open>hex_laws\<close>, \<open>cbor_laws\<close>, \<open>diff_laws\<close>, \<open>seal_laws\<close>, \<open>token_laws\<close>,
  \<open>flock_laws\<close>) that theorems take as
  hypotheses. Demo, Demo_Repo, Query_Theorems and Demo_Vault give concrete instances of all of
  them, which satisfy the laws, and on which the witnesses are computed. Nothing is assumed of the
  hash but, where two different objects would matter, that the objects written so far do not
  collide (\<open>collision_free\<close>). The laws idealise in one place: encryption succeeds at any length, where the
  AEAD refuses messages of several hundred gigabytes.

  \<^bold>\<open>The theories.\<close>
  \<^item> Prelude, External, Demo: results, effects, strings, files; the packages; an instance.
  \<^item> Core_Hash, Core_Canonical, Core_Codec, Core_Objects, Core_Change: \<^verbatim>\<open>tig-core\<close>. The locale \<open>codec\<close>
    is the contract of an encodable type, interpreted for the four object types.
  \<^item> Object_Store (\<^verbatim>\<open>objects.rs\<close>), Ref_Store (\<^verbatim>\<open>refs.rs\<close>), Workspace_Store (\<^verbatim>\<open>repo.rs\<close>,
    \<^verbatim>\<open>workspace.rs\<close>), Oplog_Codec, Oplog and Undo (\<^verbatim>\<open>oplog.rs\<close>), Gc (\<^verbatim>\<open>gc.rs\<close>): \<^verbatim>\<open>tig-store\<close>. The
    history variable \<open>owritten\<close> of the object directory lists what was ever written; the code has no
    such field. Undo reads the references as one map (\<open>refs_view\<close>).
  \<^item> Locks (\<^verbatim>\<open>repo.rs\<close>): the write lock, and \<open>lock_step\<close>, the inductive relation of any number of writers that
    take the lock, work by atomic accesses with a local state each, give it back or die. In
    Lock_Theorems the accesses are those of opening the log and appending to it, in pieces.
  \<^item> Tree_Edit (\<^verbatim>\<open>tree_edit.rs\<close>), Workdir (\<^verbatim>\<open>scan.rs\<close>), Materialize (\<^verbatim>\<open>materialize.rs\<close>, \<^verbatim>\<open>clone.rs\<close>,
    \<^verbatim>\<open>restore.rs\<close>), Snap (\<^verbatim>\<open>snap.rs\<close>), Stored_Tree, Text_Lines, Diff, Grep, Blame and the theories
    called \<open>_Props\<close>, Live_Contents: \<^verbatim>\<open>tig-fs\<close>.
  \<^item> Vis_Keys (\<^verbatim>\<open>keys.rs\<close>, \<^verbatim>\<open>principal.rs\<close>, \<^verbatim>\<open>tokens.rs\<close>), Vis_Seal (\<^verbatim>\<open>seal.rs\<close>): \<^verbatim>\<open>tig-vis\<close>.
  \<^item> Protocol (\<^verbatim>\<open>tig-protocol\<close>); Daemon (state, errors, callers, visibility gates), Handlers (one
    definition per handler) and Service (the requests and \<open>serve\<close>, which dispatches them, and
    \<open>serve_all\<close> for sequences): \<^verbatim>\<open>tigd\<close>. Outsiders has the locale \<open>blind_spot\<close>: what a handler
    needs of a part of the state to be unable to see or move it; it is interpreted for a hidden
    change and for a change of someone else. Moves relates the handlers to an abstract machine on
    the map of changes.
  \<^item> Shell (the state of a command, its environment \<open>cli_env\<close> and what commands share), Cli_Text
    (printed text), Cli and Cli_Work (one definition per \<^verbatim>\<open>cmd_\<close> function, and \<open>run_cmd\<close>, which
    dispatches them): \<^verbatim>\<open>main.rs\<close> of \<^verbatim>\<open>tig-cli\<close>. Watch (\<^verbatim>\<open>watch.rs\<close>): the loop over given rounds of events.
  \<^item> Frames and Snap have the locales \<open>object_frame\<close>, \<open>history_frame\<close> and \<open>repository_frame\<close>: what a put, a
    restored reference, an append and an unlinked object leave alone, the composed operations leave
    alone. They are interpreted for references and log, for the visible part of a blind spot, for
    the kind of log, and (Shell_Props) for the disk, the keys and the output. Cli_Frames lifts them
    to whole commands (\<open>command_frame\<close>, \<open>any_command_frame\<close>, interpreted for the objects a command
    keeps and for the log it extends) and to \<open>session_of\<close>, an inductive relation between the states
    before and after any interleaving of commands, watches, requests and edits of the disk.
    Shell_Props and Watch_Props have what a successful command, and a round of a watch, establish.
  \<^item> Core_Theorems, Store_Theorems, Worktree_Theorems, Query_Theorems, Daemon_Theorems, Cli_Theorems,
    Lock_Theorems: the properties, each after the text that states it, with its witness. Demo_Shell and Demo_Seal run
    commands on concrete shells for the witnesses of Cli_Theorems.

  \<^bold>\<open>What is proved.\<close> Core: encoding round trips for every object, canonical bytes are unique, trees stay
  sorted maps with valid names. Store: written objects read back and tampered ones never do, the
  log reads back what was appended and reports a torn record, undo restores exactly the recorded
  references and walks back like a stack, collection keeps exactly what the roots reach (along the edges the code follows, which leave out
  the targets of symbolic links); locked
  writers run as if in turn, and their operations are numbered without gap or repetition, although
  a record is written in pieces and a writer may die between them (the log then ends in a torn
  record, which reading reports). Working
  trees: scan and render are inverse on the visible contents, a snapshot moves exactly the current
  change, restore leaves exactly the snapshot, writes and deletes by path touch nothing beside the
  path. Queries: a diff lists exactly the paths that differ by kind or target, a search exactly the
  matching lines, and blame attributes each line to the snapshot that last modified it (Blame_Props;
  for texts without carriage returns). Daemon, through any sequence of requests without undo and
  collection: those who may not see a change get the answers they would get if its record were absent
  (its objects and log entries stay), only its author moves it, and requests refine the abstract
  machine. What PATCH writes GET reads; tokens are necessary when the
  header is there and readable, and sufficient until they expire; seals open for recipients, at their path. Command
  line: no session loses a log record or, without a collection, an object; after a snapshot diff
  and another snapshot find nothing; repeated undos take the operations back one by one and then
  stop; a watch brings the change to the state of the directory; a draft is hidden until it is
  published; the token the command line mints is accepted by the daemon; what \<^verbatim>\<open>tig seal\<close> stored
  \<^verbatim>\<open>tig reveal\<close> prints; the author column of blame is bounded. Some theorems show where the code
  falls short of its intent: log numbers repeat across stale handles, a collection removes the
  blobs of symbolic links, snapshots capture the workspace marker, diffs do not see permission
  bits, undo asks nobody, and collection can be started without a token.

  \<^bold>\<open>Bounds and fuel.\<close> Walks that follow hashes (render, diff, search, blame) take fuel, \<open>tree_fuel\<close>: one
  more than the number of object files. Stored trees and histories are acyclic because a cycle has
  no finite depth, and no finite one is deeper than the number of stored objects, so on them the
  fuel is never used up (\<open>depth_fuel\<close>, \<open>complete_fuel\<close>, \<open>first_parents_fuel\<close>). Marking and reading
  the log terminate outright. Log numbers are 64-bit and compared as signed, so theorems on the log
  ask for fewer than \<open>2^63\<close> operations; a record of \<open>2^32\<close> bytes or more is refused, and the
  theorems say what is left in that case.

  \<^bold>\<open>Not modelled.\<close> I/O failures other than missing files; interleaving inside a command or a request (each that
  takes the write lock is one step; Locks says what the lock makes of the steps inside); reads of the daemon that overlap a write (a read sees one state);
  permission bits beyond the executable bit; following symbolic links while scanning, which is
  always off; axum's routing and extraction, serde's JSON text, the health reply; start-up of the
  daemon and parsing of the command line; the text of errors; the file-system notifications
  themselves and the threads that deliver them.
\<close>

end
